(* ===== verification/Prelude.thy ===== *)
theory Prelude
  imports Main "HOL-Library.Word"
begin

text \<open>
  Shared vocabulary of the development: machine integers at the widths the Rust
  sources use, the result type of the fallible and possibly panicking functions,
  and generic lemmas on lists and maps that several components rely on.
\<close>

section \<open>Machine integers\<close>

type_synonym u32 = "32 word"
type_synonym i64 = "64 word"
type_synonym usize = nat

definition saturating_add :: "u32 \<Rightarrow> u32 \<Rightarrow> u32" where
  "saturating_add a b = (if unat a + unat b < 2 ^ 32 then a + b else 4294967295)"

definition saturating_mul :: "u32 \<Rightarrow> u32 \<Rightarrow> u32" where
  "saturating_mul a b = (if unat a * unat b < 2 ^ 32 then a * b else 4294967295)"

lemma unat_saturating_add: "unat (saturating_add a b) = min (unat a + unat b) (2 ^ 32 - 1)"
  by (auto simp: saturating_add_def unat_word_ariths)

lemma unat_saturating_mul: "unat (saturating_mul a b) = min (unat a * unat b) (2 ^ 32 - 1)"
  by (auto simp: saturating_mul_def unat_word_ariths)

section \<open>Results\<close>

text \<open>
  A Rust \<^verbatim>\<open>Result<T, E>\<close> is \<open>Ok\<close> or \<open>Err\<close>. A failing \<^verbatim>\<open>unwrap\<close>, \<^verbatim>\<open>expect\<close> or
  \<^verbatim>\<open>unreachable!\<close> is \<open>Panic\<close>, and \<open>OutOfFuel\<close> is the answer of a recursive-descent
  function whose recursion budget is used up. The theorems about the public entry
  points show that the last two answers never occur.
\<close>

datatype ('e, 'a) outcome = Ok 'a | Err 'e | Panic | OutOfFuel

text \<open>
  The \<^verbatim>\<open>?\<close> operator. It is an abbreviation for the case distinction, so that a recursive
  call in the continuation is evaluated only once the result it depends on is known.
\<close>

abbreviation and_then :: "('e, 'a) outcome \<Rightarrow> ('a \<Rightarrow> ('e, 'b) outcome) \<Rightarrow> ('e, 'b) outcome" where
  "and_then m f \<equiv> case_outcome f Err Panic OutOfFuel m"

fun returned :: "('e, 'a) outcome \<Rightarrow> bool" where
  "returned (Ok x) = True"
| "returned (Err e) = True"
| "returned Panic = False"
| "returned OutOfFuel = False"



lemma and_then_eq_Ok [simp]:
  "and_then m f = Ok y \<longleftrightarrow> (\<exists>x. m = Ok x \<and> f x = Ok y)"
  by (cases m) auto

lemma returned_and_then [intro]:
  "returned m \<Longrightarrow> (\<And>x. m = Ok x \<Longrightarrow> returned (f x)) \<Longrightarrow> returned (and_then m f)"
  by (cases m) auto

lemma returned_if: "returned a \<Longrightarrow> returned b \<Longrightarrow> returned (if c then a else b)"
  by simp

lemma returned_iff: "returned r \<longleftrightarrow> (\<exists>x. r = Ok x) \<or> (\<exists>e. r = Err e)"
  by (cases r) auto

lemma and_then_assoc:
  "and_then (and_then m f) g = and_then m (\<lambda>x. and_then (f x) g)"
  by (cases m) auto

section \<open>Lists and options\<close>

definition slice_of :: "'a list \<Rightarrow> nat \<Rightarrow> nat \<Rightarrow> 'a list" where
  "slice_of xs a b = take (b - a) (drop a xs)"

definition get :: "'a list \<Rightarrow> nat \<Rightarrow> 'a option" where
  "get xs i = (if i < length xs then Some (xs ! i) else None)"

lemma get_append_length [simp]: "get (xs @ ys) (length xs) = get ys 0"
  by (simp add: get_def nth_append)

lemma get_append_length_add [simp]: "get (xs @ ys) (length xs + n) = get ys n"
  by (simp add: get_def nth_append)

lemma get_Cons_0 [simp]: "get (x # xs) 0 = Some x"
  by (simp add: get_def)

lemma get_Cons_Suc [simp]: "get (x # xs) (Suc n) = get xs n"
  by (simp add: get_def)

lemma get_Nil [simp]: "get [] n = None"
  by (simp add: get_def)

lemma get_None_iff [simp]: "get xs i = None \<longleftrightarrow> length xs \<le> i"
  by (auto simp: get_def)

lemma get_Some_length: "get xs i = Some x \<Longrightarrow> i < length xs"
  by (auto simp: get_def split: if_splits)

lemma get_drop: "get (drop n xs) i = get xs (n + i)"
  by (auto simp: get_def)

lemma slice_of_append: "slice_of (xs @ ys @ zs) (length xs) (length xs + length ys) = ys"
  by (simp add: slice_of_def)

lemma slice_of_append2: "slice_of (xs @ ys) (length xs) (length xs + length ys) = ys"
  by (simp add: slice_of_def)

fun last_opt :: "'a list \<Rightarrow> 'a option" where
  "last_opt [] = None"
| "last_opt [x] = Some x"
| "last_opt (x # y # xs) = last_opt (y # xs)"

lemma last_opt_snoc [simp]: "last_opt (xs @ [x]) = Some x"
  by (induction xs rule: last_opt.induct) auto

lemma last_opt_None [simp]: "last_opt xs = None \<longleftrightarrow> xs = []"
  by (induction xs rule: last_opt.induct) auto

lemma last_opt_conv: "xs \<noteq> [] \<Longrightarrow> last_opt xs = Some (last xs)"
  by (induction xs rule: last_opt.induct) auto

text \<open>
  The facts that a scanner or parser step consumes input are collected in one place,
  as are the unfoldings a component offers to its clients.
\<close>

named_theorems progress
named_theorems ascii_simps
named_theorems ast_simps

section \<open>Readers\<close>

text \<open>
  A reader of the recursive-descent parsers returns what it read and the state it leaves.
  \<open>answers_below weight w r\<close>: the result \<open>r\<close> is an answer, and if it is a success the
  state it leaves weighs less than \<open>w\<close>.
\<close>

fun answers_below :: "('s \<Rightarrow> nat) \<Rightarrow> nat \<Rightarrow> ('e, 'a \<times> 's) outcome \<Rightarrow> bool" where
  "answers_below weight w (Ok (x, s)) = (weight s < w)"
| "answers_below weight w (Err e) = True"
| "answers_below weight w Panic = False"
| "answers_below weight w OutOfFuel = False"

lemma answers_below_mono: "answers_below f v r \<Longrightarrow> v \<le> w \<Longrightarrow> answers_below f w r"
  by (cases "(f, v, r)" rule: answers_below.cases) auto

lemma answers_below_returned: "answers_below f w r \<Longrightarrow> returned r"
  by (cases "(f, w, r)" rule: answers_below.cases) auto

lemma answers_below_bind:
  "answers_below f w m \<Longrightarrow> (\<And>x s. m = Ok (x, s) \<Longrightarrow> f s < w \<Longrightarrow> answers_below f v (g (x, s))) \<Longrightarrow>
   answers_below f v (and_then m g)"
  by (cases "(f, w, m)" rule: answers_below.cases) auto

section \<open>Scanners\<close>

text \<open>
  The contract between a tokeniser and the loop that drives it: every step answers, a
  step that yields a token leaves less to scan, and the loop collects the tokens of the
  steps up to the end of the input. It is shared by the Forth lexer and the lexer of the
  LET language.
\<close>

locale scanner =
  fixes step :: "'s \<Rightarrow> ('e, ('t \<times> 's) option) outcome"
    and drive :: "'s \<Rightarrow> ('e, 't list) outcome"
    and remaining :: "'s \<Rightarrow> nat"
  assumes step_returns: "returned (step s)"
    and step_progress: "step s = Ok (Some (t, s')) \<Longrightarrow> remaining s' < remaining s"
    and drive_unfold:
      "drive s = and_then (step s)
         (\<lambda>r. case r of None \<Rightarrow> Ok []
               | Some (t, s') \<Rightarrow> and_then (drive s') (\<lambda>ts. Ok (t # ts)))"
begin

lemma drive_returns: "returned (drive s)"
proof (induction s rule: measure_induct_rule [of remaining])
  case (less s)
  show ?case
    by (subst drive_unfold, rule returned_and_then)
      (auto intro!: step_returns less.IH dest: step_progress split: option.split)
qed

lemma drive_step:
  "step s = Ok (Some (t, s')) \<Longrightarrow> drive s' = Ok ts \<Longrightarrow> drive s = Ok (t # ts)"
  by (subst drive_unfold) simp

lemma drive_stop: "step s = Ok None \<Longrightarrow> drive s = Ok []"
  by (subst drive_unfold) simp

lemma drive_error: "step s = Err e \<Longrightarrow> drive s = Err e"
  by (subst drive_unfold) simp

lemma drive_induct [consumes 1, case_names stop more]:
  assumes "drive s = Ok ts"
    and stop: "\<And>s. step s = Ok None \<Longrightarrow> P s []"
    and more: "\<And>s t s' ts. step s = Ok (Some (t, s')) \<Longrightarrow> drive s' = Ok ts \<Longrightarrow> P s' ts \<Longrightarrow> P s (t # ts)"
  shows "P s ts"
  using assms(1)
proof (induction s arbitrary: ts rule: measure_induct_rule [of remaining])
  case (less s)
  from less.prems obtain r where r: "step s = Ok r" by (subst (asm) drive_unfold) auto
  show ?case
  proof (cases r)
    case None
    with less.prems r show ?thesis using drive_stop [of s] stop by simp
  next
    case (Some p)
    then obtain t s' where p: "step s = Ok (Some (t, s'))" using r by (cases p) auto
    with less.prems obtain ts' where "drive s' = Ok ts'" "ts = t # ts'"
      by (subst (asm) drive_unfold) auto
    with p less.IH [OF step_progress [OF p]] more show ?thesis by blast
  qed
qed

lemma drive_length: "drive s = Ok ts \<Longrightarrow> length ts \<le> remaining s"
  by (rule drive_induct [where P = "\<lambda>s ts. length ts \<le> remaining s"])
    (auto dest: step_progress)

end

text \<open>
  A scanner whose tokens carry the extent of the text they were read from: in the states
  it reaches, the token begins at or after the cursor, is not empty and ends where the
  cursor is left.
\<close>

locale positioned_scanner = scanner step drive remaining
  for step :: "'s \<Rightarrow> ('e, ('t \<times> 's) option) outcome"
    and drive :: "'s \<Rightarrow> ('e, 't list) outcome"
    and remaining :: "'s \<Rightarrow> nat" +
  fixes good :: "'s \<Rightarrow> bool"
    and cursor :: "'s \<Rightarrow> nat"
    and start_of end_of :: "'t \<Rightarrow> nat"
  assumes good_step: "good s \<Longrightarrow> step s = Ok (Some (t, s')) \<Longrightarrow> good s'"
    and extent_step: "good s \<Longrightarrow> step s = Ok (Some (t, s')) \<Longrightarrow>
        cursor s \<le> start_of t \<and> start_of t < end_of t \<and> end_of t = cursor s'
        \<and> end_of t + remaining s' = cursor s + remaining s"
begin

lemma drive_extents:
  assumes "drive s = Ok ts" "good s"
  shows "sorted_wrt (\<lambda>a b. end_of a \<le> start_of b) ts
    \<and> (\<forall>t \<in> set ts. cursor s \<le> start_of t \<and> start_of t < end_of t \<and> end_of t \<le> cursor s + remaining s)"
  using assms
proof (induction rule: drive_induct)
  case (more s t s' ts)
  note ext = extent_step [OF more.prems more.hyps(1)]
  note IH = more.IH [OF good_step [OF more.prems more.hyps(1)]]
  show ?case using ext IH by fastforce
qed simp

lemma drive_starts_distinct:
  assumes "drive s = Ok ts" "good s"
  shows "distinct (map start_of ts)"
proof -
  have "sorted_wrt (\<lambda>a b. start_of a < start_of b) ts"
  proof (rule sorted_wrt_mono_rel)
    show "sorted_wrt (\<lambda>a b. end_of a \<le> start_of b) ts" using drive_extents [OF assms] by blast
    show "start_of a < start_of b" if "a \<in> set ts" "end_of a \<le> start_of b" for a b
      using drive_extents [OF assms] that by fastforce
  qed
  then have "sorted_wrt (<) (map start_of ts)" by (simp add: sorted_wrt_map)
  then show ?thesis by (simp add: strict_sorted_iff)
qed

end

end
