(* ===== verification/Rust_Text.thy ===== *)
theory Rust_Text
  imports Prelude
begin

text \<open>
  The parts of Rust's \<^verbatim>\<open>str\<close>, \<^verbatim>\<open>u8\<close> and \<^verbatim>\<open>char\<close> that the front end uses. A Rust
  string is a sequence of UTF-8 bytes; HOL's \<open>char\<close> is one byte, so a \<open>string\<close> is
  exactly such a byte sequence and byte offsets are list positions.
\<close>

section \<open>Byte classes\<close>

abbreviation byte :: "char \<Rightarrow> nat" where
  "byte c \<equiv> of_char c"

definition is_ascii :: "char \<Rightarrow> bool" where
  "is_ascii c \<longleftrightarrow> byte c < 128"

definition is_ascii_digit :: "char \<Rightarrow> bool" where
  "is_ascii_digit c \<longleftrightarrow> 48 \<le> byte c \<and> byte c \<le> 57"

definition is_ascii_uppercase :: "char \<Rightarrow> bool" where
  "is_ascii_uppercase c \<longleftrightarrow> 65 \<le> byte c \<and> byte c \<le> 90"

definition is_ascii_lowercase :: "char \<Rightarrow> bool" where
  "is_ascii_lowercase c \<longleftrightarrow> 97 \<le> byte c \<and> byte c \<le> 122"

definition is_ascii_alphabetic :: "char \<Rightarrow> bool" where
  "is_ascii_alphabetic c \<longleftrightarrow> is_ascii_uppercase c \<or> is_ascii_lowercase c"

definition is_ascii_alphanumeric :: "char \<Rightarrow> bool" where
  "is_ascii_alphanumeric c \<longleftrightarrow> is_ascii_alphabetic c \<or> is_ascii_digit c"

definition is_ascii_hexdigit :: "char \<Rightarrow> bool" where
  "is_ascii_hexdigit c \<longleftrightarrow> is_ascii_digit c \<or> (65 \<le> byte c \<and> byte c \<le> 70)
     \<or> (97 \<le> byte c \<and> byte c \<le> 102)"

text \<open>\<^verbatim>\<open>u8::is_ascii_whitespace\<close>: space, tab, line feed, form feed, carriage return.\<close>

definition is_ascii_whitespace :: "char \<Rightarrow> bool" where
  "is_ascii_whitespace c \<longleftrightarrow> byte c \<in> {9, 10, 12, 13, 32}"

text \<open>
  \<^verbatim>\<open>(b as char).is_whitespace()\<close> for a byte \<^verbatim>\<open>b\<close>: the cast reads the byte as a
  Latin-1 code point, of which U+0085 and U+00A0 are white space as well.
\<close>

definition latin1_is_whitespace :: "char \<Rightarrow> bool" where
  "latin1_is_whitespace c \<longleftrightarrow> (9 \<le> byte c \<and> byte c \<le> 13) \<or> byte c \<in> {32, 133, 160}"

section \<open>Case folding\<close>

definition ascii_lower :: "char \<Rightarrow> char" where
  "ascii_lower c = (if is_ascii_uppercase c then char_of (byte c + 32) else c)"

definition to_ascii_lowercase :: "string \<Rightarrow> string" where
  "to_ascii_lowercase s = map ascii_lower s"

definition eq_ignore_ascii_case :: "string \<Rightarrow> string \<Rightarrow> bool" where
  "eq_ignore_ascii_case s t \<longleftrightarrow> to_ascii_lowercase s = to_ascii_lowercase t"

text \<open>Evaluation works on the bits of a character: the letters A to Z are 65 to 90.\<close>

lemma ascii_lower_bits [code]:
  "ascii_lower (Char b0 b1 b2 b3 b4 b5 b6 b7) =
     Char b0 b1 b2 b3 b4
       (b5 \<or> b6 \<and> \<not> b7 \<and> (b0 \<or> b1 \<or> b2 \<or> b3 \<or> b4) \<and> \<not> (b4 \<and> b3 \<and> (b2 \<or> b1 \<and> b0))) b6 b7"
  by (cases b0; cases b1; cases b2; cases b3; cases b4; cases b5; cases b6; cases b7;
      simp add: ascii_lower_def is_ascii_uppercase_def char_of_def bit_iff_odd)

lemma byte_ascii_lower:
  "byte (ascii_lower c) = (if is_ascii_uppercase c then byte c + 32 else byte c)"
  by (auto simp: ascii_lower_def is_ascii_uppercase_def)

lemma ascii_lower_idem [simp]: "ascii_lower (ascii_lower c) = ascii_lower c"
  using byte_ascii_lower [of c]
  by (auto simp: ascii_lower_def is_ascii_uppercase_def)

lemma to_ascii_lowercase_idem [simp]:
  "to_ascii_lowercase (to_ascii_lowercase s) = to_ascii_lowercase s"
  by (simp add: to_ascii_lowercase_def)

lemma to_ascii_lowercase_append [simp]:
  "to_ascii_lowercase (s @ t) = to_ascii_lowercase s @ to_ascii_lowercase t"
  by (simp add: to_ascii_lowercase_def)

lemma length_to_ascii_lowercase [simp]: "length (to_ascii_lowercase s) = length s"
  by (simp add: to_ascii_lowercase_def)

section \<open>Prefixes and suffixes\<close>

fun strip_prefix :: "string \<Rightarrow> string \<Rightarrow> string option" where
  "strip_prefix [] s = Some s"
| "strip_prefix (p # ps) [] = None"
| "strip_prefix (p # ps) (c # cs) = (if p = c then strip_prefix ps cs else None)"

definition starts_with :: "string \<Rightarrow> string \<Rightarrow> bool" where
  "starts_with p s \<longleftrightarrow> strip_prefix p s \<noteq> None"

definition strip_suffix_char :: "char \<Rightarrow> string \<Rightarrow> string option" where
  "strip_suffix_char c s = (if s \<noteq> [] \<and> last s = c then Some (butlast s) else None)"

lemma strip_prefix_Some [simp]: "strip_prefix p s = Some t \<longleftrightarrow> s = p @ t"
  by (induction p s rule: strip_prefix.induct) auto

lemma length_strip_prefix: "strip_prefix p s = Some t \<Longrightarrow> length t + length p = length s"
  by simp

text \<open>\<^verbatim>\<open>str::split_once(':')\<close>: the text before and after the first occurrence.\<close>

fun split_once :: "char \<Rightarrow> string \<Rightarrow> (string \<times> string) option" where
  "split_once d [] = None"
| "split_once d (c # cs) =
     (if c = d then Some ([], cs)
      else map_option (\<lambda>(a, b). (c # a, b)) (split_once d cs))"

definition trim_end_cr :: "string \<Rightarrow> string" where
  "trim_end_cr s = rev (dropWhile (\<lambda>c. byte c = 13) (rev s))"

section \<open>UTF-8\<close>

definition is_cont :: "char \<Rightarrow> bool" where
  "is_cont c \<longleftrightarrow> 128 \<le> byte c \<and> byte c \<le> 191"

text \<open>
  One well-formed UTF-8 sequence at the head of a byte string (no overlong forms, no
  surrogates, nothing above U+10FFFF), and what follows it.
\<close>

fun utf8_step :: "string \<Rightarrow> string option" where
  "utf8_step [] = None"
| "utf8_step (a # s) =
     (let n = byte a in
      if n < 128 then Some s
      else if 194 \<le> n \<and> n \<le> 223 then
        (case s of b # t \<Rightarrow> if is_cont b then Some t else None | _ \<Rightarrow> None)
      else if 224 \<le> n \<and> n \<le> 239 then
        (case s of b # c # t \<Rightarrow>
           if is_cont b \<and> is_cont c \<and> (n = 224 \<longrightarrow> 160 \<le> byte b) \<and> (n = 237 \<longrightarrow> byte b \<le> 159)
           then Some t else None
         | _ \<Rightarrow> None)
      else if 240 \<le> n \<and> n \<le> 244 then
        (case s of b # c # d # t \<Rightarrow>
           if is_cont b \<and> is_cont c \<and> is_cont d \<and> (n = 240 \<longrightarrow> 144 \<le> byte b)
              \<and> (n = 244 \<longrightarrow> byte b \<le> 143)
           then Some t else None
         | _ \<Rightarrow> None)
      else None)"

lemma utf8_step_shorter [progress]: "utf8_step s = Some t \<Longrightarrow> length t < length s"
  by (cases s) (auto simp: Let_def split: if_splits list.splits)

function utf8_valid :: "string \<Rightarrow> bool" where
  "utf8_valid s \<longleftrightarrow>
     (if s = [] then True
      else case utf8_step s of None \<Rightarrow> False | Some t \<Rightarrow> utf8_valid t)"
  by pat_completeness auto
termination
  by (relation "measure length") (auto dest: utf8_step_shorter)

declare utf8_valid.simps [simp del]

definition from_utf8 :: "string \<Rightarrow> string option" where
  "from_utf8 s = (if utf8_valid s then Some s else None)"

text \<open>\<^verbatim>\<open>std::str::from_utf8(..).unwrap_or("")\<close>\<close>

definition utf8_or_empty :: "string \<Rightarrow> string" where
  "utf8_or_empty s = (case from_utf8 s of Some t \<Rightarrow> t | None \<Rightarrow> [])"

lemma utf8_or_empty_valid [simp]: "utf8_valid s \<Longrightarrow> utf8_or_empty s = s"
  by (simp add: utf8_or_empty_def from_utf8_def)

lemma utf8_valid_Nil [simp]: "utf8_valid []"
  by (simp add: utf8_valid.simps)

lemma utf8_valid_ascii_Cons [simp]: "is_ascii c \<Longrightarrow> utf8_valid (c # s) \<longleftrightarrow> utf8_valid s"
  by (subst utf8_valid.simps) (simp add: is_ascii_def)

lemma utf8_valid_ascii: "list_all is_ascii s \<Longrightarrow> utf8_valid s"
  by (induction s) auto

text \<open>Cutting a valid string at an ASCII byte leaves two valid strings.\<close>

lemma utf8_step_append:
  assumes "s \<noteq> []" and "is_ascii c" and "utf8_step (s @ c # r) = Some t"
  obtains s' where "utf8_step s = Some s'" and "t = s' @ c # r"
proof -
  have nc: "\<not> is_cont c" using assms(2) by (simp add: is_ascii_def is_cont_def)
  obtain a u where s: "s = a # u" using assms(1) by (cases s) auto
  consider "u = []" | b where "u = [b]" | b d where "u = [b, d]" | b d e v where "u = b # d # e # v"
    by (metis list.exhaust)
  then have "\<exists>s'. utf8_step s = Some s' \<and> t = s' @ c # r"
    using assms(3) nc by cases (auto simp: s Let_def split: if_splits list.splits)
  then show thesis using that by blast
qed

lemma utf8_valid_split:
  "is_ascii c \<Longrightarrow> utf8_valid (s @ c # r) \<Longrightarrow> utf8_valid s \<and> utf8_valid r"
proof (induction s rule: utf8_valid.induct)
  case (1 s)
  show ?case
  proof (cases "s = []")
    case True
    with "1.prems" show ?thesis by simp
  next
    case False
    obtain t where t: "utf8_step (s @ c # r) = Some t" "utf8_valid t"
      using "1.prems"(2) False by (subst (asm) utf8_valid.simps) (auto split: option.splits)
    obtain s' where s': "utf8_step s = Some s'" "t = s' @ c # r"
      using utf8_step_append [OF False "1.prems"(1) t(1)] by blast
    with "1.IH" False "1.prems" t(2) have "utf8_valid s' \<and> utf8_valid r" by blast
    with s'(1) False show ?thesis by (subst (1) utf8_valid.simps) auto
  qed
qed

section \<open>White space of whole strings\<close>

text \<open>
  \<^verbatim>\<open>str::split_whitespace\<close> and \<^verbatim>\<open>str::trim\<close> use the Unicode property White_Space. In
  UTF-8 its members are one byte (ASCII), two bytes (U+0085, U+00A0) or three bytes
  (U+1680, U+2000-U+200A, U+2028, U+2029, U+202F, U+205F, U+3000). \<open>ws_len\<close> is the
  number of bytes of a white-space character at the head of a byte string, or 0.
\<close>

fun ws_len :: "string \<Rightarrow> nat" where
  "ws_len [] = 0"
| "ws_len (a # s) =
     (if (9 \<le> byte a \<and> byte a \<le> 13) \<or> byte a = 32 then 1
      else case s of
        [] \<Rightarrow> 0
      | b # t \<Rightarrow>
          (if byte a = 194 \<and> byte b \<in> {133, 160} then 2
           else case t of
             [] \<Rightarrow> 0
           | c # u \<Rightarrow>
               (if (byte a, byte b, byte c) \<in> {(225, 154, 128), (226, 129, 159), (227, 128, 128)}
                   \<or> (byte a = 226 \<and> byte b = 128
                      \<and> (128 \<le> byte c \<and> byte c \<le> 138 \<or> byte c \<in> {168, 169, 175}))
                then 3 else 0)))"

lemma ws_len_le: "ws_len s \<le> length s"
  by (cases s) (auto split: list.splits)

function split_ws :: "string \<Rightarrow> string \<Rightarrow> string list" where
  "split_ws acc s =
     (if s = [] then (if acc = [] then [] else [rev acc])
      else if ws_len s \<noteq> 0
        then (if acc = [] then [] else [rev acc]) @ split_ws [] (drop (ws_len s) s)
      else split_ws (hd s # acc) (tl s))"
  by pat_completeness auto
termination
  by (relation "measure (\<lambda>(acc, s). length s)") auto

declare split_ws.simps [simp del]

definition split_whitespace :: "string \<Rightarrow> string list" where
  "split_whitespace s = split_ws [] s"

section \<open>Numbers as text\<close>

definition digit_char :: "nat \<Rightarrow> char" where
  "digit_char d = char_of (48 + d)"

fun display_nat :: "nat \<Rightarrow> string" where
  "display_nat n = (if n < 10 then [digit_char n] else display_nat (n div 10) @ [digit_char (n mod 10)])"

declare display_nat.simps [simp del]

text \<open>\<^verbatim>\<open>format!("{}", v)\<close> for an \<^verbatim>\<open>i64\<close>.\<close>

definition display_i64 :: "i64 \<Rightarrow> string" where
  "display_i64 w = (if sint w < 0 then CHR ''-'' # display_nat (nat (- sint w)) else display_nat (nat (sint w)))"

definition digit_value :: "char \<Rightarrow> nat" where
  "digit_value c = byte c - 48"

definition decimal_value :: "string \<Rightarrow> int" where
  "decimal_value s = foldl (\<lambda>n c. 10 * n + int (digit_value c)) 0 s"

lemma byte_digit_char [simp]: "d < 10 \<Longrightarrow> byte (digit_char d) = 48 + d"
  by (simp add: digit_char_def)

lemma is_ascii_digit_char [simp]: "d < 10 \<Longrightarrow> is_ascii_digit (digit_char d)"
  by (simp add: is_ascii_digit_def)

lemma display_nat_digits: "list_all is_ascii_digit (display_nat n)"
proof (induction n rule: display_nat.induct)
  case (1 n)
  then show ?case by (subst display_nat.simps) auto
qed

lemma display_nat_not_Nil [simp]: "display_nat n \<noteq> []"
  by (subst display_nat.simps) simp

lemma decimal_value_snoc: "decimal_value (s @ [c]) = 10 * decimal_value s + int (digit_value c)"
  by (simp add: decimal_value_def)

lemma decimal_value_display_nat: "decimal_value (display_nat n) = int n"
proof (induction n rule: display_nat.induct)
  case (1 n)
  show ?case
  proof (cases "n < 10")
    case True
    then show ?thesis by (subst display_nat.simps) (simp add: decimal_value_def digit_value_def)
  next
    case False
    with 1 have "decimal_value (display_nat (n div 10)) = int (n div 10)" by simp
    with False have "decimal_value (display_nat n) = 10 * int (n div 10) + int (n mod 10)"
      by (subst display_nat.simps) (simp add: decimal_value_snoc digit_value_def)
    also have "\<dots> = int (10 * (n div 10) + n mod 10)"
      by (simp only: of_nat_add of_nat_mult of_nat_numeral)
    finally show ?thesis by (simp only: mult_div_mod_eq)
  qed
qed

end
