(* ===== verification/Positions.thy ===== *)
theory Positions
  imports Rust_Text
begin

text \<open>
  Source positions, spans and the errors of the lexer (\<^verbatim>\<open>src/compiler/error.rs\<close>), with
  the texts their \<^verbatim>\<open>Display\<close> implementations print.
\<close>

record pos =
  pos_line :: u32
  pos_col :: u32
  byte_offset :: u32

record span =
  span_start :: pos
  span_end :: pos

definition START :: pos where
  "START = \<lparr>pos_line = 1, pos_col = 1, byte_offset = 0\<rparr>"

abbreviation mk_span :: "pos \<Rightarrow> pos \<Rightarrow> span" where
  "mk_span a b \<equiv> \<lparr>span_start = a, span_end = b\<rparr>"

definition point :: "pos \<Rightarrow> span" where
  "point p = mk_span p p"

text \<open>
  \<^verbatim>\<open>Span::len\<close> subtracts two \<^verbatim>\<open>u32\<close> offsets; the subtraction panics when the span is
  reversed (in a build with overflow checks).
\<close>

definition span_len :: "span \<Rightarrow> ('e, usize) outcome" where
  "span_len s =
     (if byte_offset (span_start s) \<le> byte_offset (span_end s)
      then Ok (unat (byte_offset (span_end s) - byte_offset (span_start s))) else Panic)"

definition display_pos :: "pos \<Rightarrow> string" where
  "display_pos p = ''line '' @ display_nat (unat (pos_line p)) @ '', column '' @ display_nat (unat (pos_col p))"

definition display_span :: "span \<Rightarrow> string" where
  "display_span s = display_pos (span_start s)"

datatype compile_error =
    UnterminatedString string span
  | UnterminatedBlockComment span
  | MalformedNumber string span string

definition bq :: string where
  "bq = [CHR 0x60]"

fun display_compile_error :: "compile_error \<Rightarrow> string" where
  "display_compile_error (UnterminatedString kind opened_at) =
     ''unterminated '' @ kind @ '' string opened at '' @ display_span opened_at"
| "display_compile_error (UnterminatedBlockComment opened_at) =
     ''unterminated ( comment opened at '' @ display_span opened_at"
| "display_compile_error (MalformedNumber token at reason) =
     ''malformed number '' @ bq @ token @ bq @ '' at '' @ display_span at @ '': '' @ reason"

lemma span_len_ok:
  "byte_offset (span_start s) \<le> byte_offset (span_end s) \<Longrightarrow>
   span_len s = Ok (unat (byte_offset (span_end s)) - unat (byte_offset (span_start s)))"
  by (simp add: span_len_def unat_sub)

end
