(* ===== verification/Float64.thy ===== *)
theory Float64
  imports Rust_Text
begin

text \<open>
  Rust's \<^verbatim>\<open>f64\<close> as far as the front end computes with it: the value of a decimal
  literal (\<^verbatim>\<open>str::parse::<f64>\<close>, correctly rounded, ties to even) and negation. A finite
  number is a sign, a 53-bit mantissa and a binary exponent; subnormal numbers and
  zeros have the exponent -1074.
\<close>

datatype f64 = NaN | Inf bool | Fin bool int int

fun f64_neg :: "f64 \<Rightarrow> f64" where
  "f64_neg NaN = NaN"
| "f64_neg (Inf s) = Inf (\<not> s)"
| "f64_neg (Fin s m e) = Fin (\<not> s) m e"

section \<open>Rounding a positive rational\<close>

function bit_length :: "int \<Rightarrow> int" where
  "bit_length n = (if n \<le> 0 then 0 else 1 + bit_length (n div 2))"
  by pat_completeness auto
termination
  by (relation "measure nat") auto

declare bit_length.simps [simp del]

definition round_half_even :: "int \<Rightarrow> int \<Rightarrow> int" where
  "round_half_even n d =
     (let q = n div d; r = n mod d
      in if d < 2 * r \<or> (2 * r = d \<and> odd q) then q + 1 else q)"

definition f64_of_ratio :: "bool \<Rightarrow> int \<Rightarrow> int \<Rightarrow> f64" where
  "f64_of_ratio s n d =
     (if n = 0 then Fin s 0 (- 1074)
      else
        let e0 = bit_length n - bit_length d - 53;
            big = n * 2 ^ nat (- e0) \<ge> 2 ^ 53 * (d * 2 ^ nat e0);
            e = max (- 1074) (if big then e0 + 1 else e0);
            q = round_half_even (n * 2 ^ nat (- e)) (d * 2 ^ nat e);
            (m, x) = (if q = 2 ^ 53 then (2 ^ 52, e + 1) else (q, e))
        in if 971 < x then Inf s else Fin s m x)"

section \<open>Decimal literals\<close>

text \<open>
  The grammar of \<^verbatim>\<open>f64::from_str\<close>: an optional sign, then \<^verbatim>\<open>inf\<close>, \<^verbatim>\<open>infinity\<close> or \<^verbatim>\<open>nan\<close> in
  any case, or digits with at most one point and at least one digit, followed by an
  optional exponent with at least one digit; nothing may follow.
\<close>

definition span_digits :: "string \<Rightarrow> string \<times> string" where
  "span_digits s = (takeWhile is_ascii_digit s, dropWhile is_ascii_digit s)"

definition parse_exponent :: "string \<Rightarrow> int option" where
  "parse_exponent s =
     (case s of
        [] \<Rightarrow> Some 0
      | c # t \<Rightarrow>
          if c = CHR ''e'' \<or> c = CHR ''E'' then
            (let (neg, u) = (case t of
                 [] \<Rightarrow> (False, [])
               | x # v \<Rightarrow> if x = CHR ''-'' then (True, v) else if x = CHR ''+'' then (False, v) else (False, t));
                 (ds, rest) = span_digits u
             in if ds = [] \<or> rest \<noteq> [] then None
                else Some (if neg then - decimal_value ds else decimal_value ds))
          else None)"

definition parse_number :: "bool \<Rightarrow> string \<Rightarrow> f64 option" where
  "parse_number neg s =
     (let (ip, s1) = span_digits s;
          (fp, s2) = (case s1 of [] \<Rightarrow> ([], []) | c # t \<Rightarrow> if c = CHR ''.'' then span_digits t else ([], s1))
      in if ip = [] \<and> fp = [] then None
         else case parse_exponent s2 of
           None \<Rightarrow> None
         | Some x \<Rightarrow>
             (let k = x - int (length fp); v = decimal_value (ip @ fp)
              in Some (f64_of_ratio neg (v * 10 ^ nat k) (10 ^ nat (- k)))))"

definition parse_f64 :: "string \<Rightarrow> f64 option" where
  "parse_f64 s =
     (let (neg, t) = (case s of
          [] \<Rightarrow> (False, [])
        | c # u \<Rightarrow> if c = CHR ''-'' then (True, u) else if c = CHR ''+'' then (False, u) else (False, s))
      in case parse_number neg t of
           Some v \<Rightarrow> Some v
         | None \<Rightarrow>
             if to_ascii_lowercase t = ''inf'' \<or> to_ascii_lowercase t = ''infinity'' then Some (Inf neg)
             else if to_ascii_lowercase t = ''nan'' then Some NaN
             else None)"

text \<open>Three is exactly representable, one tenth is rounded up, and one half is a tie-free power of two.\<close>

lemma parse_f64_3: "parse_f64 ''3.0'' = Some (Fin False 6755399441055744 (- 51))"
  by code_simp

lemma parse_f64_tenth: "parse_f64 ''0.1'' = Some (Fin False 7205759403792794 (- 56))"
  by code_simp

lemma parse_f64_neg_half: "parse_f64 ''-5e-1'' = Some (Fin True 4503599627370496 (- 53))"
  by code_simp

lemma parse_f64_bad: "parse_f64 ''1e'' = None"
  by code_simp

end
