(* ===== verification/Lexer.thy ===== *)
theory Lexer
  imports Positions Float64
begin

text \<open>
  The tokeniser (\<^verbatim>\<open>src/compiler/lex.rs\<close>): tokens, the cursor over the source bytes, the
  dispatch of \<^verbatim>\<open>next_token\<close>, the classification of a blank-delimited word as number or
  word, and the driver loop \<^verbatim>\<open>lex\<close>.
\<close>

section \<open>Tokens\<close>

datatype num_base = Decimal | Hex | Binary | DecimalExplicit | Hex0x

datatype string_kind = DotQuote | SQuote | CQuote | SDollarQuote

datatype tok =
    TokWord string
  | TokInt i64 num_base string
  | TokFloat f64 string
  | TokStr string string_kind
  | LineComment string
  | BlockComment string
  | LetBlock string

record token =
  tok_kind :: tok
  tok_span :: span

abbreviation mk_token :: "tok \<Rightarrow> pos \<Rightarrow> pos \<Rightarrow> token" where
  "mk_token k a b \<equiv> \<lparr>tok_kind = k, tok_span = mk_span a b\<rparr>"

section \<open>The cursor\<close>

record lexer =
  lx_src :: string
  lx_i :: usize
  lx_line :: u32
  lx_col :: u32

definition lexer_new :: "string \<Rightarrow> lexer" where
  "lexer_new source = \<lparr>lx_src = source, lx_i = 0, lx_line = 1, lx_col = 1\<rparr>"

definition lexer_pos :: "lexer \<Rightarrow> pos" where
  "lexer_pos lx = \<lparr>pos_line = lx_line lx, pos_col = lx_col lx, byte_offset = of_nat (lx_i lx)\<rparr>"

definition peek :: "lexer \<Rightarrow> char option" where
  "peek lx = get (lx_src lx) (lx_i lx)"

definition bump :: "lexer \<Rightarrow> lexer" where
  "bump lx =
     (case peek lx of
        None \<Rightarrow> lx
      | Some b \<Rightarrow>
          if b = CHR 0x0A
          then lx\<lparr>lx_i := lx_i lx + 1, lx_line := lx_line lx + 1, lx_col := 1\<rparr>
          else lx\<lparr>lx_i := lx_i lx + 1, lx_col := lx_col lx + 1\<rparr>)"

definition peek2 :: "lexer \<Rightarrow> (char \<times> char) option" where
  "peek2 lx =
     (case (get (lx_src lx) (lx_i lx), get (lx_src lx) (lx_i lx + 1)) of
        (Some a, Some b) \<Rightarrow> Some (a, b)
      | _ \<Rightarrow> None)"

definition peek3 :: "lexer \<Rightarrow> (char \<times> char \<times> char) option" where
  "peek3 lx =
     (case (peek2 lx, get (lx_src lx) (lx_i lx + 2)) of
        (Some (a, b), Some c) \<Rightarrow> Some (a, b, c)
      | _ \<Rightarrow> None)"

definition peek4 :: "lexer \<Rightarrow> (char \<times> char \<times> char \<times> char) option" where
  "peek4 lx =
     (case (peek3 lx, get (lx_src lx) (lx_i lx + 3)) of
        (Some (a, b, c), Some d) \<Rightarrow> Some (a, b, c, d)
      | _ \<Rightarrow> None)"

definition is_ws :: "char \<Rightarrow> bool" where
  "is_ws b \<longleftrightarrow> b = CHR '' '' \<or> b = CHR 0x09 \<or> b = CHR 0x0D \<or> b = CHR 0x0A"

definition next_is_ws_or_eof :: "lexer \<Rightarrow> nat \<Rightarrow> bool" where
  "next_is_ws_or_eof lx n = (case get (lx_src lx) (lx_i lx + n) of None \<Rightarrow> True | Some b \<Rightarrow> is_ws b)"

lemma peek_Some_less: "peek lx = Some b \<Longrightarrow> lx_i lx < length (lx_src lx)"
  by (auto simp: peek_def dest: get_Some_length)

lemma lx_src_bump [simp]: "lx_src (bump lx) = lx_src lx"
  by (simp add: bump_def split: option.splits)

lemma lx_i_bump: "peek lx = Some b \<Longrightarrow> lx_i (bump lx) = lx_i lx + 1"
  by (simp add: bump_def)

text \<open>
  The cursor loops of the lexer all have the shape \<^verbatim>\<open>while let Some(b) = self.peek()
  { if !p(b) { break } self.bump(); }\<close>.
\<close>

function bump_while :: "(char \<Rightarrow> bool) \<Rightarrow> lexer \<Rightarrow> lexer" where
  "bump_while p lx =
     (case peek lx of
        None \<Rightarrow> lx
      | Some b \<Rightarrow> if p b then bump_while p (bump lx) else lx)"
  by pat_completeness auto
termination
  by (relation "measure (\<lambda>(p, lx). length (lx_src lx) - lx_i lx)")
    (auto simp: lx_i_bump dest: peek_Some_less)

declare bump_while.simps [simp del]

definition skip_ws :: "lexer \<Rightarrow> lexer" where
  "skip_ws lx = bump_while is_ws lx"

text \<open>The text consumed between two cursor positions.\<close>

definition text_between :: "lexer \<Rightarrow> lexer \<Rightarrow> string" where
  "text_between lx lx' = slice_of (lx_src lx) (lx_i lx) (lx_i lx')"

definition read_to_eol :: "lexer \<Rightarrow> string \<times> lexer" where
  "read_to_eol lx =
     (let lx' = bump_while (\<lambda>b. b \<noteq> CHR 0x0A) lx;
          s = trim_end_cr (utf8_or_empty (text_between lx lx'))
      in (s, if peek lx' = Some (CHR 0x0A) then bump lx' else lx'))"

definition read_paren_comment :: "pos \<Rightarrow> lexer \<Rightarrow> (compile_error, string \<times> lexer) outcome" where
  "read_paren_comment open_pos lx =
     (let lx' = bump_while (\<lambda>b. b \<noteq> CHR '')'') lx in
      case peek lx' of
        None \<Rightarrow> Err (UnterminatedBlockComment (mk_span open_pos (lexer_pos lx')))
      | Some _ \<Rightarrow> Ok (utf8_or_empty (text_between lx lx'), bump lx'))"

fun string_kind_name :: "string_kind \<Rightarrow> string" where
  "string_kind_name DotQuote = ''dot-quote (.'' @ [CHR 0x22] @ '')''"
| "string_kind_name SQuote = ''S-quote (S'' @ [CHR 0x22] @ '')''"
| "string_kind_name CQuote = ''C-quote (C'' @ [CHR 0x22] @ '')''"
| "string_kind_name SDollarQuote = ''S$-quote (S$'' @ [CHR 0x22] @ '')''"

definition read_quoted_string ::
  "string_kind \<Rightarrow> pos \<Rightarrow> lexer \<Rightarrow> (compile_error, string \<times> lexer) outcome" where
  "read_quoted_string kind open_pos lx =
     (let lx' = bump_while (\<lambda>b. b \<noteq> CHR 0x22) lx in
      case peek lx' of
        None \<Rightarrow> Err (UnterminatedString (string_kind_name kind) (mk_span open_pos (lexer_pos lx')))
      | Some _ \<Rightarrow> Ok (utf8_or_empty (text_between lx lx'), bump lx'))"

definition read_word_raw :: "lexer \<Rightarrow> string \<times> lexer" where
  "read_word_raw lx =
     (let lx' = bump_while (\<lambda>b. \<not> is_ws b) lx in (utf8_or_empty (text_between lx lx'), lx'))"

definition decode_char_escape :: "char \<Rightarrow> char option" where
  "decode_char_escape esc =
     (if esc = CHR ''n'' then Some (CHR 0x0A)
      else if esc = CHR ''t'' then Some (CHR 0x09)
      else if esc = CHR ''r'' then Some (CHR 0x0D)
      else if esc = CHR ''0'' then Some (CHR 0x00)
      else if esc = CHR ''s'' then Some (CHR '' '')
      else if esc = CHR ''e'' then Some (CHR 0x1B)
      else if esc = CHR 0x5C then Some (CHR 0x5C)
      else if esc = CHR 0x27 then Some (CHR 0x27)
      else if esc = CHR 0x22 then Some (CHR 0x22)
      else None)"

section \<open>Numbers and words\<close>

fun has_exp :: "string \<Rightarrow> bool" where
  "has_exp [] = False"
| "has_exp (c # cs) =
     (((c = CHR ''e'' \<or> c = CHR ''E'') \<and>
       (case cs of [] \<Rightarrow> True | d # _ \<Rightarrow> is_ascii_digit d \<or> d = CHR ''-'' \<or> d = CHR ''+''))
      \<or> has_exp cs)"

definition is_prefix_byte :: "char \<Rightarrow> bool" where
  "is_prefix_byte c \<longleftrightarrow> c = CHR ''$'' \<or> c = CHR ''%'' \<or> c = CHR ''#''"

definition looks_like_float :: "string \<Rightarrow> bool" where
  "looks_like_float raw =
     (case raw of
        [] \<Rightarrow> False
      | first # rest \<Rightarrow>
          if starts_with ''0x'' raw \<or> starts_with ''0X'' raw then False
          else if is_prefix_byte first then False
          else if (first = CHR ''-'' \<or> first = CHR ''+'') \<and> rest \<noteq> []
                  \<and> (is_prefix_byte (hd rest) \<or> starts_with ''0x'' rest \<or> starts_with ''0X'' rest)
            then False
          else if \<not> (is_ascii_digit first \<or> first = CHR ''-'' \<or> first = CHR ''+'' \<or> first = CHR ''.'')
            then False
          else if \<not> list_ex is_ascii_digit raw then False
          else list_ex (\<lambda>c. c = CHR ''.'') raw \<or> has_exp raw)"

definition parse_float :: "string \<Rightarrow> f64 option" where
  "parse_float raw =
     (let stripped =
        (case (case strip_suffix_char (CHR ''e'') raw of Some s \<Rightarrow> Some s
               | None \<Rightarrow> strip_suffix_char (CHR ''E'') raw) of
           Some s \<Rightarrow> (case last_opt s of
                Some c \<Rightarrow> if is_ascii_digit c \<or> c = CHR ''.'' then s else raw
              | None \<Rightarrow> raw)
         | None \<Rightarrow> raw)
      in parse_f64 stripped)"

definition digit_in_any_base :: "char \<Rightarrow> nat option" where
  "digit_in_any_base c =
     (if 48 \<le> byte c \<and> byte c \<le> 57 then Some (byte c - 48)
      else if 97 \<le> byte c \<and> byte c \<le> 102 then Some (10 + (byte c - 97))
      else if 65 \<le> byte c \<and> byte c \<le> 70 then Some (10 + (byte c - 65))
      else None)"

text \<open>
  The digit loop of \<^verbatim>\<open>parse_int_with_base\<close>: underscores are skipped, the accumulator is
  an \<^verbatim>\<open>i64\<close> updated with \<^verbatim>\<open>wrapping_mul\<close> and \<^verbatim>\<open>wrapping_add\<close>, and the error is the reason
  text of \<open>MalformedNumber\<close>.
\<close>

fun parse_digits :: "nat \<Rightarrow> i64 \<Rightarrow> string \<Rightarrow> string + i64" where
  "parse_digits base acc [] = Inr acc"
| "parse_digits base acc (c # cs) =
     (case digit_in_any_base c of
        Some d \<Rightarrow>
          if base \<le> d then Inl ''digit out of base range''
          else parse_digits base (acc * of_nat base + of_nat d) cs
      | None \<Rightarrow>
          if c = CHR ''_'' then parse_digits base acc cs
          else Inl ''non-digit character in number'')"

definition parse_int_with_base ::
  "string \<Rightarrow> nat \<Rightarrow> num_base \<Rightarrow> string \<Rightarrow> span \<Rightarrow> (compile_error, tok) outcome" where
  "parse_int_with_base digits base base_tag raw sp =
     (if digits = [] then Err (MalformedNumber raw sp ''number prefix with no digits'')
      else case parse_digits base 0 digits of
        Inl reason \<Rightarrow> Err (MalformedNumber raw sp reason)
      | Inr acc \<Rightarrow> Ok (TokInt acc base_tag raw))"

definition strip_0x :: "string \<Rightarrow> string option" where
  "strip_0x raw = (case strip_prefix ''0x'' raw of Some r \<Rightarrow> Some r | None \<Rightarrow> strip_prefix ''0X'' raw)"

definition prefixed_all :: "string \<Rightarrow> (char \<Rightarrow> bool) \<Rightarrow> string \<Rightarrow> bool" where
  "prefixed_all pre p raw =
     (case strip_prefix pre raw of None \<Rightarrow> False | Some rest \<Rightarrow> rest \<noteq> [] \<and> list_all p rest)"

definition negative_candidate :: "string \<Rightarrow> bool" where
  "negative_candidate rest \<longleftrightarrow>
     rest \<noteq> [] \<and> (is_ascii_digit (hd rest) \<or> is_prefix_byte (hd rest)
       \<or> starts_with ''0x'' rest \<or> starts_with ''0X'' rest)"

fun negate_literal :: "string \<Rightarrow> (compile_error, tok) outcome \<Rightarrow> tok option" where
  "negate_literal raw (Ok (TokInt v base _)) = Some (TokInt (- v) base raw)"
| "negate_literal raw (Ok (TokFloat v _)) = Some (TokFloat (f64_neg v) raw)"
| "negate_literal raw _ = None"

function classify_word_or_number :: "string \<Rightarrow> span \<Rightarrow> (compile_error, tok) outcome" where
  "classify_word_or_number raw sp =
     (if raw = [] then Ok (TokWord [])
      else if looks_like_float raw then
        (case parse_float raw of
           Some v \<Rightarrow> Ok (TokFloat v raw)
         | None \<Rightarrow> Err (MalformedNumber raw sp (''looks like a float but didn'' @ [CHR 0x27] @ ''t parse'')))
      else if prefixed_all ''$'' is_ascii_hexdigit raw then parse_int_with_base (tl raw) 16 Hex raw sp
      else if prefixed_all ''%'' (\<lambda>b. b = CHR ''0'' \<or> b = CHR ''1'') raw
        then parse_int_with_base (tl raw) 2 Binary raw sp
      else if prefixed_all ''#'' is_ascii_digit raw then parse_int_with_base (tl raw) 10 DecimalExplicit raw sp
      else case strip_0x raw of
        Some rest \<Rightarrow> parse_int_with_base rest 16 Hex0x raw sp
      | None \<Rightarrow>
          (let negative =
             (case strip_prefix ''-'' raw of
                None \<Rightarrow> None
              | Some rest \<Rightarrow>
                  if negative_candidate rest
                  then negate_literal raw (classify_word_or_number rest sp) else None)
           in case negative of
                Some t \<Rightarrow> Ok t
              | None \<Rightarrow>
                  if list_all is_ascii_digit raw then parse_int_with_base raw 10 Decimal raw sp
                  else Ok (TokWord raw)))"
  by pat_completeness auto
termination
  by (relation "measure (\<lambda>(raw, sp). length raw)") auto

declare classify_word_or_number.simps [simp del]

section \<open>LET blocks\<close>

text \<open>\<^verbatim>\<open>while i < bytes.len() && p(bytes[i]) { i += 1; }\<close>\<close>

definition scan_while :: "(char \<Rightarrow> bool) \<Rightarrow> string \<Rightarrow> nat \<Rightarrow> nat" where
  "scan_while p bytes i = i + length (takeWhile p (drop i bytes))"

lemma scan_while_ge: "i \<le> scan_while p bytes i"
  by (simp add: scan_while_def)

lemma scan_while_le: "i \<le> length bytes \<Longrightarrow> scan_while p bytes i \<le> length bytes"
  using length_takeWhile_le [of p "drop i bytes"] by (simp add: scan_while_def)

lemma scan_while_gt: "i < length bytes \<Longrightarrow> p (bytes ! i) \<Longrightarrow> i < scan_while p bytes i"
  by (simp add: scan_while_def flip: Cons_nth_drop_Suc)

lemma scan_while_stop:
  "scan_while p bytes i < length bytes \<Longrightarrow> \<not> p (bytes ! scan_while p bytes i)"
  using nth_length_takeWhile [of p "drop i bytes"]
  by (cases "i \<le> length bytes") (auto simp: scan_while_def)

definition at_line_comment :: "string \<Rightarrow> nat \<Rightarrow> bool" where
  "at_line_comment bytes i \<longleftrightarrow>
     bytes ! i = CHR 0x5C \<and> (length bytes \<le> i + 1 \<or> latin1_is_whitespace (bytes ! (i + 1)))"

definition at_paren_comment :: "string \<Rightarrow> nat \<Rightarrow> bool" where
  "at_paren_comment bytes i \<longleftrightarrow>
     bytes ! i = CHR ''('' \<and> i + 1 < length bytes \<and> latin1_is_whitespace (bytes ! (i + 1))"

function let_end_loop :: "string \<Rightarrow> nat \<Rightarrow> nat option" where
  "let_end_loop bytes i0 =
     (if i0 < length bytes then
        (let i = scan_while latin1_is_whitespace bytes i0 in
         if length bytes \<le> i then None
         else if at_line_comment bytes i
           then let_end_loop bytes (scan_while (\<lambda>b. b \<noteq> CHR 0x0A) bytes i)
         else if at_paren_comment bytes i
           then (let j = scan_while (\<lambda>b. b \<noteq> CHR '')'') bytes i
                 in let_end_loop bytes (if j < length bytes then j + 1 else j))
         else
           (let j = scan_while (\<lambda>b. \<not> latin1_is_whitespace b) bytes i in
            if eq_ignore_ascii_case (slice_of bytes i j) ''end'' then Some j
            else let_end_loop bytes j))
      else None)"
  by pat_completeness auto
termination
proof (relation "measure (\<lambda>(bytes, i). length bytes - i)", goal_cases)
  case (2 bytes i0 i)
  have "i < scan_while (\<lambda>b. b \<noteq> CHR 0x0A) bytes i"
    using 2 by (intro scan_while_gt) (auto simp: at_line_comment_def)
  with 2 scan_while_ge [of i0 latin1_is_whitespace bytes] show ?case by auto
next
  case (3 bytes i0 i j)
  have "i < j" using 3 by (auto simp: at_paren_comment_def intro!: scan_while_gt)
  with 3 scan_while_ge [of i0 latin1_is_whitespace bytes] show ?case by auto
next
  case (4 bytes i0 i j)
  have "\<not> latin1_is_whitespace (bytes ! i)"
    using 4 scan_while_stop [of latin1_is_whitespace bytes i0] by auto
  then have "i < j" using 4 by (auto intro!: scan_while_gt)
  with 4 scan_while_ge [of i0 latin1_is_whitespace bytes] show ?case by auto
qed simp

declare let_end_loop.simps [simp del]

definition find_let_end :: "lexer \<Rightarrow> nat \<Rightarrow> pos \<Rightarrow> (compile_error, nat) outcome" where
  "find_let_end lx body_start let_start =
     (case let_end_loop (lx_src lx) body_start of
        Some i \<Rightarrow> Ok i
      | None \<Rightarrow> Err (UnterminatedString ''LET-block'' (mk_span let_start (lexer_pos lx))))"

section \<open>Dispatch\<close>

definition skip_sep :: "lexer \<Rightarrow> lexer" where
  "skip_sep lx = (if peek lx = Some (CHR '' '') \<or> peek lx = Some (CHR 0x09) then bump lx else lx)"

text \<open>\<^verbatim>\<open>b as char\<close> pushed into a string: a byte from 128 on takes two bytes of UTF-8.\<close>

definition latin1_utf8 :: "char \<Rightarrow> string" where
  "latin1_utf8 c = (if byte c < 128 then [c] else [char_of (192 + byte c div 64), char_of (128 + byte c mod 64)])"

definition lex_string :: "string_kind \<Rightarrow> nat \<Rightarrow> pos \<Rightarrow> lexer \<Rightarrow> (compile_error, (token \<times> lexer) option) outcome" where
  "lex_string kind prefix_len start lx =
     and_then (read_quoted_string kind start (skip_sep ((bump ^^ prefix_len) lx)))
       (\<lambda>(body, lx'). Ok (Some (mk_token (TokStr body kind) start (lexer_pos lx'), lx')))"

definition lex_char_literal :: "pos \<Rightarrow> lexer \<Rightarrow> (token \<times> lexer) option" where
  "lex_char_literal start lx =
     (let escaped =
        (case peek4 lx of
           Some (a, b, esc, d) \<Rightarrow>
             if a = CHR 0x27 \<and> b = CHR 0x5C \<and> d = CHR 0x27 then
               (case decode_char_escape esc of
                  Some v \<Rightarrow>
                    (let lx' = (bump ^^ 4) lx in
                     Some (mk_token (TokInt (of_nat (byte v)) Decimal ([CHR 0x27, CHR 0x5C] @ latin1_utf8 esc @ [CHR 0x27]))
                             start (lexer_pos lx'), lx'))
                | None \<Rightarrow> None)
             else None
         | None \<Rightarrow> None)
      in case escaped of
           Some r \<Rightarrow> Some r
         | None \<Rightarrow>
             (case peek3 lx of
                Some (a, ch, c) \<Rightarrow>
                  if a = CHR 0x27 \<and> c = CHR 0x27 then
                    (let lx' = (bump ^^ 3) lx in
                     Some (mk_token (TokInt (of_nat (byte ch)) Decimal ([CHR 0x27] @ latin1_utf8 ch @ [CHR 0x27]))
                             start (lexer_pos lx'), lx'))
                  else None
              | None \<Rightarrow> None))"

definition lex_let_block :: "pos \<Rightarrow> lexer \<Rightarrow> (compile_error, (token \<times> lexer) option) outcome" where
  "lex_let_block start lx =
     and_then (find_let_end lx (lx_i lx) start)
       (\<lambda>block_end.
          case from_utf8 (slice_of (lx_src lx) (unat (byte_offset start)) block_end) of
            None \<Rightarrow> Err (UnterminatedString ''LET-block'' (mk_span start (lexer_pos lx)))
          | Some txt \<Rightarrow>
              (let lx' = lx\<lparr>lx_i := block_end\<rparr>
               in Ok (Some (mk_token (LetBlock txt) start (lexer_pos lx'), lx'))))"

definition lex_word :: "pos \<Rightarrow> lexer \<Rightarrow> (compile_error, (token \<times> lexer) option) outcome" where
  "lex_word start lx =
     (let (raw, lx') = read_word_raw lx in
      if eq_ignore_ascii_case raw ''let'' then lex_let_block start lx'
      else and_then (classify_word_or_number raw (mk_span start (lexer_pos lx')))
             (\<lambda>k. Ok (Some (mk_token k start (lexer_pos lx'), lx'))))"

definition lex_quoted_or_word :: "pos \<Rightarrow> lexer \<Rightarrow> (compile_error, (token \<times> lexer) option) outcome" where
  "lex_quoted_or_word start lx =
     (if peek3 lx = Some (CHR ''S'', CHR ''$'', CHR 0x22)
         \<or> peek3 lx = Some (CHR ''s'', CHR ''$'', CHR 0x22)
        then lex_string SDollarQuote 3 start lx
      else if peek2 lx = Some (CHR ''.'', CHR 0x22) then lex_string DotQuote 2 start lx
      else if peek2 lx = Some (CHR ''S'', CHR 0x22) \<or> peek2 lx = Some (CHR ''s'', CHR 0x22)
        then lex_string SQuote 2 start lx
      else if peek2 lx = Some (CHR ''C'', CHR 0x22) \<or> peek2 lx = Some (CHR ''c'', CHR 0x22)
        then lex_string CQuote 2 start lx
      else lex_word start lx)"

definition next_token :: "lexer \<Rightarrow> (compile_error, (token \<times> lexer) option) outcome" where
  "next_token lx0 =
     (let lx = skip_ws lx0; start = lexer_pos lx in
      case peek lx of
        None \<Rightarrow> Ok None
      | Some b \<Rightarrow>
          if b = CHR 0x5C \<and> next_is_ws_or_eof lx 1 then
            (let (body, lx') = read_to_eol (skip_sep (bump lx))
             in Ok (Some (mk_token (LineComment body) start (lexer_pos lx'), lx')))
          else if b = CHR ''('' \<and> next_is_ws_or_eof lx 1 then
            and_then (read_paren_comment start (skip_sep (bump lx)))
              (\<lambda>(body, lx'). Ok (Some (mk_token (BlockComment body) start (lexer_pos lx'), lx')))
          else
            (case (if b = CHR 0x27 then lex_char_literal start lx else None) of
               Some r \<Rightarrow> Ok (Some r)
             | None \<Rightarrow> lex_quoted_or_word start lx))"

section \<open>Progress\<close>

text \<open>
  \<open>moves lx lx'\<close>: the cursor went from \<open>lx\<close> forward to \<open>lx'\<close>, over the same source and
  not past its end.
\<close>

definition moves :: "lexer \<Rightarrow> lexer \<Rightarrow> bool" where
  "moves lx lx' \<longleftrightarrow> lx_src lx' = lx_src lx \<and> lx_i lx \<le> lx_i lx'
     \<and> (lx_i lx \<le> length (lx_src lx) \<longrightarrow> lx_i lx' \<le> length (lx_src lx))"

lemma moves_refl [simp]: "moves lx lx"
  by (simp add: moves_def)

lemma moves_trans [trans]: "moves a b \<Longrightarrow> moves b c \<Longrightarrow> moves a c"
  by (auto simp: moves_def)

lemma moves_bump [progress]: "moves lx (bump lx)"
  by (auto simp: moves_def bump_def peek_def split: option.splits dest: get_Some_length)

lemma moves_bumps [progress]: "moves lx ((bump ^^ n) lx)"
  by (induction n) (auto intro: moves_trans moves_bump)

lemma moves_bump_while [progress]: "moves lx (bump_while p lx)"
proof (induction p lx rule: bump_while.induct)
  case (1 p lx)
  show ?case
    by (subst bump_while.simps)
      (auto split: option.split intro: moves_trans [OF moves_bump] "1.IH")
qed

lemma moves_skip_ws [progress]: "moves lx (skip_ws lx)"
  by (simp add: skip_ws_def moves_bump_while)

lemma moves_skip_sep [progress]: "moves lx (skip_sep lx)"
  by (simp add: skip_sep_def moves_bump)

lemma moves_read_to_eol [progress]: "read_to_eol lx = (s, lx') \<Longrightarrow> moves lx lx'"
  by (auto simp: read_to_eol_def Let_def intro: moves_trans [OF moves_bump_while moves_bump] moves_bump_while
      split: if_splits)

lemma moves_read_paren_comment [progress]:
  "read_paren_comment p lx = Ok (s, lx') \<Longrightarrow> moves lx lx'"
  by (auto simp: read_paren_comment_def Let_def intro: moves_trans [OF moves_bump_while moves_bump]
      split: option.splits)

lemma moves_read_quoted_string [progress]:
  "read_quoted_string k p lx = Ok (s, lx') \<Longrightarrow> moves lx lx'"
  by (auto simp: read_quoted_string_def Let_def intro: moves_trans [OF moves_bump_while moves_bump]
      split: option.splits)

lemma bump_while_advances:
  assumes "peek lx = Some b" "p b"
  shows "lx_i lx < lx_i (bump_while p lx)"
proof -
  have "bump_while p lx = bump_while p (bump lx)"
    using assms by (subst bump_while.simps) simp
  moreover have "lx_i lx < lx_i (bump lx)" using assms by (simp add: lx_i_bump)
  ultimately show ?thesis
    using moves_bump_while [of "bump lx" p] by (auto simp: moves_def)
qed

lemma bump_while_stop: "peek (bump_while p lx) = Some b \<Longrightarrow> \<not> p b"
proof (induction p lx rule: bump_while.induct)
  case (1 p lx)
  from "1.prems" show ?case
    by (subst (asm) bump_while.simps) (auto split: option.splits if_splits dest: "1.IH")
qed

lemma let_end_loop_bounds:
  "let_end_loop bytes i = Some j \<Longrightarrow> i \<le> j \<and> j \<le> length bytes"
proof (induction bytes i rule: let_end_loop.induct)
  case (1 bytes i0)
  let ?i = "scan_while latin1_is_whitespace bytes i0"
  note ge = scan_while_ge [of i0 latin1_is_whitespace bytes]
    scan_while_ge [of ?i "\<lambda>b. b \<noteq> CHR 0x0A" bytes] scan_while_ge [of ?i "\<lambda>b. b \<noteq> CHR '')''" bytes]
    scan_while_ge [of ?i "\<lambda>b. \<not> latin1_is_whitespace b" bytes]
  have i0: "i0 < length bytes"
    using "1.prems" by (subst (asm) let_end_loop.simps) (auto split: if_splits)
  have i: "?i < length bytes"
    using "1.prems" by (subst (asm) let_end_loop.simps) (auto simp: Let_def split: if_splits)
  note unfold = let_end_loop.simps [of bytes i0]
  show ?case
  proof (cases "at_line_comment bytes ?i")
    case True
    with "1.IH"(1) [OF i0 refl] "1.prems" i0 i ge show ?thesis by (simp add: unfold)
  next
    case line: False
    show ?thesis
    proof (cases "at_paren_comment bytes ?i")
      case True
      with "1.IH"(2) [OF i0 refl _ line True refl] "1.prems" line i0 i ge show ?thesis
        by (simp add: unfold Let_def split: if_splits)
    next
      case False
      with "1.IH"(3) [OF i0 refl _ line False refl] "1.prems" line i0 i ge
        scan_while_le [of ?i bytes "\<lambda>b. \<not> latin1_is_whitespace b"] show ?thesis
        by (simp add: unfold Let_def split: if_splits)
    qed
  qed
qed

text \<open>
  A token read from \<open>s\<close>: it spans the text from \<open>s\<close> to the state the lexer is left in,
  and that text is not empty.
\<close>

definition token_from :: "lexer \<Rightarrow> token \<times> lexer \<Rightarrow> bool" where
  "token_from s r \<longleftrightarrow> moves s (snd r) \<and> lx_i s < lx_i (snd r)
     \<and> tok_span (fst r) = mk_span (lexer_pos s) (lexer_pos (snd r))"

lemma token_fromI:
  "moves (bump s) lx' \<Longrightarrow> peek s \<noteq> None \<Longrightarrow> token_from s (mk_token k (lexer_pos s) (lexer_pos lx'), lx')"
  using peek_Some_less by (fastforce simp: token_from_def moves_def lx_i_bump)

lemma peek_peek2: "peek2 s = Some p \<Longrightarrow> peek s \<noteq> None"
  by (auto simp: peek2_def peek_def split: option.splits dest: get_Some_length)

lemma peek_peek3: "peek3 s = Some p \<Longrightarrow> peek s \<noteq> None"
  by (auto simp: peek3_def split: option.splits prod.splits dest: peek_peek2)

lemma moves_bumps_Suc: "moves (bump s) ((bump ^^ Suc n) s)"
  using moves_bumps [of "bump s" n] by (simp add: funpow_swap1)

lemma token_from_lex_string:
  assumes "lex_string k m (lexer_pos s) s = Ok (Some r)" "peek s \<noteq> None" "0 < m"
  shows "token_from s r"
proof -
  obtain n where m: "m = Suc n" using assms(3) gr0_implies_Suc by blast
  from assms(1) [unfolded m] obtain body lx' where
    read: "read_quoted_string k (lexer_pos s) (skip_sep ((bump ^^ Suc n) s)) = Ok (body, lx')"
    and r: "r = (mk_token (TokStr body k) (lexer_pos s) (lexer_pos lx'), lx')"
    by (auto simp: lex_string_def)
  have "moves (bump s) lx'"
    by (rule moves_trans [OF moves_bumps_Suc moves_trans [OF moves_skip_sep moves_read_quoted_string [OF read]]])
  then show ?thesis using assms(2) by (simp add: r token_fromI)
qed

lemma token_from_lex_char_literal:
  assumes "lex_char_literal (lexer_pos s) s = Some r" "peek s \<noteq> None"
  shows "token_from s r"
proof -
  from assms(1) obtain n k where
    "r = (mk_token k (lexer_pos s) (lexer_pos ((bump ^^ Suc n) s)), (bump ^^ Suc n) s)"
    unfolding lex_char_literal_def Let_def
    by (auto simp: numeral_eq_Suc simp del: funpow.simps split: option.splits if_splits prod.splits)
  then show ?thesis using assms(2) moves_bumps_Suc by (simp add: token_fromI)
qed

lemma token_from_lex_let_block:
  assumes "lex_let_block p lx' = Ok (Some r)" "p = lexer_pos s" "moves s lx'" "lx_i s < lx_i lx'"
  shows "token_from s r"
proof -
  from assms(1) obtain j body where j: "let_end_loop (lx_src lx') (lx_i lx') = Some j"
    and r: "r = (mk_token (LetBlock body) p (lexer_pos (lx'\<lparr>lx_i := j\<rparr>)), lx'\<lparr>lx_i := j\<rparr>)"
    by (auto simp: lex_let_block_def find_let_end_def Let_def split: option.splits)
  from let_end_loop_bounds [OF j] assms show ?thesis
    by (auto simp: token_from_def moves_def r)
qed

lemma token_from_lex_word:
  assumes "lex_word (lexer_pos s) s = Ok (Some r)" "peek s = Some b" "\<not> is_ws b"
  shows "token_from s r"
proof -
  let ?w = "bump_while (\<lambda>b. \<not> is_ws b) s"
  have w: "moves s ?w" "lx_i s < lx_i ?w"
    using assms by (auto intro: moves_bump_while bump_while_advances)
  from assms(1) consider "lex_let_block (lexer_pos s) ?w = Ok (Some r)"
    | k where "r = (mk_token k (lexer_pos s) (lexer_pos ?w), ?w)"
    by (auto simp: lex_word_def read_word_raw_def Let_def split: if_splits)
  then show ?thesis
  proof cases
    case 1
    then show ?thesis using w by (rule token_from_lex_let_block [OF _ refl])
  next
    case 2
    then show ?thesis using w by (simp add: token_from_def)
  qed
qed

lemma token_from_lex_quoted_or_word:
  assumes "lex_quoted_or_word (lexer_pos s) s = Ok (Some r)" "peek s = Some b" "\<not> is_ws b"
  shows "token_from s r"
  using assms(1) token_from_lex_word [OF _ assms(2,3)]
  unfolding lex_quoted_or_word_def
  by (simp split: if_split_asm add: assms(2) token_from_lex_string)

lemma token_from_next_token [progress]:
  assumes "next_token lx = Ok (Some r)"
  shows "token_from (skip_ws lx) r"
proof -
  let ?s = "skip_ws lx"
  obtain b where b: "peek ?s = Some b"
    using assms by (auto simp: next_token_def Let_def split: option.splits)
  have nw: "\<not> is_ws b" using b bump_while_stop unfolding skip_ws_def by blast
  show ?thesis
  proof (cases "b = CHR 0x5C \<and> next_is_ws_or_eof ?s 1")
    case True
    obtain body lx' where rd: "read_to_eol (skip_sep (bump ?s)) = (body, lx')" by fastforce
    then have "moves (bump ?s) lx'" using moves_trans [OF moves_skip_sep moves_read_to_eol] by blast
    with assms b True rd show ?thesis by (auto simp: next_token_def intro: token_fromI)
  next
    case line: False
    show ?thesis
    proof (cases "b = CHR ''('' \<and> next_is_ws_or_eof ?s 1")
      case True
      with assms b line obtain body lx' where
        rd: "read_paren_comment (lexer_pos ?s) (skip_sep (bump ?s)) = Ok (body, lx')"
        and r: "r = (mk_token (BlockComment body) (lexer_pos ?s) (lexer_pos lx'), lx')"
        by (auto simp: next_token_def Let_def)
      from rd have "moves (bump ?s) lx'"
        using moves_trans [OF moves_skip_sep moves_read_paren_comment] by blast
      then show ?thesis unfolding r by (rule token_fromI) (simp add: b)
    next
      case False
      with assms b line have "(b = CHR 0x27 \<and> lex_char_literal (lexer_pos ?s) ?s = Some r)
          \<or> lex_quoted_or_word (lexer_pos ?s) ?s = Ok (Some r)"
        unfolding next_token_def Let_def by (simp split: option.split_asm if_split_asm)
      then show ?thesis
        using b nw token_from_lex_char_literal token_from_lex_quoted_or_word by blast
    qed
  qed
qed

section \<open>The driver\<close>

function lex_loop :: "lexer \<Rightarrow> (compile_error, token list) outcome" where
  "lex_loop lx =
     and_then (next_token lx)
       (\<lambda>r. case r of None \<Rightarrow> Ok []
             | Some (t, lx') \<Rightarrow> and_then (lex_loop lx') (\<lambda>ts. Ok (t # ts)))"
  by pat_completeness auto

definition lex_remaining :: "lexer \<Rightarrow> nat" where
  "lex_remaining lx = length (lx_src lx) - lx_i lx"

lemma lex_remaining_next_token [progress]:
  assumes "next_token lx = Ok (Some (t, lx'))"
  shows "lex_remaining lx' < lex_remaining lx"
proof -
  obtain b where "peek (skip_ws lx) = Some b"
    using assms by (auto simp: next_token_def Let_def split: option.splits)
  with token_from_next_token [OF assms] moves_skip_ws [of lx] show ?thesis
    by (auto simp: token_from_def moves_def lex_remaining_def dest!: peek_Some_less)
qed

termination lex_loop
  by (relation "measure lex_remaining") (auto dest: lex_remaining_next_token)

declare lex_loop.simps [simp del]

definition lex :: "string \<Rightarrow> (compile_error, token list) outcome" where
  "lex source = lex_loop (lexer_new source)"

lemma returned_read_paren_comment: "returned (read_paren_comment p lx)"
  by (simp add: read_paren_comment_def Let_def split: option.split)

lemma returned_read_quoted_string: "returned (read_quoted_string k p lx)"
  by (simp add: read_quoted_string_def Let_def split: option.split)

lemma returned_parse_int_with_base: "returned (parse_int_with_base ds b t raw sp)"
  by (simp add: parse_int_with_base_def split: sum.split)

lemma returned_classify: "returned (classify_word_or_number raw sp)"
  by (subst classify_word_or_number.simps)
    (auto simp: Let_def returned_parse_int_with_base split: option.split)

lemma returned_lex_word: "returned (lex_word p lx)"
  by (auto simp: lex_word_def lex_let_block_def find_let_end_def Let_def
      intro!: returned_and_then returned_classify split: option.split prod.split)

lemma returned_next_token: "returned (next_token lx)"
  by (auto simp: next_token_def lex_quoted_or_word_def lex_string_def Let_def
      intro!: returned_and_then returned_read_paren_comment returned_read_quoted_string returned_lex_word
      split: option.split prod.split)

section \<open>The scanner contract\<close>

definition lex_good :: "lexer \<Rightarrow> bool" where
  "lex_good lx \<longleftrightarrow> lx_i lx \<le> length (lx_src lx) \<and> length (lx_src lx) < 2 ^ 32"

definition tok_start :: "token \<Rightarrow> nat" where
  "tok_start t = unat (byte_offset (span_start (tok_span t)))"

definition tok_stop :: "token \<Rightarrow> nat" where
  "tok_stop t = unat (byte_offset (span_end (tok_span t)))"

lemma unat_of_nat_less: "n < 2 ^ 32 \<Longrightarrow> unat (of_nat n :: u32) = n"
  by (simp add: unat_of_nat)

lemma lex_extent:
  assumes "lex_good lx" "next_token lx = Ok (Some (t, lx'))"
  shows "lex_good lx' \<and> lx_i lx \<le> tok_start t \<and> tok_start t < tok_stop t \<and> tok_stop t = lx_i lx'
    \<and> tok_stop t + lex_remaining lx' = lx_i lx + lex_remaining lx"
proof -
  note m = token_from_next_token [OF assms(2), unfolded token_from_def moves_def]
  note w = moves_skip_ws [of lx, unfolded moves_def]
  have bounds: "lx_i (skip_ws lx) \<le> length (lx_src lx)" "lx_i lx' \<le> length (lx_src lx)"
    "lx_i lx \<le> lx_i (skip_ws lx)" "lx_i (skip_ws lx) < lx_i lx'" "lx_src lx' = lx_src lx"
    using m w assms(1) by (auto simp: lex_good_def)
  moreover have "tok_start t = lx_i (skip_ws lx)" "tok_stop t = lx_i lx'"
    using m bounds assms(1)
    by (auto simp: tok_start_def tok_stop_def lexer_pos_def lex_good_def intro!: unat_of_nat_less)
  ultimately show ?thesis using assms(1) by (auto simp: lex_good_def lex_remaining_def)
qed

interpretation forth_lexer: positioned_scanner next_token lex_loop lex_remaining lex_good lx_i tok_start tok_stop
  by unfold_locales
    (auto simp: lex_extent returned_next_token dest: lex_remaining_next_token lex_extent
      intro: lex_loop.simps)

lemma lex_good_new: "length source < 2 ^ 32 \<Longrightarrow> lex_good (lexer_new source)"
  by (simp add: lex_good_def lexer_new_def)


text \<open>
  C16. The spans of a tokenised source below 4 GiB: each token covers a non-empty stretch of
  the source, the stretches follow each other without overlap, and no two tokens
  start at the same offset, so that a span identifies its token.
\<close>

theorem lex_spans:
  assumes "lex source = Ok ts" "length source < 2 ^ 32"
  shows "sorted_wrt (\<lambda>a b. tok_stop a \<le> tok_start b) ts
    \<and> list_all (\<lambda>t. tok_start t < tok_stop t \<and> tok_stop t \<le> length source) ts
    \<and> distinct (map tok_span ts)"
proof -
  note lex = assms(1) [unfolded lex_def] and good = lex_good_new [OF assms(2)]
  have "distinct (map tok_span ts)"
    using forth_lexer.drive_starts_distinct [OF lex good]
    by (auto simp: distinct_map inj_on_def tok_start_def)
  then show ?thesis using forth_lexer.drive_extents [OF lex good]
    by (auto simp: lexer_new_def lex_remaining_def list_all_iff)
qed

abbreviation dup_drop_tokens :: "token list" where
  "dup_drop_tokens \<equiv>
     [mk_token (TokWord ''dup'') START \<lparr>pos_line = 1, pos_col = 4, byte_offset = 3\<rparr>,
      mk_token (TokWord ''drop'') \<lparr>pos_line = 2, pos_col = 1, byte_offset = 4\<rparr> \<lparr>pos_line = 2, pos_col = 5, byte_offset = 8\<rparr>]"

theorem lex_spans_witness:
  "sorted_wrt (\<lambda>a b. tok_stop a \<le> tok_start b) dup_drop_tokens
    \<and> list_all (\<lambda>t. tok_start t < tok_stop t \<and> tok_stop t \<le> length (''dup'' @ [CHR 0x0A] @ ''drop'')) dup_drop_tokens
    \<and> distinct (map tok_span dup_drop_tokens)"
proof (rule lex_spans)
  show "lex (''dup'' @ [CHR 0x0A] @ ''drop'') = Ok dup_drop_tokens" by code_simp
qed simp

end
