(* ===== verification/Lexer_Correct.thy ===== *)
theory Lexer_Correct
  imports Lexer
begin

text \<open>
  What the tokeniser returns, as a function of the text ahead of its cursor: blank-separated
  words, integer literals of every base, strings and comments.
\<close>

section \<open>The text ahead of the cursor\<close>

text \<open>
  What the lexer does depends on its position only through the spans it reports: the
  cursor operations act on the unread text as the list functions of the same shape.
\<close>

definition ahead :: "lexer \<Rightarrow> string" where
  "ahead lx = drop (lx_i lx) (lx_src lx)"

lemma peek_ahead: "peek lx = get (ahead lx) 0"
  by (simp add: peek_def ahead_def get_drop)

lemma peek2_ahead: "peek2 lx = (case ahead lx of a # b # _ \<Rightarrow> Some (a, b) | _ \<Rightarrow> None)"
proof -
  have "peek2 lx = (case (get (ahead lx) 0, get (ahead lx) 1) of (Some a, Some b) \<Rightarrow> Some (a, b) | _ \<Rightarrow> None)"
    by (simp add: peek2_def ahead_def get_drop)
  then show ?thesis by (auto split: list.split)
qed

lemma peek3_ahead: "peek3 lx = (case ahead lx of a # b # c # _ \<Rightarrow> Some (a, b, c) | _ \<Rightarrow> None)"
proof -
  have "get (lx_src lx) (lx_i lx + 2) = get (ahead lx) (Suc (Suc 0))"
    by (simp add: ahead_def get_drop)
  then show ?thesis by (auto simp: peek3_def peek2_ahead split: list.split)
qed

lemma next_is_ws_or_eof_ahead:
  "next_is_ws_or_eof lx n = (case get (ahead lx) n of None \<Rightarrow> True | Some b \<Rightarrow> is_ws b)"
  by (simp add: next_is_ws_or_eof_def ahead_def get_drop)

lemma ahead_bump [simp]: "ahead (bump lx) = tl (ahead lx)"
  by (auto simp: ahead_def bump_def peek_def tl_drop drop_Suc split: option.split)

lemma ahead_bumps [simp]: "ahead ((bump ^^ n) lx) = drop n (ahead lx)"
  by (induction n) (auto simp: tl_drop drop_Suc)

lemma ahead_bump_while [simp]: "ahead (bump_while p lx) = dropWhile p (ahead lx)"
proof (induction p lx rule: bump_while.induct)
  case (1 p lx)
  show ?case
    by (subst bump_while.simps, cases "ahead lx")
      (auto simp: peek_ahead "1.IH")
qed

lemma text_between_bump_while [simp]: "text_between lx (bump_while p lx) = takeWhile p (ahead lx)"
proof -
  let ?lx' = "bump_while p lx"
  have m: "lx_src ?lx' = lx_src lx" "lx_i lx \<le> lx_i ?lx'"
    using moves_bump_while [of lx p] by (auto simp: moves_def)
  have "ahead lx = takeWhile p (ahead lx) @ ahead ?lx'" by simp
  also have "ahead ?lx' = drop (lx_i ?lx' - lx_i lx) (ahead lx)"
    using m by (simp add: ahead_def)
  finally have "take (lx_i ?lx' - lx_i lx) (ahead lx) = takeWhile p (ahead lx)"
    by (metis append_same_eq append_take_drop_id)
  then show ?thesis by (simp add: text_between_def slice_of_def ahead_def)
qed

lemma ahead_skip_ws [simp]: "ahead (skip_ws lx) = dropWhile is_ws (ahead lx)"
  by (simp add: skip_ws_def)

lemma ahead_new [simp]: "ahead (lexer_new source) = source"
  by (simp add: ahead_def lexer_new_def)

text \<open>
  A plain word: blank-delimited text that starts none of the parsing words.
\<close>

definition quote_prefixes :: "string list" where
  "quote_prefixes =
     [[CHR ''S'', CHR ''$'', CHR 0x22], [CHR ''s'', CHR ''$'', CHR 0x22], [CHR ''.'', CHR 0x22],
      [CHR ''S'', CHR 0x22], [CHR ''s'', CHR 0x22], [CHR ''C'', CHR 0x22], [CHR ''c'', CHR 0x22]]"

definition plain_word :: "string \<Rightarrow> bool" where
  "plain_word w \<longleftrightarrow>
     w \<noteq> [] \<and> utf8_valid w \<and> list_all (\<lambda>c. \<not> is_ws c) w
     \<and> w \<noteq> [CHR 0x5C] \<and> w \<noteq> ''('' \<and> hd w \<noteq> CHR 0x27
     \<and> \<not> list_ex (\<lambda>p. starts_with p w) quote_prefixes
     \<and> \<not> eq_ignore_ascii_case w ''let''"

definition delimited :: "string \<Rightarrow> bool" where
  "delimited rest \<longleftrightarrow> (case rest of [] \<Rightarrow> True | c # _ \<Rightarrow> is_ws c)"

lemma While_plain:
  assumes "list_all (\<lambda>c. \<not> is_ws c) w" "delimited rest"
  shows "takeWhile (\<lambda>c. \<not> is_ws c) (w @ rest) = w" "dropWhile (\<lambda>c. \<not> is_ws c) (w @ rest) = rest"
  using assms by (induction w; cases rest; simp add: delimited_def)+

lemma dropWhile_gap:
  "list_all is_ws gap \<Longrightarrow> w \<noteq> [] \<Longrightarrow> list_all (\<lambda>c. \<not> is_ws c) w \<Longrightarrow> dropWhile is_ws (gap @ w @ rest) = w @ rest"
  by (induction gap) (cases w; simp)+

text \<open>The span given to the classifier is only quoted in its errors.\<close>

fun with_span :: "span \<Rightarrow> (compile_error, 'a) outcome \<Rightarrow> (compile_error, 'a) outcome" where
  "with_span sp (Err (MalformedNumber raw _ reason)) = Err (MalformedNumber raw sp reason)"
| "with_span sp r = r"

lemma with_span_parse_int:
  "with_span sp' (parse_int_with_base ds b tag r sp) = parse_int_with_base ds b tag r sp'"
  by (simp add: parse_int_with_base_def split: sum.split)

lemma with_span_Ok [simp]: "with_span sp r = Ok k \<longleftrightarrow> r = Ok k"
  by (cases "(sp, r)" rule: with_span.cases) auto

lemma negate_literal_with_span: "negate_literal raw (with_span sp r) = negate_literal raw r"
  by (cases "(sp, r)" rule: with_span.cases) auto

lemma classify_with_span:
  "with_span sp' (classify_word_or_number raw sp) = classify_word_or_number raw sp'"
proof (induction raw arbitrary: sp rule: length_induct)
  case (1 raw)
  have neg: "negate_literal (CHR ''-'' # rest) (classify_word_or_number rest sp)
      = negate_literal (CHR ''-'' # rest) (classify_word_or_number rest sp')"
    if "raw = CHR ''-'' # rest" for rest
    using 1 that negate_literal_with_span [of raw sp' "classify_word_or_number rest sp"] by simp
  show ?case
    unfolding classify_word_or_number.simps [of raw]
    by (simp add: neg with_span_parse_int Let_def cong: if_cong split: option.split)
qed

lemma classify_Ok_any_span:
  "classify_word_or_number w sp = Ok k \<Longrightarrow> classify_word_or_number w sp' = Ok k"
  using classify_with_span [of sp' w sp] by simp

section \<open>Sequences of words\<close>

lemma peek2_starts_with: "peek2 lx = Some (a, b) \<longleftrightarrow> starts_with [a, b] (ahead lx)"
  by (auto simp: peek2_ahead starts_with_def split: list.split)

lemma peek3_starts_with: "peek3 lx = Some (a, b, c) \<longleftrightarrow> starts_with [a, b, c] (ahead lx)"
  by (auto simp: peek3_ahead starts_with_def split: list.split)

lemma starts_with_delimited:
  "list_all (\<lambda>c. \<not> is_ws c) p \<Longrightarrow> delimited rest \<Longrightarrow> starts_with p (w @ rest) = starts_with p w"
proof (induction p arbitrary: w)
  case (Cons c p)
  then show ?case
    by (cases w; cases rest) (auto simp: starts_with_def delimited_def)
qed (simp add: starts_with_def)

lemma lex_quoted_or_word_plain:
  assumes "ahead lx = w @ rest" "delimited rest" "\<not> list_ex (\<lambda>p. starts_with p w) quote_prefixes"
  shows "lex_quoted_or_word q lx = lex_word q lx"
proof -
  have "list_all (list_all (\<lambda>c. \<not> is_ws c)) quote_prefixes"
    by (simp add: quote_prefixes_def is_ws_def)
  then have "\<not> list_ex (\<lambda>p. starts_with p (ahead lx)) quote_prefixes"
    using assms starts_with_delimited [OF _ assms(2)] by (auto simp: list_ex_iff list_all_iff)
  then show ?thesis
    by (simp add: lex_quoted_or_word_def peek2_starts_with peek3_starts_with quote_prefixes_def)
qed

lemma next_token_plain_word:
  assumes "ahead lx = gap @ w @ rest" "list_all is_ws gap" "plain_word w" "delimited rest"
    and k: "classify_word_or_number w (point START) = Ok k"
  shows "\<exists>t lx'. next_token lx = Ok (Some (t, lx')) \<and> tok_kind t = k \<and> ahead lx' = rest"
proof -
  note w = assms(3) [unfolded plain_word_def]
  let ?s = "skip_ws lx"
  let ?e = "bump_while (\<lambda>b. \<not> is_ws b) ?s"
  have s: "ahead ?s = w @ rest" using assms dropWhile_gap w by simp
  then obtain b w' where b: "w = b # w'" "peek ?s = Some b"
    using w by (cases w) (auto simp: peek_ahead)
  have not_comment: "\<not> ((b = CHR 0x5C \<or> b = CHR ''('') \<and> next_is_ws_or_eof ?s 1)"
    using w b s by (cases w') (auto simp: next_is_ws_or_eof_ahead)
  have "lex_quoted_or_word (lexer_pos ?s) ?s = lex_word (lexer_pos ?s) ?s"
    using w s assms(4) by (intro lex_quoted_or_word_plain) auto
  then have "next_token lx = lex_word (lexer_pos ?s) ?s"
    using b not_comment w by (auto simp: next_token_def Let_def)
  moreover have "read_word_raw ?s = (w, ?e)" and e: "ahead ?e = rest"
    using w assms(4) s by (auto simp: read_word_raw_def While_plain)
  ultimately show ?thesis
    using w classify_Ok_any_span [OF k] by (auto simp: lex_word_def Let_def)
qed

lemma next_token_blank:
  assumes "list_all is_ws (ahead lx)"
  shows "next_token lx = Ok None"
proof -
  have "dropWhile is_ws (ahead lx) = []" using assms by (simp add: list_all_iff)
  then have "peek (skip_ws lx) = None" by (simp add: peek_ahead)
  then show ?thesis by (simp add: next_token_def Let_def)
qed

fun blank_separated :: "(string \<times> string) list \<Rightarrow> bool" where
  "blank_separated [] = True"
| "blank_separated ((gap, w) # ps) =
     (list_all is_ws gap \<and> plain_word w
      \<and> (case ps of [] \<Rightarrow> True | (gap', _) # _ \<Rightarrow> gap' \<noteq> []) \<and> blank_separated ps)"

definition layout :: "(string \<times> string) list \<Rightarrow> string \<Rightarrow> string" where
  "layout ps trail = concat (map (\<lambda>(gap, w). gap @ w) ps) @ trail"

lemma delimited_layout:
  "blank_separated ((gap, w) # ps) \<Longrightarrow> list_all is_ws trail \<Longrightarrow> delimited (layout ps trail)"
proof (cases ps)
  case (Cons p qs)
  assume "blank_separated ((gap, w) # ps)"
  with Cons show ?thesis by (cases p; cases "fst p") (auto simp: layout_def delimited_def)
qed (cases trail; simp add: layout_def delimited_def)

lemma lex_loop_words:
  assumes "blank_separated ps" "list_all is_ws trail" "ahead lx = layout ps trail"
    and "list_all2 (\<lambda>p k. classify_word_or_number (snd p) (point START) = Ok k) ps ks"
  shows "\<exists>ts. lex_loop lx = Ok ts \<and> map tok_kind ts = ks"
  using assms
proof (induction ps arbitrary: lx ks)
  case Nil
  then have "lex_loop lx = Ok []"
    by (intro forth_lexer.drive_stop next_token_blank) (simp add: layout_def)
  with Nil show ?case by simp
next
  case (Cons p ps)
  obtain gap w where p: "p = (gap, w)" by fastforce
  from Cons.prems(4) obtain k ks' where ks: "ks = k # ks'"
    and k: "classify_word_or_number w (point START) = Ok k"
    and rest: "list_all2 (\<lambda>p k. classify_word_or_number (snd p) (point START) = Ok k) ps ks'"
    by (auto simp: p list_all2_Cons1)
  have "ahead lx = gap @ w @ layout ps trail" using Cons.prems(3) by (simp add: p layout_def)
  moreover have "delimited (layout ps trail)"
    using Cons.prems(1,2) unfolding p by (rule delimited_layout)
  ultimately obtain t lx' where t: "next_token lx = Ok (Some (t, lx'))" "tok_kind t = k"
    and lx': "ahead lx' = layout ps trail"
    using next_token_plain_word [of lx gap w _ k] Cons.prems(1) k p by auto
  obtain ts where "lex_loop lx' = Ok ts" "map tok_kind ts = ks'"
    using Cons.IH [OF _ Cons.prems(2) lx' rest] Cons.prems(1) p by auto
  with forth_lexer.drive_step [OF t(1)] t(2) ks show ?case by auto
qed

text \<open>
  C19. A source made of plain words (words that start no parsing word) separated by runs
  of spaces, tabs and line ends is tokenised into exactly those words, in order, each
  with the classification of its own text.
\<close>

theorem lex_words:
  assumes "blank_separated ps" "list_all is_ws trail"
    and "list_all2 (\<lambda>p k. classify_word_or_number (snd p) (point START) = Ok k) ps ks"
  shows "\<exists>ts. lex (layout ps trail) = Ok ts \<and> map tok_kind ts = ks"
  using lex_loop_words [OF assms(1,2) _ assms(3)] by (simp add: lex_def)

theorem lex_words_witness:
  "\<exists>ts. lex (layout [('''', '':''), ('' '', ''sq''), ([CHR 0x0A], ''dup''), ('' '', ''-12'')] '' '') = Ok ts
    \<and> map tok_kind ts = [TokWord '':'', TokWord ''sq'', TokWord ''dup'', TokInt (- 12) Decimal ''-12'']"
  by (rule lex_words) code_simp+

section \<open>Integer literals\<close>

definition digit_ok :: "nat \<Rightarrow> char \<Rightarrow> bool" where
  "digit_ok base c \<longleftrightarrow> c = CHR ''_'' \<or> (case digit_in_any_base c of Some d \<Rightarrow> d < base | None \<Rightarrow> False)"

definition digits_value :: "nat \<Rightarrow> string \<Rightarrow> int" where
  "digits_value base s =
     foldl (\<lambda>n c. int base * n + int (the (digit_in_any_base c))) 0 (filter (\<lambda>c. c \<noteq> CHR ''_'') s)"

lemma underscore_no_digit: "digit_in_any_base CHR ''_'' = None"
  by (simp add: digit_in_any_base_def)

lemma parse_digits_value:
  "parse_digits base (word_of_int acc) s = Inr v \<longleftrightarrow>
     list_all (digit_ok base) s \<and>
     v = word_of_int (foldl (\<lambda>n c. int base * n + int (the (digit_in_any_base c))) acc (filter (\<lambda>c. c \<noteq> CHR ''_'') s))"
proof (induction s arbitrary: acc)
  case (Cons c s)
  show ?case
  proof (cases "digit_in_any_base c")
    case None
    then show ?thesis using Cons.IH [of acc] by (auto simp: digit_ok_def)
  next
    case (Some d)
    have "word_of_int (int base * acc + int d) = word_of_int acc * of_nat base + (of_nat d :: i64)"
      by (simp add: mult.commute)
    note IH = Cons.IH [of "int base * acc + int d", unfolded this]
    have ok: "digit_ok base c \<longleftrightarrow> d < base" and c: "c \<noteq> CHR ''_''"
      using Some underscore_no_digit by (auto simp: digit_ok_def)
    show ?thesis using c by (simp add: Some ok IH not_le)
  qed
qed auto

text \<open>
  Reading digits in a base: the literal is accepted exactly when there is at least one
  character and every character is a digit below the base or an underscore, and its value
  is the positional value of the digits, wrapped to 64 bits.
\<close>

lemma parse_int_with_base_value:
  "parse_int_with_base digits base tag raw sp = Ok k \<longleftrightarrow>
     digits \<noteq> [] \<and> list_all (digit_ok base) digits
     \<and> k = TokInt (word_of_int (digits_value base digits)) tag raw"
proof -
  have "parse_digits base 0 digits = Inr v \<longleftrightarrow>
      list_all (digit_ok base) digits \<and> v = word_of_int (digits_value base digits)" for v
    using parse_digits_value [of base 0 digits v] by (simp add: digits_value_def)
  then show ?thesis
    by (auto simp: parse_int_with_base_def split: sum.split)
      (metis Inl_Inr_False sum.inject(2))+
qed

lemma digit_in_any_base_decimal: "is_ascii_digit c \<Longrightarrow> digit_in_any_base c = Some (digit_value c) \<and> digit_value c < 10"
  by (auto simp: is_ascii_digit_def digit_in_any_base_def digit_value_def)

lemma decimal_digits_ok: "list_all is_ascii_digit s \<Longrightarrow> list_all (digit_ok 10) s"
  by (induction s) (auto simp: digit_ok_def digit_in_any_base_decimal)

lemma is_ascii_digit_not: "is_ascii_digit c \<Longrightarrow> c \<notin> {CHR ''_'', CHR ''$'', CHR ''%'', CHR ''#'', CHR ''-'', CHR ''+'', CHR ''.'', CHR ''x'', CHR ''X'', CHR ''e'', CHR ''E''}"
  by (auto simp: is_ascii_digit_def)

lemma digits_value_decimal:
  assumes "list_all is_ascii_digit s"
  shows "digits_value 10 s = decimal_value s"
proof -
  have "filter (\<lambda>c. c \<noteq> CHR ''_'') s = s"
    using assms is_ascii_digit_not by (fastforce simp: list_all_iff intro: filter_True)
  moreover have "foldl (\<lambda>n c. int 10 * n + int (the (digit_in_any_base c))) a s
      = foldl (\<lambda>n c. 10 * n + int (digit_value c)) a s" for a
    using assms by (induction s arbitrary: a) (auto simp: digit_in_any_base_decimal)
  ultimately show ?thesis by (simp add: digits_value_def decimal_value_def)
qed

lemma has_exp_digits: "list_all is_ascii_digit s \<Longrightarrow> \<not> has_exp s"
  by (induction s) (auto simp: is_ascii_digit_def)

lemma no_float_without_mark:
  "\<not> list_ex (\<lambda>c. c = CHR ''.'') s \<Longrightarrow> \<not> has_exp s \<Longrightarrow> \<not> looks_like_float s"
  unfolding looks_like_float_def by (simp only: if_False if_cancel split: list.split) simp

lemma no_float_digits:
  assumes "list_all is_ascii_digit s"
  shows "\<not> looks_like_float s" "\<not> looks_like_float (CHR ''-'' # s)"
proof -
  have "\<not> list_ex (\<lambda>c. c = CHR ''.'') s"
    using assms is_ascii_digit_not by (auto simp: list_all_iff list_ex_iff)
  then show "\<not> looks_like_float s" "\<not> looks_like_float (CHR ''-'' # s)"
    using has_exp_digits [OF assms] by (simp_all add: no_float_without_mark)
qed

lemma strip_0x_digits:
  assumes "list_all is_ascii_digit s"
  shows "strip_0x s = None" "strip_0x (CHR ''-'' # s) = None"
proof -
  have "strip_prefix (CHR ''0'' # c # []) s = None" if "\<not> is_ascii_digit c" for c
    using assms that by (cases "strip_prefix (CHR ''0'' # c # []) s") auto
  then show "strip_0x s = None" "strip_0x (CHR ''-'' # s) = None"
    by (simp_all add: strip_0x_def is_ascii_digit_def)
qed

lemma classify_decimal:
  assumes "list_all is_ascii_digit s" "s \<noteq> []"
  shows "classify_word_or_number s sp = Ok (TokInt (word_of_int (decimal_value s)) Decimal s)"
proof -
  obtain c s' where s: "s = c # s'" and c: "is_ascii_digit c" using assms by (cases s) auto
  have "\<not> prefixed_all ''$'' p s" "\<not> prefixed_all ''%'' p s" "\<not> prefixed_all ''#'' p s"
    "strip_prefix ''-'' s = None" for p
    using is_ascii_digit_not [OF c] by (auto simp: prefixed_all_def s split: option.split)
  moreover have "parse_int_with_base s 10 Decimal s sp = Ok (TokInt (word_of_int (decimal_value s)) Decimal s)"
    using assms parse_int_with_base_value
    by (simp add: parse_int_with_base_value decimal_digits_ok digits_value_decimal)
  ultimately show ?thesis
    using assms no_float_digits [of s] strip_0x_digits [of s]
    by (simp add: classify_word_or_number.simps [of s])
qed

lemma classify_negative:
  assumes "list_all is_ascii_digit s" "s \<noteq> []"
  shows "classify_word_or_number (CHR ''-'' # s) sp
    = Ok (TokInt (- word_of_int (decimal_value s)) Decimal (CHR ''-'' # s))"
proof -
  have "negative_candidate s" using assms by (cases s) (auto simp: negative_candidate_def)
  then show ?thesis
    using assms no_float_digits [of s] strip_0x_digits [of s] classify_decimal [OF assms]
    by (simp add: classify_word_or_number.simps [of "CHR ''-'' # s"] prefixed_all_def)
qed

lemma classify_display_i64:
  "classify_word_or_number (display_i64 v) sp = Ok (TokInt v Decimal (display_i64 v))"
proof -
  have "word_of_int (sint v) = v" "- word_of_int (- sint v) = v" by simp_all
  then show ?thesis
    by (simp add: display_i64_def classify_decimal classify_negative display_nat_digits
        decimal_value_display_nat)
qed

lemma plain_word_display_i64: "plain_word (display_i64 v)"
proof -
  have plain: "plain_word s \<and> plain_word (CHR ''-'' # s)" if "list_all is_ascii_digit s" "s \<noteq> []" for s
  proof -
    have "list_all (\<lambda>c. \<not> is_ws c) s" "list_all is_ascii s"
      using that by (auto simp: list_all_iff is_ascii_digit_def is_ws_def is_ascii_def)
    moreover have "\<not> list_ex (\<lambda>p. starts_with p s) quote_prefixes"
      "\<not> list_ex (\<lambda>p. starts_with p (CHR ''-'' # s)) quote_prefixes"
      using that by (cases s; auto simp: quote_prefixes_def starts_with_def is_ascii_digit_def)+
    moreover have "\<not> eq_ignore_ascii_case s ''let''" "\<not> eq_ignore_ascii_case (CHR ''-'' # s) ''let''"
      using that by (cases s; auto simp: eq_ignore_ascii_case_def to_ascii_lowercase_def ascii_lower_def
          is_ascii_digit_def is_ascii_uppercase_def)+
    ultimately show ?thesis using that
      by (cases s) (auto simp: plain_word_def utf8_valid_ascii is_ws_def is_ascii_digit_def is_ascii_def)
  qed
  show ?thesis using plain [OF display_nat_digits display_nat_not_Nil] by (simp add: display_i64_def)
qed

text \<open>
  C20. Round trip of integer literals: the decimal text of any 64-bit integer, the most
  negative one included, is tokenised into one integer token of that value.
\<close>

theorem lex_display_i64:
  "\<exists>t. lex (display_i64 v) = Ok [t] \<and> tok_kind t = TokInt v Decimal (display_i64 v)"
proof -
  have "\<exists>ts. lex_loop (lexer_new (display_i64 v)) = Ok ts \<and> map tok_kind ts = [TokInt v Decimal (display_i64 v)]"
    by (rule lex_loop_words [where ps = "[('''', display_i64 v)]" and trail = "''''"])
      (auto simp: plain_word_display_i64 classify_display_i64 layout_def)
  then show ?thesis by (auto simp: lex_def)
qed

section \<open>String literals\<close>

definition quote_openers :: "(string \<times> string_kind) list" where
  "quote_openers =
     zip quote_prefixes [SDollarQuote, SDollarQuote, DotQuote, SQuote, SQuote, CQuote, CQuote]"

lemma quote_openers_cases:
  assumes "(pre, kind) \<in> set quote_openers" "ahead lx = pre @ rest"
  shows "next_token lx = lex_string kind (length pre) (lexer_pos lx) lx" "is_ws (hd pre) \<longrightarrow> False"
proof -
  have nws: "\<not> is_ws (hd pre)"
    using assms(1) by (auto simp: quote_openers_def quote_prefixes_def is_ws_def)
  then show "is_ws (hd pre) \<longrightarrow> False" by simp
  have pre: "pre \<noteq> []" using assms(1) by (auto simp: quote_openers_def quote_prefixes_def)
  then have "peek lx = Some (hd pre)" using assms(2) by (cases pre) (auto simp: peek_ahead)
  moreover from this nws have skip: "skip_ws lx = lx"
    by (simp add: skip_ws_def bump_while.simps)
  moreover have "hd pre \<notin> {CHR 0x5C, CHR ''('', CHR 0x27}"
    using assms(1) by (auto simp: quote_openers_def quote_prefixes_def)
  ultimately have "next_token lx = lex_quoted_or_word (lexer_pos lx) lx"
    by (simp add: next_token_def Let_def)
  also have "\<dots> = lex_string kind (length pre) (lexer_pos lx) lx"
    using assms(1) unfolding quote_openers_def quote_prefixes_def
    by (simp, elim disjE; simp add: assms(2) lex_quoted_or_word_def peek2_ahead peek3_ahead
        numeral_2_eq_2 numeral_3_eq_3 split: list.split)
  finally show "next_token lx = lex_string kind (length pre) (lexer_pos lx) lx" .
qed

lemma read_quoted_string_ahead:
  assumes "CHR 0x22 \<notin> set body" "utf8_valid body"
  shows "ahead lx = body @ CHR 0x22 # rest \<Longrightarrow>
      \<exists>lx'. read_quoted_string kind p lx = Ok (body, lx') \<and> ahead lx' = rest"
    and "ahead lx = body \<Longrightarrow>
      \<exists>q. read_quoted_string kind p lx = Err (UnterminatedString (string_kind_name kind) (mk_span p q))"
proof -
  have "takeWhile (\<lambda>b. b \<noteq> CHR 0x22) (body @ CHR 0x22 # r) = body"
    "dropWhile (\<lambda>b. b \<noteq> CHR 0x22) (body @ CHR 0x22 # r) = CHR 0x22 # r"
    "dropWhile (\<lambda>b. b \<noteq> CHR 0x22) body = []" for r
    using assms(1) by (induction body) auto
  note split = this
  show "\<exists>lx'. read_quoted_string kind p lx = Ok (body, lx') \<and> ahead lx' = rest"
    if "ahead lx = body @ CHR 0x22 # rest"
    using assms(2) that split by (simp add: read_quoted_string_def Let_def peek_ahead)
  show "\<exists>q. read_quoted_string kind p lx = Err (UnterminatedString (string_kind_name kind) (mk_span p q))"
    if "ahead lx = body"
  proof -
    have "peek (bump_while (\<lambda>b. b \<noteq> CHR 0x22) lx) = None" by (simp only: peek_ahead ahead_bump_while that split(3) get_Nil)
    then show ?thesis by (simp add: read_quoted_string_def Let_def)
  qed
qed

lemma ahead_skip_sep: "ahead lx = CHR '' '' # rest \<Longrightarrow> ahead (skip_sep lx) = rest"
  by (simp add: skip_sep_def peek_ahead)

lemma lexer_pos_new: "lexer_pos (lexer_new source) = START"
  by (simp add: lexer_pos_def lexer_new_def START_def)

text \<open>
  String literals: for each of the quote prefixes, the text up to the closing
  quote becomes one string token whose body is the text as written, and without a closing
  quote the lexer reports the unterminated string, opened where the prefix stands.
\<close>

lemma lex_string_literals:
  assumes "(pre, kind) \<in> set quote_openers" "CHR 0x22 \<notin> set body" "utf8_valid body"
  shows "(\<exists>t. lex (pre @ '' '' @ body @ [CHR 0x22]) = Ok [t] \<and> tok_kind t = TokStr body kind)
    \<and> (\<exists>q. lex (pre @ '' '' @ body) = Err (UnterminatedString (string_kind_name kind) (mk_span START q)))"
proof (intro conjI)
  let ?lx = "lexer_new (pre @ '' '' @ body @ [CHR 0x22])"
  have step: "next_token ?lx = lex_string kind (length pre) START ?lx"
    using quote_openers_cases(1) [OF assms(1), of ?lx] by (simp add: lexer_pos_new)
  let ?s = "skip_sep ((bump ^^ length pre) ?lx)"
  have "ahead ?s = body @ CHR 0x22 # []" by (rule ahead_skip_sep) simp
  then obtain lx' where "read_quoted_string kind START ?s = Ok (body, lx')" "ahead lx' = []"
    using read_quoted_string_ahead(1) [OF assms(2,3)] by blast
  then have "next_token ?lx = Ok (Some (mk_token (TokStr body kind) START (lexer_pos lx'), lx'))"
    and "lex_loop lx' = Ok []"
    unfolding step by (simp_all add: lex_string_def forth_lexer.drive_stop next_token_blank)
  then show "\<exists>t. lex (pre @ '' '' @ body @ [CHR 0x22]) = Ok [t] \<and> tok_kind t = TokStr body kind"
    unfolding lex_def using forth_lexer.drive_step by fastforce
next
  let ?lx = "lexer_new (pre @ '' '' @ body)"
  have step: "next_token ?lx = lex_string kind (length pre) START ?lx"
    using quote_openers_cases(1) [OF assms(1), of ?lx] by (simp add: lexer_pos_new)
  let ?s = "skip_sep ((bump ^^ length pre) ?lx)"
  have "ahead ?s = body" by (rule ahead_skip_sep) simp
  then obtain q where
    "read_quoted_string kind START ?s = Err (UnterminatedString (string_kind_name kind) (mk_span START q))"
    using read_quoted_string_ahead(2) [OF assms(2,3)] by blast
  then have "next_token ?lx = Err (UnterminatedString (string_kind_name kind) (mk_span START q))"
    unfolding step by (simp add: lex_string_def)
  then show "\<exists>q. lex (pre @ '' '' @ body) = Err (UnterminatedString (string_kind_name kind) (mk_span START q))"
    unfolding lex_def using forth_lexer.drive_error by blast
qed

theorem lex_string_literals_witness:
  "(\<exists>t. lex ([CHR ''S'', CHR 0x22] @ '' '' @ ''hi there'' @ [CHR 0x22]) = Ok [t] \<and> tok_kind t = TokStr ''hi there'' SQuote)
    \<and> (\<exists>q. lex ([CHR ''S'', CHR 0x22] @ '' '' @ ''hi there'') = Err (UnterminatedString (string_kind_name SQuote) (mk_span START q)))"
  by (rule lex_string_literals) code_simp+

end
