(* ===== verification/Let_Syntax.thy ===== *)
theory Let_Syntax
  imports Rust_Text Float64
begin

text \<open>
  The LET language (\<^verbatim>\<open>src/compiler/let_lang/parser.rs\<close>): its syntax trees, its lexer and
  its recursive-descent parser. The parser pulls tokens from the lexer one at a time, as
  the source does, so that an error of the lexer is reported only when the parser reaches
  it.
\<close>

section \<open>Syntax trees\<close>

datatype bin_op = Add | Sub | Mul | Div | Pow | EqOp | NeOp | LtOp | GtOp | LeOp | GeOp

datatype let_expr =
    LLit f64
  | LVar string
  | LBin bin_op let_expr let_expr
  | LNeg let_expr
  | LCall string "let_expr list"

record destructure_clause =
  dc_class :: string
  dc_slots :: "string list"

record let_input =
  li_name :: string
  li_destructure :: "destructure_clause option"

record let_form =
  lf_inputs :: "let_input list"
  lf_outputs :: "string list"
  lf_results :: "let_expr list"
  lf_wheres :: "(string \<times> let_expr) list"

definition let_input_plain :: "string \<Rightarrow> let_input" where
  "let_input_plain name = \<lparr>li_name = name, li_destructure = None\<rparr>"

section \<open>Lexer\<close>

datatype let_tok =
    LParen | RParen | Comma | Equals | Arrow
  | Plus | Minus | Star | Slash | StarStar
  | EqEq | NotEq | Less | Greater | LessEq | GreaterEq
  | Colon
  | LetKw | EndKw | WhereKw | AsKw
  | Ident string
  | Num f64
  | Eof

text \<open>
  \<^verbatim>\<open>LetError\<close> carries a text and a byte position. The texts that quote a token with the
  debug formatter are represented by a constructor with that token.
\<close>

datatype let_message =
    StrayBang
  | NonUtf8Identifier
  | LoneDot
  | InvalidNumber string
  | UnexpectedCharacter char
  | ExpectedGot let_tok let_tok
  | ExpectedIdentOrRParen let_tok
  | ExpectedIdentifier let_tok
  | ExpectedClassName let_tok
  | AsRequiresSlot
  | WhereExpectsIdentifier let_tok
  | OutputCount nat nat
  | UnexpectedInExpression let_tok
  | TrailingTokens let_tok

record let_error =
  le_message :: let_message
  le_pos :: usize

abbreviation mk_let_error :: "let_message \<Rightarrow> usize \<Rightarrow> let_error" where
  "mk_let_error m p \<equiv> \<lparr>le_message = m, le_pos = p\<rparr>"

definition let_is_ws :: "char \<Rightarrow> bool" where
  "let_is_ws c \<longleftrightarrow> c = CHR '' '' \<or> c = CHR 0x09 \<or> c = CHR 0x0A \<or> c = CHR 0x0D"

text \<open>
  The lexer works on the unread suffix of the source; a position is recovered as the
  length of the source less the length of the suffix. A line comment starts at a backslash
  followed by a blank or by the end of the text.
\<close>

definition at_let_comment :: "string \<Rightarrow> bool" where
  "at_let_comment s \<longleftrightarrow>
     (case s of [] \<Rightarrow> False
      | c # cs \<Rightarrow> c = CHR 0x5C \<and> (case cs of [] \<Rightarrow> True | d # _ \<Rightarrow> let_is_ws d))"

function let_skip_ws :: "string \<Rightarrow> string" where
  "let_skip_ws s =
     (let t = dropWhile let_is_ws s in
      if at_let_comment t then let_skip_ws (dropWhile (\<lambda>c. c \<noteq> CHR 0x0A) t) else t)"
  by pat_completeness auto
termination
proof (relation "measure length")
  fix s t :: string
  assume t: "t = dropWhile let_is_ws s" and c: "at_let_comment t"
  then obtain u where "t = CHR 0x5C # u" by (auto simp: at_let_comment_def split: list.splits)
  then have "length (dropWhile (\<lambda>c. c \<noteq> CHR 0x0A) t) < length t"
    using length_dropWhile_le [of "\<lambda>c. c \<noteq> CHR 0x0A" u] by simp
  also have "length t \<le> length s" unfolding t by (rule length_dropWhile_le)
  finally show "(dropWhile (\<lambda>c. c \<noteq> CHR 0x0A) t, s) \<in> measure length" by simp
qed simp

declare let_skip_ws.simps [simp del]

definition is_ident_start :: "char \<Rightarrow> bool" where
  "is_ident_start c \<longleftrightarrow> is_ascii_alphabetic c \<or> c = CHR ''_''"

definition is_ident_char :: "char \<Rightarrow> bool" where
  "is_ident_char c \<longleftrightarrow> is_ascii_alphanumeric c \<or> c = CHR ''_''"

definition keyword_or_ident :: "string \<Rightarrow> let_tok" where
  "keyword_or_ident w =
     (if eq_ignore_ascii_case w ''let'' then LetKw
      else if eq_ignore_ascii_case w ''end'' then EndKw
      else if eq_ignore_ascii_case w ''where'' then WhereKw
      else if eq_ignore_ascii_case w ''as'' then AsKw
      else Ident w)"

text \<open>The extent of a number: digits, one dot, and exponent markers with an optional sign.\<close>

fun number_len :: "bool \<Rightarrow> string \<Rightarrow> nat" where
  "number_len has_dot [] = 0"
| "number_len has_dot (c # cs) =
     (if is_ascii_digit c then Suc (number_len has_dot cs)
      else if c = CHR ''.'' \<and> \<not> has_dot then Suc (number_len True cs)
      else if c = CHR ''e'' \<or> c = CHR ''E'' then
        (case cs of
           d # ds \<Rightarrow> if d = CHR ''+'' \<or> d = CHR ''-'' then Suc (Suc (number_len has_dot ds))
                     else Suc (number_len has_dot cs)
         | [] \<Rightarrow> Suc 0)
      else 0)"

text \<open>
  One token from a suffix that starts with neither white space nor a comment; \<open>p\<close> is the
  position of its first byte. The answer is the token and the rest of the text.
\<close>

definition two_char :: "char \<Rightarrow> let_tok \<Rightarrow> let_tok \<Rightarrow> string \<Rightarrow> let_tok \<times> string" where
  "two_char c long short cs = (if cs \<noteq> [] \<and> hd cs = c then (long, tl cs) else (short, cs))"

definition let_scan :: "nat \<Rightarrow> char \<Rightarrow> string \<Rightarrow> (let_error, let_tok \<times> string) outcome" where
  "let_scan p c cs =
     (if c = CHR ''('' then Ok (LParen, cs)
      else if c = CHR '')'' then Ok (RParen, cs)
      else if c = CHR '','' then Ok (Comma, cs)
      else if c = CHR ''='' then Ok (two_char (CHR ''='') EqEq Equals cs)
      else if c = CHR ''!'' then
        (if cs \<noteq> [] \<and> hd cs = CHR ''='' then Ok (NotEq, tl cs) else Err (mk_let_error StrayBang p))
      else if c = CHR ''<'' then Ok (two_char (CHR ''='') LessEq Less cs)
      else if c = CHR ''>'' then Ok (two_char (CHR ''='') GreaterEq Greater cs)
      else if c = CHR ''+'' then Ok (Plus, cs)
      else if c = CHR ''-'' then Ok (two_char (CHR ''>'') Arrow Minus cs)
      else if c = CHR ''*'' then Ok (two_char (CHR ''*'') StarStar Star cs)
      else if c = CHR ''/'' then Ok (Slash, cs)
      else if c = CHR '':'' then Ok (Colon, cs)
      else if c = CHR ''^'' then Ok (StarStar, cs)
      else if is_ident_start c then
        (let w = c # takeWhile is_ident_char cs in
         case from_utf8 w of
           None \<Rightarrow> Err (mk_let_error NonUtf8Identifier p)
         | Some w' \<Rightarrow> Ok (keyword_or_ident w', dropWhile is_ident_char cs))
      else if is_ascii_digit c \<or> c = CHR ''.'' then
        (let n = number_len False (c # cs) in
         if n = 1 \<and> c = CHR ''.'' then Err (mk_let_error LoneDot p)
         else case from_utf8 (take n (c # cs)) of
           None \<Rightarrow> Panic
         | Some s \<Rightarrow>
             (case parse_f64 s of
                None \<Rightarrow> Err (mk_let_error (InvalidNumber s) p)
              | Some v \<Rightarrow> Ok (Num v, drop n (c # cs))))
      else Err (mk_let_error (UnexpectedCharacter c) p))"

text \<open>\<^verbatim>\<open>Lexer::next_tok\<close>: the token, its position and the unread rest.\<close>

definition next_tok :: "nat \<Rightarrow> string \<Rightarrow> (let_error, let_tok \<times> nat \<times> string) outcome" where
  "next_tok len s =
     (let t = let_skip_ws s; start = len - length t in
      case t of
        [] \<Rightarrow> Ok (Eof, start, [])
      | c # cs \<Rightarrow> and_then (let_scan start c cs) (\<lambda>(tok, rest). Ok (tok, start, rest)))"

section \<open>Parser\<close>

text \<open>\<^verbatim>\<open>Parser\<close>: the length of the source, the unread suffix and the current token.\<close>

record let_parser =
  lp_total :: nat
  lp_rest :: string
  lp_cur :: let_tok
  lp_cur_pos :: nat

definition let_parser_new :: "string \<Rightarrow> (let_error, let_parser) outcome" where
  "let_parser_new src =
     and_then (next_tok (length src) src)
       (\<lambda>(tok, p, rest). Ok \<lparr>lp_total = length src, lp_rest = rest, lp_cur = tok, lp_cur_pos = p\<rparr>)"

definition let_bump :: "let_parser \<Rightarrow> (let_error, let_parser) outcome" where
  "let_bump s =
     and_then (next_tok (lp_total s) (lp_rest s))
       (\<lambda>(tok, p, rest). Ok (s\<lparr>lp_rest := rest, lp_cur := tok, lp_cur_pos := p\<rparr>))"

definition let_fail :: "let_message \<Rightarrow> let_parser \<Rightarrow> (let_error, 'a) outcome" where
  "let_fail m s = Err (mk_let_error m (lp_cur_pos s))"

text \<open>\<^verbatim>\<open>expect\<close> compares discriminants only; it is never called with a token that carries data.\<close>

definition let_expect :: "let_tok \<Rightarrow> let_parser \<Rightarrow> (let_error, let_parser) outcome" where
  "let_expect t s = (if lp_cur s = t then let_bump s else let_fail (ExpectedGot t (lp_cur s)) s)"

fun compare_op :: "let_tok \<Rightarrow> bin_op option" where
  "compare_op Less = Some LtOp"
| "compare_op Greater = Some GtOp"
| "compare_op LessEq = Some LeOp"
| "compare_op GreaterEq = Some GeOp"
| "compare_op EqEq = Some EqOp"
| "compare_op NotEq = Some NeOp"
| "compare_op _ = None"

fun add_op :: "let_tok \<Rightarrow> bin_op option" where
  "add_op Plus = Some Add"
| "add_op Minus = Some Sub"
| "add_op _ = None"

fun mul_op :: "let_tok \<Rightarrow> bin_op option" where
  "mul_op Star = Some Mul"
| "mul_op Slash = Some Div"
| "mul_op _ = None"

text \<open>
  The expression grammar. \<open>rec\<close> is the parser of the enclosed expressions, which
  \<open>let_parse_expr\<close> ties to \<^verbatim>\<open>parse_expr\<close> itself; the number bounds the iterations of a loop and
  the depth of the recursion, and a theorem below shows that \<open>let_fuel\<close> is always enough.
  A function whose name ends in \<open>loop\<close> is the loop of the function after it, with the left
  operand read so far.
\<close>

type_synonym 'a let_reader = "let_parser \<Rightarrow> (let_error, 'a \<times> let_parser) outcome"

fun let_exprs :: "let_expr let_reader \<Rightarrow> nat \<Rightarrow> let_expr list let_reader" where
  "let_exprs rec 0 s = OutOfFuel"
| "let_exprs rec (Suc n) s =
     and_then (rec s) (\<lambda>(e, s1).
     if lp_cur s1 = Comma then
       and_then (let_bump s1) (\<lambda>s2.
       and_then (let_exprs rec n s2) (\<lambda>(es, s3). Ok (e # es, s3)))
     else Ok ([e], s1))"

definition let_primary :: "let_expr let_reader \<Rightarrow> nat \<Rightarrow> let_expr let_reader" where
  "let_primary rec n s =
     and_then (let_bump s) (\<lambda>s1.
     case lp_cur s of
       Num v \<Rightarrow> Ok (LLit v, s1)
     | Ident name \<Rightarrow>
         if lp_cur s1 = LParen then
           and_then (let_bump s1) (\<lambda>s2.
           and_then (if lp_cur s2 = RParen then Ok ([], s2) else let_exprs rec n s2) (\<lambda>(args, s3).
           and_then (let_expect RParen s3) (\<lambda>s4. Ok (LCall name args, s4))))
         else Ok (LVar name, s1)
     | LParen \<Rightarrow>
         and_then (rec s1) (\<lambda>(e, s2).
         and_then (let_expect RParen s2) (\<lambda>s3. Ok (e, s3)))
     | other \<Rightarrow> Err (mk_let_error (UnexpectedInExpression other) (lp_cur_pos s)))"

fun let_unary :: "let_expr let_reader \<Rightarrow> nat \<Rightarrow> let_expr let_reader" where
  "let_unary rec 0 s = OutOfFuel"
| "let_unary rec (Suc n) s =
     (if lp_cur s = Minus then
        and_then (let_bump s) (\<lambda>s1.
        and_then (let_unary rec n s1) (\<lambda>(e, s2). Ok (LNeg e, s2)))
      else let_primary rec (Suc n) s)"

fun let_pow :: "let_expr let_reader \<Rightarrow> nat \<Rightarrow> let_expr let_reader" where
  "let_pow rec 0 s = OutOfFuel"
| "let_pow rec (Suc n) s =
     and_then (let_unary rec (Suc n) s) (\<lambda>(lhs, s1).
     if lp_cur s1 = StarStar then
       and_then (let_bump s1) (\<lambda>s2.
       and_then (let_pow rec n s2) (\<lambda>(rhs, s3). Ok (LBin Pow lhs rhs, s3)))
     else Ok (lhs, s1))"

fun let_mul_loop :: "let_expr let_reader \<Rightarrow> nat \<Rightarrow> let_expr \<Rightarrow> let_expr let_reader" where
  "let_mul_loop rec 0 lhs s = OutOfFuel"
| "let_mul_loop rec (Suc n) lhs s =
     (case mul_op (lp_cur s) of
        None \<Rightarrow> Ok (lhs, s)
      | Some op \<Rightarrow>
          and_then (let_bump s) (\<lambda>s1.
          and_then (let_pow rec (Suc n) s1) (\<lambda>(rhs, s2).
          let_mul_loop rec n (LBin op lhs rhs) s2)))"

definition let_mul :: "let_expr let_reader \<Rightarrow> nat \<Rightarrow> let_expr let_reader" where
  "let_mul rec n s = and_then (let_pow rec n s) (\<lambda>(lhs, s'). let_mul_loop rec n lhs s')"

fun let_add_loop :: "let_expr let_reader \<Rightarrow> nat \<Rightarrow> let_expr \<Rightarrow> let_expr let_reader" where
  "let_add_loop rec 0 lhs s = OutOfFuel"
| "let_add_loop rec (Suc n) lhs s =
     (case add_op (lp_cur s) of
        None \<Rightarrow> Ok (lhs, s)
      | Some op \<Rightarrow>
          and_then (let_bump s) (\<lambda>s1.
          and_then (let_mul rec (Suc n) s1) (\<lambda>(rhs, s2).
          let_add_loop rec n (LBin op lhs rhs) s2)))"

definition let_add :: "let_expr let_reader \<Rightarrow> nat \<Rightarrow> let_expr let_reader" where
  "let_add rec n s = and_then (let_mul rec n s) (\<lambda>(lhs, s'). let_add_loop rec n lhs s')"

fun let_compare_loop :: "let_expr let_reader \<Rightarrow> nat \<Rightarrow> let_expr \<Rightarrow> let_expr let_reader" where
  "let_compare_loop rec 0 lhs s = OutOfFuel"
| "let_compare_loop rec (Suc n) lhs s =
     (case compare_op (lp_cur s) of
        None \<Rightarrow> Ok (lhs, s)
      | Some op \<Rightarrow>
          and_then (let_bump s) (\<lambda>s1.
          and_then (let_add rec (Suc n) s1) (\<lambda>(rhs, s2).
          let_compare_loop rec n (LBin op lhs rhs) s2)))"

definition let_compare :: "let_expr let_reader \<Rightarrow> nat \<Rightarrow> let_expr let_reader" where
  "let_compare rec n s = and_then (let_add rec n s) (\<lambda>(lhs, s'). let_compare_loop rec n lhs s')"

fun let_parse_expr :: "nat \<Rightarrow> let_expr let_reader" where
  "let_parse_expr 0 s = OutOfFuel"
| "let_parse_expr (Suc n) s = let_compare (let_parse_expr n) (Suc n) s"

text \<open>The name lists and the form; they use the same budget.\<close>

fun let_outputs :: "nat \<Rightarrow> let_parser \<Rightarrow> (let_error, string list \<times> let_parser) outcome" where
  "let_outputs 0 s = OutOfFuel"
| "let_outputs (Suc n) s =
     (case lp_cur s of
        Comma \<Rightarrow> and_then (let_bump s) (\<lambda>s1. let_outputs n s1)
      | RParen \<Rightarrow> Ok ([], s)
      | Ident name \<Rightarrow>
          and_then (let_bump s) (\<lambda>s1.
          and_then (let_outputs n s1) (\<lambda>(names, s2). Ok (name # names, s2)))
      | other \<Rightarrow> let_fail (ExpectedIdentOrRParen other) s)"

fun let_slots :: "nat \<Rightarrow> let_parser \<Rightarrow> (let_error, string list \<times> let_parser) outcome" where
  "let_slots 0 s = OutOfFuel"
| "let_slots (Suc n) s =
     (case lp_cur s of
        Ident name \<Rightarrow>
          and_then (let_bump s) (\<lambda>s1.
          and_then (let_slots n s1) (\<lambda>(names, s2). Ok (name # names, s2)))
      | _ \<Rightarrow> Ok ([], s))"

definition let_destructure ::
  "nat \<Rightarrow> let_parser \<Rightarrow> (let_error, destructure_clause option \<times> let_parser) outcome" where
  "let_destructure n s =
     (if lp_cur s = Colon then
        and_then (let_bump s) (\<lambda>s1.
        case lp_cur s1 of
          Ident cls \<Rightarrow>
            and_then (let_bump s1) (\<lambda>s2.
            if lp_cur s2 = AsKw then
              and_then (let_bump s2) (\<lambda>s3.
              and_then (let_slots n s3) (\<lambda>(slots, s4).
              if slots = [] then let_fail AsRequiresSlot s4
              else Ok (Some \<lparr>dc_class = cls, dc_slots = slots\<rparr>, s4)))
            else Ok (Some \<lparr>dc_class = cls, dc_slots = []\<rparr>, s2))
        | other \<Rightarrow> let_fail (ExpectedClassName other) s1)
      else Ok (None, s))"

fun let_inputs :: "nat \<Rightarrow> let_parser \<Rightarrow> (let_error, let_input list \<times> let_parser) outcome" where
  "let_inputs 0 s = OutOfFuel"
| "let_inputs (Suc n) s =
     (case lp_cur s of
        Comma \<Rightarrow> and_then (let_bump s) (\<lambda>s1. let_inputs n s1)
      | RParen \<Rightarrow> Ok ([], s)
      | Ident name \<Rightarrow>
          and_then (let_bump s) (\<lambda>s1.
          and_then (let_destructure n s1) (\<lambda>(d, s2).
          and_then (let_inputs n s2) (\<lambda>(ins, s3).
          Ok (\<lparr>li_name = name, li_destructure = d\<rparr> # ins, s3))))
      | other \<Rightarrow> let_fail (ExpectedIdentifier other) s)"

fun let_wheres :: "nat \<Rightarrow> let_parser \<Rightarrow> (let_error, (string \<times> let_expr) list \<times> let_parser) outcome" where
  "let_wheres 0 s = OutOfFuel"
| "let_wheres (Suc n) s =
     (if lp_cur s = WhereKw then
        and_then (let_bump s) (\<lambda>s1.
        case lp_cur s1 of
          Ident name \<Rightarrow>
            and_then (let_bump s1) (\<lambda>s2.
            and_then (let_expect Equals s2) (\<lambda>s3.
            and_then (let_parse_expr n s3) (\<lambda>(e, s4).
            and_then (let_wheres n s4) (\<lambda>(ws, s5). Ok ((name, e) # ws, s5)))))
        | other \<Rightarrow> let_fail (WhereExpectsIdentifier other) s1)
      else Ok ([], s))"

definition let_parse_form :: "nat \<Rightarrow> let_parser \<Rightarrow> (let_error, let_form \<times> let_parser) outcome" where
  "let_parse_form n s =
     and_then (let_expect LetKw s) (\<lambda>s.
     and_then (let_expect LParen s) (\<lambda>s.
     and_then (let_inputs n s) (\<lambda>(inputs, s).
     and_then (let_expect RParen s) (\<lambda>s.
     and_then (let_expect Arrow s) (\<lambda>s.
     and_then (let_expect LParen s) (\<lambda>s.
     and_then (let_outputs n s) (\<lambda>(outputs, s).
     and_then (let_expect RParen s) (\<lambda>s.
     and_then (let_expect Equals s) (\<lambda>s.
     and_then (let_exprs (let_parse_expr n) n s) (\<lambda>(results, s).
     and_then (let_wheres n s) (\<lambda>(wheres, s).
     and_then (let_expect EndKw s) (\<lambda>s.
     if length outputs \<noteq> length results
     then Err (mk_let_error (OutputCount (length outputs) (length results)) 0)
     else Ok (\<lparr>lf_inputs = inputs, lf_outputs = outputs, lf_results = results, lf_wheres = wheres\<rparr>, s)))))))))))))"

definition let_fuel :: "string \<Rightarrow> nat" where
  "let_fuel src = length src + 2"

definition let_parse :: "string \<Rightarrow> (let_error, let_form) outcome" where
  "let_parse src =
     and_then (let_parser_new src) (\<lambda>s.
     and_then (let_parse_form (let_fuel src) s) (\<lambda>(form, s').
     if lp_cur s' \<noteq> Eof then let_fail (TrailingTokens (lp_cur s')) s' else Ok form))"

end
