(* ===== verification/Ast.thy ===== *)
theory Ast
  imports Lexer Let_Syntax
begin

text \<open>
  The abstract syntax of a Forth program (\<^verbatim>\<open>src/compiler/ast.rs\<close>): structures are records
  whose fields carry a prefix for the structure, enumerations are datatypes with the
  constructors of the source.
\<close>

section \<open>Expressions\<close>

record local_decl =
  ld_name :: string
  ld_name_span :: span

record stack_effect =
  se_inputs :: "string list"
  se_outputs :: "string list"
  se_span :: span

datatype loop_kind = Plus1 | PlusN

datatype literal =
    IntLit i64 span
  | FloatLit f64 span
  | StrLit string string_kind span

datatype expr =
    Lit literal
  | WordRef string span
  | If "expr list" "expr list option" span
  | BeginUntil "expr list" span
  | BeginWhileRepeat "expr list" "expr list" span
  | BeginAgain "expr list" span
  | DoLoop bool "expr list" loop_kind span
  | Case "case_arm list" "expr list option" span
  | Tick string span
  | To string span
  | See string span
  | LetForm let_form span
  | Locals "local_decl list" span
and case_arm = CaseArm (match_expr: "expr list") (arm_body: "expr list") (arm_span: span)

fun literal_span :: "literal \<Rightarrow> span" where
  "literal_span (IntLit _ sp) = sp"
| "literal_span (FloatLit _ sp) = sp"
| "literal_span (StrLit _ _ sp) = sp"

fun expr_span :: "expr \<Rightarrow> span" where
  "expr_span (Lit l) = literal_span l"
| "expr_span (WordRef _ sp) = sp"
| "expr_span (If _ _ sp) = sp"
| "expr_span (BeginUntil _ sp) = sp"
| "expr_span (BeginWhileRepeat _ _ sp) = sp"
| "expr_span (BeginAgain _ sp) = sp"
| "expr_span (DoLoop _ _ _ sp) = sp"
| "expr_span (Case _ _ sp) = sp"
| "expr_span (Tick _ sp) = sp"
| "expr_span (To _ sp) = sp"
| "expr_span (See _ sp) = sp"
| "expr_span (LetForm _ sp) = sp"
| "expr_span (Locals _ sp) = sp"

text \<open>
  The spans of the word references of a sequence, in order. The recursion of this function is the
  traversal that the passes share; its induction rule is used for all of them.
\<close>

fun word_spans :: "expr list \<Rightarrow> span list"
  and word_spans_opt :: "expr list option \<Rightarrow> span list"
  and word_spans_expr :: "expr \<Rightarrow> span list"
  and word_spans_arms :: "case_arm list \<Rightarrow> span list" where
  "word_spans [] = []"
| "word_spans (e # es) = word_spans_expr e @ word_spans es"
| "word_spans_opt None = []"
| "word_spans_opt (Some es) = word_spans es"
| "word_spans_expr (WordRef w sp) = [sp]"
| "word_spans_expr (If t eb sp) = word_spans t @ word_spans_opt eb"
| "word_spans_expr (BeginUntil b sp) = word_spans b"
| "word_spans_expr (BeginAgain b sp) = word_spans b"
| "word_spans_expr (BeginWhileRepeat p b sp) = word_spans p @ word_spans b"
| "word_spans_expr (DoLoop q b k sp) = word_spans b"
| "word_spans_expr (Case arms d sp) = word_spans_arms arms @ word_spans_opt d"
| "word_spans_expr e = []"
| "word_spans_arms [] = []"
| "word_spans_arms (CaseArm mt b sp # arms) = word_spans mt @ word_spans b @ word_spans_arms arms"

lemmas expr_induct [case_names Nil Cons None Some WordRef If Until Again While Do Case Lit Tick To See Let Locals NilA ConsA] =
  word_spans_word_spans_opt_word_spans_expr_word_spans_arms.induct

text \<open>The word references of a sequence with their names, in order.\<close>

fun word_refs :: "expr list \<Rightarrow> (string \<times> span) list"
  and word_refs_opt :: "expr list option \<Rightarrow> (string \<times> span) list"
  and word_refs_expr :: "expr \<Rightarrow> (string \<times> span) list"
  and word_refs_arms :: "case_arm list \<Rightarrow> (string \<times> span) list" where
  "word_refs [] = []"
| "word_refs (e # es) = word_refs_expr e @ word_refs es"
| "word_refs_opt None = []"
| "word_refs_opt (Some es) = word_refs es"
| "word_refs_expr (WordRef w sp) = [(w, sp)]"
| "word_refs_expr (If t eb sp) = word_refs t @ word_refs_opt eb"
| "word_refs_expr (BeginUntil b sp) = word_refs b"
| "word_refs_expr (BeginAgain b sp) = word_refs b"
| "word_refs_expr (BeginWhileRepeat p b sp) = word_refs p @ word_refs b"
| "word_refs_expr (DoLoop q b k sp) = word_refs b"
| "word_refs_expr (Case arms d sp) = word_refs_arms arms @ word_refs_opt d"
| "word_refs_expr e = []"
| "word_refs_arms [] = []"
| "word_refs_arms (CaseArm mt b sp # arms) = word_refs mt @ word_refs b @ word_refs_arms arms"

lemma word_refs_append [simp]: "word_refs (xs @ ys) = word_refs xs @ word_refs ys"
  by (induction xs) auto

text \<open>The expressions that contain no others.\<close>

fun atomic :: "expr \<Rightarrow> bool" where
  "atomic (If _ _ _) = False"
| "atomic (BeginUntil _ _) = False"
| "atomic (BeginWhileRepeat _ _ _) = False"
| "atomic (BeginAgain _ _) = False"
| "atomic (DoLoop _ _ _ _) = False"
| "atomic (Case _ _ _) = False"
| "atomic _ = True"

section \<open>Items\<close>

record colon_def =
  cd_name :: string
  cd_name_span :: span
  cd_effect :: "stack_effect option"
  cd_locals :: "local_decl list"
  cd_body :: "expr list"
  cd_span :: span

record variable_def =
  vd_name :: string
  vd_name_span :: span
  vd_span :: span

record value_def =
  val_name :: string
  val_name_span :: span
  val_initial :: "expr list"
  val_span :: span

datatype const_flavour = CellFlavour | FloatFlavour

datatype const_value = ConstInt i64 | ConstFloat f64 | ConstComputed "expr list"

record constant_def =
  con_name :: string
  con_name_span :: span
  con_value :: const_value
  con_span :: span
  con_flavour :: const_flavour

fun as_int :: "const_value \<Rightarrow> i64 option" where
  "as_int (ConstInt v) = Some v"
| "as_int _ = None"

fun as_float :: "const_value \<Rightarrow> f64 option" where
  "as_float (ConstFloat v) = Some v"
| "as_float _ = None"

record create_def =
  cr_name :: string
  cr_name_span :: span
  cr_allotted_bytes :: u32
  cr_span :: span

datatype collection_kind = Array | FArray | CBuffer

fun elt_size :: "collection_kind \<Rightarrow> u32" where
  "elt_size Array = 8"
| "elt_size FArray = 8"
| "elt_size CBuffer = 1"

fun collection_keyword :: "collection_kind \<Rightarrow> string" where
  "collection_keyword Array = ''array''"
| "collection_keyword FArray = ''farray''"
| "collection_keyword CBuffer = ''cbuffer''"

record collection_def =
  col_name :: string
  col_name_span :: span
  col_kind :: collection_kind
  col_count :: u32
  col_span :: span

record template_def =
  td_name :: string
  td_name_span :: span
  td_effect :: "stack_effect option"
  td_constructor :: "expr list"
  td_does_body :: "expr list"
  td_span :: span

record template_instance_def =
  ti_name :: string
  ti_name_span :: span
  ti_template_name :: string
  ti_allocated_bytes :: u32
  ti_does_body :: "expr list"
  ti_span :: span

record slot_def =
  sl_name :: string
  sl_name_span :: span

record class_def =
  cl_name :: string
  cl_name_span :: span
  cl_extends :: "string option"
  cl_slots :: "slot_def list"
  cl_span :: span

record generic_def =
  gd_name :: string
  gd_name_span :: span
  gd_effect :: stack_effect
  gd_span :: span

datatype method_kind = Primary | Before | After

record method_specializer =
  ms_position :: u32
  ms_param_name :: string
  ms_class_name :: string
  ms_at :: span

record method_def =
  md_generic_name :: string
  md_generic_name_span :: span
  md_specializers :: "method_specializer list"
  md_effect :: stack_effect
  md_locals :: "local_decl list"
  md_body :: "expr list"
  md_span :: span
  md_kind :: method_kind

record raw_factor_item =
  rf_source :: string
  rf_span :: span

datatype item =
    Definition colon_def
  | TopLevel "expr list" span
  | Variable variable_def
  | Constant constant_def
  | Create create_def
  | Collection collection_def
  | Template template_def
  | TemplateInstance template_instance_def
  | Value value_def
  | Class class_def
  | Generic generic_def
  | Method method_def
  | RawFactor raw_factor_item
  | Needs string span

type_synonym program = "item list"

end
