(* ===== verification/Let_Correct.thy ===== *)
theory Let_Correct
  imports Let_Syntax
begin

text \<open>
  The LET parser answers on every text: with the budget of \<open>let_fuel\<close> it returns a form or
  an error. The argument is a measure on parser states that every token read decreases.
\<close>

section \<open>Tokens consume text\<close>

lemma length_let_skip_ws: "length (let_skip_ws s) \<le> length s"
proof (induction s rule: let_skip_ws.induct)
  case (1 s)
  have a: "length (dropWhile let_is_ws s) \<le> length s" by (rule length_dropWhile_le)
  have b: "length (dropWhile (\<lambda>c. c \<noteq> CHR 0x0A) (dropWhile let_is_ws s)) \<le> length (dropWhile let_is_ws s)"
    by (rule length_dropWhile_le)
  show ?case
    using 1 a b by (subst let_skip_ws.simps) (auto simp: Let_def intro: order_trans)
qed

lemma number_len_ascii: "list_all is_ascii (take (number_len d s) s)"
proof (induction d s rule: number_len.induct)
  case (2 d c cs)
  then show ?case
    by (cases cs) (auto simp: is_ascii_def is_ascii_digit_def)
qed simp

lemma number_len_pos: "is_ascii_digit c \<or> c = CHR ''.'' \<Longrightarrow> 0 < number_len False (c # cs)"
  by auto

fun shortens :: "nat \<Rightarrow> (let_error, let_tok \<times> string) outcome \<Rightarrow> bool" where
  "shortens n (Ok (tok, rest)) = (length rest \<le> n \<and> tok \<noteq> Eof)"
| "shortens n (Err e) = True"
| "shortens n Panic = False"
| "shortens n OutOfFuel = False"

lemma shortens_if: "(c \<Longrightarrow> shortens n a) \<Longrightarrow> (\<not> c \<Longrightarrow> shortens n b) \<Longrightarrow> shortens n (if c then a else b)"
  by simp

lemma shortens_two_char:
  "a \<noteq> Eof \<Longrightarrow> b \<noteq> Eof \<Longrightarrow> shortens (length cs) (Ok (two_char d a b cs))"
  by (simp add: two_char_def)

lemma keyword_or_ident_not_Eof [simp]: "keyword_or_ident w \<noteq> Eof"
  by (simp add: keyword_or_ident_def)

lemma shortens_number:
  assumes "is_ascii_digit c \<or> c = CHR ''.''"
  shows "shortens (length cs) (let n = number_len False (c # cs) in
         if n = 1 \<and> c = CHR ''.'' then Err (mk_let_error LoneDot p)
         else case from_utf8 (take n (c # cs)) of
           None \<Rightarrow> Panic
         | Some s \<Rightarrow>
             (case parse_f64 s of
                None \<Rightarrow> Err (mk_let_error (InvalidNumber s) p)
              | Some v \<Rightarrow> Ok (Num v, drop n (c # cs))))"
proof -
  have "from_utf8 (take (number_len False (c # cs)) (c # cs)) = Some (take (number_len False (c # cs)) (c # cs))"
    using number_len_ascii [of False "c # cs"] by (simp add: from_utf8_def utf8_valid_ascii)
  moreover have "length (drop (number_len False (c # cs)) (c # cs)) \<le> length cs"
    using number_len_pos [OF assms, of cs] by (simp del: number_len.simps)
  ultimately show ?thesis
    by (simp add: Let_def del: number_len.simps split: option.split)
qed

lemma let_scan_shortens [progress]: "shortens (length cs) (let_scan p c cs)"
  unfolding let_scan_def
  by (intro shortens_if shortens_two_char shortens_number)
    (simp_all add: Let_def length_dropWhile_le split: option.split)

lemma let_scan_Ok: "let_scan p c cs = Ok (tok, rest) \<Longrightarrow> length rest \<le> length cs \<and> tok \<noteq> Eof"
  using let_scan_shortens [of cs p c] by simp

lemma let_scan_returns: "let_scan p c cs \<noteq> Panic" "let_scan p c cs \<noteq> OutOfFuel"
  using let_scan_shortens [of cs p c] by auto

section \<open>Progress of the parser\<close>

definition let_weight :: "let_parser \<Rightarrow> nat" where
  "let_weight s = length (lp_rest s) + (if lp_cur s = Eof then 0 else 1)"

abbreviation below :: "nat \<Rightarrow> (let_error, 'a \<times> let_parser) outcome \<Rightarrow> bool" where
  "below \<equiv> answers_below let_weight"

lemmas below_bind = answers_below_bind [where f = let_weight]
  and below_mono = answers_below_mono [where f = let_weight]
  and below_returned = answers_below_returned [where f = let_weight]

lemma below_fail [simp]: "below w (let_fail m s)"
  by (simp add: let_fail_def)

lemma let_bump_cases:
  obtains (err) e where "let_bump s = Err e"
    | (ok) s' where "let_bump s = Ok s'" "let_weight s' \<le> let_weight s"
      "lp_cur s \<noteq> Eof \<Longrightarrow> let_weight s' < let_weight s"
proof (cases "next_tok (lp_total s) (lp_rest s)")
  case (Ok r)
  then obtain tok p rest where r: "r = (tok, p, rest)" by (cases r) auto
  have "length rest + (if tok = Eof then 0 else 1) \<le> length (lp_rest s)"
    using Ok r length_let_skip_ws [of "lp_rest s"]
    by (auto simp: next_tok_def Let_def split: list.splits dest!: let_scan_Ok)
  with Ok r ok show ?thesis by (simp add: let_bump_def let_weight_def)
next
  case (Err e)
  with err show ?thesis by (simp add: let_bump_def)
qed (auto simp: next_tok_def Let_def let_scan_returns split: list.splits outcome.splits)

lemma below_bump_bind:
  assumes "lp_cur s \<noteq> Eof" "\<And>s'. let_weight s' < let_weight s \<Longrightarrow> below v (f s')"
  shows "below v (and_then (let_bump s) f)"
  by (rule let_bump_cases [of s]) (use assms in auto)

lemma below_expect_bind:
  assumes "t \<noteq> Eof" "\<And>s'. let_weight s' < let_weight s \<Longrightarrow> below v (f s')"
  shows "below v (and_then (let_expect t s) f)"
  using assms by (auto simp: let_expect_def let_fail_def intro: below_bump_bind)

section \<open>The expression grammar\<close>

text \<open>The contract of a reader within a budget: it answers and consumes a token.\<close>

definition reads_below :: "nat \<Rightarrow> 'a let_reader \<Rightarrow> bool" where
  "reads_below w rd \<longleftrightarrow> (\<forall>s. let_weight s < w \<longrightarrow> below (let_weight s) (rd s))"

lemma reads_belowD: "reads_below w rd \<Longrightarrow> let_weight s < w \<Longrightarrow> v = let_weight s \<Longrightarrow> below v (rd s)"
  by (simp add: reads_below_def)

lemma reads_below_mono: "reads_below w rd \<Longrightarrow> v \<le> w \<Longrightarrow> reads_below v rd"
  by (simp add: reads_below_def)

lemma below_let_exprs:
  "reads_below w rec \<Longrightarrow> let_weight s < w \<Longrightarrow> let_weight s < n \<Longrightarrow> below (let_weight s) (let_exprs rec n s)"
proof (induction n arbitrary: s)
  case (Suc n)
  show ?case
    by (simp, rule below_bind [OF reads_belowD [OF Suc.prems(1,2) refl]])
      (use Suc.prems in \<open>auto intro!: below_bump_bind below_bind [OF Suc.IH]\<close>)
qed simp

lemma below_let_primary:
  assumes "reads_below w rec" "let_weight s \<le> w" "let_weight s \<le> n"
  shows "below (let_weight s) (let_primary rec n s)"
proof (cases "lp_cur s = Eof")
  case True
  show ?thesis by (rule let_bump_cases [of s]) (use True in \<open>auto simp: let_primary_def\<close>)
next
  case False
  show ?thesis
    unfolding let_primary_def
  proof (rule below_bump_bind [OF False])
    fix s1 assume s1: "let_weight s1 < let_weight s"
    have args: "below (let_weight s) (and_then (let_bump s1) (\<lambda>s2.
           and_then (if lp_cur s2 = RParen then Ok ([], s2) else let_exprs rec n s2) (\<lambda>(args, s3).
           and_then (let_expect RParen s3) (\<lambda>s4. Ok (LCall name args, s4)))))"
      if "lp_cur s1 = LParen" for name
      by (rule below_bump_bind, simp add: that, rule below_bind [where w = "let_weight s"])
        (use assms s1 in \<open>auto intro!: below_expect_bind below_mono [OF below_let_exprs]\<close>)
    show "below (let_weight s) (case lp_cur s of
       Num v \<Rightarrow> Ok (LLit v, s1)
     | Ident name \<Rightarrow>
         if lp_cur s1 = LParen then
           and_then (let_bump s1) (\<lambda>s2.
           and_then (if lp_cur s2 = RParen then Ok ([], s2) else let_exprs rec n s2) (\<lambda>(args, s3).
           and_then (let_expect RParen s3) (\<lambda>s4. Ok (LCall name args, s4))))
         else Ok (LVar name, s1)
     | LParen \<Rightarrow>
         and_then (rec s1) (\<lambda>(e, s2).
         and_then (let_expect RParen s2) (\<lambda>s3. Ok (e, s3)))
     | other \<Rightarrow> Err (mk_let_error (UnexpectedInExpression other) (lp_cur_pos s)))"
      using assms s1 args
      by (cases "lp_cur s") (auto intro!: below_bind [OF reads_belowD [OF assms(1) _ refl]] below_expect_bind)
  qed
qed

lemma below_let_unary:
  "reads_below w rec \<Longrightarrow> let_weight s \<le> w \<Longrightarrow> let_weight s < n \<Longrightarrow> below (let_weight s) (let_unary rec n s)"
proof (induction n arbitrary: s)
  case (Suc n)
  then show ?case
    by (auto intro!: below_bump_bind below_bind [OF Suc.IH] below_let_primary [of w])
qed simp

lemma below_let_pow:
  "reads_below w rec \<Longrightarrow> let_weight s \<le> w \<Longrightarrow> let_weight s < n \<Longrightarrow> below (let_weight s) (let_pow rec n s)"
proof (induction n arbitrary: s)
  case (Suc n)
  show ?case
    by (simp only: let_pow.simps, rule below_bind [OF below_let_unary [OF Suc.prems]])
      (use Suc.prems in \<open>auto intro!: below_bump_bind below_bind [OF Suc.IH]\<close>)
qed simp

lemma op_not_Eof:
  "mul_op t = Some op \<Longrightarrow> t \<noteq> Eof" "add_op t = Some op \<Longrightarrow> t \<noteq> Eof" "compare_op t = Some op \<Longrightarrow> t \<noteq> Eof"
  by auto

lemma below_let_mul_loop:
  "reads_below w rec \<Longrightarrow> let_weight s \<le> w \<Longrightarrow> let_weight s < n \<Longrightarrow> let_weight s < v \<Longrightarrow>
   below v (let_mul_loop rec n lhs s)"
proof (induction n arbitrary: s lhs)
  case (Suc n)
  then show ?case
    by (auto split: option.split dest: op_not_Eof
        intro!: below_bump_bind below_bind [OF below_let_pow [of w]] Suc.IH)
qed simp

lemma below_let_mul:
  assumes "reads_below w rec" "let_weight s \<le> w" "let_weight s < n"
  shows "below (let_weight s) (let_mul rec n s)"
  unfolding let_mul_def
  by (rule below_bind [OF below_let_pow [OF assms]]) (use assms in \<open>auto intro!: below_let_mul_loop [of w]\<close>)

lemma below_let_add_loop:
  "reads_below w rec \<Longrightarrow> let_weight s \<le> w \<Longrightarrow> let_weight s < n \<Longrightarrow> let_weight s < v \<Longrightarrow>
   below v (let_add_loop rec n lhs s)"
proof (induction n arbitrary: s lhs)
  case (Suc n)
  then show ?case
    by (auto split: option.split dest: op_not_Eof
        intro!: below_bump_bind below_bind [OF below_let_mul [of w]] Suc.IH)
qed simp

lemma below_let_add:
  assumes "reads_below w rec" "let_weight s \<le> w" "let_weight s < n"
  shows "below (let_weight s) (let_add rec n s)"
  unfolding let_add_def
  by (rule below_bind [OF below_let_mul [OF assms]]) (use assms in \<open>auto intro!: below_let_add_loop [of w]\<close>)

lemma below_let_compare_loop:
  "reads_below w rec \<Longrightarrow> let_weight s \<le> w \<Longrightarrow> let_weight s < n \<Longrightarrow> let_weight s < v \<Longrightarrow>
   below v (let_compare_loop rec n lhs s)"
proof (induction n arbitrary: s lhs)
  case (Suc n)
  then show ?case
    by (auto split: option.split dest: op_not_Eof
        intro!: below_bump_bind below_bind [OF below_let_add [of w]] Suc.IH)
qed simp

lemma below_let_compare:
  assumes "reads_below w rec" "let_weight s \<le> w" "let_weight s < n"
  shows "below (let_weight s) (let_compare rec n s)"
  unfolding let_compare_def
  by (rule below_bind [OF below_let_add [OF assms]]) (use assms in \<open>auto intro!: below_let_compare_loop [of w]\<close>)

lemma reads_below_let_parse_expr: "reads_below n (let_parse_expr n)"
proof (induction n)
  case (Suc n)
  show ?case
    unfolding reads_below_def using below_let_compare [OF Suc.IH] by simp
qed (simp add: reads_below_def)

section \<open>Forms\<close>

lemma below_let_outputs: "let_weight s < n \<Longrightarrow> below (Suc (let_weight s)) (let_outputs n s)"
proof (induction n arbitrary: s)
  case (Suc n)
  then show ?case
    by (cases "lp_cur s") (auto intro!: below_bump_bind below_bind [OF Suc.IH] below_mono [OF Suc.IH])
qed simp

lemma below_let_slots: "let_weight s < n \<Longrightarrow> below (Suc (let_weight s)) (let_slots n s)"
proof (induction n arbitrary: s)
  case (Suc n)
  then show ?case
    by (cases "lp_cur s") (auto intro!: below_bump_bind below_bind [OF Suc.IH])
qed simp

lemma below_let_destructure:
  assumes "let_weight s < n"
  shows "below (Suc (let_weight s)) (let_destructure n s)"
  using assms
  by (auto simp: let_destructure_def split: let_tok.split
      intro!: below_bump_bind below_bind [OF below_let_slots])

lemma below_let_inputs: "let_weight s < n \<Longrightarrow> below (Suc (let_weight s)) (let_inputs n s)"
proof (induction n arbitrary: s)
  case (Suc n)
  then show ?case
    by (cases "lp_cur s")
      (auto intro!: below_bump_bind below_bind [OF below_let_destructure] below_bind [OF Suc.IH] below_mono [OF Suc.IH])
qed simp

lemma below_let_wheres: "let_weight s < n \<Longrightarrow> below (Suc (let_weight s)) (let_wheres n s)"
proof (induction n arbitrary: s)
  case (Suc n)
  note expr = reads_belowD [OF reads_below_let_parse_expr [of n] _ refl]
  from Suc show ?case
    by (auto split: let_tok.split intro!: below_bump_bind below_expect_bind below_bind [OF expr] below_bind [OF Suc.IH])
qed simp

lemma below_let_parse_form:
  assumes "let_weight s < n"
  shows "below (let_weight s) (let_parse_form n s)"
  unfolding let_parse_form_def
  by (use assms reads_below_let_parse_expr in \<open>auto intro!: below_expect_bind below_bind [OF below_let_inputs]
      below_bind [OF below_let_outputs] below_bind [OF below_let_exprs [of n]] below_bind [OF below_let_wheres]\<close>)

lemma let_parse_returned: "returned (let_parse src)"
proof -
  let ?s = "\<lparr>lp_total = length src, lp_rest = src, lp_cur = LetKw, lp_cur_pos = 0\<rparr>"
  have new: "let_parser_new src = let_bump ?s"
    by (simp add: let_parser_new_def let_bump_def split: outcome.split)
  show ?thesis
  proof (rule let_bump_cases [of ?s])
    fix s' assume s': "let_bump ?s = Ok s'" "let_weight s' \<le> let_weight ?s"
    then have "below (let_weight s') (let_parse_form (let_fuel src) s')"
      by (intro below_let_parse_form) (simp add: let_fuel_def let_weight_def)
    then show ?thesis
      using new s'(1) by (auto simp: let_parse_def let_fail_def intro!: returned_and_then below_returned)
  qed (simp add: let_parse_def new)
qed

text \<open>
  C18. The LET parser answers on every text: it returns a form or an error, never a panic, and
  its recursion ends.
\<close>

theorem let_parse_total: "\<exists>form e. let_parse src = Ok form \<or> let_parse src = Err e"
  using let_parse_returned [of src] by (auto simp: returned_iff)

end
