(* ===== verification/Parser.thy ===== *)
theory Parser
  imports Ast Let_Correct
begin

text \<open>
  The parser (\<^verbatim>\<open>src/compiler/parse.rs\<close>): recursive descent over the token list. The
  position of the source's \<^verbatim>\<open>Parser\<close> is represented by the list of the tokens not yet
  read, so that restoring a saved position is keeping the earlier list.
\<close>

section \<open>Errors\<close>

datatype parse_error =
    ExpectedDefName span
  | ExpectedDefiningName string span
  | ConstantWithoutValue string span
  | NonLiteralConstantValue string span
  | NestedColon span span
  | StraySemicolon span
  | UnterminatedDefinition span
  | MalformedStackEffect span string
  | StrayControlWord string span
  | UnterminatedControl string span "string list"
  | LetSyntax span let_message

fun comma_quoted :: "string list \<Rightarrow> string" where
  "comma_quoted [] = []"
| "comma_quoted [e] = bq @ e @ bq"
| "comma_quoted (e # f # es) = bq @ e @ bq @ '', '' @ comma_quoted (f # es)"

text \<open>The \<^verbatim>\<open>Display\<close> text; \<open>reason\<close> prints the message of the LET parser.\<close>

fun display_parse_error :: "(let_message \<Rightarrow> string) \<Rightarrow> parse_error \<Rightarrow> string" where
  "display_parse_error reason (ExpectedDefName at) =
     ''expected definition name after '' @ bq @ '':'' @ bq @ '' at '' @ display_span at"
| "display_parse_error reason (ExpectedDefiningName keyword at) =
     ''expected name after '' @ bq @ keyword @ bq @ '' at '' @ display_span at"
| "display_parse_error reason (ConstantWithoutValue keyword at) =
     bq @ keyword @ bq @ '' at '' @ display_span at @ '' needs a value before it (e.g. '' @ bq
       @ ''64 CONSTANT max'' @ bq @ '')''"
| "display_parse_error reason (NonLiteralConstantValue keyword at) =
     bq @ keyword @ bq @ '' at '' @ display_span at @ '': only literal values are supported in this milestone''"
| "display_parse_error reason (NestedColon outer inner) =
     ''nested '' @ bq @ '':'' @ bq @ '' at '' @ display_span inner
       @ '': ANS forbids defining a word inside another''"
| "display_parse_error reason (StraySemicolon at) =
     ''stray '' @ bq @ '';'' @ bq @ '' at '' @ display_span at @ '': no '' @ bq @ '':'' @ bq @ '' to close''"
| "display_parse_error reason (UnterminatedDefinition opened_at) =
     ''unterminated '' @ bq @ '':'' @ bq @ '' definition opened at '' @ display_span opened_at"
| "display_parse_error reason (MalformedStackEffect at why) =
     ''malformed stack effect at '' @ display_span at @ '': '' @ why"
| "display_parse_error reason (StrayControlWord word at) =
     ''stray '' @ bq @ word @ bq @ '' at '' @ display_span at @ '': no matching opener''"
| "display_parse_error reason (UnterminatedControl opener opened_at expected) =
     ''unterminated '' @ bq @ opener @ bq @ '' opened at '' @ display_span opened_at
       @ ''; expected one of: '' @ comma_quoted expected"
| "display_parse_error reason (LetSyntax at m) =
     ''LET syntax error at '' @ display_span at @ '': '' @ reason m"

section \<open>Stack effects\<close>

text \<open>
  The scan for a free-standing \<^verbatim>\<open>--\<close>: the parts before and after it. The first argument is
  the part already passed over, reversed; its head is the byte before the cursor.
\<close>

fun split_effect :: "string \<Rightarrow> string \<Rightarrow> (string \<times> string) option" where
  "split_effect passed (a # b # rest) =
     (if a = CHR ''-'' \<and> b = CHR ''-''
         \<and> (passed = [] \<or> is_ascii_whitespace (hd passed))
         \<and> (rest = [] \<or> is_ascii_whitespace (hd rest))
      then Some (rev passed, rest)
      else split_effect (a # passed) (b # rest))"
| "split_effect passed _ = None"

definition parse_stack_effect :: "string \<Rightarrow> span \<Rightarrow> stack_effect option" where
  "parse_stack_effect body sp =
     (case split_effect [] body of
        None \<Rightarrow> None
      | Some (passed, after) \<Rightarrow>
          Some \<lparr>se_inputs = split_whitespace passed, se_outputs = split_whitespace after, se_span = sp\<rparr>)"

section \<open>Expressions and control flow\<close>

type_synonym 'a reader = "token list \<Rightarrow> (parse_error, 'a \<times> token list) outcome"

fun is_comment :: "tok \<Rightarrow> bool" where
  "is_comment (LineComment _) = True"
| "is_comment (BlockComment _) = True"
| "is_comment _ = False"

definition skip_comments :: "token list \<Rightarrow> token list" where
  "skip_comments toks = dropWhile (\<lambda>t. is_comment (tok_kind t)) toks"

text \<open>The name that a defining or parsing word takes: the very next token, if it is a word.\<close>

definition expect_name :: "string \<Rightarrow> span \<Rightarrow> (string \<times> span) reader" where
  "expect_name keyword at toks =
     (case toks of
        [] \<Rightarrow> Err (ExpectedDefiningName keyword at)
      | t # rest \<Rightarrow>
          (case tok_kind t of
             TokWord w \<Rightarrow> Ok ((w, tok_span t), rest)
           | _ \<Rightarrow> Err (ExpectedDefiningName keyword at)))"

fun parse_locals_block :: "span \<Rightarrow> token list \<Rightarrow> (parse_error, local_decl list \<times> token list) outcome" where
  "parse_locals_block open_span [] = Err (UnterminatedDefinition open_span)"
| "parse_locals_block open_span (t # rest) =
     (if is_comment (tok_kind t) then parse_locals_block open_span rest
      else case tok_kind t of
        TokWord w \<Rightarrow>
          if w = '':}'' then Ok ([], rest)
          else if w = '';'' \<or> w = '':'' \<or> w = ''{:'' then Err (UnterminatedDefinition open_span)
          else and_then (parse_locals_block open_span rest)
                 (\<lambda>(names, rest'). Ok (\<lparr>ld_name = w, ld_name_span = tok_span t\<rparr> # names, rest'))
      | _ \<Rightarrow> Err (UnterminatedDefinition open_span))"

text \<open>
  As in the LET parser, \<open>rec\<close> is the reader of nested expressions, which \<open>expr_one\<close> ties to
  itself, and the number bounds the rounds of a loop.
\<close>

fun parse_block_until ::
  "expr reader \<Rightarrow> nat \<Rightarrow> string \<Rightarrow> span \<Rightarrow> string list \<Rightarrow> (expr list \<times> token) reader" where
  "parse_block_until rec 0 opener opened_at terminators toks = OutOfFuel"
| "parse_block_until rec (Suc n) opener opened_at terminators toks =
     (case skip_comments toks of
        [] \<Rightarrow> Err (UnterminatedControl opener opened_at terminators)
      | t # rest \<Rightarrow>
          if (case tok_kind t of TokWord w \<Rightarrow> to_ascii_lowercase w \<in> set terminators | _ \<Rightarrow> False)
            then Ok (([], t), rest)
          else if tok_kind t = TokWord '';'' then Err (UnterminatedControl opener opened_at terminators)
          else and_then (rec (t # rest)) (\<lambda>(e, toks1).
               and_then (parse_block_until rec n opener opened_at terminators toks1) (\<lambda>((body, term), toks2).
               Ok ((e # body, term), toks2))))"

text \<open>The lower-cased text of a terminator; anything but a word is \<^verbatim>\<open>unreachable!\<close> in the source.\<close>

definition term_word :: "token \<Rightarrow> string option" where
  "term_word t = (case tok_kind t of TokWord w \<Rightarrow> Some (to_ascii_lowercase w) | _ \<Rightarrow> None)"

definition parse_if :: "expr reader \<Rightarrow> nat \<Rightarrow> span \<Rightarrow> expr reader" where
  "parse_if rec n if_span toks =
     and_then (parse_block_until rec n ''if'' if_span [''else'', ''then''] toks) (\<lambda>((then_body, term), toks1).
     case term_word term of
       None \<Rightarrow> Panic
     | Some w \<Rightarrow>
         if w = ''else'' then
           and_then (parse_block_until rec n ''else'' (tok_span term) [''then''] toks1) (\<lambda>((eb, then_tok), toks2).
           Ok (If then_body (Some eb) (mk_span (span_start if_span) (span_end (tok_span then_tok))), toks2))
         else Ok (If then_body None (mk_span (span_start if_span) (span_end (tok_span term))), toks1))"

definition parse_begin :: "expr reader \<Rightarrow> nat \<Rightarrow> span \<Rightarrow> expr reader" where
  "parse_begin rec n begin_span toks =
     and_then (parse_block_until rec n ''begin'' begin_span [''until'', ''again'', ''while''] toks)
       (\<lambda>((body, term), toks1).
     let sp = mk_span (span_start begin_span) (span_end (tok_span term)) in
     case term_word term of
       None \<Rightarrow> Panic
     | Some w \<Rightarrow>
         if w = ''until'' then Ok (BeginUntil body sp, toks1)
         else if w = ''again'' then Ok (BeginAgain body sp, toks1)
         else if w = ''while'' then
           and_then (parse_block_until rec n ''while'' (tok_span term) [''repeat''] toks1)
             (\<lambda>((loop_body, repeat_tok), toks2).
           Ok (BeginWhileRepeat body loop_body
                 (mk_span (span_start begin_span) (span_end (tok_span repeat_tok))), toks2))
         else Panic)"

definition parse_do :: "expr reader \<Rightarrow> nat \<Rightarrow> span \<Rightarrow> bool \<Rightarrow> expr reader" where
  "parse_do rec n do_span is_qdo toks =
     and_then (parse_block_until rec n (if is_qdo then ''?do'' else ''do'') do_span [''loop'', ''+loop''] toks)
       (\<lambda>((body, term), toks1).
     let sp = mk_span (span_start do_span) (span_end (tok_span term)) in
     case term_word term of
       None \<Rightarrow> Panic
     | Some w \<Rightarrow>
         if w = ''loop'' then Ok (DoLoop is_qdo body Plus1 sp, toks1)
         else if w = ''+loop'' then Ok (DoLoop is_qdo body PlusN sp, toks1)
         else Panic)"

text \<open>The rounds of \<^verbatim>\<open>parse_case\<close>: the arms, the default and the last token.\<close>

fun parse_case_arms ::
  "expr reader \<Rightarrow> nat \<Rightarrow> span \<Rightarrow> (case_arm list \<times> expr list option \<times> token) reader" where
  "parse_case_arms rec 0 case_span toks = OutOfFuel"
| "parse_case_arms rec (Suc n) case_span toks =
     and_then (parse_block_until rec (Suc n) ''case'' case_span [''of'', ''default'', ''other'', ''endcase''] toks)
       (\<lambda>((exprs, term), toks1).
     case term_word term of
       None \<Rightarrow> Panic
     | Some w \<Rightarrow>
         if w = ''of'' then
           and_then (parse_block_until rec (Suc n) ''of'' (tok_span term) [''endof''] toks1)
             (\<lambda>((body, endof), toks2).
           and_then (parse_case_arms rec n case_span toks2) (\<lambda>((arms, dflt, end_tok), toks3).
           let arm_start = (case exprs of [] \<Rightarrow> tok_span term | e # _ \<Rightarrow> expr_span e) in
           Ok ((CaseArm exprs body (mk_span (span_start arm_start) (span_end (tok_span endof))) # arms,
                dflt, end_tok), toks3)))
         else if w = ''default'' \<or> w = ''other'' then
           and_then (parse_block_until rec (Suc n) w (tok_span term) [''endcase''] toks1)
             (\<lambda>((body, endcase), toks2). Ok (([], Some body, endcase), toks2))
         else Ok (([], if exprs = [] then None else Some exprs, term), toks1))"

definition parse_case :: "expr reader \<Rightarrow> nat \<Rightarrow> span \<Rightarrow> expr reader" where
  "parse_case rec n case_span toks =
     and_then (parse_case_arms rec n case_span toks) (\<lambda>((arms, dflt, end_tok), toks1).
     Ok (Case arms dflt (mk_span (span_start case_span) (span_end (tok_span end_tok))), toks1))"

definition stray_words :: "string list" where
  "stray_words = [''else'', ''then'', ''until'', ''while'', ''repeat'', ''again'', ''loop'', ''+loop'',
     ''of'', ''endof'', ''default'', ''other'', ''endcase'']"

definition tick_word :: string where
  "tick_word = [CHR 0x27]"

definition parse_word :: "expr reader \<Rightarrow> nat \<Rightarrow> string \<Rightarrow> span \<Rightarrow> expr reader" where
  "parse_word rec n w t_span rest =
     (let lc = to_ascii_lowercase w in
      if lc = ''if'' then parse_if rec n t_span rest
      else if lc = ''begin'' then parse_begin rec n t_span rest
      else if lc = ''do'' then parse_do rec n t_span False rest
      else if lc = ''?do'' then parse_do rec n t_span True rest
      else if lc = ''case'' then parse_case rec n t_span rest
      else if lc = tick_word then
        and_then (expect_name tick_word t_span rest) (\<lambda>((name, sp), rest').
        Ok (Tick name (mk_span (span_start t_span) (span_end sp)), rest'))
      else if lc = ''to'' then
        and_then (expect_name ''TO'' t_span rest) (\<lambda>((name, sp), rest').
        Ok (To name (mk_span (span_start t_span) (span_end sp)), rest'))
      else if lc = ''see'' then
        and_then (expect_name ''SEE'' t_span rest) (\<lambda>((name, sp), rest').
        Ok (See name (mk_span (span_start t_span) (span_end sp)), rest'))
      else if lc = ''{:'' then
        and_then (parse_locals_block t_span rest) (\<lambda>(names, rest'). Ok (Locals names t_span, rest'))
      else if lc \<in> set stray_words then Err (StrayControlWord lc t_span)
      else Ok (WordRef w t_span, rest))"

fun expr_one :: "nat \<Rightarrow> expr reader" where
  "expr_one 0 toks = OutOfFuel"
| "expr_one (Suc n) [] = Panic"
| "expr_one (Suc n) (t # rest) =
     (case tok_kind t of
        TokInt v _ _ \<Rightarrow> Ok (Lit (IntLit v (tok_span t)), rest)
      | TokFloat v _ \<Rightarrow> Ok (Lit (FloatLit v (tok_span t)), rest)
      | TokStr v k \<Rightarrow> Ok (Lit (StrLit v k (tok_span t)), rest)
      | LetBlock body \<Rightarrow>
          (case let_parse body of
             Ok form \<Rightarrow> Ok (LetForm form (tok_span t), rest)
           | Err e \<Rightarrow> Err (LetSyntax (tok_span t) (le_message e))
           | Panic \<Rightarrow> Panic
           | OutOfFuel \<Rightarrow> OutOfFuel)
      | TokWord w \<Rightarrow> parse_word (expr_one n) (Suc n) w (tok_span t) rest
      | LineComment _ \<Rightarrow> expr_one n rest
      | BlockComment _ \<Rightarrow> expr_one n rest)"

section \<open>Definitions\<close>

text \<open>An effect annotation right after the name of a definition.\<close>

definition optional_effect :: "token list \<Rightarrow> stack_effect option \<times> token list" where
  "optional_effect toks =
     (case toks of
        t # rest \<Rightarrow>
          (case tok_kind t of
             BlockComment body \<Rightarrow>
               (case parse_stack_effect body (tok_span t) of
                  Some eff \<Rightarrow> (Some eff, rest)
                | None \<Rightarrow> (None, toks))
           | _ \<Rightarrow> (None, toks))
      | [] \<Rightarrow> (None, toks))"

definition head_locals :: "local_decl list reader" where
  "head_locals toks0 =
     (let toks = skip_comments toks0 in
      case toks of
        t # rest \<Rightarrow> if tok_kind t = TokWord ''{:'' then parse_locals_block (tok_span t) rest else Ok ([], toks)
      | [] \<Rightarrow> Ok ([], toks))"

fun parse_colon_body :: "expr reader \<Rightarrow> nat \<Rightarrow> span \<Rightarrow> (expr list \<times> span) reader" where
  "parse_colon_body rec 0 colon_span toks = OutOfFuel"
| "parse_colon_body rec (Suc n) colon_span toks =
     (case skip_comments toks of
        [] \<Rightarrow> Err (UnterminatedDefinition colon_span)
      | t # rest \<Rightarrow>
          if tok_kind t = TokWord '';'' then Ok (([], tok_span t), rest)
          else if tok_kind t = TokWord '':'' then Err (NestedColon colon_span (tok_span t))
          else and_then (rec (t # rest)) (\<lambda>(e, toks1).
               and_then (parse_colon_body rec n colon_span toks1) (\<lambda>((body, end_span), toks2).
               Ok ((e # body, end_span), toks2))))"

fun parse_method_body :: "expr reader \<Rightarrow> nat \<Rightarrow> span \<Rightarrow> (expr list \<times> span) reader" where
  "parse_method_body rec 0 kw_span toks = OutOfFuel"
| "parse_method_body rec (Suc n) kw_span toks =
     (case skip_comments toks of
        [] \<Rightarrow> Err (UnterminatedDefinition kw_span)
      | t # rest \<Rightarrow>
          if tok_kind t = TokWord '';'' then Ok (([], tok_span t), rest)
          else and_then (rec (t # rest)) (\<lambda>(e, toks1).
               and_then (parse_method_body rec n kw_span toks1) (\<lambda>((body, end_span), toks2).
               Ok ((e # body, end_span), toks2))))"

fun is_word_ref :: "string \<Rightarrow> expr \<Rightarrow> bool" where
  "is_word_ref w (WordRef n _) = eq_ignore_ascii_case n w"
| "is_word_ref w _ = False"

definition position_of :: "('a \<Rightarrow> bool) \<Rightarrow> 'a list \<Rightarrow> nat option" where
  "position_of p xs = (let i = length (takeWhile (\<lambda>x. \<not> p x) xs) in if i < length xs then Some i else None)"

text \<open>A body with CREATE before DOES> is a template; any other body is a plain definition.\<close>

definition colon_item ::
  "string \<Rightarrow> span \<Rightarrow> stack_effect option \<Rightarrow> local_decl list \<Rightarrow> expr list \<Rightarrow> span \<Rightarrow> item" where
  "colon_item name name_span effect locals body sp =
     (let plain = Definition \<lparr>cd_name = name, cd_name_span = name_span, cd_effect = effect,
                    cd_locals = locals, cd_body = body, cd_span = sp\<rparr>
      in case (position_of (is_word_ref ''create'') body, position_of (is_word_ref ''does>'') body) of
           (Some ci, Some di) \<Rightarrow>
             if ci < di then
               Template \<lparr>td_name = name, td_name_span = name_span, td_effect = effect,
                 td_constructor = take (di - ci - 1) (drop (ci + 1) body),
                 td_does_body = drop (di + 1) body, td_span = sp\<rparr>
             else plain
         | _ \<Rightarrow> plain)"

definition colon_definition :: "nat \<Rightarrow> item reader" where
  "colon_definition n toks0 =
     (case toks0 of
        [] \<Rightarrow> Panic
      | colon # toks1 \<Rightarrow>
          (case toks1 of
             [] \<Rightarrow> Err (ExpectedDefName (tok_span colon))
           | name_tok # toks2 \<Rightarrow>
               (case tok_kind name_tok of
                  TokWord name \<Rightarrow>
                    (let (effect, toks3) = optional_effect toks2 in
                     and_then (head_locals toks3) (\<lambda>(locals, toks4).
                     and_then (parse_colon_body (expr_one n) n (tok_span colon) toks4) (\<lambda>((body, end_span), toks5).
                     Ok (colon_item name (tok_span name_tok) effect locals body
                           (mk_span (span_start (tok_span colon)) (span_end end_span)), toks5))))
                | _ \<Rightarrow> Err (ExpectedDefName (tok_span colon)))))"

fun class_slots :: "nat \<Rightarrow> span \<Rightarrow> (slot_def list \<times> span) reader" where
  "class_slots 0 kw_span toks = OutOfFuel"
| "class_slots (Suc n) kw_span toks =
     (case skip_comments toks of
        [] \<Rightarrow> Err (UnterminatedDefinition kw_span)
      | t # rest \<Rightarrow>
          (case tok_kind t of
             TokWord w \<Rightarrow>
               if w = '';'' then Ok (([], tok_span t), rest)
               else if eq_ignore_ascii_case w ''slot:'' then
                 and_then (expect_name ''SLOT:'' kw_span (skip_comments rest)) (\<lambda>((slot_name, slot_span), toks1).
                 and_then (class_slots n kw_span toks1) (\<lambda>((slots, end_span), toks2).
                 Ok ((\<lparr>sl_name = slot_name, sl_name_span = slot_span\<rparr> # slots, end_span), toks2)))
               else Err (StrayControlWord w (tok_span t))
           | _ \<Rightarrow> Err (StrayControlWord ''<non-word>'' (tok_span t))))"

definition class_extends :: "span \<Rightarrow> string option reader" where
  "class_extends kw_span toks0 =
     (let toks = skip_comments toks0 in
      case toks of
        t # rest \<Rightarrow>
          (case tok_kind t of
             TokWord w \<Rightarrow>
               if eq_ignore_ascii_case w ''extends'' then
                 and_then (expect_name ''EXTENDS'' kw_span (skip_comments rest)) (\<lambda>((parent, _), toks1).
                 Ok (Some parent, toks1))
               else Ok (None, toks)
           | _ \<Rightarrow> Ok (None, toks))
      | [] \<Rightarrow> Ok (None, toks))"

definition class_definition :: "nat \<Rightarrow> span \<Rightarrow> class_def reader" where
  "class_definition n kw_span toks =
     and_then (expect_name ''CLASS:'' kw_span toks) (\<lambda>((name, name_span), toks1).
     and_then (class_extends kw_span toks1) (\<lambda>(extends, toks2).
     and_then (class_slots n kw_span toks2) (\<lambda>((slots, end_span), toks3).
     Ok (\<lparr>cl_name = name, cl_name_span = name_span, cl_extends = extends, cl_slots = slots,
          cl_span = mk_span (span_start kw_span) (span_end end_span)\<rparr>, toks3))))"

text \<open>The effect annotation that GENERIC: and METHOD: require.\<close>

definition required_effect :: "string \<Rightarrow> string \<Rightarrow> span \<Rightarrow> stack_effect reader" where
  "required_effect missing malformed name_span toks =
     (case toks of
        t # rest \<Rightarrow>
          (case tok_kind t of
             BlockComment body \<Rightarrow>
               (case parse_stack_effect body (tok_span t) of
                  Some eff \<Rightarrow> Ok (eff, rest)
                | None \<Rightarrow> Err (MalformedStackEffect (tok_span t) malformed))
           | _ \<Rightarrow> Err (MalformedStackEffect name_span missing))
      | [] \<Rightarrow> Err (MalformedStackEffect name_span missing))"

definition generic_declaration :: "span \<Rightarrow> generic_def reader" where
  "generic_declaration kw_span toks =
     and_then (expect_name ''GENERIC:'' kw_span toks) (\<lambda>((name, name_span), toks1).
     and_then (required_effect ''GENERIC: requires a stack effect annotation''
                 (''GENERIC: stack effect must contain '' @ bq @ ''--'' @ bq) name_span toks1) (\<lambda>(effect, toks2).
     Ok (\<lparr>gd_name = name, gd_name_span = name_span, gd_effect = effect,
          gd_span = mk_span (span_start kw_span) (span_end (se_span effect))\<rparr>, toks2)))"

text \<open>The specialisers \<^verbatim>\<open>name:class\<close> among the inputs, and the inputs without them.\<close>

fun extract_specializers :: "span \<Rightarrow> nat \<Rightarrow> string list \<Rightarrow> method_specializer list \<times> string list" where
  "extract_specializers eff_span i [] = ([], [])"
| "extract_specializers eff_span i (raw # raws) =
     (let (specs, clean) = extract_specializers eff_span (i + 1) raws in
      case split_once (CHR '':'') raw of
        Some (pname, cls) \<Rightarrow>
          if pname \<noteq> [] \<and> cls \<noteq> []
          then (\<lparr>ms_position = of_nat i, ms_param_name = pname, ms_class_name = cls, ms_at = eff_span\<rparr> # specs,
                pname # clean)
          else (specs, raw # clean)
      | None \<Rightarrow> (specs, raw # clean))"

definition method_definition :: "nat \<Rightarrow> span \<Rightarrow> string \<Rightarrow> method_kind \<Rightarrow> method_def reader" where
  "method_definition n kw_span kw kind toks =
     and_then (expect_name kw kw_span toks) (\<lambda>((gname, gname_span), toks1).
     and_then (required_effect ''METHOD: requires a stack effect annotation''
                 (''METHOD: stack effect must contain '' @ bq @ ''--'' @ bq) gname_span toks1) (\<lambda>(raw_effect, toks2).
     let (specs, clean) = extract_specializers (se_span raw_effect) 0 (se_inputs raw_effect) in
     and_then (head_locals toks2) (\<lambda>(locals, toks3).
     and_then (parse_method_body (expr_one n) n kw_span toks3) (\<lambda>((body, end_span), toks4).
     Ok (\<lparr>md_generic_name = gname, md_generic_name_span = gname_span, md_specializers = specs,
          md_effect = raw_effect\<lparr>se_inputs := clean\<rparr>, md_locals = locals, md_body = body,
          md_span = mk_span (span_start kw_span) (span_end end_span), md_kind = kind\<rparr>, toks4)))))"

section \<open>Programs\<close>

text \<open>
  The state of the loop of \<^verbatim>\<open>program\<close>: the items so far, the pending top-level
  expressions and the span at which they began.
\<close>

record prog_state =
  ps_items :: "item list"
  ps_pending :: "expr list"
  ps_start :: "span option"

abbreviation push_item :: "item \<Rightarrow> prog_state \<Rightarrow> prog_state" where
  "push_item it st \<equiv> st\<lparr>ps_items := ps_items st @ [it]\<rparr>"

definition flush_pending :: "prog_state \<Rightarrow> (parse_error, prog_state) outcome" where
  "flush_pending st =
     (if ps_pending st = [] then Ok st
      else case ps_start st of
        None \<Rightarrow> Panic
      | Some start \<Rightarrow>
          Ok (st\<lparr>ps_items := ps_items st @ [TopLevel (ps_pending st)
                   (mk_span (span_start start) (span_end (expr_span (last (ps_pending st)))))],
                 ps_pending := [], ps_start := None\<rparr>))"

type_synonym prog_step = "(parse_error, prog_state \<times> token list) outcome"

definition step_variable :: "span \<Rightarrow> prog_state \<Rightarrow> token list \<Rightarrow> prog_step" where
  "step_variable kw_span st rest =
     and_then (flush_pending st) (\<lambda>st1.
     and_then (expect_name ''VARIABLE'' kw_span rest) (\<lambda>((name, name_span), toks).
     Ok (push_item (Variable \<lparr>vd_name = name, vd_name_span = name_span,
           vd_span = mk_span (span_start kw_span) (span_end name_span)\<rparr>) st1, toks)))"

definition step_needs :: "span \<Rightarrow> prog_state \<Rightarrow> token list \<Rightarrow> prog_step" where
  "step_needs kw_span st rest =
     and_then (flush_pending st) (\<lambda>st1.
     and_then (expect_name ''NEEDS'' kw_span rest) (\<lambda>((path, path_span), toks).
     Ok (push_item (Needs path (mk_span (span_start kw_span) (span_end path_span))) st1, toks)))"

lemma skip_comments_shorter: "length (skip_comments toks) \<le> length toks"
  by (simp add: skip_comments_def length_dropWhile_le)

text \<open>
  The size after CREATE: \<open>allot_unit\<close> reads an optional CELLS or CHARS, and
  \<open>create_allots\<close> collects the runs of \<^verbatim>\<open>N [CELLS|CHARS] ALLOT\<close> with saturating arithmetic.
\<close>

definition allot_unit :: "token list \<Rightarrow> u32 \<times> token list" where
  "allot_unit toks =
     (case toks of
        t # rest \<Rightarrow>
          (case tok_kind t of
             TokWord w \<Rightarrow>
               if eq_ignore_ascii_case w ''cells'' then (8, skip_comments rest)
               else if eq_ignore_ascii_case w ''chars'' then (1, skip_comments rest)
               else (1, toks)
           | _ \<Rightarrow> (1, toks))
      | [] \<Rightarrow> (1, toks))"

lemma allot_unit_shorter: "length (snd (allot_unit toks)) \<le> length toks"
  using skip_comments_shorter [of "tl toks"]
  by (auto simp: allot_unit_def split: list.split tok.split)

text \<open>\<open>allot_run\<close> matches one run and answers its number of bytes, its last span and the rest.\<close>

definition allot_run :: "token list \<Rightarrow> (u32 \<times> span \<times> token list) option" where
  "allot_run toks =
     (case skip_comments toks of
        n_tok # toks1 \<Rightarrow>
          (case tok_kind n_tok of
             TokInt v _ _ \<Rightarrow>
               if 0 \<le> sint v then
                 (let (multiplier, toks2) = allot_unit (skip_comments toks1) in
                  case toks2 of
                    allot_tok # toks3 \<Rightarrow>
                      (case tok_kind allot_tok of
                         TokWord w \<Rightarrow>
                           if eq_ignore_ascii_case w ''allot''
                           then Some (saturating_mul (ucast v) multiplier, tok_span allot_tok, toks3)
                           else None
                       | _ \<Rightarrow> None)
                  | [] \<Rightarrow> None)
               else None
           | _ \<Rightarrow> None)
      | [] \<Rightarrow> None)"

lemma allot_run_shorter:
  assumes "allot_run toks = Some (b, sp, rest)"
  shows "length rest < length toks"
proof -
  obtain n_tok toks1 where 1: "skip_comments toks = n_tok # toks1"
    using assms by (auto simp: allot_run_def split: list.splits)
  then obtain m toks2 a where 2: "allot_unit (skip_comments toks1) = (m, toks2)" "toks2 = a # rest"
    using assms by (auto simp: allot_run_def split: list.splits tok.splits if_splits prod.splits)
  have "length toks2 \<le> length (skip_comments toks1)" using allot_unit_shorter 2 by (metis snd_conv)
  also have "\<dots> \<le> length toks1" by (rule skip_comments_shorter)
  also have "\<dots> < length toks" using skip_comments_shorter [of toks] 1 by simp
  finally show ?thesis using 2 by simp
qed

function create_allots :: "u32 \<Rightarrow> span \<Rightarrow> token list \<Rightarrow> u32 \<times> span \<times> token list" where
  "create_allots allotted end_span toks =
     (case allot_run toks of
        None \<Rightarrow> (allotted, end_span, toks)
      | Some (bytes, sp, rest) \<Rightarrow> create_allots (saturating_add allotted bytes) sp rest)"
  by pat_completeness auto
termination
  by (relation "measure (\<lambda>(_, _, toks). length toks)") (auto dest: allot_run_shorter)

declare create_allots.simps [simp del]

definition step_create :: "span \<Rightarrow> prog_state \<Rightarrow> token list \<Rightarrow> prog_step" where
  "step_create kw_span st rest =
     and_then (flush_pending st) (\<lambda>st1.
     and_then (expect_name ''CREATE'' kw_span rest) (\<lambda>((name, name_span), toks1).
     let (allotted, end_span, toks2) = create_allots 0 name_span toks1 in
     Ok (push_item (Create \<lparr>cr_name = name, cr_name_span = name_span, cr_allotted_bytes = allotted,
           cr_span = mk_span (span_start kw_span) (span_end end_span)\<rparr>) st1, toks2)))"

fun collection_count :: "expr \<Rightarrow> u32 option" where
  "collection_count (Lit (IntLit v _)) = (if 0 \<le> sint v then Some (ucast v) else None)"
| "collection_count _ = None"

definition step_collection :: "collection_kind \<Rightarrow> string \<Rightarrow> span \<Rightarrow> prog_state \<Rightarrow> token list \<Rightarrow> prog_step" where
  "step_collection kind kw kw_span st rest =
     (case last_opt (ps_pending st) of
        None \<Rightarrow> Err (ConstantWithoutValue kw kw_span)
      | Some size_e \<Rightarrow>
          (case collection_count size_e of
             None \<Rightarrow> Err (NonLiteralConstantValue kw (expr_span size_e))
           | Some count \<Rightarrow>
               and_then (flush_pending (st\<lparr>ps_pending := butlast (ps_pending st)\<rparr>)) (\<lambda>st1.
               and_then (expect_name kw kw_span rest) (\<lambda>((name, name_span), toks).
               Ok (push_item (Collection \<lparr>col_name = name, col_name_span = name_span, col_kind = kind,
                     col_count = count,
                     col_span = mk_span (span_start (expr_span size_e)) (span_end name_span)\<rparr>) st1, toks)))))"

fun const_value_of :: "expr list \<Rightarrow> const_value" where
  "const_value_of [Lit (IntLit v _)] = ConstInt v"
| "const_value_of [Lit (FloatLit v _)] = ConstFloat v"
| "const_value_of pending = ConstComputed pending"

definition step_constant :: "const_flavour \<Rightarrow> string \<Rightarrow> span \<Rightarrow> prog_state \<Rightarrow> token list \<Rightarrow> prog_step" where
  "step_constant flavour kw kw_span st rest =
     (case ps_pending st of
        [] \<Rightarrow> Err (ConstantWithoutValue kw kw_span)
      | first # _ \<Rightarrow>
          and_then (expect_name kw kw_span rest) (\<lambda>((name, name_span), toks).
          Ok (push_item (Constant \<lparr>con_name = name, con_name_span = name_span,
                con_value = const_value_of (ps_pending st),
                con_span = mk_span (span_start (expr_span first)) (span_end name_span),
                con_flavour = flavour\<rparr>) (st\<lparr>ps_pending := [], ps_start := None\<rparr>), toks)))"

definition step_value :: "span \<Rightarrow> prog_state \<Rightarrow> token list \<Rightarrow> prog_step" where
  "step_value kw_span st rest =
     (case ps_pending st of
        [] \<Rightarrow> Err (ConstantWithoutValue ''VALUE'' kw_span)
      | first # _ \<Rightarrow>
          and_then (expect_name ''VALUE'' kw_span rest) (\<lambda>((name, name_span), toks).
          Ok (push_item (Value \<lparr>val_name = name, val_name_span = name_span, val_initial = ps_pending st,
                val_span = mk_span (span_start (expr_span first)) (span_end name_span)\<rparr>)
                (st\<lparr>ps_pending := [], ps_start := None\<rparr>), toks)))"

text \<open>A defining word that flushes the pending expressions and then reads one item.\<close>

definition step_item :: "item reader \<Rightarrow> prog_state \<Rightarrow> token list \<Rightarrow> prog_step" where
  "step_item rd st toks =
     and_then (flush_pending st) (\<lambda>st1.
     and_then (rd toks) (\<lambda>(it, toks1). Ok (push_item it st1, toks1)))"

definition map_reader :: "('a \<Rightarrow> 'b) \<Rightarrow> 'a reader \<Rightarrow> 'b reader" where
  "map_reader f rd toks = and_then (rd toks) (\<lambda>(x, toks1). Ok (f x, toks1))"

definition step_expr :: "nat \<Rightarrow> token \<Rightarrow> prog_state \<Rightarrow> token list \<Rightarrow> prog_step" where
  "step_expr n t st rest =
     and_then (expr_one n (t # rest)) (\<lambda>(e, toks1).
     Ok (st\<lparr>ps_pending := ps_pending st @ [e],
            ps_start := (case ps_start st of None \<Rightarrow> Some (tok_span t) | s \<Rightarrow> s)\<rparr>, toks1))"

definition program_step :: "nat \<Rightarrow> token \<Rightarrow> prog_state \<Rightarrow> token list \<Rightarrow> prog_step" where
  "program_step n t st rest =
     (let sp = tok_span t in
      case (case tok_kind t of TokWord w \<Rightarrow> Some (to_ascii_lowercase w) | _ \<Rightarrow> None) of
        None \<Rightarrow> step_expr n t st rest
      | Some w \<Rightarrow>
          if w = '':'' then step_item (colon_definition n) st (t # rest)
          else if w = '';'' then Err (StraySemicolon sp)
          else if w = ''variable'' then step_variable sp st rest
          else if w = ''needs'' then step_needs sp st rest
          else if w = ''create'' then step_create sp st rest
          else if w = ''array'' then step_collection Array ''ARRAY'' sp st rest
          else if w = ''farray'' then step_collection FArray ''FARRAY'' sp st rest
          else if w = ''cbuffer'' then step_collection CBuffer ''CBUFFER'' sp st rest
          else if w = ''constant'' then step_constant CellFlavour ''CONSTANT'' sp st rest
          else if w = ''fconstant'' then step_constant FloatFlavour ''FCONSTANT'' sp st rest
          else if w = ''class:'' then step_item (map_reader Class (class_definition n sp)) st rest
          else if w = ''generic:'' then step_item (map_reader Generic (generic_declaration sp)) st rest
          else if w = ''method:'' then step_item (map_reader Method (method_definition n sp ''METHOD:'' Primary)) st rest
          else if w = ''method-before:''
            then step_item (map_reader Method (method_definition n sp ''METHOD-BEFORE:'' Before)) st rest
          else if w = ''method-after:''
            then step_item (map_reader Method (method_definition n sp ''METHOD-AFTER:'' After)) st rest
          else if w = ''value'' then step_value sp st rest
          else step_expr n t st rest)"

fun program_loop :: "nat \<Rightarrow> prog_state \<Rightarrow> token list \<Rightarrow> (parse_error, program) outcome" where
  "program_loop 0 st toks = OutOfFuel"
| "program_loop (Suc n) st toks =
     (case skip_comments toks of
        [] \<Rightarrow> and_then (flush_pending st) (\<lambda>st1. Ok (ps_items st1))
      | t # rest \<Rightarrow>
          and_then (program_step (Suc n) t st rest) (\<lambda>(st1, toks1). program_loop n st1 toks1))"

definition parse :: "token list \<Rightarrow> (parse_error, program) outcome" where
  "parse toks = program_loop (length toks + 1) \<lparr>ps_items = [], ps_pending = [], ps_start = None\<rparr> toks"

end
