(* ===== verification/Parser_Correct.thy ===== *)
theory Parser_Correct
  imports Parser
begin

text \<open>
  The parser answers on every token list: no \<^verbatim>\<open>unwrap\<close>, \<^verbatim>\<open>expect\<close> or \<^verbatim>\<open>unreachable!\<close> of the source
  is reached and every loop ends.
\<close>

section \<open>Readers of tokens\<close>

abbreviation shrinks :: "nat \<Rightarrow> (parse_error, 'a \<times> token list) outcome \<Rightarrow> bool" where
  "shrinks \<equiv> answers_below length"

lemmas shrinks_bind = answers_below_bind [where f = length]
  and shrinks_mono = answers_below_mono [where f = length]
  and shrinks_returned = answers_below_returned [where f = length]

text \<open>The situation in which \<^verbatim>\<open>expr_one\<close> is called: at a token that is not a comment.\<close>

definition at_expr :: "token list \<Rightarrow> bool" where
  "at_expr toks \<longleftrightarrow> (case toks of [] \<Rightarrow> False | t # _ \<Rightarrow> \<not> is_comment (tok_kind t))"

lemma skip_comments_Cons: "skip_comments toks = t # rest \<Longrightarrow> at_expr (t # rest) \<and> length rest < length toks"
  using skip_comments_shorter [of toks] hd_dropWhile [of "\<lambda>t. is_comment (tok_kind t)" toks]
  by (auto simp: skip_comments_def at_expr_def)

lemma shrinks_expect_name: "length toks \<le> w \<Longrightarrow> shrinks w (expect_name kw sp toks)"
  by (auto simp: expect_name_def split: list.split tok.split)

lemma shrinks_parse_locals_block: "length toks \<le> w \<Longrightarrow> shrinks w (parse_locals_block sp toks)"
proof (induction sp toks arbitrary: w rule: parse_locals_block.induct)
  case (2 sp t rest)
  show ?case
  proof (cases "tok_kind t")
    case (TokWord w')
    with 2 show ?thesis by (auto intro!: shrinks_bind [where w = w])
  qed (use 2 in auto)
qed simp

lemma parse_block_until_term:
  "parse_block_until rec n opener sp terms toks = Ok ((body, term), rest) \<Longrightarrow>
   \<exists>w \<in> set terms. term_word term = Some w"
proof (induction n arbitrary: toks body)
  case (Suc n)
  from Suc.prems show ?case
    by (auto simp: term_word_def split: list.splits if_splits tok.splits dest: Suc.IH)
qed simp

section \<open>Expressions\<close>

text \<open>
  The contract of the reader that the control-flow parsers call for nested expressions:
  on fewer than \<open>w\<close> tokens that start an expression it answers and consumes a token.
\<close>

locale expr_reader =
  fixes w :: nat and rec :: "expr reader"
  assumes shrinks_rec: "length toks < w \<Longrightarrow> at_expr toks \<Longrightarrow> shrinks (length toks) (rec toks)"
begin

lemma shrinks_rec_skip:
  assumes "skip_comments toks = t # rest" "length toks < w"
  shows "shrinks (length toks) (rec (t # rest))"
proof -
  have "length (t # rest) \<le> length toks" using skip_comments_shorter [of toks] assms(1) by simp
  then show ?thesis
    using skip_comments_Cons [OF assms(1)] assms(2) by (intro shrinks_mono [OF shrinks_rec]) auto
qed

lemma shrinks_parse_block_until:
  "length toks < w \<Longrightarrow> length toks < n \<Longrightarrow>
    shrinks (length toks) (parse_block_until rec n opener sp terms toks)"
proof (induction n arbitrary: toks)
  case (Suc n)
  show ?case
  proof (cases "skip_comments toks")
    case (Cons t rest)
    with skip_comments_Cons [OF Cons] Suc.prems show ?thesis
      by (auto intro!: shrinks_bind [OF shrinks_rec_skip [OF Cons]] shrinks_bind [OF Suc.IH])
  qed simp
qed simp

lemmas block_bind = shrinks_bind [OF shrinks_parse_block_until]

lemma shrinks_parse_if:
  "length toks < w \<Longrightarrow> length toks < n \<Longrightarrow> shrinks (length toks) (parse_if rec n sp toks)"
  unfolding parse_if_def
  by (auto intro!: block_bind dest!: parse_block_until_term)

lemma shrinks_parse_begin:
  "length toks < w \<Longrightarrow> length toks < n \<Longrightarrow> shrinks (length toks) (parse_begin rec n sp toks)"
  unfolding parse_begin_def Let_def
  by (auto intro!: block_bind dest!: parse_block_until_term)

lemma shrinks_parse_do:
  "length toks < w \<Longrightarrow> length toks < n \<Longrightarrow> shrinks (length toks) (parse_do rec n sp q toks)"
  unfolding parse_do_def Let_def
  by (auto intro!: block_bind dest!: parse_block_until_term)

lemma shrinks_parse_case_arms:
  "length toks < w \<Longrightarrow> length toks < n \<Longrightarrow> shrinks (length toks) (parse_case_arms rec n sp toks)"
proof (induction n arbitrary: toks)
  case (Suc n)
  then show ?case
    unfolding parse_case_arms.simps Let_def
    by (auto simp del: parse_block_until.simps
        intro!: block_bind shrinks_bind [OF Suc.IH] dest!: parse_block_until_term)
qed simp

lemma shrinks_parse_case:
  "length toks < w \<Longrightarrow> length toks < n \<Longrightarrow> shrinks (length toks) (parse_case rec n sp toks)"
  unfolding parse_case_def by (auto intro!: shrinks_bind [OF shrinks_parse_case_arms])

lemma shrinks_parse_word:
  assumes "length rest < w" "length rest < n"
  shows "shrinks (Suc (length rest)) (parse_word rec n nm sp rest)"
proof -
  note up = shrinks_mono [where w = "Suc (length rest)", OF _ le_SucI [OF le_refl]]
  note cf = up [OF shrinks_parse_if [OF assms]] up [OF shrinks_parse_begin [OF assms]]
    up [OF shrinks_parse_do [OF assms]] up [OF shrinks_parse_case [OF assms]]
  show ?thesis
    unfolding parse_word_def Let_def
    by (auto simp: cf intro!: shrinks_bind [OF shrinks_expect_name [OF le_refl]]
        shrinks_bind [OF shrinks_parse_locals_block [OF le_refl]])
qed

lemma shrinks_parse_colon_body:
  "length toks < w \<Longrightarrow> length toks < n \<Longrightarrow> shrinks (length toks) (parse_colon_body rec n sp toks)"
proof (induction n arbitrary: toks)
  case (Suc n)
  show ?case
  proof (cases "skip_comments toks")
    case (Cons t rest)
    with skip_comments_Cons [OF Cons] Suc.prems show ?thesis
      by (auto intro!: shrinks_bind [OF shrinks_rec_skip [OF Cons]] shrinks_bind [OF Suc.IH])
  qed simp
qed simp

lemma shrinks_parse_method_body:
  "length toks < w \<Longrightarrow> length toks < n \<Longrightarrow> shrinks (length toks) (parse_method_body rec n sp toks)"
proof (induction n arbitrary: toks)
  case (Suc n)
  show ?case
  proof (cases "skip_comments toks")
    case (Cons t rest)
    with skip_comments_Cons [OF Cons] Suc.prems show ?thesis
      by (auto intro!: shrinks_bind [OF shrinks_rec_skip [OF Cons]] shrinks_bind [OF Suc.IH])
  qed simp
qed simp

end

lemma let_parse_returns: "let_parse body \<noteq> Panic" "let_parse body \<noteq> OutOfFuel"
  using let_parse_returned [of body] by auto

lemma expr_one_reader: "expr_reader n (expr_one n)"
proof (induction n)
  case 0
  show ?case by unfold_locales simp
next
  case (Suc n)
  show ?case
  proof
    fix toks :: "token list" assume len: "length toks < Suc n" and at: "at_expr toks"
    then obtain t rest where toks: "toks = t # rest" and "\<not> is_comment (tok_kind t)"
      by (auto simp: at_expr_def split: list.splits)
    then show "shrinks (length toks) (expr_one (Suc n) toks)"
      using len let_parse_returns expr_reader.shrinks_parse_word [OF Suc, of rest "Suc n"]
      by (cases "tok_kind t") (auto split: outcome.split)
  qed
qed

interpretation expr_one: expr_reader n "expr_one n" for n
  by (rule expr_one_reader)

section \<open>Items and programs\<close>

lemma shrinks_head_locals: "shrinks (Suc (length toks)) (head_locals toks)"
proof -
  have "skip_comments toks = t # rest \<Longrightarrow> length rest \<le> Suc (length toks)" for t rest
    using skip_comments_shorter [of toks] by simp
  then show ?thesis
    using skip_comments_shorter [of toks]
    by (auto simp: head_locals_def Let_def split: list.split intro!: shrinks_parse_locals_block)
qed

lemma optional_effect_length: "optional_effect toks = (eff, rest) \<Longrightarrow> length rest \<le> length toks"
  by (auto simp: optional_effect_def split: list.splits tok.splits option.splits)

lemma shrinks_colon_definition:
  assumes "length toks < n" "toks \<noteq> []"
  shows "shrinks (length toks) (colon_definition n toks)"
proof -
  obtain colon toks1 where toks: "toks = colon # toks1" using assms(2) by (cases toks) auto
  have body: "shrinks (Suc (Suc (length toks2))) (and_then (head_locals toks3) (\<lambda>(locals, toks4).
      and_then (parse_colon_body (expr_one n) n sp toks4) (\<lambda>((body, end_span), toks5).
      Ok (f locals body end_span, toks5))))"
    if "length toks3 \<le> length toks2" "Suc (Suc (length toks2)) < n" for toks2 toks3 sp f
    using that
    by (auto intro!: shrinks_bind [OF shrinks_head_locals] shrinks_bind [OF expr_one.shrinks_parse_colon_body])
  show ?thesis
    using assms(1) unfolding colon_definition_def toks list.case
    by (auto simp: Let_def split: list.split tok.split prod.split dest!: optional_effect_length intro!: body)
qed

lemma shrinks_class_slots: "length toks < n \<Longrightarrow> shrinks (length toks) (class_slots n sp toks)"
proof (induction n arbitrary: toks)
  case (Suc n)
  show ?case
  proof (cases "skip_comments toks")
    case (Cons t rest)
    have name: "shrinks (length toks) (expect_name ''SLOT:'' sp (skip_comments rest))"
      using skip_comments_Cons [OF Cons] skip_comments_shorter [of rest]
      by (intro shrinks_expect_name) simp
    with Cons skip_comments_Cons [OF Cons] Suc.prems show ?thesis
      by (auto split: tok.split intro!: shrinks_bind [OF name] shrinks_bind [OF Suc.IH])
  qed simp
qed simp

lemma shrinks_class_extends: "shrinks (Suc (length toks)) (class_extends sp toks)"
proof (cases "skip_comments toks")
  case (Cons t rest)
  have name: "shrinks (Suc (length toks)) (expect_name ''EXTENDS'' sp (skip_comments rest))"
    using skip_comments_Cons [OF Cons] skip_comments_shorter [of rest]
    by (intro shrinks_expect_name) simp
  with Cons skip_comments_shorter [of toks] show ?thesis
    by (auto simp: class_extends_def Let_def split: tok.split intro!: shrinks_bind [OF name])
qed (simp add: class_extends_def)

lemma shrinks_required_effect: "shrinks (Suc (length toks)) (required_effect m1 m2 sp toks)"
  by (auto simp: required_effect_def split: list.split tok.split option.split)

lemma shrinks_class_definition: "length toks < n \<Longrightarrow> shrinks (Suc (length toks)) (class_definition n sp toks)"
  unfolding class_definition_def
  by (auto intro!: shrinks_bind [OF shrinks_expect_name [OF le_refl]] shrinks_bind [OF shrinks_class_extends]
      shrinks_bind [OF shrinks_class_slots])

lemma shrinks_generic_declaration: "shrinks (Suc (length toks)) (generic_declaration sp toks)"
  unfolding generic_declaration_def
  by (auto intro!: shrinks_bind [OF shrinks_expect_name [OF le_refl]] shrinks_bind [OF shrinks_required_effect])

lemma shrinks_method_definition:
  "length toks < n \<Longrightarrow> shrinks (Suc (length toks)) (method_definition n sp kw k toks)"
  unfolding method_definition_def Let_def
  by (auto split: prod.split intro!: shrinks_bind [OF shrinks_expect_name [OF le_refl]]
      shrinks_bind [OF shrinks_required_effect] shrinks_bind [OF shrinks_head_locals]
      shrinks_bind [OF expr_one.shrinks_parse_method_body])

lemma create_allots_length: "create_allots a sp toks = (b, sp', rest) \<Longrightarrow> length rest \<le> length toks"
proof (induction a sp toks rule: create_allots.induct)
  case (1 a sp toks)
  show ?case
  proof (cases "allot_run toks")
    case None
    with "1.prems" show ?thesis by (simp add: create_allots.simps [of a sp toks])
  next
    case (Some r)
    obtain bytes sp1 rest1 where r: "r = (bytes, sp1, rest1)" by (cases r) auto
    with Some "1.prems" "1.IH" [OF Some r [symmetric] refl] allot_run_shorter [of toks bytes sp1 rest1]
    show ?thesis by (simp add: create_allots.simps [of a sp toks])
  qed
qed

text \<open>
  The invariant of the program loop: while expressions are pending, their start is known.
\<close>

definition pending_ok :: "prog_state \<Rightarrow> bool" where
  "pending_ok st \<longleftrightarrow> (ps_pending st \<noteq> [] \<longrightarrow> ps_start st \<noteq> None)"

fun step_ok :: "nat \<Rightarrow> prog_step \<Rightarrow> bool" where
  "step_ok w (Ok (st, toks)) = (pending_ok st \<and> length toks < w)"
| "step_ok w (Err e) = True"
| "step_ok w Panic = False"
| "step_ok w OutOfFuel = False"

lemma step_ok_flush:
  assumes "pending_ok st" "\<And>st1. pending_ok st1 \<Longrightarrow> step_ok w (f st1)"
  shows "step_ok w (and_then (flush_pending st) f)"
  using assms by (auto simp: flush_pending_def pending_ok_def split: option.split)

lemma step_ok_read:
  assumes "shrinks w m" "\<And>x toks. length toks < w \<Longrightarrow> step_ok w (f (x, toks))"
  shows "step_ok w (and_then m f)"
  using assms(1) by (cases "(length :: token list \<Rightarrow> nat, w, m)" rule: answers_below.cases) (auto intro: assms(2))

lemma step_ok_name:
  assumes "\<And>name nsp toks. length toks \<le> length rest \<Longrightarrow> step_ok (Suc (length rest)) (f ((name, nsp), toks))"
  shows "step_ok (Suc (length rest)) (and_then (expect_name kw sp rest) f)"
  by (rule step_ok_read [OF shrinks_mono [OF shrinks_expect_name [OF le_refl]]]) (use assms in auto)

lemma pending_ok_simps [simp]:
  "pending_ok (st\<lparr>ps_items := its\<rparr>) = pending_ok st"
  "pending_ok (st\<lparr>ps_pending := [], ps_start := s\<rparr>)"
  "pending_ok (st\<lparr>ps_items := its, ps_pending := [], ps_start := s\<rparr>)"
  by (simp_all add: pending_ok_def)

lemma step_ok_item: "pending_ok st \<Longrightarrow> shrinks w (rd toks) \<Longrightarrow> step_ok w (step_item rd st toks)"
  by (auto simp: step_item_def intro!: step_ok_flush step_ok_read)

lemma shrinks_map_reader: "shrinks w (rd toks) \<Longrightarrow> shrinks w (map_reader f rd toks)"
  by (auto simp: map_reader_def intro: shrinks_bind)

lemma step_ok_collection:
  assumes "pending_ok st"
  shows "step_ok (Suc (length rest)) (step_collection k kw sp st rest)"
proof -
  have "pending_ok (st\<lparr>ps_pending := butlast (ps_pending st)\<rparr>)"
    using assms by (auto simp: pending_ok_def)
  then have flush: "step_ok (Suc (length rest))
      (and_then (flush_pending (st\<lparr>ps_pending := butlast (ps_pending st)\<rparr>)) (\<lambda>st1.
       and_then (expect_name kw sp rest) (\<lambda>((name, name_span), toks). Ok (push_item (f name name_span) st1, toks))))" for f
    by (auto intro!: step_ok_flush step_ok_name)
  show ?thesis
    using flush unfolding step_collection_def Let_def
    by (simp split: option.split)
qed

lemma step_ok_program_step:
  assumes "pending_ok st" "Suc (length rest) < n" "\<not> is_comment (tok_kind t)"
  shows "step_ok (Suc (length rest)) (program_step n t st rest)"
proof -
  have at: "at_expr (t # rest)" using assms(3) by (simp add: at_expr_def)
  have expr: "step_ok (Suc (length rest)) (step_expr n t st rest)"
    using expr_one.shrinks_rec [of "t # rest" n] at assms
    by (auto simp: step_expr_def pending_ok_def intro!: step_ok_read split: option.split)
  have simple: "step_ok (Suc (length rest)) (step_variable sp st rest)"
    "step_ok (Suc (length rest)) (step_needs sp st rest)"
    "step_ok (Suc (length rest)) (step_value sp st rest)"
    "step_ok (Suc (length rest)) (step_constant fl kw sp st rest)" for sp fl kw
    using assms(1)
    by (auto simp: step_variable_def step_needs_def step_value_def step_constant_def
        split: list.split intro!: step_ok_flush step_ok_name)
  have create: "step_ok (Suc (length rest)) (step_create sp st rest)" for sp
    using assms(1)
    by (auto simp: step_create_def Let_def split: prod.split dest!: create_allots_length
        intro!: step_ok_flush step_ok_name)
  have items: "step_ok (Suc (length rest)) (step_item (colon_definition n) st (t # rest))"
    "step_ok (Suc (length rest)) (step_item (map_reader Class (class_definition n sp)) st rest)"
    "step_ok (Suc (length rest)) (step_item (map_reader Generic (generic_declaration sp)) st rest)"
    "step_ok (Suc (length rest)) (step_item (map_reader Method (method_definition n sp kw k)) st rest)" for sp kw k
    using assms(1,2) shrinks_colon_definition [of "t # rest" n]
    by (auto intro!: step_ok_item shrinks_map_reader shrinks_class_definition shrinks_generic_declaration
        shrinks_method_definition)
  note leaves = expr simple create items step_ok_collection [OF assms(1)]
  show ?thesis
    unfolding program_step_def Let_def by (simp add: leaves split: option.split)
qed

lemma program_loop_returns:
  "pending_ok st \<Longrightarrow> length toks < n \<Longrightarrow> returned (program_loop n st toks)"
proof (induction n arbitrary: st toks)
  case (Suc n)
  show ?case
  proof (cases "skip_comments toks")
    case Nil
    then show ?thesis using Suc.prems
      by (auto simp: flush_pending_def pending_ok_def split: option.split)
  next
    case (Cons t rest)
    note sk = skip_comments_Cons [OF Cons]
    have "step_ok (Suc (length rest)) (program_step (Suc n) t st rest)"
      using sk Suc.prems by (intro step_ok_program_step) (auto simp: at_expr_def)
    then show ?thesis
      using Cons sk Suc.prems
      by (cases "(Suc (length rest), program_step (Suc n) t st rest)" rule: step_ok.cases) (auto intro!: Suc.IH)
  qed
qed simp

text \<open>
  C17. Parsing always answers: for every list of tokens the parser returns a program or a parse
  error. None of the panics of the source is reachable, and the recursive descent ends.
\<close>

theorem parse_total: "\<exists>prog e. parse toks = Ok prog \<or> parse toks = Err e"
proof -
  have "returned (parse toks)"
    unfolding parse_def by (rule program_loop_returns) (simp_all add: pending_ok_def)
  then show ?thesis by (auto simp: returned_iff)
qed

end
