(* ===== verification/Targets.thy ===== *)
theory Targets
  imports Ast
begin

text \<open>
  The binding targets and the errors of the resolver (\<^verbatim>\<open>src/compiler/resolve.rs\<close>), which later
  passes refer to through the map from the span of a word reference to its target.
\<close>

datatype target =
    Builtin string string
  | QualifiedBuiltin string string
  | UserDefined string
  | Local string

fun to_factor_token :: "target \<Rightarrow> string" where
  "to_factor_token (Builtin vocab factor_name) = factor_name"
| "to_factor_token (QualifiedBuiltin vocab factor_name) = vocab @ '':'' @ factor_name"
| "to_factor_token (UserDefined factor_name) = factor_name"
| "to_factor_token (Local name) = name"

fun target_vocab :: "target \<Rightarrow> string option" where
  "target_vocab (Builtin vocab _) = Some vocab"
| "target_vocab (QualifiedBuiltin vocab _) = Some vocab"
| "target_vocab (UserDefined _) = None"
| "target_vocab (Local _) = None"

type_synonym word_targets = "span \<rightharpoonup> target"

datatype resolve_error =
    UnknownWord string span
  | RedefinedWord string span span
  | RecurseNeedsEffect string span
  | ToNotValue string span

fun display_resolve_error :: "resolve_error \<Rightarrow> string" where
  "display_resolve_error (UnknownWord name at) =
     ''unknown word '' @ bq @ name @ bq @ '' at '' @ display_span at"
| "display_resolve_error (RedefinedWord name at prev) =
     ''redefinition of '' @ bq @ name @ bq @ '' at '' @ display_span at @ '' (previously defined at ''
       @ display_span prev @ '')''"
| "display_resolve_error (RecurseNeedsEffect word at) =
     bq @ word @ bq @ '' at '' @ display_span at @ '' uses RECURSE but has no stack-effect annotation ''
       @ [CHR 0xE2, CHR 0x80, CHR 0x94] @ '' add '' @ bq @ ''( ... -- ... )'' @ bq @ '' after the name''"
| "display_resolve_error (ToNotValue name at) =
     bq @ ''TO '' @ name @ bq @ '' at '' @ display_span at @ '': '' @ bq @ name @ bq
       @ '' is not a VALUE (TO only works on VALUEs)''"

end
