(* ===== verification/Lower_Classes.thy ===== *)
theory Lower_Classes
  imports Ast
begin

text \<open>
  Flattening of class slot lists along single inheritance
  (\<^verbatim>\<open>src/compiler/lower_classes.rs\<close>). The hash map from lower-case class names to slot
  lists is a map.
\<close>

section \<open>The pass\<close>

type_synonym class_slots_map = "string \<rightharpoonup> string list"

definition inherited_slots :: "class_slots_map \<Rightarrow> class_def \<Rightarrow> string list" where
  "inherited_slots out c =
     (case cl_extends c of
        None \<Rightarrow> []
      | Some parent \<Rightarrow> (case out (to_ascii_lowercase parent) of None \<Rightarrow> [] | Some slots \<Rightarrow> slots))"

definition own_slots :: "class_def \<Rightarrow> string list" where
  "own_slots c = map (\<lambda>s. to_ascii_lowercase (sl_name s)) (cl_slots c)"

fun compute_class_slots :: "program \<Rightarrow> class_slots_map \<Rightarrow> class_slots_map" where
  "compute_class_slots [] out = out"
| "compute_class_slots (Class c # its) out =
     compute_class_slots its (out(to_ascii_lowercase (cl_name c) \<mapsto> inherited_slots out c @ own_slots c))"
| "compute_class_slots (it # its) out = compute_class_slots its out"

definition class_synthesised_names :: "class_def \<Rightarrow> string list \<Rightarrow> (string \<times> span) list" where
  "class_synthesised_names c all_slots =
     (let class_lc = to_ascii_lowercase (cl_name c) in
      [(class_lc, cl_name_span c), (''<'' @ class_lc @ ''>'', cl_name_span c), (class_lc @ ''?'', cl_name_span c)]
      @ concat (map (\<lambda>s. [(class_lc @ ''>'' @ s, cl_name_span c), (s @ ''>>'' @ class_lc, cl_name_span c),
                          (class_lc @ ''.'' @ s @ ''!'', cl_name_span c)]) all_slots))"

section \<open>The inheritance equation\<close>

fun class_names :: "program \<Rightarrow> string list" where
  "class_names [] = []"
| "class_names (Class c # its) = to_ascii_lowercase (cl_name c) # class_names its"
| "class_names (it # its) = class_names its"

lemma class_names_append [simp]: "class_names (xs @ ys) = class_names xs @ class_names ys"
  by (induction xs rule: class_names.induct) auto

lemma compute_class_slots_append:
  "compute_class_slots (xs @ ys) out = compute_class_slots ys (compute_class_slots xs out)"
  by (induction xs arbitrary: out rule: class_names.induct) auto

lemma compute_class_slots_other:
  "n \<notin> set (class_names its) \<Longrightarrow> compute_class_slots its out n = out n"
  by (induction its arbitrary: out rule: class_names.induct) auto

lemma class_name_in: "Class c \<in> set its \<Longrightarrow> to_ascii_lowercase (cl_name c) \<in> set (class_names its)"
  by (induction its rule: class_names.induct) auto

text \<open>
  Slots are inherited: when the class names of a program are distinct and the parent of a class is
  neither the class itself nor declared after it, the flattened slot list of the class is the flattened
  list of its parent (empty when the parent is unknown) followed by its own slots in declaration order.
\<close>

theorem class_slots_inherited:
  assumes "distinct (class_names (before @ Class c # after))"
    and "\<And>p. cl_extends c = Some p \<Longrightarrow> to_ascii_lowercase p \<notin> set (class_names (Class c # after))"
  shows "compute_class_slots (before @ Class c # after) prior (to_ascii_lowercase (cl_name c)) =
    Some (inherited_slots (compute_class_slots (before @ Class c # after) prior) c @ own_slots c)"
proof -
  let ?n = "to_ascii_lowercase (cl_name c)" and ?m = "compute_class_slots before prior"
  have "compute_class_slots (before @ Class c # after) prior ?n = Some (inherited_slots ?m c @ own_slots c)"
    using assms(1) by (simp add: compute_class_slots_append compute_class_slots_other)
  moreover have "compute_class_slots (before @ Class c # after) prior (to_ascii_lowercase p) = ?m (to_ascii_lowercase p)"
    if "cl_extends c = Some p" for p
    using assms(2) [OF that] by (simp add: compute_class_slots_append compute_class_slots_other)
  ultimately show ?thesis
    by (cases "cl_extends c") (simp_all add: inherited_slots_def)
qed

definition point_class :: class_def where
  "point_class = \<lparr>cl_name = ''Point'', cl_name_span = point START, cl_extends = None,
     cl_slots = [\<lparr>sl_name = ''X'', sl_name_span = point START\<rparr>], cl_span = point START\<rparr>"

definition pixel_class :: class_def where
  "pixel_class = \<lparr>cl_name = ''Pixel'', cl_name_span = point START, cl_extends = Some ''POINT'',
     cl_slots = [\<lparr>sl_name = ''Hue'', sl_name_span = point START\<rparr>], cl_span = point START\<rparr>"

theorem class_slots_inherited_witness:
  "compute_class_slots ([Class point_class] @ Class pixel_class # []) Map.empty (to_ascii_lowercase (cl_name pixel_class)) =
     Some (inherited_slots (compute_class_slots ([Class point_class] @ Class pixel_class # []) Map.empty) pixel_class @ own_slots pixel_class)
    \<and> inherited_slots (compute_class_slots ([Class point_class] @ Class pixel_class # []) Map.empty) pixel_class @ own_slots pixel_class
      = [''x'', ''hue'']"
proof (rule conjI, rule class_slots_inherited)
  show "distinct (class_names ([Class point_class] @ Class pixel_class # []))" by code_simp
  show "to_ascii_lowercase p \<notin> set (class_names (Class pixel_class # []))" if "cl_extends pixel_class = Some p" for p
  proof -
    have "p = ''POINT''" using that by (simp add: pixel_class_def)
    moreover have "to_ascii_lowercase ''POINT'' \<notin> set (class_names [Class pixel_class])" by code_simp
    ultimately show ?thesis by simp
  qed
qed code_simp

end
