(* ===== verification/Resolver.thy ===== *)
theory Resolver
  imports Targets Lower_Classes
begin

text \<open>
  Word resolution (\<^verbatim>\<open>src/compiler/resolve.rs\<close>): the table of built-in words, the two passes over
  the items of a program and the mangling of user-defined names. Hash maps are maps; the set
  of local names in scope is a set.
\<close>

section \<open>The built-in dictionary\<close>

definition builtin_entries1 :: "(string \<times> target) list" where
  "builtin_entries1 =
    [(''dup'', Builtin ''kernel'' ''dup''),
     (''drop'', Builtin ''kernel'' ''drop''),
     (''swap'', Builtin ''kernel'' ''swap''),
     (''over'', Builtin ''kernel'' ''over''),
     (''rot'', Builtin ''kernel'' ''rot''),
     (''nip'', Builtin ''kernel'' ''nip''),
     (''tuck'', Builtin ''kernel'' ''tuck''),
     (''depth'', QualifiedBuiltin ''forth.runtime'' ''depth''),
     (''>r'', QualifiedBuiltin ''forth.runtime'' ''>r''),
     (''r>'', QualifiedBuiltin ''forth.runtime'' ''r>''),
     (''r@'', QualifiedBuiltin ''forth.runtime'' ''r@''),
     (''rdrop'', QualifiedBuiltin ''forth.runtime'' ''rdrop''),
     (''2>r'', QualifiedBuiltin ''forth.runtime'' ''2>r''),
     (''2r>'', QualifiedBuiltin ''forth.runtime'' ''2r>''),
     (''+'', Builtin ''math'' ''+''),
     (''-'', Builtin ''math'' ''-''),
     (''*'', Builtin ''math'' ''*''),
     (''/'', Builtin ''math'' ''/i''),
     (''mod'', QualifiedBuiltin ''forth.runtime'' ''floored-mod''),
     (''negate'', Builtin ''math'' ''neg''),
     (''abs'', Builtin ''math'' ''abs''),
     (''min'', Builtin ''math.order'' ''min''),
     (''max'', Builtin ''math.order'' ''max''),
     (''='', QualifiedBuiltin ''forth.runtime'' ''ans=''),
     (''<>'', QualifiedBuiltin ''forth.runtime'' ''ans<>''),
     (''<'', QualifiedBuiltin ''forth.runtime'' ''ans<''),
     (''>'', QualifiedBuiltin ''forth.runtime'' ''ans>''),
     (''<='', QualifiedBuiltin ''forth.runtime'' ''ans<=''),
     (''>='', QualifiedBuiltin ''forth.runtime'' ''ans>=''),
     (''0='', QualifiedBuiltin ''forth.runtime'' ''ans0=''),
     (''0<'', QualifiedBuiltin ''forth.runtime'' ''ans0<''),
     (''0>'', QualifiedBuiltin ''forth.runtime'' ''ans0>''),
     (''and'', Builtin ''math.bitwise'' ''bitand''),
     (''or'', Builtin ''math.bitwise'' ''bitor''),
     (''xor'', Builtin ''math.bitwise'' ''bitxor''),
     (''invert'', Builtin ''math.bitwise'' ''bitnot''),
     (''i'', QualifiedBuiltin ''forth.runtime'' ''i''),
     (''j'', QualifiedBuiltin ''forth.runtime'' ''j''),
     (''leave'', QualifiedBuiltin ''forth.runtime'' ''leave''),
     (''unloop'', QualifiedBuiltin ''forth.runtime'' ''pop-loop-frame''),
     (''.'', QualifiedBuiltin ''forth.runtime'' ''.''),
     (''u.'', QualifiedBuiltin ''forth.runtime'' ''u.''),
     (''cr'', QualifiedBuiltin ''forth.runtime'' ''cr''),
     (''emit'', QualifiedBuiltin ''forth.runtime'' ''emit''),
     (''space'', QualifiedBuiltin ''forth.runtime'' ''space''),
     (''spaces'', QualifiedBuiltin ''forth.runtime'' ''spaces''),
     (''type'', QualifiedBuiltin ''forth.runtime'' ''type''),
     (''cmove'', QualifiedBuiltin ''forth.runtime'' ''cmove''),
     (''fill'', QualifiedBuiltin ''forth.runtime'' ''fill''),
     (''bl'', QualifiedBuiltin ''forth.runtime'' ''bl'')]"

definition builtin_entries2 :: "(string \<times> target) list" where
  "builtin_entries2 =
    [(''key'', QualifiedBuiltin ''forth.runtime'' ''key''),
     (''accept'', QualifiedBuiltin ''forth.runtime'' ''accept''),
     (''<#'', QualifiedBuiltin ''forth.runtime'' ''<#''),
     (''#'', QualifiedBuiltin ''forth.runtime'' ''#''),
     (''#s'', QualifiedBuiltin ''forth.runtime'' ''#S''),
     (''sign'', QualifiedBuiltin ''forth.runtime'' ''sign''),
     (''hold'', QualifiedBuiltin ''forth.runtime'' ''hold''),
     (''#>'', QualifiedBuiltin ''forth.runtime'' ''#>''),
     (''n>$'', QualifiedBuiltin ''forth.runtime'' ''n>$''),
     (''hex'', QualifiedBuiltin ''forth.runtime'' ''hex''),
     (''decimal'', QualifiedBuiltin ''forth.runtime'' ''decimal''),
     (''binary'', QualifiedBuiltin ''forth.runtime'' ''binary''),
     (''octal'', QualifiedBuiltin ''forth.runtime'' ''octal''),
     (''@'', QualifiedBuiltin ''forth.runtime'' ''@''),
     (''!'', QualifiedBuiltin ''forth.runtime'' ''nf-!''),
     (''c@'', QualifiedBuiltin ''forth.runtime'' ''c@''),
     (''c!'', QualifiedBuiltin ''forth.runtime'' ''nf-c!''),
     (''+!'', QualifiedBuiltin ''forth.runtime'' ''nf-+!''),
     (''cell+'', QualifiedBuiltin ''forth.runtime'' ''cell+''),
     (''char+'', QualifiedBuiltin ''forth.runtime'' ''char+''),
     (''cells'', QualifiedBuiltin ''forth.runtime'' ''cells''),
     (''chars'', QualifiedBuiltin ''forth.runtime'' ''chars''),
     (''floats'', QualifiedBuiltin ''forth.runtime'' ''floats''),
     (''allot'', QualifiedBuiltin ''forth.runtime'' ''allot''),
     (''here'', QualifiedBuiltin ''forth.runtime'' ''here''),
     (''f@'', QualifiedBuiltin ''forth.runtime'' ''f@''),
     (''f!'', QualifiedBuiltin ''forth.runtime'' ''nf-f!''),
     (''s>d'', QualifiedBuiltin ''forth.runtime'' ''s>d''),
     (''d>s'', QualifiedBuiltin ''forth.runtime'' ''d>s''),
     (''d>f'', QualifiedBuiltin ''forth.runtime'' ''d>f''),
     (''f>d'', QualifiedBuiltin ''forth.runtime'' ''f>d''),
     (''f+'', QualifiedBuiltin ''forth.runtime'' ''f+''),
     (''f-'', QualifiedBuiltin ''forth.runtime'' ''f-''),
     (''f*'', QualifiedBuiltin ''forth.runtime'' ''f*''),
     (''f/'', QualifiedBuiltin ''forth.runtime'' ''f/''),
     (''f<'', QualifiedBuiltin ''forth.runtime'' ''ansf<''),
     (''f>'', QualifiedBuiltin ''forth.runtime'' ''ansf>''),
     (''f='', QualifiedBuiltin ''forth.runtime'' ''ansf=''),
     (''execute'', QualifiedBuiltin ''forth.runtime'' ''ans-execute''),
     (''1+'', QualifiedBuiltin ''forth.runtime'' ''1+''),
     (''1-'', QualifiedBuiltin ''forth.runtime'' ''1-''),
     (''2*'', QualifiedBuiltin ''forth.runtime'' ''ans2*''),
     (''2/'', QualifiedBuiltin ''math'' ''2/''),
     (''/mod'', QualifiedBuiltin ''forth.runtime'' ''ans/mod''),
     (''*/'', QualifiedBuiltin ''forth.runtime'' ''ans*/''),
     (''*/mod'', QualifiedBuiltin ''forth.runtime'' ''ans*/mod'')]"

definition builtin_entries3 :: "(string \<times> target) list" where
  "builtin_entries3 =
    [(''lshift'', QualifiedBuiltin ''forth.runtime'' ''ans-lshift''),
     (''rshift'', QualifiedBuiltin ''forth.runtime'' ''ans-rshift''),
     (''2dup'', Builtin ''kernel'' ''2dup''),
     (''2drop'', Builtin ''kernel'' ''2drop''),
     (''2swap'', QualifiedBuiltin ''forth.runtime'' ''ans2swap''),
     (''2over'', QualifiedBuiltin ''forth.runtime'' ''ans2over''),
     (''-rot'', Builtin ''kernel'' ''-rot''),
     (''2@'', QualifiedBuiltin ''forth.runtime'' ''ans2@''),
     (''2!'', QualifiedBuiltin ''forth.runtime'' ''ans2!''),
     (''erase'', QualifiedBuiltin ''forth.runtime'' ''ans-erase''),
     (''0<>'', QualifiedBuiltin ''forth.runtime'' ''ans0<>''),
     (''included'', QualifiedBuiltin ''forth.runtime'' ''nf-included''),
     (''$len'', QualifiedBuiltin ''forth.runtime'' ''$len''),
     (''$clen'', QualifiedBuiltin ''forth.runtime'' ''$clen''),
     (''$+'', QualifiedBuiltin ''forth.runtime'' ''$+''),
     (''$upper'', QualifiedBuiltin ''forth.runtime'' ''$upper''),
     (''$lower'', QualifiedBuiltin ''forth.runtime'' ''$lower''),
     (''$find'', QualifiedBuiltin ''forth.runtime'' ''$find''),
     (''$contains?'', QualifiedBuiltin ''forth.runtime'' ''$contains?''),
     (''$starts?'', QualifiedBuiltin ''forth.runtime'' ''$starts?''),
     (''$ends?'', QualifiedBuiltin ''forth.runtime'' ''$ends?''),
     (''$slice'', QualifiedBuiltin ''forth.runtime'' ''$slice''),
     (''$cmp'', QualifiedBuiltin ''forth.runtime'' ''$cmp''),
     (''$hash'', QualifiedBuiltin ''forth.runtime'' ''$hash''),
     (''$.'', QualifiedBuiltin ''forth.runtime'' ''$.''),
     (''$.cr'', QualifiedBuiltin ''forth.runtime'' ''$.cr''),
     (''int>$'', QualifiedBuiltin ''forth.runtime'' ''int>$''),
     (''$>int'', QualifiedBuiltin ''forth.runtime'' ''$>int''),
     (''>$'', QualifiedBuiltin ''forth.runtime'' ''>$''),
     (''$>addr'', QualifiedBuiltin ''forth.runtime'' ''$>addr''),
     (''exit'', QualifiedBuiltin ''continuations'' ''return''),
     (''typeof'', QualifiedBuiltin ''forth.runtime'' ''nf-typeof''),
     (''int?'', QualifiedBuiltin ''forth.runtime'' ''nf-int?''),
     (''float?'', QualifiedBuiltin ''forth.runtime'' ''nf-float?''),
     (''string?'', QualifiedBuiltin ''forth.runtime'' ''nf-string?''),
     (''xt?'', QualifiedBuiltin ''forth.runtime'' ''nf-xt?''),
     (''addr?'', QualifiedBuiltin ''forth.runtime'' ''nf-addr-pred?'')]"

definition builtin_entries4 :: "(string \<times> target) list" where
  "builtin_entries4 =
    [(''.s'', QualifiedBuiltin ''forth.runtime'' ''nf-.s''),
     (''words'', QualifiedBuiltin ''forth.runtime'' ''nf-words''),
     (''dump'', QualifiedBuiltin ''forth.runtime'' ''nf-dump''),
     (''<cells>'', QualifiedBuiltin ''forth.runtime'' ''nf-cells-new''),
     (''cells@'', QualifiedBuiltin ''forth.runtime'' ''nf-cells-at''),
     (''cells!'', QualifiedBuiltin ''forth.runtime'' ''nf-cells-set''),
     (''<rawvec>'', QualifiedBuiltin ''forth.runtime'' ''nf-rawvec''),
     (''rawvec-push'', QualifiedBuiltin ''forth.runtime'' ''nf-rawvec-push''),
     (''rawvec-len'', QualifiedBuiltin ''forth.runtime'' ''nf-rawvec-len''),
     (''rawvec-at'', QualifiedBuiltin ''forth.runtime'' ''nf-rawvec-at''),
     (''rawvec-set'', QualifiedBuiltin ''forth.runtime'' ''nf-rawvec-set''),
     (''call1'', QualifiedBuiltin ''forth.runtime'' ''nf-call1''),
     (''call1>'', QualifiedBuiltin ''forth.runtime'' ''nf-call1>''),
     (''call2>'', QualifiedBuiltin ''forth.runtime'' ''nf-call2>''),
     (''call2'', QualifiedBuiltin ''forth.runtime'' ''nf-call2''),
     (''(clone)'', QualifiedBuiltin ''forth.runtime'' ''nf-clone''),
     (''<hash>'', QualifiedBuiltin ''forth.runtime'' ''nf-hash-new''),
     (''hash-at'', QualifiedBuiltin ''forth.runtime'' ''nf-hash-at''),
     (''hash!'', QualifiedBuiltin ''forth.runtime'' ''nf-hash-set''),
     (''hash-key?'', QualifiedBuiltin ''forth.runtime'' ''nf-hash-key?''),
     (''hash-del'', QualifiedBuiltin ''forth.runtime'' ''nf-hash-del''),
     (''hash-len'', QualifiedBuiltin ''forth.runtime'' ''nf-hash-len''),
     (''hash-keys'', QualifiedBuiltin ''forth.runtime'' ''nf-hash-keys''),
     (''hash-vals'', QualifiedBuiltin ''forth.runtime'' ''nf-hash-values''),
     (''<hashset>'', QualifiedBuiltin ''forth.runtime'' ''nf-set-new''),
     (''hs-add'', QualifiedBuiltin ''forth.runtime'' ''nf-set-add''),
     (''hs-in?'', QualifiedBuiltin ''forth.runtime'' ''nf-set-has?''),
     (''hs-del'', QualifiedBuiltin ''forth.runtime'' ''nf-set-del''),
     (''hs-len'', QualifiedBuiltin ''forth.runtime'' ''nf-set-len''),
     (''hs-members'', QualifiedBuiltin ''forth.runtime'' ''nf-set-members''),
     (''num>chars'', QualifiedBuiltin ''forth.runtime'' ''nf-num>str-chars''),
     (''chars>num'', QualifiedBuiltin ''forth.runtime'' ''nf-str>num''),
     (''capture1'', QualifiedBuiltin ''forth.runtime'' ''nf-capture-1''),
     (''slurp-vec'', QualifiedBuiltin ''forth.runtime'' ''nf-slurp-file''),
     (''spit-vec'', QualifiedBuiltin ''forth.runtime'' ''nf-spit-file''),
     (''file-exists-vec?'', QualifiedBuiltin ''forth.runtime'' ''nf-file-exists?''),
     (''int-type'', QualifiedBuiltin ''forth.runtime'' ''int-type''),
     (''float-type'', QualifiedBuiltin ''forth.runtime'' ''float-type''),
     (''string-type'', QualifiedBuiltin ''forth.runtime'' ''string-type''),
     (''xt-type'', QualifiedBuiltin ''forth.runtime'' ''xt-type''),
     (''addr-type'', QualifiedBuiltin ''forth.runtime'' ''addr-type''),
     (''other-type'', QualifiedBuiltin ''forth.runtime'' ''other-type''),
     (''gpane-open'', QualifiedBuiltin ''forth.wf64-gfx'' ''gpane-open''),
     (''gpane-begin'', QualifiedBuiltin ''forth.wf64-gfx'' ''gpane-begin''),
     (''gpane-present'', QualifiedBuiltin ''forth.wf64-gfx'' ''gpane-present''),
     (''gpane-clear'', QualifiedBuiltin ''forth.wf64-gfx'' ''gpane-clear''),
     (''gpane-fill-rect'', QualifiedBuiltin ''forth.wf64-gfx'' ''gpane-fill-rect''),
     (''gpane-stroke-rect'', QualifiedBuiltin ''forth.wf64-gfx'' ''gpane-stroke-rect''),
     (''gpane-line'', QualifiedBuiltin ''forth.wf64-gfx'' ''gpane-line''),
     (''gpane-fill-circle'', QualifiedBuiltin ''forth.wf64-gfx'' ''gpane-fill-circle''),
     (''gpane-next-event'', QualifiedBuiltin ''forth.wf64-gfx'' ''gpane-next-event''),
     (''doc-open'', QualifiedBuiltin ''forth.wf64-gfx'' ''doc-open''),
     (''doc-set'', QualifiedBuiltin ''forth.wf64-gfx'' ''doc-set''),
     (''doc-append'', QualifiedBuiltin ''forth.wf64-gfx'' ''doc-append''),
     (''ev-none'', QualifiedBuiltin ''forth.wf64-gfx'' ''EV_NONE''),
     (''ev-key'', QualifiedBuiltin ''forth.wf64-gfx'' ''EV_KEY''),
     (''ev-char'', QualifiedBuiltin ''forth.wf64-gfx'' ''EV_CHAR''),
     (''ev-mouse'', QualifiedBuiltin ''forth.wf64-gfx'' ''EV_MOUSE''),
     (''ev-focus'', QualifiedBuiltin ''forth.wf64-gfx'' ''EV_FOCUS''),
     (''ev-resize'', QualifiedBuiltin ''forth.wf64-gfx'' ''EV_RESIZE''),
     (''ev-close'', QualifiedBuiltin ''forth.wf64-gfx'' ''EV_CLOSE''),
     (''ev-frame-close'', QualifiedBuiltin ''forth.wf64-gfx'' ''EV_FRAME_CLOSE''),
     (''ev-tick'', QualifiedBuiltin ''forth.wf64-gfx'' ''EV_TICK'')]"

text \<open>Collecting pairs into a hash map lets the last entry of a key win.\<close>

definition builtin_entries :: "(string \<times> target) list" where
  "builtin_entries = builtin_entries1 @ builtin_entries2 @ builtin_entries3 @ builtin_entries4"

definition builtin_table :: "string \<rightharpoonup> target" where
  "builtin_table = map_of (rev builtin_entries)"

section \<open>Names\<close>

definition USER_NAME_PREFIX :: string where
  "USER_NAME_PREFIX = ''z-''"

definition factor_user_name :: "string \<Rightarrow> string" where
  "factor_user_name ans_lc =
     USER_NAME_PREFIX @
     (if ans_lc = ''->'' then ''arrow''
      else if ans_lc = ''}t'' then ''end-test''
      else if ans_lc = ''t{'' then ''begin-test''
      else ans_lc)"

section \<open>Resolving expressions\<close>

text \<open>The names that \<^verbatim>\<open>{: ... :}\<close> blocks bind anywhere in a body; \<^verbatim>\<open>_\<close> binds none.\<close>

definition binding_names :: "local_decl list \<Rightarrow> string set" where
  "binding_names ls = set (map (\<lambda>l. to_ascii_lowercase (ld_name l)) (filter (\<lambda>l. ld_name l \<noteq> ''_'') ls))"

fun collect_body_locals :: "expr list \<Rightarrow> string set"
  and collect_locals_opt :: "expr list option \<Rightarrow> string set"
  and collect_locals_expr :: "expr \<Rightarrow> string set"
  and collect_locals_arms :: "case_arm list \<Rightarrow> string set" where
  "collect_body_locals [] = {}"
| "collect_body_locals (e # es) = collect_locals_expr e \<union> collect_body_locals es"
| "collect_locals_opt None = {}"
| "collect_locals_opt (Some es) = collect_body_locals es"
| "collect_locals_expr (Locals names sp) = binding_names names"
| "collect_locals_expr (If t eb sp) = collect_body_locals t \<union> collect_locals_opt eb"
| "collect_locals_expr (BeginUntil b sp) = collect_body_locals b"
| "collect_locals_expr (BeginAgain b sp) = collect_body_locals b"
| "collect_locals_expr (DoLoop q b k sp) = collect_body_locals b"
| "collect_locals_expr (BeginWhileRepeat p b sp) = collect_body_locals p \<union> collect_body_locals b"
| "collect_locals_expr (Case arms d sp) = collect_locals_arms arms \<union> collect_locals_opt d"
| "collect_locals_expr e = {}"
| "collect_locals_arms [] = {}"
| "collect_locals_arms (CaseArm mt b sp # arms) =
     collect_body_locals mt \<union> collect_body_locals b \<union> collect_locals_arms arms"

record scopes =
  sc_builtins :: "string \<rightharpoonup> target"
  sc_user_words :: "string \<rightharpoonup> span"
  sc_value_names :: "string \<rightharpoonup> span"
  sc_locals :: "string set"

text \<open>The lookup shared by word references and \<^verbatim>\<open>' name\<close>.\<close>

definition bind_name :: "scopes \<Rightarrow> string \<Rightarrow> target option" where
  "bind_name sc name =
     (let lc = to_ascii_lowercase name in
      if lc \<in> sc_locals sc then Some (Local lc)
      else if sc_user_words sc lc \<noteq> None then Some (UserDefined (factor_user_name lc))
      else sc_builtins sc lc)"

definition resolve_ref :: "scopes \<Rightarrow> string \<Rightarrow> span \<Rightarrow> word_targets \<Rightarrow> (resolve_error, word_targets) outcome" where
  "resolve_ref sc name sp out =
     (case bind_name sc name of
        Some t \<Rightarrow> Ok (out(sp \<mapsto> t))
      | None \<Rightarrow> Err (UnknownWord name sp))"

fun resolve_exprs :: "scopes \<Rightarrow> expr list \<Rightarrow> word_targets \<Rightarrow> (resolve_error, word_targets) outcome"
  and resolve_opt :: "scopes \<Rightarrow> expr list option \<Rightarrow> word_targets \<Rightarrow> (resolve_error, word_targets) outcome"
  and resolve_expr :: "scopes \<Rightarrow> expr \<Rightarrow> word_targets \<Rightarrow> (resolve_error, word_targets) outcome"
  and resolve_arms :: "scopes \<Rightarrow> case_arm list \<Rightarrow> word_targets \<Rightarrow> (resolve_error, word_targets) outcome" where
  "resolve_exprs sc [] = (\<lambda>out. Ok out)"
| "resolve_exprs sc (e # es) = (\<lambda>out. and_then (resolve_expr sc e out) (\<lambda>out1. resolve_exprs sc es out1))"
| "resolve_opt sc None = (\<lambda>out. Ok out)"
| "resolve_opt sc (Some es) = resolve_exprs sc es"
| "resolve_expr sc (Lit l) = (\<lambda>out. Ok out)"
| "resolve_expr sc (WordRef name sp) = resolve_ref sc name sp"
| "resolve_expr sc (To name sp) =
     (\<lambda>out. if sc_value_names sc (to_ascii_lowercase name) = None then Err (ToNotValue name sp) else Ok out)"
| "resolve_expr sc (See name sp) = (\<lambda>out. Ok out)"
| "resolve_expr sc (If t eb sp) = (\<lambda>out. and_then (resolve_exprs sc t out) (\<lambda>out1. resolve_opt sc eb out1))"
| "resolve_expr sc (BeginUntil b sp) = resolve_exprs sc b"
| "resolve_expr sc (BeginAgain b sp) = resolve_exprs sc b"
| "resolve_expr sc (BeginWhileRepeat p b sp) =
     (\<lambda>out. and_then (resolve_exprs sc p out) (\<lambda>out1. resolve_exprs sc b out1))"
| "resolve_expr sc (DoLoop q b k sp) = resolve_exprs sc b"
| "resolve_expr sc (Case arms d sp) = (\<lambda>out. and_then (resolve_arms sc arms out) (\<lambda>out1. resolve_opt sc d out1))"
| "resolve_expr sc (Tick name sp) = resolve_ref sc name sp"
| "resolve_expr sc (LetForm f sp) = (\<lambda>out. Ok out)"
| "resolve_expr sc (Locals ls sp) = (\<lambda>out. Ok out)"
| "resolve_arms sc [] = (\<lambda>out. Ok out)"
| "resolve_arms sc (CaseArm mt b sp # arms) =
     (\<lambda>out. and_then (resolve_exprs sc mt out) (\<lambda>out1.
       and_then (resolve_exprs sc b out1) (\<lambda>out2. resolve_arms sc arms out2)))"

section \<open>Pass 1: the names of a program\<close>

text \<open>\<^verbatim>\<open>register\<close> rejects a second definition of a name within the program.\<close>

definition register :: "string \<Rightarrow> span \<Rightarrow> (string \<rightharpoonup> span) \<Rightarrow> (resolve_error, string \<rightharpoonup> span) outcome" where
  "register name at items =
     (let lc = to_ascii_lowercase name in
      case items lc of
        Some prev \<Rightarrow> Err (RedefinedWord name at prev)
      | None \<Rightarrow> Ok (items(lc \<mapsto> at)))"

fun register_all :: "(string \<times> span) list \<Rightarrow> (string \<rightharpoonup> span) \<Rightarrow> (resolve_error, string \<rightharpoonup> span) outcome" where
  "register_all [] items = Ok items"
| "register_all ((name, at) # ns) items = and_then (register name at items) (\<lambda>items1. register_all ns items1)"

text \<open>The names an item introduces, in the order in which they are registered.\<close>

fun item_names :: "class_slots_map \<Rightarrow> item \<Rightarrow> (string \<times> span) list" where
  "item_names cs (Definition d) = [(cd_name d, cd_name_span d)]"
| "item_names cs (Variable v) = [(vd_name v, vd_name_span v)]"
| "item_names cs (Constant c) = [(con_name c, con_name_span c)]"
| "item_names cs (Create c) = [(cr_name c, cr_name_span c)]"
| "item_names cs (Collection c) = [(col_name c, col_name_span c)]"
| "item_names cs (Template t) = [(td_name t, td_name_span t)]"
| "item_names cs (TemplateInstance t) = [(ti_name t, ti_name_span t)]"
| "item_names cs (Value v) = [(val_name v, val_name_span v)]"
| "item_names cs (Class c) =
     class_synthesised_names c (case cs (to_ascii_lowercase (cl_name c)) of None \<Rightarrow> [] | Some slots \<Rightarrow> slots)"
| "item_names cs (Generic g) = [(gd_name g, gd_name_span g)]"
| "item_names cs it = []"

fun collect_names :: "class_slots_map \<Rightarrow> program \<Rightarrow> (string \<rightharpoonup> span) \<Rightarrow> (resolve_error, string \<rightharpoonup> span) outcome" where
  "collect_names cs [] user_words = Ok user_words"
| "collect_names cs (it # its) user_words =
     and_then (register_all (item_names cs it) user_words) (\<lambda>user_words1. collect_names cs its user_words1)"

fun local_value_names :: "program \<Rightarrow> (string \<rightharpoonup> span) \<Rightarrow> string \<rightharpoonup> span" where
  "local_value_names [] m = m"
| "local_value_names (Value v # its) m = local_value_names its (m(to_ascii_lowercase (val_name v) \<mapsto> val_name_span v))"
| "local_value_names (it # its) m = local_value_names its m"

section \<open>Pass 2: the bodies\<close>

fun resolve_item :: "scopes \<Rightarrow> item \<Rightarrow> word_targets \<Rightarrow> (resolve_error, word_targets) outcome" where
  "resolve_item sc (Definition d) =
     resolve_exprs (sc\<lparr>sc_locals := binding_names (cd_locals d) \<union> collect_body_locals (cd_body d)\<rparr>) (cd_body d)"
| "resolve_item sc (TopLevel es sp) = resolve_exprs sc es"
| "resolve_item sc (Constant c) = (case con_value c of ConstComputed es \<Rightarrow> resolve_exprs sc es | _ \<Rightarrow> (\<lambda>out. Ok out))"
| "resolve_item sc (Value v) = resolve_exprs sc (val_initial v)"
| "resolve_item sc (Template t) =
     (\<lambda>out. and_then (resolve_exprs sc (td_constructor t) out) (\<lambda>out1. resolve_exprs sc (td_does_body t) out1))"
| "resolve_item sc (Method m) =
     resolve_exprs (sc\<lparr>sc_locals := binding_names (md_locals m) \<union> collect_body_locals (md_body m)\<rparr>) (md_body m)"
| "resolve_item sc it = (\<lambda>out. Ok out)"

fun resolve_items :: "scopes \<Rightarrow> program \<Rightarrow> word_targets \<Rightarrow> (resolve_error, word_targets) outcome" where
  "resolve_items sc [] out = Ok out"
| "resolve_items sc (it # its) out = and_then (resolve_item sc it out) (\<lambda>out1. resolve_items sc its out1)"

record resolved =
  rs_program :: program
  rs_word_targets :: word_targets
  rs_user_words :: "string \<rightharpoonup> span"

definition resolve_with_prior_and_values_and_classes ::
  "program \<Rightarrow> (string \<rightharpoonup> span) \<Rightarrow> (string \<rightharpoonup> span) \<Rightarrow> class_slots_map \<Rightarrow> (resolve_error, resolved) outcome" where
  "resolve_with_prior_and_values_and_classes prog prior_user_words prior_value_names class_slots =
     and_then (collect_names class_slots prog Map.empty) (\<lambda>user_words.
     and_then
       (resolve_items
          \<lparr>sc_builtins = builtin_table, sc_user_words = prior_user_words ++ user_words,
           sc_value_names = prior_value_names ++ local_value_names prog Map.empty, sc_locals = {}\<rparr>
          prog Map.empty) (\<lambda>word_targets.
     Ok \<lparr>rs_program = prog, rs_word_targets = word_targets, rs_user_words = user_words\<rparr>))"

definition resolve_with_prior_and_values ::
  "program \<Rightarrow> (string \<rightharpoonup> span) \<Rightarrow> (string \<rightharpoonup> span) \<Rightarrow> (resolve_error, resolved) outcome" where
  "resolve_with_prior_and_values prog prior_user_words prior_value_names =
     resolve_with_prior_and_values_and_classes prog prior_user_words prior_value_names Map.empty"

definition resolve_with_prior :: "program \<Rightarrow> (string \<rightharpoonup> span) \<Rightarrow> (resolve_error, resolved) outcome" where
  "resolve_with_prior prog prior_user_words = resolve_with_prior_and_values prog prior_user_words Map.empty"

definition resolve :: "program \<Rightarrow> (resolve_error, resolved) outcome" where
  "resolve prog = resolve_with_prior prog Map.empty"

end
