(* ===== verification/Resolver_Correct.thy ===== *)
theory Resolver_Correct
  imports Resolver
begin

text \<open>
  What the resolver computes, stated over the flat list of name uses of a program: the first
  use that has no meaning is the error, and otherwise every reference is bound to what its scope
  gives it.
\<close>

section \<open>Uses of names\<close>

datatype name_use = Ref string span | Store string span

fun uses :: "expr list \<Rightarrow> name_use list"
  and uses_opt :: "expr list option \<Rightarrow> name_use list"
  and uses_expr :: "expr \<Rightarrow> name_use list"
  and uses_arms :: "case_arm list \<Rightarrow> name_use list" where
  "uses [] = []"
| "uses (e # es) = uses_expr e @ uses es"
| "uses_opt None = []"
| "uses_opt (Some es) = uses es"
| "uses_expr (WordRef w sp) = [Ref w sp]"
| "uses_expr (Tick w sp) = [Ref w sp]"
| "uses_expr (To w sp) = [Store w sp]"
| "uses_expr (If t eb sp) = uses t @ uses_opt eb"
| "uses_expr (BeginUntil b sp) = uses b"
| "uses_expr (BeginAgain b sp) = uses b"
| "uses_expr (BeginWhileRepeat p b sp) = uses p @ uses b"
| "uses_expr (DoLoop q b k sp) = uses b"
| "uses_expr (Case arms d sp) = uses_arms arms @ uses_opt d"
| "uses_expr e = []"
| "uses_arms [] = []"
| "uses_arms (CaseArm mt b sp # arms) = uses mt @ uses b @ uses_arms arms"

fun use_error :: "scopes \<times> name_use \<Rightarrow> resolve_error option" where
  "use_error (sc, Ref n sp) = (if bind_name sc n = None then Some (UnknownWord n sp) else None)"
| "use_error (sc, Store n sp) = (if sc_value_names sc (to_ascii_lowercase n) = None then Some (ToNotValue n sp) else None)"

fun use_binding :: "scopes \<times> name_use \<Rightarrow> (span \<times> target) option" where
  "use_binding (sc, Ref n sp) = map_option (Pair sp) (bind_name sc n)"
| "use_binding (sc, Store n sp) = None"

text \<open>The whole contract of the resolver on a list of uses.\<close>

definition resolved_uses :: "(scopes \<times> name_use) list \<Rightarrow> word_targets \<Rightarrow> (resolve_error, word_targets) outcome" where
  "resolved_uses us out =
     (case List.map_filter use_error us of
        e # _ \<Rightarrow> Err e
      | [] \<Rightarrow> Ok (out ++ map_of (rev (List.map_filter use_binding us))))"

lemma map_filter_append: "List.map_filter f (xs @ ys) = List.map_filter f xs @ List.map_filter f ys"
  by (simp add: map_filter_def)

lemma map_filter_map: "List.map_filter f (map g xs) = List.map_filter (\<lambda>x. f (g x)) xs"
  by (simp add: map_filter_def filter_map comp_def)

lemma map_of_rev_distinct: "distinct (map fst xs) \<Longrightarrow> map_of (rev xs) = map_of xs"
  by (simp add: map_of_inject_set rev_map [symmetric])

lemma resolved_uses_Nil [simp]: "resolved_uses [] out = Ok out"
  by (simp add: resolved_uses_def map_filter_simps)

lemma resolved_uses_append:
  "resolved_uses (xs @ ys) out = and_then (resolved_uses xs out) (\<lambda>out1. resolved_uses ys out1)"
  by (auto simp: resolved_uses_def map_filter_append split: list.split)

lemma resolved_uses_Ref: "resolved_uses [(sc, Ref n sp)] = resolve_ref sc n sp"
  by (auto simp: fun_eq_iff resolved_uses_def map_filter_simps resolve_ref_def split: option.split)

lemma resolved_uses_Store:
  "resolved_uses [(sc, Store n sp)] =
     (\<lambda>out. if sc_value_names sc (to_ascii_lowercase n) = None then Err (ToNotValue n sp) else Ok out)"
  by (auto simp: fun_eq_iff resolved_uses_def map_filter_simps)

lemma resolve_flat:
  "resolve_exprs sc es = resolved_uses (map (Pair sc) (uses es))"
  "resolve_opt sc d = resolved_uses (map (Pair sc) (uses_opt d))"
  "resolve_expr sc e = resolved_uses (map (Pair sc) (uses_expr e))"
  "resolve_arms sc arms = resolved_uses (map (Pair sc) (uses_arms arms))"
  by (induction es and d and e and arms rule: expr_induct)
    (simp_all add: resolved_uses_append resolved_uses_Ref resolved_uses_Store fun_eq_iff cong: outcome.case_cong)

section \<open>Items\<close>

fun item_uses :: "scopes \<Rightarrow> item \<Rightarrow> (scopes \<times> name_use) list" where
  "item_uses sc (Definition d) =
     map (Pair (sc\<lparr>sc_locals := binding_names (cd_locals d) \<union> collect_body_locals (cd_body d)\<rparr>)) (uses (cd_body d))"
| "item_uses sc (TopLevel es sp) = map (Pair sc) (uses es)"
| "item_uses sc (Constant c) = (case con_value c of ConstComputed es \<Rightarrow> map (Pair sc) (uses es) | _ \<Rightarrow> [])"
| "item_uses sc (Value v) = map (Pair sc) (uses (val_initial v))"
| "item_uses sc (Template t) = map (Pair sc) (uses (td_constructor t) @ uses (td_does_body t))"
| "item_uses sc (Method m) =
     map (Pair (sc\<lparr>sc_locals := binding_names (md_locals m) \<union> collect_body_locals (md_body m)\<rparr>)) (uses (md_body m))"
| "item_uses sc it = []"

definition program_uses :: "scopes \<Rightarrow> program \<Rightarrow> (scopes \<times> name_use) list" where
  "program_uses sc its = concat (map (item_uses sc) its)"

lemma resolve_item_flat: "resolve_item sc it out = resolved_uses (item_uses sc it) out"
  by (cases it) (simp_all add: resolve_flat resolved_uses_append cong: outcome.case_cong split: const_value.split)

lemma resolve_items_flat: "resolve_items sc its out = resolved_uses (program_uses sc its) out"
  by (induction its arbitrary: out)
    (simp_all add: program_uses_def resolve_item_flat resolved_uses_append cong: outcome.case_cong)

section \<open>Names of a program\<close>

definition declared_names :: "class_slots_map \<Rightarrow> program \<Rightarrow> (string \<times> span) list" where
  "declared_names cs its = map (\<lambda>(n, sp). (to_ascii_lowercase n, sp)) (concat (map (item_names cs) its))"

lemma register_all_append:
  "register_all (xs @ ys) m = and_then (register_all xs m) (\<lambda>m1. register_all ys m1)"
proof (induction xs m rule: register_all.induct)
  case (2 name at ns items)
  then show ?case by (cases "register name at items") auto
qed simp

lemma collect_names_flat: "collect_names cs its m = register_all (concat (map (item_names cs) its)) m"
  by (induction its arbitrary: m) (simp_all add: register_all_append cong: outcome.case_cong)



lemma register_all_Ok:
  "(\<exists>m'. register_all ns m = Ok m') \<longleftrightarrow>
     distinct (map (\<lambda>p. to_ascii_lowercase (fst p)) ns) \<and> (\<forall>p \<in> set ns. m (to_ascii_lowercase (fst p)) = None)"
proof (induction ns arbitrary: m)
  case (Cons a ns)
  obtain n sp where "a = (n, sp)" by (cases a)
  then show ?case
    by (cases "m (to_ascii_lowercase n)") (auto simp: register_def Let_def Cons.IH image_iff)
qed simp

lemma register_all_value:
  "register_all ns m = Ok m' \<Longrightarrow> m' = m ++ map_of (rev (map (\<lambda>(n, sp). (to_ascii_lowercase n, sp)) ns))"
proof (induction ns arbitrary: m)
  case (Cons a ns)
  obtain n sp where "a = (n, sp)" by (cases a)
  then show ?case using Cons.prems
    by (auto simp: register_def Let_def dest!: Cons.IH split: option.splits)
qed simp

lemma register_all_returned: "returned (register_all ns m)"
  by (induction ns m rule: register_all.induct) (auto simp: register_def Let_def split: option.split)

text \<open>The first name that is already taken, split off from the names registered before it.\<close>

lemma register_all_Err:
  "register_all ns m = Err e \<Longrightarrow> \<exists>xs n sp ys prev m'. ns = xs @ (n, sp) # ys \<and> register_all xs m = Ok m'
    \<and> m' (to_ascii_lowercase n) = Some prev \<and> e = RedefinedWord n sp prev"
proof (induction ns arbitrary: m)
  case (Cons a ns)
  obtain n sp where a: "a = (n, sp)" by (cases a)
  show ?case
  proof (cases "m (to_ascii_lowercase n)")
    case None
    then have "register_all ns (m(to_ascii_lowercase n \<mapsto> sp)) = Err e"
      using Cons.prems by (simp add: a register_def Let_def)
    from Cons.IH [OF this] obtain xs n' sp' ys prev m' where
      "ns = xs @ (n', sp') # ys" "register_all xs (m(to_ascii_lowercase n \<mapsto> sp)) = Ok m'"
      "m' (to_ascii_lowercase n') = Some prev" "e = RedefinedWord n' sp' prev" by blast
    then show ?thesis using None
      by (intro exI [of _ "a # xs"] exI [of _ n'] exI [of _ sp'] exI [of _ ys] exI [of _ prev] exI [of _ m'])
        (simp add: a register_def Let_def)
  next
    case (Some prev)
    then show ?thesis using Cons.prems
      by (intro exI [of _ "[]"] exI [of _ n] exI [of _ sp] exI [of _ ns] exI [of _ prev] exI [of _ m])
        (simp add: a register_def Let_def)
  qed
qed simp

lemma map_of_filter_binding:
  assumes "distinct (map fst (List.map_filter use_binding us))" "(sc, Ref n sp) \<in> set us" "bind_name sc n = Some t"
  shows "map_of (rev (List.map_filter use_binding us)) sp = Some t"
proof -
  have "(sp, t) \<in> set (List.map_filter use_binding us)"
    using assms(2,3) by (force simp: map_filter_def)
  then show ?thesis using assms(1) by (simp add: map_of_is_SomeI rev_map [symmetric])
qed

lemma map_filter_Nil_iff: "List.map_filter f xs = [] \<longleftrightarrow> (\<forall>x \<in> set xs. f x = None)"
  by (auto simp: map_filter_def filter_empty_conv)

lemma resolved_uses_Ok:
  "resolved_uses us out = Ok out' \<longleftrightarrow>
     (\<forall>u \<in> set us. use_error u = None) \<and> out' = out ++ map_of (rev (List.map_filter use_binding us))"
  unfolding resolved_uses_def map_filter_Nil_iff [symmetric] by (auto split: list.splits)

text \<open>The scopes in which the items of a program are resolved.\<close>

definition program_scopes :: "program \<Rightarrow> (string \<rightharpoonup> span) \<Rightarrow> (string \<rightharpoonup> span) \<Rightarrow> class_slots_map \<Rightarrow> scopes" where
  "program_scopes prog pw pv cs =
     \<lparr>sc_builtins = builtin_table, sc_user_words = pw ++ map_of (rev (declared_names cs prog)),
      sc_value_names = pv ++ local_value_names prog Map.empty, sc_locals = {}\<rparr>"

lemma resolve_flat_program:
  "resolve_with_prior_and_values_and_classes prog pw pv cs =
     and_then (register_all (concat (map (item_names cs) prog)) Map.empty) (\<lambda>uw.
     and_then (resolved_uses (program_uses (program_scopes prog pw pv cs) prog) Map.empty) (\<lambda>wt.
     Ok \<lparr>rs_program = prog, rs_word_targets = wt, rs_user_words = uw\<rparr>))"
proof (cases "register_all (concat (map (item_names cs) prog)) Map.empty")
  case (Ok uw)
  then have "uw = map_of (rev (declared_names cs prog))"
    by (auto simp: declared_names_def dest!: register_all_value)
  then show ?thesis using Ok
    by (simp add: resolve_with_prior_and_values_and_classes_def collect_names_flat resolve_items_flat program_scopes_def)
qed (simp_all add: resolve_with_prior_and_values_and_classes_def collect_names_flat)

lemma resolve_binds:
  assumes "resolve_with_prior_and_values_and_classes prog pw pv cs = Ok r"
    and "(sc, Ref n sp) \<in> set (program_uses (program_scopes prog pw pv cs) prog)"
    and "distinct (map fst (List.map_filter use_binding (program_uses (program_scopes prog pw pv cs) prog)))"
  shows "rs_word_targets r sp = bind_name sc n \<and> bind_name sc n \<noteq> None"
proof -
  let ?us = "program_uses (program_scopes prog pw pv cs) prog"
  from assms(1) have ok: "resolved_uses ?us Map.empty = Ok (rs_word_targets r)"
    by (auto simp: resolve_flat_program)
  then have "use_error (sc, Ref n sp) = None" using assms(2) unfolding resolved_uses_Ok by blast
  then obtain t where "bind_name sc n = Some t" by (auto split: if_splits)
  with map_of_filter_binding [OF assms(3,2) this] ok show ?thesis by (simp add: resolved_uses_Ok)
qed

section \<open>Properties\<close>

text \<open>
  Scoping of expressions: resolving a body succeeds exactly when every word reference and every tick
  names a local, a user word or a built-in word and every TO names a VALUE; then the result maps
  each reference to the target of the innermost of the three scopes, in source order. Otherwise the
  error is the one of the first offending name in source order.
\<close>

theorem resolve_exprs_contract:
  "resolve_exprs sc es out =
     (case List.map_filter (\<lambda>u. use_error (sc, u)) (uses es) of
        e # _ \<Rightarrow> Err e
      | [] \<Rightarrow> Ok (out ++ map_of (rev (List.map_filter (\<lambda>u. use_binding (sc, u)) (uses es)))))"
  unfolding resolve_flat(1) resolved_uses_def map_filter_map by (rule refl)


text \<open>
  C31. Redefinition: a program resolves only if the names it declares, the synthesised names of its classes
  included, are distinct up to letter case; then its dictionary is exactly these names with their
  spans. When two declarations clash, the error names the later one, with the span of the earlier.
\<close>

theorem resolve_declared_names:
  "(case collect_names cs prog Map.empty of
      Ok uw \<Rightarrow> distinct (map fst (declared_names cs prog)) \<and> uw = map_of (rev (declared_names cs prog))
    | Err (RedefinedWord n sp prev) \<Rightarrow> \<not> distinct (map fst (declared_names cs prog))
        \<and> (\<exists>xs ys. declared_names cs prog = xs @ (to_ascii_lowercase n, sp) # ys
             \<and> map_of xs (to_ascii_lowercase n) = Some prev)
    | _ \<Rightarrow> False)"
proof -
  let ?ns = "concat (map (item_names cs) prog)" and ?lc = "\<lambda>(n, sp). (to_ascii_lowercase n, sp :: span)"
  have names: "map fst (map ?lc ns) = map (\<lambda>p. to_ascii_lowercase (fst p)) ns" for ns
    by (simp add: case_prod_beta comp_def)
  have dist: "(\<exists>m. register_all ns Map.empty = Ok m) \<longleftrightarrow> distinct (map fst (map ?lc ns))" for ns
    unfolding names by (simp add: register_all_Ok)
  show ?thesis
  proof (cases "register_all ?ns Map.empty")
    case (Ok uw)
    with register_all_value [OF Ok] dist [of ?ns] show ?thesis
      by (simp add: collect_names_flat declared_names_def)
  next
    case (Err e)
    from register_all_Err [OF Err] obtain xs n sp ys prev m' where
      split: "?ns = xs @ (n, sp) # ys" "register_all xs Map.empty = Ok m'" "m' (to_ascii_lowercase n) = Some prev"
        "e = RedefinedWord n sp prev" by blast
    have "map_of (map ?lc xs) (to_ascii_lowercase n) = Some prev"
      using split(2,3) register_all_value [OF split(2)] dist [of xs] by (simp add: map_of_rev_distinct)
    moreover have "\<not> distinct (map fst (declared_names cs prog))"
      using Err dist [of ?ns] by (simp add: declared_names_def)
    moreover have "declared_names cs prog = map ?lc xs @ (to_ascii_lowercase n, sp) # map ?lc ys"
      by (simp add: declared_names_def split(1))
    ultimately show ?thesis unfolding collect_names_flat Err split(4) by (simp, blast)
  qed (use register_all_returned [of ?ns Map.empty] in simp_all)
qed

definition square_program :: program where
  "square_program =
     [Definition \<lparr>cd_name = ''Square'', cd_name_span = point START, cd_effect = None, cd_locals = [],
        cd_body = [WordRef ''dup'' (point START), WordRef ''*'' (mk_span START \<lparr>pos_line = 1, pos_col = 2, byte_offset = 1\<rparr>)],
        cd_span = point START\<rparr>]"


section \<open>The dictionary and the emitted names\<close>

lemma builtin_keys_distinct: "distinct (map fst builtin_entries)"
  by (simp add: builtin_entries_def builtin_entries1_def builtin_entries2_def builtin_entries3_def builtin_entries4_def)

lemma builtin_keys_lowercase: "list_all (\<lambda>(k, t). to_ascii_lowercase k = k) builtin_entries"
  by code_simp

text \<open>
  The built-in dictionary has no duplicate and no unreachable entry: its keys are distinct and in lower
  case, so that every entry is found under its own name, in any letter case, where no local and
  no user word hides it.
\<close>

lemma builtin_entries_reachable:
  "distinct (map fst builtin_entries) \<and> list_all (\<lambda>(k, t). to_ascii_lowercase k = k \<and> builtin_table k = Some t) builtin_entries"
  using builtin_keys_distinct builtin_keys_lowercase
  by (auto simp: list_all_iff builtin_table_def rev_map [symmetric] intro: map_of_is_SomeI)

text \<open>
  The emitted name of a user word determines its Forth name, but for three spellings: \<^verbatim>\<open>->\<close> and \<^verbatim>\<open>arrow\<close>,
  \<^verbatim>\<open>}t\<close> and \<^verbatim>\<open>end-test\<close>, \<^verbatim>\<open>t{\<close> and \<^verbatim>\<open>begin-test\<close> share one emitted name each.
\<close>

theorem factor_user_name_collisions:
  "factor_user_name a = factor_user_name b \<longleftrightarrow>
     a = b \<or> {a, b} \<in> {{''->'', ''arrow''}, {''}t'', ''end-test''}, {''t{'', ''begin-test''}}"
  by (auto simp: factor_user_name_def doubleton_eq_iff split: if_splits)

end
