(* ===== verification/Effects.thy ===== *)
theory Effects
  imports Resolver
begin

text \<open>
  Stack-effect inference (\<^verbatim>\<open>src/compiler/effect.rs\<close>). Counts are 32-bit words whose
  arithmetic wraps around, as in the release profile of the build.
\<close>

section \<open>Effects\<close>

datatype effect = Known u32 u32 | Unknown

fun eff_then :: "effect \<Rightarrow> effect \<Rightarrow> effect" where
  "eff_then (Known ai ao) (Known bi bo) =
     (if bi \<le> ao then Known ai (ao - bi + bo) else Known (ai + (bi - ao)) bo)"
| "eff_then _ _ = Unknown"

fun display_effect :: "effect \<Rightarrow> string" where
  "display_effect (Known i out) = ''( '' @ display_nat (unat i) @ '' -- '' @ display_nat (unat out) @ '' )''"
| "display_effect Unknown = ''( ? )''"

datatype effect_error =
    Mismatch string span "u32 \<times> u32" "u32 \<times> u32"
  | CaseNeedsDefault string span

definition item_word :: "u32 \<Rightarrow> string" where
  "item_word n = display_nat (unat n) @ '' item'' @ (if n = 1 then '''' else ''s '') @ '')''"

fun display_effect_error :: "effect_error \<Rightarrow> string" where
  "display_effect_error (Mismatch name at declared inferred) =
     ''warning: '' @ bq @ name @ bq @ '' at '' @ display_span at @ '': declared ( -- '' @ item_word (snd declared)
       @ '' but body produces ( -- '' @ item_word (snd inferred)
       @ (if fst declared \<noteq> fst inferred
          then ''; also consumes '' @ display_nat (unat (fst inferred)) @ '' (declared '' @ display_nat (unat (fst declared)) @ '')''
          else '''')"
| "display_effect_error (CaseNeedsDefault name at) =
     ''warning: '' @ bq @ name @ bq @ '' at '' @ display_span at
       @ '': CASE has no explicit DEFAULT/OTHER branch, and the no-match path leaves a different stack shape than its OF arms''"

section \<open>The effects of the built-in words\<close>

definition builtin_effect_entries1 :: "(string \<times> effect) list" where
  "builtin_effect_entries1 =
    [(''dup'', Known 1 2),
     (''drop'', Known 1 0),
     (''swap'', Known 2 2),
     (''over'', Known 2 3),
     (''rot'', Known 3 3),
     (''nip'', Known 2 1),
     (''tuck'', Known 2 3),
     (''+'', Known 2 1),
     (''-'', Known 2 1),
     (''*'', Known 2 1),
     (''/'', Known 2 1),
     (''mod'', Known 2 1),
     (''negate'', Known 1 1),
     (''abs'', Known 1 1),
     (''min'', Known 2 1),
     (''max'', Known 2 1),
     (''='', Known 2 1),
     (''<>'', Known 2 1),
     (''<'', Known 2 1),
     (''>'', Known 2 1),
     (''<='', Known 2 1),
     (''>='', Known 2 1),
     (''0='', Known 1 1),
     (''0<'', Known 1 1),
     (''0>'', Known 1 1),
     (''and'', Known 2 1),
     (''or'', Known 2 1),
     (''xor'', Known 2 1),
     (''invert'', Known 1 1),
     (''i'', Known 0 1),
     (''j'', Known 0 1),
     (''leave'', Known 0 0),
     (''unloop'', Known 0 0),
     (''.'', Known 1 0),
     (''cr'', Known 0 0),
     (''emit'', Known 1 0),
     (''space'', Known 0 0),
     (''spaces'', Known 1 0),
     (''type'', Known 2 0),
     (''cmove'', Known 3 0),
     (''fill'', Known 3 0),
     (''bl'', Known 0 1),
     (''key'', Known 0 1),
     (''accept'', Known 2 1),
     (''<#'', Known 0 0),
     (''#'', Known 1 1),
     (''#s'', Known 1 1),
     (''sign'', Known 1 0),
     (''hold'', Known 1 0),
     (''#>'', Known 1 2),
     (''n>$'', Known 1 2),
     (''hex'', Known 0 0),
     (''decimal'', Known 0 0),
     (''binary'', Known 0 0),
     (''octal'', Known 0 0),
     (''@'', Known 1 1),
     (''!'', Known 2 0),
     (''c@'', Known 1 1),
     (''c!'', Known 2 0),
     (''+!'', Known 2 0),
     (''cell+'', Known 1 1),
     (''char+'', Known 1 1),
     (''cells'', Known 1 1),
     (''chars'', Known 1 1),
     (''floats'', Known 1 1),
     (''allot'', Known 1 0),
     (''here'', Known 0 1),
     (''f@'', Known 1 1),
     (''f!'', Known 2 0),
     (''depth'', Known 0 1),
     (''>r'', Known 1 0),
     (''r>'', Known 0 1),
     (''r@'', Known 0 1),
     (''rdrop'', Known 0 0),
     (''2>r'', Known 2 0),
     (''2r>'', Known 0 2),
     (''u.'', Known 1 0)]"

definition builtin_effect_entries2 :: "(string \<times> effect) list" where
  "builtin_effect_entries2 =
    [(''s>d'', Known 1 1),
     (''d>s'', Known 1 1),
     (''d>f'', Known 1 1),
     (''f>d'', Known 1 1),
     (''f+'', Known 2 1),
     (''f-'', Known 2 1),
     (''f*'', Known 2 1),
     (''f/'', Known 2 1),
     (''f<'', Known 2 1),
     (''f>'', Known 2 1),
     (''f='', Known 2 1),
     (''execute'', Known 1 0),
     (''1+'', Known 1 1),
     (''1-'', Known 1 1),
     (''2*'', Known 1 1),
     (''2/'', Known 1 1),
     (''/mod'', Known 2 2),
     (''*/'', Known 3 1),
     (''*/mod'', Known 3 2),
     (''lshift'', Known 2 1),
     (''rshift'', Known 2 1),
     (''2dup'', Known 2 4),
     (''2drop'', Known 2 0),
     (''2swap'', Known 4 4),
     (''2over'', Known 4 6),
     (''-rot'', Known 3 3),
     (''2@'', Known 1 2),
     (''2!'', Known 3 0),
     (''erase'', Known 2 0),
     (''0<>'', Known 1 1),
     (''$len'', Known 1 1),
     (''$clen'', Known 1 1),
     (''$+'', Known 2 1),
     (''$upper'', Known 1 1),
     (''$lower'', Known 1 1),
     (''$find'', Known 2 1),
     (''$contains?'', Known 2 1),
     (''$starts?'', Known 2 1),
     (''$ends?'', Known 2 1),
     (''$slice'', Known 3 1),
     (''$cmp'', Known 2 1),
     (''$hash'', Known 1 1),
     (''$.'', Known 1 0),
     (''$.cr'', Known 1 0),
     (''int>$'', Known 1 1),
     (''$>int'', Known 1 1),
     (''>$'', Known 2 1),
     (''$>addr'', Known 1 2),
     (''included'', Known 2 0),
     (''typeof'', Known 1 1),
     (''int?'', Known 1 1),
     (''float?'', Known 1 1),
     (''string?'', Known 1 1),
     (''xt?'', Known 1 1),
     (''addr?'', Known 1 1),
     (''int-type'', Known 0 1),
     (''float-type'', Known 0 1),
     (''string-type'', Known 0 1),
     (''xt-type'', Known 0 1),
     (''addr-type'', Known 0 1),
     (''other-type'', Known 0 1),
     (''.s'', Known 0 0),
     (''words'', Known 0 0),
     (''dump'', Known 1 1),
     (''<cells>'', Known 1 1),
     (''cells@'', Known 2 1),
     (''cells!'', Known 3 0),
     (''<rawvec>'', Known 0 1),
     (''rawvec-push'', Known 2 0),
     (''rawvec-len'', Known 1 1),
     (''rawvec-at'', Known 2 1),
     (''rawvec-set'', Known 3 0),
     (''call1'', Known 2 0),
     (''call1>'', Known 2 1),
     (''call2>'', Known 3 1),
     (''call2'', Known 3 0),
     (''(clone)'', Known 1 1),
     (''<hash>'', Known 0 1),
     (''hash-at'', Known 2 2),
     (''hash!'', Known 3 0),
     (''hash-key?'', Known 2 1),
     (''hash-del'', Known 2 0),
     (''hash-len'', Known 1 1),
     (''hash-keys'', Known 1 1),
     (''hash-vals'', Known 1 1),
     (''<hashset>'', Known 0 1),
     (''hs-add'', Known 2 0),
     (''hs-in?'', Known 2 1),
     (''hs-del'', Known 2 0),
     (''hs-len'', Known 1 1),
     (''hs-members'', Known 1 1),
     (''num>chars'', Known 1 1),
     (''chars>num'', Known 1 2),
     (''capture1'', Known 2 1),
     (''slurp-vec'', Known 1 1),
     (''spit-vec'', Known 2 0),
     (''file-exists-vec?'', Known 1 1),
     (''doc-open'', Known 2 1),
     (''doc-set'', Known 3 0),
     (''doc-append'', Known 3 0)]"

text \<open>Every insertion replaces an earlier entry of the same key.\<close>

definition builtin_effects :: "string \<rightharpoonup> effect" where
  "builtin_effects = map_of (rev (builtin_effect_entries1 @ builtin_effect_entries2))"

section \<open>Inference on bodies\<close>

record effect_env =
  en_builtins :: "string \<rightharpoonup> effect"
  en_user_effects :: "string \<rightharpoonup> effect"
  en_resolved :: resolved

definition join_branch_effects :: "effect \<Rightarrow> effect \<Rightarrow> (u32 \<times> u32) option" where
  "join_branch_effects then_eff else_eff =
     (case (then_eff, else_eff) of
        (Known ti tout, Known ei eout) \<Rightarrow> if ti = ei \<and> tout = eout then Some (ti, tout) else None
      | _ \<Rightarrow> None)"

definition if_else_effect :: "effect \<Rightarrow> effect \<Rightarrow> effect" where
  "if_else_effect then_eff else_eff =
     (case join_branch_effects then_eff else_eff of Some (i, out) \<Rightarrow> Known i out | None \<Rightarrow> Unknown)"

fun literal_effect :: "literal \<Rightarrow> effect" where
  "literal_effect (IntLit _ _) = Known 0 1"
| "literal_effect (FloatLit _ _) = Known 0 1"
| "literal_effect (StrLit _ DotQuote _) = Known 0 0"
| "literal_effect (StrLit _ SQuote _) = Known 0 2"
| "literal_effect (StrLit _ CQuote _) = Known 0 1"
| "literal_effect (StrLit _ SDollarQuote _) = Known 0 1"

definition or_unknown :: "effect option \<Rightarrow> effect" where
  "or_unknown m = (case m of Some e \<Rightarrow> e | None \<Rightarrow> Unknown)"

definition word_effect :: "effect_env \<Rightarrow> string \<Rightarrow> span \<Rightarrow> effect" where
  "word_effect env name sp =
     (let lc = to_ascii_lowercase name in
      case rs_word_targets (en_resolved env) sp of
        Some (Local _) \<Rightarrow> Known 0 1
      | Some (UserDefined _) \<Rightarrow> or_unknown (en_user_effects env lc)
      | _ \<Rightarrow> or_unknown (en_builtins env lc))"

text \<open>The formulas of the control structures, over the effects of their parts.\<close>

fun if_effect :: "effect \<Rightarrow> effect" where
  "if_effect (Known i out) = (if i = out then eff_then (Known 1 0) (Known i out) else Unknown)"
| "if_effect Unknown = Unknown"

fun until_effect :: "effect \<Rightarrow> effect" where
  "until_effect (Known i out) =
     (if 1 \<le> out \<and> out = i + 1 then Known i i else if i < out then Known i (out - 1) else Unknown)"
| "until_effect Unknown = Unknown"

fun while_effect :: "effect \<Rightarrow> effect \<Rightarrow> effect" where
  "while_effect (Known pi po) (Known bi bo) =
     (if po = pi + 1 \<and> bi = bo then Known (max pi bi) (max pi bi) else Unknown)"
| "while_effect _ _ = Unknown"

fun do_effect :: "effect \<Rightarrow> effect" where
  "do_effect (Known i out) = (if i = out then Known (2 + i) i else Unknown)"
| "do_effect Unknown = Unknown"

text \<open>One link of the chain that a CASE is: the arm against what follows it.\<close>

definition arm_effect :: "effect \<Rightarrow> effect \<Rightarrow> effect \<Rightarrow> effect" where
  "arm_effect match_eff body_eff else_eff =
     (let cond_eff = eff_then (eff_then (Known 1 2) match_eff) (Known 2 1);
          then_eff = eff_then (Known 1 0) body_eff
      in eff_then (eff_then cond_eff (Known 1 0)) (if_else_effect then_eff else_eff))"

text \<open>
  \<open>infer_loop\<close> is the loop of \<^verbatim>\<open>infer_block\<close> with its accumulator; the effect of a CASE takes
  the effect of its default instead of the default itself.
\<close>

fun infer_loop :: "effect_env \<Rightarrow> expr list \<Rightarrow> effect \<Rightarrow> effect"
  and effect_of_expr :: "effect_env \<Rightarrow> expr \<Rightarrow> effect"
  and infer_case_effect :: "effect_env \<Rightarrow> case_arm list \<Rightarrow> effect \<Rightarrow> effect" where
  "infer_loop env [] = (\<lambda>acc. acc)"
| "infer_loop env (e # es) =
     (\<lambda>acc. case eff_then acc (effect_of_expr env e) of Unknown \<Rightarrow> Unknown | Known i out \<Rightarrow> infer_loop env es (Known i out))"
| "effect_of_expr env (Lit l) = literal_effect l"
| "effect_of_expr env (WordRef name sp) = word_effect env name sp"
| "effect_of_expr env (If t None sp) = if_effect (infer_loop env t (Known 0 0))"
| "effect_of_expr env (If t (Some eb) sp) =
     eff_then (Known 1 0) (if_else_effect (infer_loop env t (Known 0 0)) (infer_loop env eb (Known 0 0)))"
| "effect_of_expr env (BeginUntil b sp) = until_effect (infer_loop env b (Known 0 0))"
| "effect_of_expr env (BeginWhileRepeat p b sp) =
     while_effect (infer_loop env p (Known 0 0)) (infer_loop env b (Known 0 0))"
| "effect_of_expr env (BeginAgain b sp) = Unknown"
| "effect_of_expr env (DoLoop q b k sp) = do_effect (infer_loop env b (Known 0 0))"
| "effect_of_expr env (Case arms None sp) = infer_case_effect env arms (Known 0 0)"
| "effect_of_expr env (Case arms (Some d) sp) = infer_case_effect env arms (infer_loop env d (Known 0 0))"
| "effect_of_expr env (Tick name sp) = Known 0 1"
| "effect_of_expr env (To name sp) = Known 1 0"
| "effect_of_expr env (LetForm f sp) = Known (of_nat (length (lf_inputs f))) (of_nat (length (lf_outputs f)))"
| "effect_of_expr env (See name sp) = Known 0 0"
| "effect_of_expr env (Locals ls sp) = Known (of_nat (length ls)) 0"
| "infer_case_effect env [] base = eff_then base (Known 1 0)"
| "infer_case_effect env (CaseArm mt b sp # arms) base =
     arm_effect (infer_loop env mt (Known 0 0)) (infer_loop env b (Known 0 0)) (infer_case_effect env arms base)"

definition infer_block :: "effect_env \<Rightarrow> expr list \<Rightarrow> effect" where
  "infer_block env es = infer_loop env es (Known 0 0)"

section \<open>Warnings\<close>

definition case_needs_default_warning :: "effect_env \<Rightarrow> case_arm list \<Rightarrow> bool" where
  "case_needs_default_warning env arms =
     list_ex (\<lambda>arm. let arm_eff = eff_then (Known 1 0) (infer_block env (arm_body arm)) in
       arm_eff \<noteq> Unknown \<and> join_branch_effects arm_eff (Known 1 0) = None) arms"

fun case_warnings :: "effect_env \<Rightarrow> string \<Rightarrow> expr list \<Rightarrow> effect_error list"
  and case_warnings_opt :: "effect_env \<Rightarrow> string \<Rightarrow> expr list option \<Rightarrow> effect_error list"
  and case_warnings_expr :: "effect_env \<Rightarrow> string \<Rightarrow> expr \<Rightarrow> effect_error list"
  and case_warnings_arms :: "effect_env \<Rightarrow> string \<Rightarrow> case_arm list \<Rightarrow> effect_error list" where
  "case_warnings env name [] = []"
| "case_warnings env name (e # es) = case_warnings_expr env name e @ case_warnings env name es"
| "case_warnings_opt env name None = []"
| "case_warnings_opt env name (Some es) = case_warnings env name es"
| "case_warnings_expr env name (If t eb sp) = case_warnings env name t @ case_warnings_opt env name eb"
| "case_warnings_expr env name (BeginUntil b sp) = case_warnings env name b"
| "case_warnings_expr env name (BeginAgain b sp) = case_warnings env name b"
| "case_warnings_expr env name (DoLoop q b k sp) = case_warnings env name b"
| "case_warnings_expr env name (BeginWhileRepeat p b sp) = case_warnings env name p @ case_warnings env name b"
| "case_warnings_expr env name (Case arms d sp) =
     (if d = None \<and> case_needs_default_warning env arms then [CaseNeedsDefault name sp] else [])
     @ case_warnings_arms env name arms @ case_warnings_opt env name d"
| "case_warnings_expr env name e = []"
| "case_warnings_arms env name [] = []"
| "case_warnings_arms env name (CaseArm mt b sp # arms) =
     case_warnings env name mt @ case_warnings env name b @ case_warnings_arms env name arms"

fun check_definition :: "colon_def \<Rightarrow> effect \<Rightarrow> effect_error list" where
  "check_definition d (Known bi bo) =
     (case cd_effect d of
        None \<Rightarrow> []
      | Some se \<Rightarrow>
          (let declared = (of_nat (length (se_inputs se)), of_nat (length (se_outputs se)));
               inferred = (if cd_locals d = [] then (bi, bo) else (fst declared, bo))
           in if declared \<noteq> inferred then [Mismatch (cd_name d) (cd_name_span d) declared inferred] else []))"
| "check_definition d Unknown = []"

section \<open>Inference on programs\<close>

definition declared_effect :: "stack_effect \<Rightarrow> effect" where
  "declared_effect se = Known (of_nat (length (se_inputs se))) (of_nat (length (se_outputs se)))"

fun seed_item :: "item \<Rightarrow> (string \<rightharpoonup> effect) \<Rightarrow> string \<rightharpoonup> effect" where
  "seed_item (Definition d) m =
     m(to_ascii_lowercase (cd_name d) \<mapsto> (case cd_effect d of Some se \<Rightarrow> declared_effect se | None \<Rightarrow> Unknown))"
| "seed_item (Variable v) m = m(to_ascii_lowercase (vd_name v) \<mapsto> Known 0 1)"
| "seed_item (Constant c) m = m(to_ascii_lowercase (con_name c) \<mapsto> Known 0 1)"
| "seed_item (Create c) m = m(to_ascii_lowercase (cr_name c) \<mapsto> Known 0 1)"
| "seed_item (Collection c) m = m(to_ascii_lowercase (col_name c) \<mapsto> Known 1 1)"
| "seed_item (Template t) m = m(to_ascii_lowercase (td_name t) \<mapsto> Known 0 0)"
| "seed_item (TemplateInstance t) m = m(to_ascii_lowercase (ti_name t) \<mapsto> Known 1 1)"
| "seed_item (Value v) m = m(to_ascii_lowercase (val_name v) \<mapsto> Known 0 1)"
| "seed_item (Class c) m = m(to_ascii_lowercase (cl_name c) \<mapsto> Known 0 0)"
| "seed_item (Generic g) m = m(to_ascii_lowercase (gd_name g) \<mapsto> declared_effect (gd_effect g))"
| "seed_item it m = m"

record inferred =
  inf_user_effects :: "string \<rightharpoonup> effect"
  inf_body_effects :: "string \<rightharpoonup> effect"

fun infer_items :: "resolved \<Rightarrow> program \<Rightarrow> inferred \<Rightarrow> inferred \<times> effect_error list" where
  "infer_items r [] st = (st, [])"
| "infer_items r (Definition d # its) st =
     (let env = \<lparr>en_builtins = builtin_effects, en_user_effects = inf_user_effects st, en_resolved = r\<rparr>;
          body_eff = infer_block env (cd_body d);
          lc = to_ascii_lowercase (cd_name d);
          (st', errors) = infer_items r its
            \<lparr>inf_user_effects = (if cd_effect d = None then (inf_user_effects st)(lc \<mapsto> body_eff) else inf_user_effects st),
             inf_body_effects = (inf_body_effects st)(lc \<mapsto> body_eff)\<rparr>
      in (st', check_definition d body_eff @ case_warnings env (cd_name d) (cd_body d) @ errors))"
| "infer_items r (it # its) st = infer_items r its st"

definition infer_with_prior :: "resolved \<Rightarrow> (string \<rightharpoonup> effect) \<Rightarrow> inferred \<times> effect_error list" where
  "infer_with_prior r prior_effects =
     infer_items r (rs_program r)
       \<lparr>inf_user_effects = fold seed_item (rs_program r) prior_effects, inf_body_effects = Map.empty\<rparr>"

definition infer :: "resolved \<Rightarrow> inferred \<times> effect_error list" where
  "infer r = infer_with_prior r Map.empty"

end
