(* ===== verification/Forth_Machine.thy ===== *)
theory Forth_Machine
  imports Ast
begin

text \<open>
  A reference semantics of Forth expressions, against which the lowering passes and the
  effect inference are judged. The control structures have the meaning that the comments of
  \<^verbatim>\<open>src/compiler/ast.rs\<close> give them; the meaning of words, literals and of the primitive
  steps of the control structures belongs to the Factor side and is a parameter.
\<close>

section \<open>Machines\<close>

datatype 's result = Norm 's | Exited 's | Stuck | Timeout

text \<open>
  The steps a machine provides. \<open>m_flag\<close> pops a flag (IF, UNTIL, WHILE); \<open>m_of\<close> is OF: it
  compares the top two cells, drops both when they are equal and only the top one otherwise;
  \<open>m_drop\<close> is the drop of ENDCASE; \<open>m_do\<close> enters a counted loop and tells whether the body
  runs; \<open>m_loop\<close> is LOOP or +LOOP and tells whether to go round again; \<open>m_is_exit\<close> tells which
  word references leave the definition.
\<close>

record 's machine =
  m_lit :: "literal \<Rightarrow> 's \<Rightarrow> 's option"
  m_word :: "string \<Rightarrow> span \<Rightarrow> 's \<Rightarrow> 's option"
  m_other :: "expr \<Rightarrow> 's \<Rightarrow> 's option"
  m_flag :: "'s \<Rightarrow> (bool \<times> 's) option"
  m_of :: "'s \<Rightarrow> (bool \<times> 's) option"
  m_drop :: "'s \<Rightarrow> 's option"
  m_do :: "bool \<Rightarrow> 's \<Rightarrow> (bool \<times> 's) option"
  m_loop :: "loop_kind \<Rightarrow> 's \<Rightarrow> (bool \<times> 's) option"
  m_is_exit :: "string \<Rightarrow> span \<Rightarrow> bool"

abbreviation settle :: "'s option \<Rightarrow> 's result" where
  "settle r \<equiv> case_option Stuck Norm r"

abbreviation continue_with :: "'s result \<Rightarrow> ('s \<Rightarrow> 's result) \<Rightarrow> 's result" where
  "continue_with r f \<equiv> case_result f Exited Stuck Timeout r"

abbreviation on_flag :: "(bool \<times> 's) option \<Rightarrow> ('s \<Rightarrow> 's result) \<Rightarrow> ('s \<Rightarrow> 's result) \<Rightarrow> 's result" where
  "on_flag r f g \<equiv> case_option Stuck (case_prod (\<lambda>b s. if b then f s else g s)) r"

type_synonym 's code = "nat \<Rightarrow> 's \<Rightarrow> 's result"

text \<open>
  The loops, over the meaning of their parts. The number bounds the rounds that loops may go
  back; a program that needs more is answered with \<open>Timeout\<close>.
\<close>

fun until_loop :: "'s machine \<Rightarrow> 's code \<Rightarrow> 's code" where
  "until_loop M b n s =
     continue_with (b n s) (\<lambda>s1.
     on_flag (m_flag M s1) (\<lambda>s2. Norm s2)
       (\<lambda>s2. case n of 0 \<Rightarrow> Timeout | Suc m \<Rightarrow> until_loop M b m s2))"

fun while_loop :: "'s machine \<Rightarrow> 's code \<Rightarrow> 's code \<Rightarrow> 's code" where
  "while_loop M p b n s =
     continue_with (p n s) (\<lambda>s1.
     on_flag (m_flag M s1)
       (\<lambda>s2. continue_with (b n s2) (\<lambda>s3.
          case n of 0 \<Rightarrow> Timeout | Suc m \<Rightarrow> while_loop M p b m s3))
       (\<lambda>s2. Norm s2))"

fun again_loop :: "'s code \<Rightarrow> 's code" where
  "again_loop b n s =
     continue_with (b n s) (\<lambda>s1. case n of 0 \<Rightarrow> Timeout | Suc m \<Rightarrow> again_loop b m s1)"

fun do_loop :: "'s machine \<Rightarrow> loop_kind \<Rightarrow> 's code \<Rightarrow> 's code" where
  "do_loop M k b n s =
     continue_with (b n s) (\<lambda>s1.
     on_flag (m_loop M k s1)
       (\<lambda>s2. case n of 0 \<Rightarrow> Timeout | Suc m \<Rightarrow> do_loop M k b m s2)
       (\<lambda>s2. Norm s2))"

declare until_loop.simps [simp del] while_loop.simps [simp del] again_loop.simps [simp del] do_loop.simps [simp del]

text \<open>Execution of sequences, expressions and the arms of a CASE.\<close>

fun exec_seq :: "'s machine \<Rightarrow> expr list \<Rightarrow> 's code"
  and exec_expr :: "'s machine \<Rightarrow> expr \<Rightarrow> 's code"
  and exec_arms :: "'s machine \<Rightarrow> case_arm list \<Rightarrow> 's code \<Rightarrow> 's code" where
  "exec_seq M [] = (\<lambda>n s. Norm s)"
| "exec_seq M (e # es) = (\<lambda>n s. continue_with (exec_expr M e n s) (\<lambda>s1. exec_seq M es n s1))"
| "exec_expr M (Lit l) = (\<lambda>n s. settle (m_lit M l s))"
| "exec_expr M (WordRef w sp) = (\<lambda>n s. if m_is_exit M w sp then Exited s else settle (m_word M w sp s))"
| "exec_expr M (If t None sp) = (\<lambda>n s. on_flag (m_flag M s) (\<lambda>s1. exec_seq M t n s1) (\<lambda>s1. Norm s1))"
| "exec_expr M (If t (Some e) sp) =
     (\<lambda>n s. on_flag (m_flag M s) (\<lambda>s1. exec_seq M t n s1) (\<lambda>s1. exec_seq M e n s1))"
| "exec_expr M (BeginUntil b sp) = until_loop M (exec_seq M b)"
| "exec_expr M (BeginWhileRepeat p b sp) = while_loop M (exec_seq M p) (exec_seq M b)"
| "exec_expr M (BeginAgain b sp) = again_loop (exec_seq M b)"
| "exec_expr M (DoLoop q b k sp) =
     (\<lambda>n s. on_flag (m_do M q s) (\<lambda>s1. do_loop M k (exec_seq M b) n s1) (\<lambda>s1. Norm s1))"
| "exec_expr M (Case arms None sp) = exec_arms M arms (\<lambda>n s. Norm s)"
| "exec_expr M (Case arms (Some d) sp) = exec_arms M arms (exec_seq M d)"
| "exec_expr M (Tick w sp) = (\<lambda>n s. settle (m_other M (Tick w sp) s))"
| "exec_expr M (To w sp) = (\<lambda>n s. settle (m_other M (To w sp) s))"
| "exec_expr M (See w sp) = (\<lambda>n s. settle (m_other M (See w sp) s))"
| "exec_expr M (LetForm f sp) = (\<lambda>n s. settle (m_other M (LetForm f sp) s))"
| "exec_expr M (Locals ls sp) = (\<lambda>n s. settle (m_other M (Locals ls sp) s))"
| "exec_arms M [] d = (\<lambda>n s. continue_with (d n s) (\<lambda>s1. settle (m_drop M s1)))"
| "exec_arms M (CaseArm mt b sp # arms) d =
     (\<lambda>n s. continue_with (exec_seq M mt n s) (\<lambda>s1.
       on_flag (m_of M s1) (\<lambda>s2. exec_seq M b n s2) (\<lambda>s2. exec_arms M arms d n s2)))"

text \<open>The optional sequences of ELSE and of the CASE default.\<close>

definition exec_opt :: "'s machine \<Rightarrow> expr list option \<Rightarrow> 's code" where
  "exec_opt M d = (case d of None \<Rightarrow> (\<lambda>n s. Norm s) | Some es \<Rightarrow> exec_seq M es)"

lemma exec_opt_simps [simp]:
  "exec_opt M None = (\<lambda>n s. Norm s)" "exec_opt M (Some es) = exec_seq M es"
  by (simp_all add: exec_opt_def)

lemma exec_If:
  "exec_expr M (If t e sp) =
     (\<lambda>n s. on_flag (m_flag M s) (\<lambda>s1. exec_seq M t n s1) (\<lambda>s1. exec_opt M e n s1))"
  by (cases e; hypsubst; unfold exec_opt_simps exec_expr.simps; rule refl)

lemma exec_Case: "exec_expr M (Case arms d sp) = exec_arms M arms (exec_opt M d)"
  by (cases d) simp_all

lemma exec_seq_append:
  "exec_seq M (xs @ ys) = (\<lambda>n s. continue_with (exec_seq M xs n s) (\<lambda>s1. exec_seq M ys n s1))"
proof (induction xs)
  case (Cons x xs)
  then show ?case by (simp add: fun_eq_iff split: result.split)
qed simp

lemma continue_with_assoc:
  "continue_with (continue_with r f) g = continue_with r (\<lambda>s. continue_with (f s) g)"
  by (cases r) auto

lemma exec_seq_Cons2:
  "exec_seq M (a # b # r) =
     (\<lambda>n s. continue_with (continue_with (exec_expr M a n s) (\<lambda>s1. exec_expr M b n s1)) (\<lambda>s2. exec_seq M r n s2))"
  unfolding exec_seq.simps continue_with_assoc by (rule refl)

text \<open>The meaning of a construct depends on its parts only through their meaning.\<close>

named_theorems exec_congs

lemma exec_Cons_cong [exec_congs]:
  assumes "exec_expr M e' = exec_expr M e" "exec_seq M es' = exec_seq M es"
  shows "exec_seq M (e' # es') = exec_seq M (e # es)"
  unfolding exec_seq.simps assms by (rule refl)

lemma exec_If_cong [exec_congs]:
  assumes "exec_seq M t' = exec_seq M t" "exec_opt M e' = exec_opt M e"
  shows "exec_expr M (If t' e' sp') = exec_expr M (If t e sp)"
  unfolding exec_If assms by (rule refl)

lemma exec_loop_congs [exec_congs]:
  assumes "exec_seq M b' = exec_seq M b"
  shows "exec_expr M (BeginUntil b' sp') = exec_expr M (BeginUntil b sp)"
    "exec_expr M (BeginAgain b' sp') = exec_expr M (BeginAgain b sp)"
    "exec_expr M (DoLoop q b' k sp') = exec_expr M (DoLoop q b k sp)"
    "exec_seq M p' = exec_seq M p \<Longrightarrow> exec_expr M (BeginWhileRepeat p' b' sp') = exec_expr M (BeginWhileRepeat p b sp)"
  unfolding exec_expr.simps assms by simp_all

lemma exec_Case_cong [exec_congs]:
  assumes "exec_arms M arms' (exec_opt M d) = exec_arms M arms (exec_opt M d)" "exec_opt M d' = exec_opt M d"
  shows "exec_expr M (Case arms' d' sp') = exec_expr M (Case arms d sp)"
  unfolding exec_Case assms by (rule refl)

lemma exec_arms_cong [exec_congs]:
  assumes "exec_seq M mt' = exec_seq M mt" "exec_seq M b' = exec_seq M b" "exec_arms M arms' d = exec_arms M arms d"
  shows "exec_arms M (CaseArm mt' b' sp' # arms') d = exec_arms M (CaseArm mt b sp # arms) d"
  unfolding exec_arms.simps assms by (rule refl)

lemma exec_opt_cong [exec_congs]:
  assumes "exec_seq M es' = exec_seq M es"
  shows "exec_opt M (Some es') = exec_opt M (Some es)"
  using assms by simp

section \<open>The ANS core words on a stack of cells\<close>

text \<open>
  A concrete machine: the data stack is a list of 64-bit cells, top first, and the loop
  control stack holds limit and index of the open counted loops. It gives ANS meaning to the core
  words that the lowering passes insert and the theorems are evaluated with.
\<close>

record cells =
  data :: "i64 list"
  loops :: "(i64 \<times> i64) list"

definition ans_flag :: "bool \<Rightarrow> i64" where
  "ans_flag b = (if b then - 1 else 0)"

definition on_stack :: "(i64 list \<Rightarrow> i64 list option) \<Rightarrow> cells \<Rightarrow> cells option" where
  "on_stack f s = map_option (\<lambda>d. s\<lparr>data := d\<rparr>) (f (data s))"

fun stack_word :: "string \<Rightarrow> i64 list \<Rightarrow> i64 list option" where
  "stack_word w (a # ds) =
     (if w = ''dup'' then Some (a # a # ds)
      else if w = ''drop'' then Some ds
      else if w = ''?dup'' then Some (if a = 0 then a # ds else a # a # ds)
      else if w = ''negate'' then Some ((- a) # ds)
      else if w = ''0='' then Some (ans_flag (a = 0) # ds)
      else if w = ''1+'' then Some ((a + 1) # ds)
      else if w = ''1-'' then Some ((a - 1) # ds)
      else case ds of
        [] \<Rightarrow> None
      | b # ds' \<Rightarrow>
          if w = ''swap'' then Some (b # a # ds')
          else if w = ''over'' then Some (b # a # b # ds')
          else if w = ''nip'' then Some (a # ds')
          else if w = ''tuck'' then Some (a # b # a # ds')
          else if w = ''2drop'' then Some ds'
          else if w = ''2dup'' then Some (a # b # a # b # ds')
          else if w = ''+'' then Some ((b + a) # ds')
          else if w = ''-'' then Some ((b - a) # ds')
          else if w = ''*'' then Some ((b * a) # ds')
          else if w = ''='' then Some (ans_flag (b = a) # ds')
          else if w = ''<'' then Some (ans_flag (sint b < sint a) # ds')
          else if w = ''>'' then Some (ans_flag (sint a < sint b) # ds')
          else (case ds' of
             [] \<Rightarrow> None
           | c # ds'' \<Rightarrow> if w = ''rot'' then Some (c # a # b # ds'') else None))"
| "stack_word w [] = None"

definition ans_word :: "string \<Rightarrow> span \<Rightarrow> cells \<Rightarrow> cells option" where
  "ans_word w sp s =
     (let lc = to_ascii_lowercase w in
      if lc = ''i'' then (case loops s of (l, i) # _ \<Rightarrow> Some (s\<lparr>data := i # data s\<rparr>) | [] \<Rightarrow> None)
      else on_stack (stack_word lc) s)"

definition pop_flag :: "cells \<Rightarrow> (bool \<times> cells) option" where
  "pop_flag s = (case data s of a # ds \<Rightarrow> Some (a \<noteq> 0, s\<lparr>data := ds\<rparr>) | [] \<Rightarrow> None)"

definition ans_of :: "cells \<Rightarrow> (bool \<times> cells) option" where
  "ans_of s = (case data s of a # b # ds \<Rightarrow> Some (a = b, s\<lparr>data := if a = b then ds else b # ds\<rparr>) | _ \<Rightarrow> None)"

definition ans_do :: "bool \<Rightarrow> cells \<Rightarrow> (bool \<times> cells) option" where
  "ans_do q s =
     (case data s of
        start # limit # ds \<Rightarrow>
          if q \<and> start = limit then Some (False, s\<lparr>data := ds\<rparr>)
          else Some (True, s\<lparr>data := ds, loops := (limit, start) # loops s\<rparr>)
      | _ \<Rightarrow> None)"

definition loop_round :: "i64 \<Rightarrow> cells \<Rightarrow> (bool \<times> cells) option" where
  "loop_round step s =
     (case loops s of
        (limit, i) # ls \<Rightarrow>
          (let i' = i + step;
               crossed = (if 0 \<le> sint step then sint (i - limit) < 0 \<and> 0 \<le> sint (i' - limit)
                          else 0 \<le> sint (i - limit) \<and> sint (i' - limit) < 0)
           in if crossed then Some (False, s\<lparr>loops := ls\<rparr>) else Some (True, s\<lparr>loops := (limit, i') # ls\<rparr>))
      | [] \<Rightarrow> None)"

fun ans_loop :: "loop_kind \<Rightarrow> cells \<Rightarrow> (bool \<times> cells) option" where
  "ans_loop Plus1 s = loop_round 1 s"
| "ans_loop PlusN s = (case data s of a # ds \<Rightarrow> loop_round a (s\<lparr>data := ds\<rparr>) | [] \<Rightarrow> None)"

fun ans_lit :: "literal \<Rightarrow> cells \<Rightarrow> cells option" where
  "ans_lit (IntLit v _) s = Some (s\<lparr>data := v # data s\<rparr>)"
| "ans_lit _ s = None"

definition ans_machine :: "(string \<Rightarrow> span \<Rightarrow> bool) \<Rightarrow> cells machine" where
  "ans_machine is_exit =
     \<lparr>m_lit = ans_lit, m_word = ans_word, m_other = (\<lambda>e s. None), m_flag = pop_flag, m_of = ans_of,
      m_drop = on_stack (stack_word ''drop''), m_do = ans_do, m_loop = ans_loop, m_is_exit = is_exit\<rparr>"

abbreviation cells_of :: "i64 list \<Rightarrow> cells" where
  "cells_of ds \<equiv> \<lparr>data = ds, loops = []\<rparr>"

definition exit_by_name :: "string \<Rightarrow> span \<Rightarrow> bool" where
  "exit_by_name w sp \<longleftrightarrow> to_ascii_lowercase w = ''exit''"

end
