(* ===== verification/Effects_Correct.thy ===== *)
theory Effects_Correct
  imports Effects Forth_Machine
begin

text \<open>
  Soundness of the stack-effect inference against the reference semantics: a body with an
  inferred effect neither underflows the stack nor leaves another depth than the effect says.
\<close>

section \<open>Composition without wrap-around\<close>

fun weight :: "effect \<Rightarrow> nat" where
  "weight (Known i out) = unat i + unat out"
| "weight Unknown = 0"

lemma eff_then_Known:
  assumes "weight (Known ai ao) + weight (Known bi bo) < 2 ^ 32"
  obtains i out where "eff_then (Known ai ao) (Known bi bo) = Known i out"
    "unat i = unat ai + (unat bi - unat ao)" "unat out = unat bo + (unat ao - unat bi)"
proof (cases "bi \<le> ao")
  case True
  have "unat (ao - bi + bo) = unat bo + (unat ao - unat bi)"
    using assms True by (simp add: unat_word_ariths unat_sub word_le_nat_alt)
  then show ?thesis using that [of ai "ao - bi + bo"] True by (simp add: word_le_nat_alt)
next
  case False
  have "unat (ai + (bi - ao)) = unat ai + (unat bi - unat ao)"
    using assms False by (simp add: unat_word_ariths unat_sub word_le_nat_alt)
  then show ?thesis using that [of "ai + (bi - ao)" bo] False by (simp add: word_le_nat_alt)
qed

lemma weight_eff_then: "weight a + weight b < 2 ^ 32 \<Longrightarrow> weight (eff_then a b) \<le> weight a + weight b"
proof (cases a; cases b)
  fix ai ao bi bo
  assume ab: "a = Known ai ao" "b = Known bi bo" and "weight a + weight b < 2 ^ 32"
  then obtain i out where "eff_then a b = Known i out"
    "unat i = unat ai + (unat bi - unat ao)" "unat out = unat bo + (unat ao - unat bi)"
    using eff_then_Known by metis
  then show ?thesis by (simp add: ab)
qed auto

lemma unat_plus1: "unat (x :: u32) + 1 < 2 ^ 32 \<Longrightarrow> unat (x + 1) = unat x + 1"
  by (simp add: unat_word_ariths)

text \<open>The sum of the counts of all parts of a body, a bound of every count that is computed for it.\<close>

fun weight_seq :: "effect_env \<Rightarrow> expr list \<Rightarrow> nat"
  and weight_opt :: "effect_env \<Rightarrow> expr list option \<Rightarrow> nat"
  and weight_expr :: "effect_env \<Rightarrow> expr \<Rightarrow> nat"
  and weight_arms :: "effect_env \<Rightarrow> case_arm list \<Rightarrow> nat" where
  "weight_seq env [] = 0"
| "weight_seq env (e # es) = weight_expr env e + weight_seq env es"
| "weight_opt env None = 0"
| "weight_opt env (Some es) = weight_seq env es"
| "weight_expr env (If t eb sp) = 1 + weight_seq env t + weight_opt env eb"
| "weight_expr env (BeginUntil b sp) = weight_seq env b"
| "weight_expr env (BeginAgain b sp) = weight_seq env b"
| "weight_expr env (BeginWhileRepeat p b sp) = 1 + weight_seq env p + weight_seq env b"
| "weight_expr env (DoLoop q b k sp) = 2 + weight_seq env b"
| "weight_expr env (Case arms d sp) = 1 + weight_arms env arms + weight_opt env d"
| "weight_expr env e = weight (effect_of_expr env e)"
| "weight_arms env [] = 0"
| "weight_arms env (CaseArm mt b sp # arms) = 8 + weight_seq env mt + weight_seq env b + weight_arms env arms"

lemma if_else_effect_Known: "if_else_effect a b = Known i out \<longleftrightarrow> a = Known i out \<and> b = Known i out"
  by (auto simp: if_else_effect_def join_branch_effects_def split: effect.splits)

lemma if_else_effect_cases:
  obtains "if_else_effect a b = Unknown" | i out where "a = Known i out" "b = Known i out" "if_else_effect a b = Known i out"
  by (cases "if_else_effect a b") (use if_else_effect_Known in blast)+

lemma weight_if_else: "weight (if_else_effect a b) \<le> weight b" "weight (if_else_effect a b) \<le> weight a"
  by (rule if_else_effect_cases [of a b]; simp)+

lemma weight_if: "weight b + 1 < 2 ^ 32 \<Longrightarrow> weight (if_effect b) \<le> weight b + 1"
  using weight_eff_then [of "Known 1 0" b] by (cases b) auto

lemma unat_until_flag: "1 \<le> i + 1 \<Longrightarrow> unat (i + 1) = unat i + 1" for i :: u32
  using unatSuc [of i] by (cases "i + 1 = 0") (simp_all add: add.commute)

lemma weight_until: "weight b < 2 ^ 32 \<Longrightarrow> weight (until_effect b) \<le> weight b"
proof (cases b)
  case (Known i out)
  have "unat (out - 1) = unat out - 1" if "i < out"
    using that by (intro unat_minus_one) auto
  then show ?thesis using unat_until_flag [of i] unfolding Known by auto
qed simp

lemma weight_while: "1 + weight p + weight b < 2 ^ 32 \<Longrightarrow> weight (while_effect p b) \<le> weight p + weight b"
  by (cases p; cases b) (auto simp: unat_plus1 max_def word_le_nat_alt)

lemma weight_do: "2 + weight b < 2 ^ 32 \<Longrightarrow> weight (do_effect b) \<le> 2 + weight b"
  by (cases b) (auto simp: unat_word_ariths)

lemma weight_arm:
  assumes "8 + weight m + weight b + weight e < 2 ^ 32"
  shows "weight (arm_effect m b e) \<le> 8 + weight m + weight b + weight e"
proof -
  let ?c1 = "eff_then (Known 1 2) m" let ?c2 = "eff_then ?c1 (Known 2 1)" let ?c3 = "eff_then ?c2 (Known 1 0)"
  have c1: "weight ?c1 \<le> 3 + weight m" using weight_eff_then [of "Known 1 2" m] assms by simp
  have c2: "weight ?c2 \<le> 6 + weight m" using weight_eff_then [of ?c1 "Known 2 1"] c1 assms by simp
  have c3: "weight ?c3 \<le> 7 + weight m" using weight_eff_then [of ?c2 "Known 1 0"] c2 assms by simp
  have "weight (if_else_effect (eff_then (Known 1 0) b) e) \<le> weight e" by (rule weight_if_else)
  then show ?thesis
    using weight_eff_then [of ?c3 "if_else_effect (eff_then (Known 1 0) b) e"] c3 assms
    by (simp add: arm_effect_def)
qed

lemma infer_case_opt:
  "effect_of_expr env (Case arms d sp) = infer_case_effect env arms (case d of None \<Rightarrow> Known 0 0 | Some es \<Rightarrow> infer_loop env es (Known 0 0))"
  by (cases d) auto

lemma infer_weight:
  "\<forall>acc. weight_seq env es + weight acc < 2 ^ 32 \<longrightarrow> weight (infer_loop env es acc) \<le> weight_seq env es + weight acc"
  "\<forall>es. d = Some es \<longrightarrow> weight_opt env d < 2 ^ 32 \<longrightarrow> weight (infer_loop env es (Known 0 0)) \<le> weight_opt env d"
  "weight_expr env e < 2 ^ 32 \<longrightarrow> weight (effect_of_expr env e) \<le> weight_expr env e"
  "\<forall>base. 1 + weight_arms env arms + weight base < 2 ^ 32
     \<longrightarrow> weight (infer_case_effect env arms base) \<le> 1 + weight_arms env arms + weight base"
proof (induction es and d and e and arms rule: expr_induct)
  case (Cons e es)
  show ?case
  proof (intro allI impI)
    fix acc assume w: "weight_seq env (e # es) + weight acc < 2 ^ 32"
    let ?a = "eff_then acc (effect_of_expr env e)"
    have "weight (effect_of_expr env e) \<le> weight_expr env e" using Cons.IH(1) w by simp
    then have "weight ?a \<le> weight acc + weight_expr env e" using w weight_eff_then [of acc "effect_of_expr env e"] by simp
    moreover have "weight_seq env es + weight ?a < 2 ^ 32 \<Longrightarrow> weight (infer_loop env es ?a) \<le> weight_seq env es + weight ?a"
      using Cons.IH(2) by blast
    ultimately show "weight (infer_loop env (e # es) acc) \<le> weight_seq env (e # es) + weight acc"
      using w by (cases ?a) auto
  qed
next
  case (Some es)
  then show ?case using spec [OF Some.IH, of "Known 0 0"] by simp
next
  case (If t eb sp)
  show ?case
  proof (rule impI, cases eb)
    let ?t = "infer_loop env t (Known 0 0)"
    assume w: "weight_expr env (If t eb sp) < 2 ^ 32"
    have tb: "weight ?t \<le> weight_seq env t" using spec [OF If.IH(1), of "Known 0 0"] w by simp
    {
      case None
      have "weight (if_effect ?t) \<le> weight ?t + 1" by (rule weight_if) (use tb w in simp)
      then show "weight (effect_of_expr env (If t eb sp)) \<le> weight_expr env (If t eb sp)" using tb None by simp
    next
      case (Some es)
      let ?i = "if_else_effect ?t (infer_loop env es (Known 0 0))"
      have i: "weight ?i \<le> weight ?t" by (rule weight_if_else)
      have "weight (eff_then (Known 1 0) ?i) \<le> weight (Known 1 0) + weight ?i"
        by (rule weight_eff_then) (use tb i w in simp)
      then show "weight (effect_of_expr env (If t eb sp)) \<le> weight_expr env (If t eb sp)" using tb i Some by simp
    }
  qed
next
  case (Until b sp)
  show ?case
  proof
    assume w: "weight_expr env (BeginUntil b sp) < 2 ^ 32"
    then have b: "weight (infer_loop env b (Known 0 0)) \<le> weight_seq env b" using spec [OF Until.IH, of "Known 0 0"] by simp
    have "weight (until_effect (infer_loop env b (Known 0 0))) \<le> weight (infer_loop env b (Known 0 0))"
      by (rule weight_until) (use b w in simp)
    then show "weight (effect_of_expr env (BeginUntil b sp)) \<le> weight_expr env (BeginUntil b sp)" using b by simp
  qed
next
  case (While p b sp)
  show ?case
  proof
    let ?p = "infer_loop env p (Known 0 0)" and ?b = "infer_loop env b (Known 0 0)"
    assume w: "weight_expr env (BeginWhileRepeat p b sp) < 2 ^ 32"
    then have pb: "weight ?p \<le> weight_seq env p" "weight ?b \<le> weight_seq env b"
      using spec [OF While.IH(1), of "Known 0 0"] spec [OF While.IH(2), of "Known 0 0"] by simp_all
    have "weight (while_effect ?p ?b) \<le> weight ?p + weight ?b" by (rule weight_while) (use pb w in simp)
    then show "weight (effect_of_expr env (BeginWhileRepeat p b sp)) \<le> weight_expr env (BeginWhileRepeat p b sp)"
      using pb by simp
  qed
next
  case (Do q b k sp)
  show ?case
  proof
    assume w: "weight_expr env (DoLoop q b k sp) < 2 ^ 32"
    then have b: "weight (infer_loop env b (Known 0 0)) \<le> weight_seq env b" using spec [OF Do.IH, of "Known 0 0"] by simp
    have "weight (do_effect (infer_loop env b (Known 0 0))) \<le> 2 + weight (infer_loop env b (Known 0 0))"
      by (rule weight_do) (use b w in simp)
    then show "weight (effect_of_expr env (DoLoop q b k sp)) \<le> weight_expr env (DoLoop q b k sp)" using b by simp
  qed
next
  case (Case arms d sp)
  show ?case
  proof
    let ?d = "case d of None \<Rightarrow> Known 0 0 | Some es \<Rightarrow> infer_loop env es (Known 0 0)"
    assume w: "weight_expr env (Case arms d sp) < 2 ^ 32"
    have d: "weight ?d \<le> weight_opt env d" using Case.IH(2) w by (cases d) simp_all
    then have "weight (infer_case_effect env arms ?d) \<le> 1 + weight_arms env arms + weight ?d"
      using spec [OF Case.IH(1), of ?d] w by simp
    then show "weight (effect_of_expr env (Case arms d sp)) \<le> weight_expr env (Case arms d sp)"
      using d by (simp add: infer_case_opt)
  qed
next
  case (NilA)
  show ?case
  proof (intro allI impI)
    fix base assume "1 + weight_arms env [] + weight base < 2 ^ 32"
    then show "weight (infer_case_effect env [] base) \<le> 1 + weight_arms env [] + weight base"
      using weight_eff_then [of base "Known 1 0"] by simp
  qed
next
  case (ConsA mt b sp arms)
  show ?case
  proof (intro allI impI)
    fix base assume w: "1 + weight_arms env (CaseArm mt b sp # arms) + weight base < 2 ^ 32"
    let ?m = "infer_loop env mt (Known 0 0)" and ?b = "infer_loop env b (Known 0 0)" and ?e = "infer_case_effect env arms base"
    have "weight ?m \<le> weight_seq env mt" "weight ?b \<le> weight_seq env b" "weight ?e \<le> 1 + weight_arms env arms + weight base"
      using spec [OF ConsA.IH(1), of "Known 0 0"] spec [OF ConsA.IH(2), of "Known 0 0"] spec [OF ConsA.IH(3), of base] w by simp_all
    then show "weight (infer_case_effect env (CaseArm mt b sp # arms) base) \<le> 1 + weight_arms env (CaseArm mt b sp # arms) + weight base"
      using w weight_arm [of ?m ?b ?e] by simp
  qed
qed auto

section \<open>Shapes of runs\<close>

text \<open>
  Stack shape of a state: the number of data cells and the number of open counted loops. A
  result conforms to \<open>i\<close> inputs and \<open>out\<close> outputs when the run is not stuck and, if it comes to
  the end, has exchanged the depth accordingly and closed its loops.
\<close>

definition conforms :: "('s \<Rightarrow> nat) \<Rightarrow> ('s \<Rightarrow> nat) \<Rightarrow> nat \<Rightarrow> nat \<Rightarrow> 's \<Rightarrow> 's result \<Rightarrow> bool" where
  "conforms depth level i out s r =
     (case r of
        Norm s' \<Rightarrow> depth s' + i = depth s + out \<and> level s' = level s
      | Exited s' \<Rightarrow> True | Stuck \<Rightarrow> False | Timeout \<Rightarrow> True)"

lemma conforms_simps [simp]:
  "conforms depth level i out s (Norm s') \<longleftrightarrow> depth s' + i = depth s + out \<and> level s' = level s"
  "conforms depth level i out s (Exited s')" "\<not> conforms depth level i out s Stuck" "conforms depth level i out s Timeout"
  by (simp_all add: conforms_def)

definition runs :: "('s \<Rightarrow> nat) \<Rightarrow> ('s \<Rightarrow> nat) \<Rightarrow> 's code \<Rightarrow> nat \<Rightarrow> nat \<Rightarrow> bool" where
  "runs depth level f i out \<longleftrightarrow> (\<forall>n s. i \<le> depth s \<longrightarrow> conforms depth level i out s (f n s))"

definition typed :: "('s \<Rightarrow> nat) \<Rightarrow> ('s \<Rightarrow> nat) \<Rightarrow> 's code \<Rightarrow> effect \<Rightarrow> bool" where
  "typed depth level f e \<longleftrightarrow> (\<forall>i out. e = Known i out \<longrightarrow> runs depth level f (unat i) (unat out))"

lemma typed_simps [simp]:
  "typed depth level f Unknown" "typed depth level f (Known i out) \<longleftrightarrow> runs depth level f (unat i) (unat out)"
  by (auto simp: typed_def)

lemma runsI: "(\<And>n s. i \<le> depth s \<Longrightarrow> conforms depth level i out s (f n s)) \<Longrightarrow> runs depth level f i out"
  by (simp add: runs_def)

lemma runsD: "runs depth level f i out \<Longrightarrow> i \<le> depth s \<Longrightarrow> conforms depth level i out s (f n s)"
  by (simp add: runs_def)

lemma conforms_then:
  assumes "conforms depth level i out s r"
    and "\<And>s'. r = Norm s' \<Longrightarrow> depth s' + i = depth s + out \<Longrightarrow> level s' = level s \<Longrightarrow> conforms depth level j out' s (g s')"
  shows "conforms depth level j out' s (continue_with r g)"
  using assms by (cases r) auto

lemma conforms_shift:
  "conforms depth level i out s' r \<Longrightarrow> depth s' + j + out = depth s + i + out' \<Longrightarrow> level s' = level s \<Longrightarrow>
   conforms depth level j out' s r"
  by (cases r) auto

lemma runs_seq:
  assumes f: "runs depth level f i out" and g: "runs depth level g j p"
  shows "runs depth level (\<lambda>n s. continue_with (f n s) (g n)) (i + (j - out)) (p + (out - j))"
proof (rule runsI)
  fix n s assume d: "i + (j - out) \<le> depth s"
  show "conforms depth level (i + (j - out)) (p + (out - j)) s (continue_with (f n s) (g n))"
  proof (rule conforms_then [OF runsD [OF f]])
    fix s' assume s': "depth s' + i = depth s + out" "level s' = level s"
    show "conforms depth level (i + (j - out)) (p + (out - j)) s (g n s')"
      by (rule conforms_shift [OF runsD [OF g]]) (use s' d in auto)
  qed (use d in simp)
qed

lemma typed_seq:
  assumes "typed depth level f a" "typed depth level g b" "weight a + weight b < 2 ^ 32"
  shows "typed depth level (\<lambda>n s. continue_with (f n s) (g n)) (eff_then a b)"
proof (cases a; cases b)
  fix ai ao bi bo
  assume ab: "a = Known ai ao" "b = Known bi bo"
  obtain i out where "eff_then a b = Known i out"
    "unat i = unat ai + (unat bi - unat ao)" "unat out = unat bo + (unat ao - unat bi)"
    using eff_then_Known assms(3) ab by metis
  with runs_seq [of depth level f "unat ai" "unat ao" g "unat bi" "unat bo"] assms(1,2)
  show ?thesis by (simp add: ab)
qed auto

text \<open>
  The bodies on which the formulas of the inference are exact: UNTIL bodies leave exactly the flag
  more than they take, counted loops end in LOOP, and the match sequence of a CASE arm takes at most
  the selector and adds one value.
\<close>

fun adds_one :: "effect \<Rightarrow> bool" where
  "adds_one (Known i out) \<longleftrightarrow> out = i + 1"
| "adds_one Unknown \<longleftrightarrow> True"

fun takes_at_most_one :: "effect \<Rightarrow> bool" where
  "takes_at_most_one (Known i out) \<longleftrightarrow> i \<le> 1"
| "takes_at_most_one Unknown \<longleftrightarrow> True"

fun regular :: "effect_env \<Rightarrow> expr list \<Rightarrow> bool"
  and regular_opt :: "effect_env \<Rightarrow> expr list option \<Rightarrow> bool"
  and regular_expr :: "effect_env \<Rightarrow> expr \<Rightarrow> bool"
  and regular_arms :: "effect_env \<Rightarrow> case_arm list \<Rightarrow> bool" where
  "regular env [] = True"
| "regular env (e # es) = (regular_expr env e \<and> regular env es)"
| "regular_opt env None = True"
| "regular_opt env (Some es) = regular env es"
| "regular_expr env (If t eb sp) = (regular env t \<and> regular_opt env eb)"
| "regular_expr env (BeginUntil b sp) = (regular env b \<and> adds_one (infer_block env b))"
| "regular_expr env (BeginAgain b sp) = True"
| "regular_expr env (BeginWhileRepeat p b sp) = (regular env p \<and> regular env b)"
| "regular_expr env (DoLoop q b k sp) = (regular env b \<and> k = Plus1)"
| "regular_expr env (Case arms d sp) = (regular_arms env arms \<and> regular_opt env d)"
| "regular_expr env e = True"
| "regular_arms env [] = True"
| "regular_arms env (CaseArm mt b sp # arms) =
     (regular env mt \<and> adds_one (infer_block env mt) \<and> takes_at_most_one (infer_block env mt)
      \<and> regular env b \<and> regular_arms env arms)"

text \<open>
  A machine whose primitive steps have the shape that the tables of the inference give them.
\<close>

locale effect_machine =
  fixes M :: "'s machine" and env :: effect_env and depth :: "'s \<Rightarrow> nat" and level :: "'s \<Rightarrow> nat"
  assumes lit_shape: "\<exists>s'. m_lit M l s = Some s' \<and> (\<forall>i out. literal_effect l = Known i out \<longrightarrow>
        depth s' + unat i = depth s + unat out) \<and> level s' = level s"
    and word_shape: "word_effect env w sp = Known i out \<Longrightarrow> unat i \<le> depth s \<Longrightarrow>
        \<exists>s'. m_word M w sp s = Some s' \<and> depth s' + unat i = depth s + unat out \<and> level s' = level s"
    and other_shape: "effect_of_expr env e = Known i out \<Longrightarrow> unat i \<le> depth s \<Longrightarrow> atomic e \<Longrightarrow>
        \<exists>s'. m_other M e s = Some s' \<and> depth s' + unat i = depth s + unat out \<and> level s' = level s"
    and flag_shape: "1 \<le> depth s \<Longrightarrow> \<exists>b s'. m_flag M s = Some (b, s') \<and> depth s' + 1 = depth s \<and> level s' = level s"
    and of_shape: "2 \<le> depth s \<Longrightarrow>
        \<exists>b s'. m_of M s = Some (b, s') \<and> depth s' + (if b then 2 else 1) = depth s \<and> level s' = level s"
    and drop_shape: "1 \<le> depth s \<Longrightarrow> \<exists>s'. m_drop M s = Some s' \<and> depth s' + 1 = depth s \<and> level s' = level s"
    and do_shape: "2 \<le> depth s \<Longrightarrow>
        \<exists>b s'. m_do M q s = Some (b, s') \<and> depth s' + 2 = depth s \<and> level s' = level s + (if b then 1 else 0)"
    and loop_shape: "1 \<le> level s \<Longrightarrow>
        \<exists>b s'. m_loop M Plus1 s = Some (b, s') \<and> depth s' = depth s \<and> level s' + (if b then 0 else 1) = level s"
begin

abbreviation shape_runs :: "'s code \<Rightarrow> nat \<Rightarrow> nat \<Rightarrow> bool" where
  "shape_runs \<equiv> runs depth level"

abbreviation shape_typed :: "'s code \<Rightarrow> effect \<Rightarrow> bool" where
  "shape_typed \<equiv> typed depth level"

lemma runs_flag:
  assumes f: "shape_runs f i out" and g: "shape_runs g i out"
  shows "shape_runs (\<lambda>n s. on_flag (m_flag M s) (f n) (g n)) (Suc i) out"
proof (rule runsI)
  fix n s assume d: "Suc i \<le> depth s"
  then obtain b s' where s': "m_flag M s = Some (b, s')" "depth s' + 1 = depth s" "level s' = level s"
    using flag_shape [of s] by auto
  have "conforms depth level i out s' (if b then f n s' else g n s')"
    using runsD [OF f, of s' n] runsD [OF g, of s' n] s' d by simp
  then show "conforms depth level (Suc i) out s (on_flag (m_flag M s) (f n) (g n))"
    using s' by (auto elim!: conforms_shift)
qed

lemma runs_until:
  assumes b: "shape_runs b i (Suc i)"
  shows "shape_runs (until_loop M b) i i"
proof (rule runsI)
  fix n s assume "i \<le> depth s"
  then show "conforms depth level i i s (until_loop M b n s)"
  proof (induction n arbitrary: s rule: less_induct)
    case (less n)
    show ?case
    proof (subst until_loop.simps, rule conforms_then [OF runsD [OF b less.prems]])
      fix s' assume s': "depth s' + i = depth s + Suc i" "level s' = level s"
      then obtain c s'' where s'': "m_flag M s' = Some (c, s'')" "depth s'' + 1 = depth s'" "level s'' = level s'"
        using flag_shape [of s'] by auto
      have "conforms depth level i i s (until_loop M b m s'')" if "n = Suc m" for m
        by (rule conforms_shift [OF less.IH]) (use s' s'' less.prems that in auto)
      with s' s'' show "conforms depth level i i s (on_flag (m_flag M s') Norm (\<lambda>s2. case n of 0 \<Rightarrow> Timeout | Suc m \<Rightarrow> until_loop M b m s2))"
        by (simp split: nat.split)
    qed
  qed
qed

lemma runs_while:
  assumes p: "shape_runs p i (Suc i)" and b: "shape_runs b j j"
  shows "shape_runs (while_loop M p b) (max i j) (max i j)"
proof (rule runsI)
  fix n s assume "max i j \<le> depth s"
  then show "conforms depth level (max i j) (max i j) s (while_loop M p b n s)"
  proof (induction n arbitrary: s rule: less_induct)
    case (less n)
    let ?loop = "\<lambda>s3. case n of 0 \<Rightarrow> Timeout | Suc m \<Rightarrow> while_loop M p b m s3"
    have d: "i \<le> depth s" "j \<le> depth s" using less.prems by auto
    show ?case
    proof (subst while_loop.simps, rule conforms_then [OF runsD [OF p d(1)]])
      fix s' assume s': "depth s' + i = depth s + Suc i" "level s' = level s"
      then obtain c s'' where s'': "m_flag M s' = Some (c, s'')" "depth s'' + 1 = depth s'" "level s'' = level s'"
        using flag_shape [of s'] by auto
      then have eq: "depth s'' = depth s" "level s'' = level s" using s' by auto
      have "conforms depth level (max i j) (max i j) s (?loop s3)" if "depth s3 = depth s" "level s3 = level s" for s3
      proof (cases n)
        case (Suc m)
        have "conforms depth level (max i j) (max i j) s3 (while_loop M p b m s3)"
          by (rule less.IH) (use Suc that less.prems in auto)
        then show ?thesis using that Suc by (auto elim!: conforms_shift)
      qed simp
      then have "conforms depth level (max i j) (max i j) s (continue_with (b n s'') ?loop)"
        using d(2) eq by (intro conforms_then [OF conforms_shift [OF runsD [OF b]]]) auto
      with s' s'' eq show "conforms depth level (max i j) (max i j) s
          (on_flag (m_flag M s') (\<lambda>s2. continue_with (b n s2) ?loop) Norm)" by simp
    qed
  qed
qed

lemma do_loop_shape:
  assumes b: "shape_runs b i i" and "i \<le> depth s" "level s = Suc l"
  shows "case do_loop M Plus1 b n s of Norm s' \<Rightarrow> depth s' = depth s \<and> level s' = l | Stuck \<Rightarrow> False | _ \<Rightarrow> True"
  using assms(2,3)
proof (induction n arbitrary: s rule: less_induct)
  case (less n)
  show ?case
  proof (cases "b n s")
    case (Norm s1)
    with runsD [OF b less.prems(1), of n] have s1: "depth s1 = depth s" "level s1 = level s" by auto
    then obtain c s2 where s2: "m_loop M Plus1 s1 = Some (c, s2)" "depth s2 = depth s1" "level s2 + (if c then 0 else 1) = level s1"
      using loop_shape [of s1] less.prems(2) by auto
    have "case do_loop M Plus1 b m s2 of Norm s' \<Rightarrow> depth s' = depth s2 \<and> level s' = l | Stuck \<Rightarrow> False | _ \<Rightarrow> True"
      if "c" "n = Suc m" for m
      by (rule less.IH) (use that less.prems s1 s2 in auto)
    then show ?thesis
      using less.prems s1 s2 by (subst do_loop.simps) (auto simp: Norm split: nat.split result.splits)
  qed (use runsD [OF b less.prems(1), of n] in \<open>simp_all add: do_loop.simps\<close>)
qed

lemma runs_do:
  assumes b: "shape_runs b i i"
  shows "shape_runs (\<lambda>n s. on_flag (m_do M q s) (do_loop M Plus1 b n) Norm) (2 + i) i"
proof (rule runsI)
  fix n s assume d: "2 + i \<le> depth s"
  then obtain c s' where s': "m_do M q s = Some (c, s')" "depth s' + 2 = depth s" "level s' = level s + (if c then 1 else 0)"
    using do_shape [of s q] by auto
  show "conforms depth level (2 + i) i s (on_flag (m_do M q s) (do_loop M Plus1 b n) Norm)"
  proof (cases c)
    case True
    have "case do_loop M Plus1 b n s' of Norm s'' \<Rightarrow> depth s'' = depth s' \<and> level s'' = level s | Stuck \<Rightarrow> False | _ \<Rightarrow> True"
      by (rule do_loop_shape [OF b]) (use s' d True in auto)
    then show ?thesis using s' True by (cases "do_loop M Plus1 b n s'") auto
  qed (use s' in auto)
qed

lemma runs_arm:
  assumes m: "shape_runs (exec_seq M mt) k (Suc k)" "k \<le> 1" and b: "shape_runs (exec_seq M b) i out"
    and rest: "shape_runs (exec_arms M arms d) (Suc i) out"
  shows "shape_runs (exec_arms M (CaseArm mt b sp # arms) d) (Suc i) out"
proof (rule runsI)
  fix n s assume d: "Suc i \<le> depth s"
  show "conforms depth level (Suc i) out s (exec_arms M (CaseArm mt b sp # arms) d n s)"
    unfolding exec_arms.simps
  proof (rule conforms_then [OF runsD [OF m(1)]])
    fix s1 assume s1: "depth s1 + k = depth s + Suc k" "level s1 = level s"
    then obtain c s2 where s2: "m_of M s1 = Some (c, s2)" "depth s2 + (if c then 2 else 1) = depth s1" "level s2 = level s1"
      using of_shape [of s1] d by auto
    show "conforms depth level (Suc i) out s (on_flag (m_of M s1) (exec_seq M b n) (exec_arms M arms d n))"
    proof (cases c)
      case True
      have "conforms depth level i out s2 (exec_seq M b n s2)" by (rule runsD [OF b]) (use s1 s2 d True in auto)
      then show ?thesis using s1 s2 True by (auto elim!: conforms_shift)
    next
      case False
      have "conforms depth level (Suc i) out s2 (exec_arms M arms d n s2)" by (rule runsD [OF rest]) (use s1 s2 d False in auto)
      then show ?thesis using s1 s2 False by (auto elim!: conforms_shift)
    qed
  qed (use d m(2) in simp)
qed

end

context effect_machine
begin

lemma typed_If:
  assumes t: "shape_typed (exec_seq M t) te" and e: "shape_typed (exec_opt M eb) ee"
    and w: "1 + weight te < 2 ^ 32"
  shows "shape_typed (exec_expr M (If t eb sp)) (eff_then (Known 1 0) (if_else_effect te ee))"
proof (rule if_else_effect_cases [of te ee])
  fix i out assume k: "te = Known i out" "ee = Known i out" "if_else_effect te ee = Known i out"
  obtain j p where "eff_then (Known 1 0) (Known i out) = Known j p" "unat j = Suc (unat i)" "unat p = unat out"
    using eff_then_Known [of 1 0 i out] w k by auto
  with t e k runs_flag [of "exec_seq M t" "unat i" "unat out" "exec_opt M eb"] show ?thesis
    by (simp add: exec_If)
qed simp

lemma typed_until:
  assumes "shape_typed b be" "adds_one be"
  shows "shape_typed (until_loop M b) (until_effect be)"
proof (cases be)
  case (Known i out)
  show ?thesis
  proof (cases "1 \<le> out")
    case True
    with assms runs_until [of b "unat i"] unat_until_flag [of i] show ?thesis by (auto simp: Known)
  next
    case False
    then show ?thesis by (auto simp: Known word_le_nat_alt word_less_nat_alt)
  qed
qed simp

lemma typed_while:
  assumes "shape_typed p pe" "shape_typed b be" "1 + weight pe + weight be < 2 ^ 32"
  shows "shape_typed (while_loop M p b) (while_effect pe be)"
proof (cases pe; cases be)
  fix pi po bi bo assume k: "pe = Known pi po" "be = Known bi bo"
  show ?thesis
  proof (cases "po = pi + 1 \<and> bi = bo")
    case True
    moreover have "unat (max pi bi) = max (unat pi) (unat bi)" by (simp add: max_def word_le_nat_alt)
    ultimately show ?thesis
      using assms runs_while [of p "unat pi" b "unat bi"] unat_plus1 [of pi] by (simp add: k)
  qed (auto simp: k)
qed auto

lemma typed_do:
  assumes "shape_typed b be" "2 + weight be < 2 ^ 32"
  shows "shape_typed (\<lambda>n s. on_flag (m_do M q s) (do_loop M Plus1 b n) Norm) (do_effect be)"
proof (cases be)
  case (Known i out)
  have "unat (2 + i) = 2 + unat i" using assms(2) Known by (simp add: unat_word_ariths)
  then show ?thesis using assms(1) runs_do [of b "unat i" q] by (cases "i = out") (simp_all add: Known)
qed simp

lemma arm_effect_Known:
  assumes "adds_one me" "takes_at_most_one me" "8 + weight be + weight ee < 2 ^ 32"
    and "arm_effect me be ee = Known i out"
  obtains k j where "me = Known k (k + 1)" "k \<le> 1" "be = Known j out" "ee = Known i out" "unat i = Suc (unat j)"
proof -
  from assms(4) have "me \<noteq> Unknown" by (auto simp: arm_effect_def)
  then obtain k where me: "me = Known k (k + 1)" "k \<le> 1" using assms(1,2) by (cases me) auto
  then have "unat k = 0 \<or> unat k = 1" by (auto simp: word_le_nat_alt)
  then have "k = 0 \<or> k = 1" by (auto simp: word_unat_eq_iff)
  then have cond: "eff_then (eff_then (eff_then (Known 1 2) me) (Known 2 1)) (Known 1 0) = Known 1 1"
    by (auto simp: me)
  let ?then = "eff_then (Known 1 0) be"
  from assms(4) have "if_else_effect ?then ee \<noteq> Unknown" by (auto simp: arm_effect_def)
  then obtain i' out' where b: "?then = Known i' out'" "ee = Known i' out'" "if_else_effect ?then ee = Known i' out'"
    by (metis if_else_effect_cases)
  then obtain j p where be: "be = Known j p" by (cases be) auto
  obtain i2 out2 where t: "?then = Known i2 out2" "unat i2 = Suc (unat j)" "unat out2 = unat p"
    using eff_then_Known [of 1 0 j p] assms(3) be by auto
  then have i': "unat i' = Suc (unat j)" "out' = p" using b(1) by (auto simp: word_unat_eq_iff)
  have "arm_effect me be ee = eff_then (Known 1 1) (Known i' out')"
    using cond b(3) by (simp add: arm_effect_def)
  also have "\<dots> = Known i' out'"
  proof (cases "i' = 1")
    case False
    then have "\<not> i' \<le> 1" using i'(1) unfolding word_le_nat_alt word_unat_eq_iff by simp
    then show ?thesis by simp
  qed simp
  finally have "i' = i" "out' = out" using assms(4) by auto
  with me be b i' that show ?thesis by blast
qed

lemma typed_arm:
  assumes "shape_typed (exec_seq M mt) me" "adds_one me" "takes_at_most_one me"
    and "shape_typed (exec_seq M b) be" "shape_typed (exec_arms M arms d) ee" "8 + weight be + weight ee < 2 ^ 32"
  shows "shape_typed (exec_arms M (CaseArm mt b sp # arms) d) (arm_effect me be ee)"
proof (cases "arm_effect me be ee")
  case (Known i out)
  from arm_effect_Known [OF assms(2,3,6) Known] obtain k j where
    k: "me = Known k (k + 1)" "k \<le> 1" "be = Known j out" "ee = Known i out" "unat i = Suc (unat j)" .
  have "unat (k + 1) = Suc (unat k)" "unat k \<le> 1"
    using k(2) by (auto simp: unat_word_ariths word_le_nat_alt)
  then show ?thesis
    using runs_arm [of mt "unat k" b "unat j" "unat out" arms d sp] assms(1,4,5) k Known by simp
qed simp

end

context effect_machine
begin

lemma typed_atomic:
  assumes "atomic e" shows "shape_typed (exec_expr M e) (effect_of_expr env e)"
proof (cases "effect_of_expr env e")
  case (Known i out)
  have "conforms depth level (unat i) (unat out) s (exec_expr M e n s)" if d: "unat i \<le> depth s" for n s
  proof (cases e)
    case (Lit l)
    with lit_shape [of l s] Known show ?thesis by auto
  next
    case (WordRef w sp)
    with word_shape [of w sp i out s] Known d show ?thesis by auto
  qed (use assms other_shape [OF Known d assms] in auto)
  then show ?thesis using Known by (simp add: runsI)
qed simp

lemma seq_start: "(\<lambda>n s. continue_with (Norm s) (f n)) = f"
  by (simp add: fun_eq_iff)

lemma block_typed:
  assumes "\<forall>acc f. regular env es \<longrightarrow> weight_seq env es + weight acc < 2 ^ 32 \<longrightarrow> shape_typed f acc
     \<longrightarrow> shape_typed (\<lambda>n s. continue_with (f n s) (exec_seq M es n)) (infer_loop env es acc)"
    and "regular env es" "weight_seq env es < 2 ^ 32"
  shows "shape_typed (exec_seq M es) (infer_loop env es (Known 0 0))"
  using spec [OF spec [OF assms(1), of "Known 0 0"], of "\<lambda>n. Norm"] assms(2,3) by (simp add: runs_def seq_start)

lemma weight_block: "weight_seq env es < 2 ^ 32 \<Longrightarrow> weight (infer_loop env es (Known 0 0)) \<le> weight_seq env es"
  using spec [OF infer_weight(1) [of env es], of "Known 0 0"] by simp

lemma typed_if_only:
  assumes "shape_typed (exec_seq M t) te" "1 + weight te < 2 ^ 32"
  shows "shape_typed (exec_expr M (If t None sp)) (if_effect te)"
proof (cases te)
  case (Known i out)
  have "shape_typed (exec_opt M None) (Known i i)" by (simp add: runs_def)
  with typed_If [OF assms(1) _ assms(2), of None "Known i i" sp] show ?thesis
    by (auto simp: Known if_else_effect_def join_branch_effects_def)
qed simp

lemma infer_typed:
  "\<forall>acc f. regular env es \<longrightarrow> weight_seq env es + weight acc < 2 ^ 32 \<longrightarrow> shape_typed f acc
     \<longrightarrow> shape_typed (\<lambda>n s. continue_with (f n s) (exec_seq M es n)) (infer_loop env es acc)"
  "regular_opt env d \<longrightarrow> weight_opt env d < 2 ^ 32
     \<longrightarrow> shape_typed (exec_opt M d) (case d of None \<Rightarrow> Known 0 0 | Some es \<Rightarrow> infer_loop env es (Known 0 0))"
  "regular_expr env e \<longrightarrow> weight_expr env e < 2 ^ 32 \<longrightarrow> shape_typed (exec_expr M e) (effect_of_expr env e)"
  "\<forall>base df. regular_arms env arms \<longrightarrow> 1 + weight_arms env arms + weight base < 2 ^ 32 \<longrightarrow> shape_typed df base
     \<longrightarrow> shape_typed (exec_arms M arms df) (infer_case_effect env arms base)"
proof (induction es and d and e and arms rule: expr_induct)
  case (Nil)
  have "(\<lambda>n s. continue_with (f n s) Norm) = f" for f :: "'s code"
    by (auto simp: fun_eq_iff split: result.split)
  then show ?case unfolding exec_seq.simps infer_loop.simps by simp
next
  case (Cons e es)
  show ?case
  proof (intro allI impI)
    fix acc and f :: "'s code"
    assume reg: "regular env (e # es)" and w: "weight_seq env (e # es) + weight acc < 2 ^ 32" and f: "shape_typed f acc"
    let ?e = "effect_of_expr env e" let ?a = "eff_then acc ?e" and ?f = "\<lambda>n s. continue_with (f n s) (exec_expr M e n)"
    have we: "weight ?e \<le> weight_expr env e" using infer_weight(3) [of env e] w by simp
    have "shape_typed (exec_expr M e) ?e" using Cons.IH(1) reg w by simp
    then have a: "shape_typed ?f ?a" using typed_seq [OF f] we w by simp
    have "weight ?a \<le> weight acc + weight ?e" by (rule weight_eff_then) (use we w in simp)
    then have "shape_typed (\<lambda>n s. continue_with (?f n s) (exec_seq M es n)) (infer_loop env es ?a)"
      using Cons.IH(2) reg w we a by auto
    then show "shape_typed (\<lambda>n s. continue_with (f n s) (exec_seq M (e # es) n)) (infer_loop env (e # es) acc)"
      unfolding continue_with_assoc exec_seq.simps by (cases ?a) simp_all
  qed
next
  case None
  show ?case by (simp add: runs_def)
next
  case (Some es)
  show ?case using block_typed [OF Some.IH] by simp
next
  case (If t eb sp)
  show ?case
  proof (intro impI)
    assume reg: "regular_expr env (If t eb sp)" and w: "weight_expr env (If t eb sp) < 2 ^ 32"
    let ?t = "infer_loop env t (Known 0 0)"
    have t: "shape_typed (exec_seq M t) ?t" using block_typed [OF If.IH(1)] reg w by simp
    have wt: "1 + weight ?t < 2 ^ 32" using weight_block [of t] w by simp
    show "shape_typed (exec_expr M (If t eb sp)) (effect_of_expr env (If t eb sp))"
    proof (cases eb)
      case None
      then show ?thesis using typed_if_only [OF t wt, of sp] by simp
    next
      case (Some es)
      have "shape_typed (exec_opt M eb) (infer_loop env es (Known 0 0))" using If.IH(2) reg w Some by simp
      with typed_If [OF t this wt, of sp] show ?thesis by (simp add: Some)
    qed
  qed
next
  case (Until b sp)
  show ?case using typed_until block_typed [OF Until.IH] by (simp add: infer_block_def)
next
  case (Again b sp)
  show ?case by simp
next
  case (While p b sp)
  show ?case
  proof (intro impI)
    assume reg: "regular_expr env (BeginWhileRepeat p b sp)" and w: "weight_expr env (BeginWhileRepeat p b sp) < 2 ^ 32"
    have "shape_typed (exec_seq M p) (infer_loop env p (Known 0 0))" "shape_typed (exec_seq M b) (infer_loop env b (Known 0 0))"
      using block_typed [OF While.IH(1)] block_typed [OF While.IH(2)] reg w by simp_all
    then show "shape_typed (exec_expr M (BeginWhileRepeat p b sp)) (effect_of_expr env (BeginWhileRepeat p b sp))"
      using typed_while weight_block [of p] weight_block [of b] w by simp
  qed
next
  case (Do q b k sp)
  show ?case
  proof (intro impI)
    assume reg: "regular_expr env (DoLoop q b k sp)" and w: "weight_expr env (DoLoop q b k sp) < 2 ^ 32"
    have "shape_typed (exec_seq M b) (infer_loop env b (Known 0 0))" using block_typed [OF Do.IH] reg w by simp
    then show "shape_typed (exec_expr M (DoLoop q b k sp)) (effect_of_expr env (DoLoop q b k sp))"
      using typed_do weight_block [of b] reg w by simp
  qed
next
  case (Case arms d sp)
  show ?case
  proof (intro impI)
    let ?d = "case d of None \<Rightarrow> Known 0 0 | Some es \<Rightarrow> infer_loop env es (Known 0 0)"
    assume reg: "regular_expr env (Case arms d sp)" and w: "weight_expr env (Case arms d sp) < 2 ^ 32"
    have "weight ?d \<le> weight_opt env d" using weight_block w by (cases d) simp_all
    then show "shape_typed (exec_expr M (Case arms d sp)) (effect_of_expr env (Case arms d sp))"
      using Case.IH reg w by (simp add: infer_case_opt exec_Case)
  qed
next
  case NilA
  show ?case
  proof (intro allI impI)
    fix base and df :: "'s code"
    assume w: "1 + weight_arms env [] + weight base < 2 ^ 32" and df: "shape_typed df base"
    have "runs depth level (\<lambda>n s. settle (m_drop M s)) 1 0"
    proof (rule runsI)
      fix n s assume "1 \<le> depth s"
      from drop_shape [OF this] show "conforms depth level 1 0 s (settle (m_drop M s))" by auto
    qed
    then have "shape_typed (\<lambda>n s. settle (m_drop M s)) (Known 1 0)" by simp
    then show "shape_typed (exec_arms M [] df) (infer_case_effect env [] base)"
      using typed_seq [OF df, of "\<lambda>n s. settle (m_drop M s)" "Known 1 0"] w by simp
  qed
next
  case (ConsA mt b sp arms)
  show ?case
  proof (intro allI impI)
    fix base and df :: "'s code"
    assume reg: "regular_arms env (CaseArm mt b sp # arms)" and w: "1 + weight_arms env (CaseArm mt b sp # arms) + weight base < 2 ^ 32"
      and df: "shape_typed df base"
    have "shape_typed (exec_seq M mt) (infer_loop env mt (Known 0 0))" "shape_typed (exec_seq M b) (infer_loop env b (Known 0 0))"
      using block_typed [OF ConsA.IH(1)] block_typed [OF ConsA.IH(2)] reg w by simp_all
    moreover have "shape_typed (exec_arms M arms df) (infer_case_effect env arms base)" using ConsA.IH(3) reg w df by simp
    moreover have "weight (infer_case_effect env arms base) \<le> 1 + weight_arms env arms + weight base"
      using spec [OF infer_weight(4) [of env arms], of base] w by simp
    ultimately show "shape_typed (exec_arms M (CaseArm mt b sp # arms) df) (infer_case_effect env (CaseArm mt b sp # arms) base)"
      using typed_arm weight_block [of b] reg w by (simp add: infer_block_def)
  qed
qed (rule impI, rule impI, rule typed_atomic, simp)+

end

section \<open>A machine of the right shape\<close>

text \<open>
  The ANS machine on cells, completed to all words that have an effect: a word without a concrete
  meaning there exchanges its inputs for cells that hold zero.
\<close>

definition shape_step :: "effect \<Rightarrow> cells option \<Rightarrow> cells \<Rightarrow> cells option" where
  "shape_step e r s =
     (case e of
        Unknown \<Rightarrow> r
      | Known i out \<Rightarrow>
          if length (data s) < unat i then None
          else (case r of
                  Some s' \<Rightarrow>
                    if length (data s') + unat i = length (data s) + unat out \<and> length (loops s') = length (loops s)
                    then Some s' else Some (s\<lparr>data := replicate (unat out) 0 @ drop (unat i) (data s)\<rparr>)
                | None \<Rightarrow> Some (s\<lparr>data := replicate (unat out) 0 @ drop (unat i) (data s)\<rparr>)))"

definition cell_machine :: "effect_env \<Rightarrow> cells machine" where
  "cell_machine env =
     (ans_machine exit_by_name)\<lparr>
       m_lit := \<lambda>l s. shape_step (literal_effect l) (ans_lit l s) s,
       m_word := \<lambda>w sp s. shape_step (word_effect env w sp) (ans_word w sp s) s,
       m_other := \<lambda>e s. shape_step (effect_of_expr env e) None s\<rparr>"

abbreviation data_depth :: "cells \<Rightarrow> nat" where
  "data_depth s \<equiv> length (data s)"

abbreviation loop_level :: "cells \<Rightarrow> nat" where
  "loop_level s \<equiv> length (loops s)"

lemma shape_step_Known:
  assumes "unat i \<le> data_depth s"
  shows "\<exists>s'. shape_step (Known i out) r s = Some s' \<and> data_depth s' + unat i = data_depth s + unat out \<and> loop_level s' = loop_level s"
  using assms by (auto simp: shape_step_def split: option.split)

lemma literal_effect_Known: "\<exists>out. literal_effect l = Known 0 out"
  by (cases l rule: literal_effect.cases) auto

interpretation cell_shape: effect_machine "cell_machine env" env data_depth loop_level for env
proof
  fix l and s :: cells
  obtain out where "literal_effect l = Known 0 out" using literal_effect_Known by blast
  then show "\<exists>s'. m_lit (cell_machine env) l s = Some s' \<and> (\<forall>i out. literal_effect l = Known i out \<longrightarrow>
      data_depth s' + unat i = data_depth s + unat out) \<and> loop_level s' = loop_level s"
    using shape_step_Known [of 0 s out] by (auto simp: cell_machine_def)
next
  fix s :: cells assume "2 \<le> data_depth s"
  then obtain a b ds where s: "data s = a # b # ds" by (cases "data s"; cases "tl (data s)") auto
  then show "\<exists>b s'. m_of (cell_machine env) s = Some (b, s') \<and> data_depth s' + (if b then 2 else 1) = data_depth s \<and> loop_level s' = loop_level s"
    by (auto simp: cell_machine_def ans_machine_def ans_of_def)
  show "\<exists>b s'. m_do (cell_machine env) q s = Some (b, s') \<and> data_depth s' + 2 = data_depth s \<and> loop_level s' = loop_level s + (if b then 1 else 0)" for q
    using s by (auto simp: cell_machine_def ans_machine_def ans_do_def)
next
  fix s :: cells assume "1 \<le> data_depth s"
  then obtain a ds where s: "data s = a # ds" by (cases "data s") auto
  then show "\<exists>b s'. m_flag (cell_machine env) s = Some (b, s') \<and> data_depth s' + 1 = data_depth s \<and> loop_level s' = loop_level s"
    "\<exists>s'. m_drop (cell_machine env) s = Some s' \<and> data_depth s' + 1 = data_depth s \<and> loop_level s' = loop_level s"
    by (auto simp: cell_machine_def ans_machine_def pop_flag_def on_stack_def)
next
  fix s :: cells assume "1 \<le> loop_level s"
  then obtain l i ls where "loops s = (l, i) # ls" by (cases "loops s") auto
  then show "\<exists>b s'. m_loop (cell_machine env) Plus1 s = Some (b, s') \<and> data_depth s' = data_depth s \<and> loop_level s' + (if b then 0 else 1) = loop_level s"
    by (auto simp: cell_machine_def ans_machine_def loop_round_def Let_def)
qed (auto simp: cell_machine_def shape_step_Known)

section \<open>Properties\<close>

text \<open>
  C32. The inferred stack effect is sound. On every machine whose primitive words have the shapes of the
  effect tables, and for every body that is regular (no UNTIL with results besides its flag, no +LOOP,
  CASE matches that add one value) and whose counts do not reach the 32-bit limit: with an inferred
  effect of \<open>i\<close> inputs and \<open>out\<close> outputs, a run from a stack of at least \<open>i\<close> cells never underflows,
  and if it reaches the end of the body, the depth has changed from \<open>i\<close> to \<open>out\<close> and every counted
  loop is closed.
\<close>

theorem inferred_effect_sound:
  assumes "effect_machine M env depth level" "regular env body" "weight_seq env body < 2 ^ 32"
    and "infer_block env body = Known i out" "unat i \<le> depth s"
  shows "conforms depth level (unat i) (unat out) s (exec_seq M body n s)"
  using effect_machine.block_typed [OF assms(1) effect_machine.infer_typed(1) [OF assms(1)] assms(2,3)] assms(4,5)
  by (simp add: infer_block_def runsD)

definition builtin_env :: effect_env where
  "builtin_env = \<lparr>en_builtins = builtin_effects, en_user_effects = Map.empty,
     en_resolved = \<lparr>rs_program = [], rs_word_targets = Map.empty, rs_user_words = Map.empty\<rparr>\<rparr>"

definition countdown_body :: "expr list" where
  "countdown_body =
     [BeginUntil [Lit (IntLit 1 (point START)), WordRef ''-'' (point START), WordRef ''dup'' (point START), WordRef ''0='' (point START)] (point START)]"

theorem inferred_effect_sound_witness:
  "exec_seq (cell_machine builtin_env) countdown_body 5 (cells_of [3, 9]) = Norm (cells_of [0, 9])
    \<and> conforms data_depth loop_level (unat (1 :: u32)) (unat (1 :: u32)) (cells_of [3, 9])
        (exec_seq (cell_machine builtin_env) countdown_body 5 (cells_of [3, 9]))"
proof (rule conjI)
  show "exec_seq (cell_machine builtin_env) countdown_body 5 (cells_of [3, 9]) = Norm (cells_of [0, 9])" by code_simp
  show "conforms data_depth loop_level (unat (1 :: u32)) (unat (1 :: u32)) (cells_of [3, 9])
      (exec_seq (cell_machine builtin_env) countdown_body 5 (cells_of [3, 9]))"
  proof (rule inferred_effect_sound [OF cell_shape.effect_machine_axioms])
    show "regular builtin_env countdown_body" by code_simp
    have "weight_seq builtin_env countdown_body < 100" by code_simp
    then show "weight_seq builtin_env countdown_body < 2 ^ 32" by simp
    show "infer_block builtin_env countdown_body = Known 1 1" by code_simp
  qed simp
qed



fun definition_names :: "program \<Rightarrow> string list" where
  "definition_names [] = []"
| "definition_names (Definition d # its) = to_ascii_lowercase (cd_name d) # definition_names its"
| "definition_names (it # its) = definition_names its"

lemma definition_names_in: "Definition d \<in> set its \<Longrightarrow> to_ascii_lowercase (cd_name d) \<in> set (definition_names its)"
  by (induction its rule: definition_names.induct) auto

lemma infer_items_keeps_body:
  "n \<notin> set (definition_names its) \<Longrightarrow> inf_body_effects (fst (infer_items r its st)) n = inf_body_effects st n"
  by (induction its arbitrary: st rule: definition_names.induct) (auto simp: Let_def case_prod_beta)

lemma infer_items_checks:
  "Definition d \<in> set its \<Longrightarrow> distinct (definition_names its) \<Longrightarrow>
   \<exists>e. inf_body_effects (fst (infer_items r its st)) (to_ascii_lowercase (cd_name d)) = Some e
     \<and> set (check_definition d e) \<subseteq> set (snd (infer_items r its st))"
proof (induction its arbitrary: st rule: definition_names.induct)
  case (2 d' its)
  show ?case
  proof (cases "Definition d \<in> set its")
    case True
    with 2 show ?thesis by (fastforce simp: Let_def case_prod_beta)
  next
    case False
    with 2 have "d' = d" by simp
    with 2 show ?thesis by (auto simp: Let_def case_prod_beta infer_items_keeps_body)
  qed
qed (auto simp: Let_def case_prod_beta)


definition bad_program :: program where
  "bad_program =
     [Definition \<lparr>cd_name = ''Bad'', cd_name_span = point START,
        cd_effect = Some \<lparr>se_inputs = [], se_outputs = [], se_span = point START\<rparr>, cd_locals = [],
        cd_body = [Lit (IntLit 1 (point START))], cd_span = point START\<rparr>]"

definition bad_resolved :: resolved where
  "bad_resolved = \<lparr>rs_program = bad_program, rs_word_targets = Map.empty, rs_user_words = Map.empty\<rparr>"


section \<open>Where the formulas fail\<close>

definition accumulate_body :: "expr list" where
  "accumulate_body =
     [BeginUntil [Lit (IntLit 7 (point START)), Lit (IntLit 7 (point START)), WordRef ''rot'' (point START)] (point START)]"

text \<open>
  An UNTIL loop whose body leaves more than a flag is typed as if it ran once, and so is judged to
  leave two cells where two rounds leave four.
\<close>

lemma until_effect_counts_one_round:
  "infer_block builtin_env accumulate_body = Known 1 2
    \<and> exec_seq (cell_machine builtin_env) accumulate_body 5 (cells_of [0, 9]) = Norm (cells_of [7, 7, 7, 9])"
  by code_simp

text \<open>The step of +LOOP is not counted.\<close>

lemma plus_loop_effect_ignores_step:
  "effect_of_expr env (DoLoop q b PlusN sp) = effect_of_expr env (DoLoop q b Plus1 sp)
    \<and> infer_block builtin_env [Lit (IntLit 3 sp), Lit (IntLit 0 sp), DoLoop False [] PlusN sp] = Known 0 0
    \<and> exec_seq (cell_machine builtin_env) [Lit (IntLit 3 sp), Lit (IntLit 0 sp), DoLoop False [] PlusN sp] 5 (cells_of []) = Stuck
    \<and> infer_block builtin_env [Lit (IntLit 3 sp), Lit (IntLit 0 sp), DoLoop False [Lit (IntLit 1 sp)] PlusN sp] = Unknown
    \<and> exec_seq (cell_machine builtin_env) [Lit (IntLit 3 sp), Lit (IntLit 0 sp), DoLoop False [Lit (IntLit 1 sp)] PlusN sp] 5 (cells_of [])
      = Norm (cells_of [])"
  by (intro conjI; (simp; fail | code_simp))



end
