(* ===== verification/Lower_Qdup.thy ===== *)
theory Lower_Qdup
  imports Forth_Machine
begin

text \<open>
  The pass that rewrites \<^verbatim>\<open>?DUP IF\<close> (\<^verbatim>\<open>src/compiler/lower_qdup.rs\<close>). The process-wide
  counter from which the pass takes fresh spans is threaded through as a 32-bit word.
\<close>

section \<open>The pass\<close>

definition SYNTH_COUNTER :: u32 where
  "SYNTH_COUNTER = 0xFFFF0000"

definition synth_span :: "u32 \<Rightarrow> span \<Rightarrow> span \<times> u32" where
  "synth_span n orig =
     (mk_span \<lparr>pos_line = pos_line (span_start orig), pos_col = pos_col (span_start orig), byte_offset = n\<rparr>
              \<lparr>pos_line = pos_line (span_end orig), pos_col = pos_col (span_end orig), byte_offset = n\<rparr>,
      n - 1)"

fun is_qdup_word :: "expr \<Rightarrow> bool" where
  "is_qdup_word (WordRef w _) = eq_ignore_ascii_case w ''?dup''"
| "is_qdup_word _ = False"

text \<open>\<^verbatim>\<open>seq.get(i + 1)\<close> matched against an IF.\<close>

fun if_ahead :: "expr list \<Rightarrow> (expr list \<times> expr list option \<times> span \<times> expr list) option" where
  "if_ahead (If t eb sp # rest) = Some (t, eb, sp, rest)"
| "if_ahead _ = None"

lemma if_ahead_Some [simp]: "if_ahead es = Some (t, eb, sp, rest) \<longleftrightarrow> es = If t eb sp # rest"
  by (cases es rule: if_ahead.cases) auto

function (sequential) qdup_seq :: "u32 \<Rightarrow> expr list \<Rightarrow> expr list \<times> u32"
  and qdup_opt :: "u32 \<Rightarrow> expr list option \<Rightarrow> expr list option \<times> u32"
  and qdup_expr :: "u32 \<Rightarrow> expr \<Rightarrow> expr \<times> u32"
  and qdup_arms :: "u32 \<Rightarrow> case_arm list \<Rightarrow> case_arm list \<times> u32" where
  "qdup_seq c [] = ([], c)"
| "qdup_seq c (e # es) =
     (if is_qdup_word e then
        (case if_ahead es of
           Some (t, eb, if_span, rest) \<Rightarrow>
             (let (dup_span, c1) = synth_span c (expr_span e);
                  (drop_span, c2) = synth_span c1 (expr_span e);
                  (t', c3) = qdup_seq c2 t;
                  (eb', c4) = qdup_opt c3 eb;
                  new_else = WordRef ''drop'' drop_span # (case eb' of None \<Rightarrow> [] | Some es' \<Rightarrow> es');
                  (rest', c5) = qdup_seq c4 rest
              in (WordRef ''dup'' dup_span # If t' (Some new_else) if_span # rest', c5))
         | None \<Rightarrow> (let (es', c1) = qdup_seq c es in (e # es', c1)))
      else (let (e', c1) = qdup_expr c e; (es', c2) = qdup_seq c1 es in (e' # es', c2)))"
| "qdup_opt c None = (None, c)"
| "qdup_opt c (Some es) = (let (es', c1) = qdup_seq c es in (Some es', c1))"
| "qdup_expr c (If t eb sp) =
     (let (t', c1) = qdup_seq c t; (eb', c2) = qdup_opt c1 eb in (If t' eb' sp, c2))"
| "qdup_expr c (BeginUntil b sp) = (let (b', c1) = qdup_seq c b in (BeginUntil b' sp, c1))"
| "qdup_expr c (BeginAgain b sp) = (let (b', c1) = qdup_seq c b in (BeginAgain b' sp, c1))"
| "qdup_expr c (BeginWhileRepeat p b sp) =
     (let (p', c1) = qdup_seq c p; (b', c2) = qdup_seq c1 b in (BeginWhileRepeat p' b' sp, c2))"
| "qdup_expr c (DoLoop q b k sp) = (let (b', c1) = qdup_seq c b in (DoLoop q b' k sp, c1))"
| "qdup_expr c (Case arms d sp) =
     (let (arms', c1) = qdup_arms c arms; (d', c2) = qdup_opt c1 d in (Case arms' d' sp, c2))"
| "qdup_expr c e = (e, c)"
| "qdup_arms c [] = ([], c)"
| "qdup_arms c (CaseArm mt b sp # arms) =
     (let (mt', c1) = qdup_seq c mt; (b', c2) = qdup_seq c1 b; (arms', c3) = qdup_arms c2 arms
      in (CaseArm mt' b' sp # arms', c3))"
  by pat_completeness auto
termination
  by (relation "measure (case_sum (case_sum (\<lambda>(c, es). size_list size es) (\<lambda>(c, d). size_option (size_list size) d))
      (case_sum (\<lambda>(c, e). size e) (\<lambda>(c, arms). size_list size arms)))") auto

declare qdup_seq.simps(2) [simp del]

lemma qdup_expr_atomic [simp]: "atomic e \<Longrightarrow> qdup_expr c e = (e, c)"
  by (cases e) auto

lemmas qdup_fst = qdup_seq.simps(2) case_prod_beta Let_def

text \<open>
  Induction over the traversal, with the hypotheses for every value of the counter.
\<close>

lemma qdup_induct [case_names Nil pair lone step None Some If Until Again While Do Case other NilA ConsA]:
  fixes P :: "u32 \<Rightarrow> expr list \<Rightarrow> bool"
  assumes "\<And>c. P c []"
    and "\<And>c e t eb sp rest. is_qdup_word e \<Longrightarrow> (\<And>c. P c t) \<Longrightarrow> (\<And>c. Q c eb) \<Longrightarrow> (\<And>c. P c rest) \<Longrightarrow>
        P c (e # If t eb sp # rest)"
    and "\<And>c e es. is_qdup_word e \<Longrightarrow> if_ahead es = None \<Longrightarrow> (\<And>c. P c es) \<Longrightarrow> P c (e # es)"
    and "\<And>c e es. \<not> is_qdup_word e \<Longrightarrow> (\<And>c. R c e) \<Longrightarrow> (\<And>c. P c es) \<Longrightarrow> P c (e # es)"
    and "\<And>c. Q c None" and "\<And>c es. (\<And>c. P c es) \<Longrightarrow> Q c (Some es)"
    and "\<And>c t eb sp. (\<And>c. P c t) \<Longrightarrow> (\<And>c. Q c eb) \<Longrightarrow> R c (If t eb sp)"
    and "\<And>c b sp. (\<And>c. P c b) \<Longrightarrow> R c (BeginUntil b sp)"
    and "\<And>c b sp. (\<And>c. P c b) \<Longrightarrow> R c (BeginAgain b sp)"
    and "\<And>c p b sp. (\<And>c. P c p) \<Longrightarrow> (\<And>c. P c b) \<Longrightarrow> R c (BeginWhileRepeat p b sp)"
    and "\<And>c q b k sp. (\<And>c. P c b) \<Longrightarrow> R c (DoLoop q b k sp)"
    and "\<And>c arms d sp. (\<And>c. S c arms) \<Longrightarrow> (\<And>c. Q c d) \<Longrightarrow> R c (Case arms d sp)"
    and "\<And>c e. atomic e \<Longrightarrow> R c e"
    and "\<And>c. S c []"
    and "\<And>c mt b sp arms. (\<And>c. P c mt) \<Longrightarrow> (\<And>c. P c b) \<Longrightarrow> (\<And>c. S c arms) \<Longrightarrow> S c (CaseArm mt b sp # arms)"
  shows "P c es" "Q c d" "R c e" "S c arms"
proof -
  have "(\<forall>c. P c es) \<and> True" "(\<forall>c. Q c d)" "(\<forall>c. R c e)" "(\<forall>c. S c arms)"
  proof (induction c es and c d and c e and c arms rule: qdup_seq_qdup_opt_qdup_expr_qdup_arms.induct)
    case (2 c e es)
    show ?case
    proof (cases "is_qdup_word e")
      case q: True
      show ?thesis
      proof (cases "if_ahead es")
        case None
        with 2(1) q assms(3) show ?thesis by blast
      next
        case (Some a)
        obtain t eb sp rest where a: "a = (t, eb, sp, rest)" by (cases a) auto
        note spans = refl refl refl refl prod.collapse refl prod.collapse
        have "\<forall>c. P c t" "\<forall>c. Q c eb" "\<forall>c. P c rest"
          using 2(2) [OF q Some [unfolded a] spans] 2(3) [OF q Some [unfolded a] spans refl prod.collapse]
            2(4) [OF q Some [unfolded a] spans refl prod.collapse refl prod.collapse refl] by blast+
        then show ?thesis using q Some a assms(2) by simp
      qed
    next
      case False
      with 2(5) 2(6) [OF False refl prod.collapse] assms(4) show ?thesis by blast
    qed
  next
    case (5 c t eb sp)
    with 5(2) [OF refl prod.collapse] assms(7) show ?case by blast
  next
    case (8 c p b sp)
    with 8(2) [OF refl prod.collapse] assms(10) show ?case by blast
  next
    case (10 c arms d sp)
    with 10(2) [OF refl prod.collapse] assms(12) show ?case by blast
  next
    case (13 c mt b sp arms)
    with 13(2) [OF refl prod.collapse] 13(3) [OF refl prod.collapse refl prod.collapse] assms(15)
    show ?case by blast
  qed (use assms in auto)
  then show "P c es" "Q c d" "R c e" "S c arms" by auto
qed

text \<open>\<^verbatim>\<open>lower_program\<close>: every body of every item, in order.\<close>

fun qdup_const :: "u32 \<Rightarrow> const_value \<Rightarrow> const_value \<times> u32" where
  "qdup_const c (ConstComputed es) = (let (es', c1) = qdup_seq c es in (ConstComputed es', c1))"
| "qdup_const c v = (v, c)"

fun qdup_item :: "u32 \<Rightarrow> item \<Rightarrow> item \<times> u32" where
  "qdup_item c (Definition d) = (let (b, c1) = qdup_seq c (cd_body d) in (Definition (d\<lparr>cd_body := b\<rparr>), c1))"
| "qdup_item c (TopLevel es sp) = (let (es', c1) = qdup_seq c es in (TopLevel es' sp, c1))"
| "qdup_item c (Constant k) = (let (v, c1) = qdup_const c (con_value k) in (Constant (k\<lparr>con_value := v\<rparr>), c1))"
| "qdup_item c (Template t) =
     (let (a, c1) = qdup_seq c (td_constructor t); (b, c2) = qdup_seq c1 (td_does_body t)
      in (Template (t\<lparr>td_constructor := a, td_does_body := b\<rparr>), c2))"
| "qdup_item c (Value v) = (let (b, c1) = qdup_seq c (val_initial v) in (Value (v\<lparr>val_initial := b\<rparr>), c1))"
| "qdup_item c (Method m) = (let (b, c1) = qdup_seq c (md_body m) in (Method (m\<lparr>md_body := b\<rparr>), c1))"
| "qdup_item c (TemplateInstance t) =
     (let (b, c1) = qdup_seq c (ti_does_body t) in (TemplateInstance (t\<lparr>ti_does_body := b\<rparr>), c1))"
| "qdup_item c it = (it, c)"

fun qdup_program :: "u32 \<Rightarrow> program \<Rightarrow> program \<times> u32" where
  "qdup_program c [] = ([], c)"
| "qdup_program c (it # its) =
     (let (it', c1) = qdup_item c it; (its', c2) = qdup_program c1 its in (it' # its', c2))"

section \<open>The meaning is kept\<close>

lemma lowercase_stack_words [ascii_simps]:
  "to_ascii_lowercase ''dup'' = ''dup''" "to_ascii_lowercase ''drop'' = ''drop''"
  "to_ascii_lowercase ''?dup'' = ''?dup''"
  by code_simp+

text \<open>
  What the pass relies on: \<^verbatim>\<open>?DUP\<close> duplicates a true flag and leaves a false one, DUP and
  DROP are the ANS words, whatever the span of the reference, and none of them is EXIT.
\<close>

locale qdup_machine =
  fixes M :: "'s machine"
  assumes not_exit: "to_ascii_lowercase w \<in> {''?dup'', ''dup'', ''drop''} \<Longrightarrow> \<not> m_is_exit M w sp"
    and qdup_word: "eq_ignore_ascii_case w ''?dup'' \<Longrightarrow> m_word M w sp s =
        (case m_flag M s of None \<Rightarrow> None | Some (b, _) \<Rightarrow> if b then m_word M ''dup'' sp' s else Some s)"
    and dup_word: "m_flag M s = Some (b, s1) \<Longrightarrow> \<exists>s2. m_word M ''dup'' sp s = Some s2 \<and> m_flag M s2 = Some (b, s)"
    and dup_underflow: "m_flag M s = None \<Longrightarrow> m_word M ''dup'' sp s = None"
    and drop_word: "m_flag M s = Some (b, s1) \<Longrightarrow> m_word M ''drop'' sp s = Some s1"
begin

lemma exec_words:
  "exec_expr M (WordRef ''dup'' sp) n s = settle (m_word M ''dup'' sp s)"
  "exec_expr M (WordRef ''drop'' sp) n s = settle (m_word M ''drop'' sp s)"
  using not_exit [of "''dup''"] not_exit [of "''drop''"] by (simp_all add: ascii_simps)

lemma exec_qdup:
  assumes "is_qdup_word e"
  shows "exec_expr M e n s =
    (case m_flag M s of None \<Rightarrow> Stuck | Some (b, _) \<Rightarrow> if b then settle (m_word M ''dup'' sp' s) else Norm s)"
proof -
  obtain w sp where e: "e = WordRef w sp" and w: "eq_ignore_ascii_case w ''?dup''"
    using assms by (cases e) auto
  then have "\<not> m_is_exit M w sp"
    using not_exit by (simp add: eq_ignore_ascii_case_def ascii_simps)
  then show ?thesis using qdup_word [OF w, of sp s sp'] e by (simp split: option.split)
qed

lemma qdup_if_step:
  assumes "is_qdup_word e"
  shows "continue_with (exec_expr M e n s) (\<lambda>s1. exec_expr M (If t eb sp) n s1) =
    continue_with (exec_expr M (WordRef ''dup'' sp1) n s)
      (\<lambda>s1. exec_expr M (If t (Some (WordRef ''drop'' sp2 # (case eb of None \<Rightarrow> [] | Some es \<Rightarrow> es))) sp) n s1)"
proof (cases "m_flag M s")
  case None
  then show ?thesis
    using exec_qdup [OF assms, of n s] by (simp add: exec_words dup_underflow del: exec_expr.simps)
next
  case (Some p)
  obtain b s1 where p: "m_flag M s = Some (b, s1)" using Some by (cases p) auto
  obtain s2 where s2: "m_word M ''dup'' sp1 s = Some s2" "m_flag M s2 = Some (b, s)"
    using dup_word [OF p] by blast
  show ?thesis
  proof (cases b)
    case True
    then show ?thesis
      using p s2 exec_qdup [OF assms, of n s sp1] exec_words(1) [of sp1 n s] by (simp add: exec_If)
  next
    case False
    then show ?thesis
      using p s2 exec_qdup [OF assms, of n s sp1] exec_words(1) [of sp1 n s] exec_words(2) [of sp2 n s]
        drop_word [OF p, of sp2]
      by (cases eb) (simp_all add: exec_If)
  qed
qed

lemma qdup_pair_exec:
  assumes "is_qdup_word e" and t': "exec_seq M t' = exec_seq M t" and eb: "exec_opt M eb' = exec_opt M eb"
    and rest: "exec_seq M rest' = exec_seq M rest"
  shows "exec_seq M (WordRef ''dup'' sp1 # If t' (Some (WordRef ''drop'' sp2 # (case eb' of None \<Rightarrow> [] | Some es \<Rightarrow> es))) sp # rest')
    = exec_seq M (e # If t eb sp # rest)" (is "exec_seq M (?dup # ?if' # rest') = _")
proof -
  have "exec_opt M (Some (WordRef ''drop'' sp2 # (case eb' of None \<Rightarrow> [] | Some es \<Rightarrow> es)))
      = exec_opt M (Some (WordRef ''drop'' sp2 # (case eb of None \<Rightarrow> [] | Some es \<Rightarrow> es)))"
    by (intro exec_congs refl) (use eb in \<open>cases eb; cases eb'; simp\<close>)
  then have "exec_expr M ?if' = exec_expr M (If t (Some (WordRef ''drop'' sp2 # (case eb of None \<Rightarrow> [] | Some es \<Rightarrow> es))) sp)"
    by (rule exec_If_cong [OF t'])
  note cong = exec_Cons_cong [OF refl exec_Cons_cong [OF this rest]]
  show ?thesis
    unfolding cong
    using qdup_if_step [OF assms(1), where t = t and eb = eb and sp = sp and ?sp1.0 = sp1 and ?sp2.0 = sp2]
    unfolding exec_seq_Cons2 by (simp only:)
qed

lemma qdup_exec:
  "exec_seq M (fst (qdup_seq c es)) = exec_seq M es"
  "exec_opt M (fst (qdup_opt c d)) = exec_opt M d"
  "exec_expr M (fst (qdup_expr c e)) = exec_expr M e"
  "\<forall>df. exec_arms M (fst (qdup_arms c arms)) df = exec_arms M arms df"
proof (induction c es and c d and c e and c arms rule: qdup_induct)
  case (pair c e t eb sp rest)
  then show ?case
    by (auto simp: qdup_fst simp del: exec_seq.simps exec_expr.simps intro!: qdup_pair_exec)
qed (auto simp: qdup_fst simp del: exec_seq.simps exec_expr.simps exec_arms.simps
    intro!: exec_congs split: option.split)

end

lemma eq_ignore_ascii_case_qdup: "eq_ignore_ascii_case w ''?dup'' \<longleftrightarrow> to_ascii_lowercase w = ''?dup''"
  by (simp add: eq_ignore_ascii_case_def ascii_simps)

lemma ans_qdup_machine:
  assumes "\<And>w sp. to_ascii_lowercase w \<in> {''?dup'', ''dup'', ''drop''} \<Longrightarrow> \<not> is_exit w sp"
  shows "qdup_machine (ans_machine is_exit)"
proof
  fix w sp sp' s
  assume "eq_ignore_ascii_case w ''?dup''"
  then show "m_word (ans_machine is_exit) w sp s =
      (case m_flag (ans_machine is_exit) s of None \<Rightarrow> None
       | Some (b, _) \<Rightarrow> if b then m_word (ans_machine is_exit) ''dup'' sp' s else Some s)"
    by (cases "data s") (auto simp: ans_machine_def ans_word_def on_stack_def pop_flag_def
        eq_ignore_ascii_case_qdup ascii_simps)
next
  fix s b s1 sp
  assume "m_flag (ans_machine is_exit) s = Some (b, s1)"
  then show "\<exists>s2. m_word (ans_machine is_exit) ''dup'' sp s = Some s2 \<and> m_flag (ans_machine is_exit) s2 = Some (b, s)"
    by (cases "data s") (auto simp: ans_machine_def ans_word_def on_stack_def pop_flag_def ascii_simps)
qed (use assms in \<open>auto simp: ans_machine_def ans_word_def on_stack_def pop_flag_def ascii_simps
      split: list.splits\<close>)

interpretation ans_qdup: qdup_machine "ans_machine exit_by_name"
  by (rule ans_qdup_machine) (auto simp: exit_by_name_def)

text \<open>
  C21. Rewriting \<^verbatim>\<open>?DUP IF\<close> keeps the meaning of every body: on every machine whose stack words
  are the ANS ones, the lowered sequence ends in the same state (or leaves the definition, or
  gets stuck, or runs out of rounds) as the original, from every state.
\<close>

theorem qdup_preserves_meaning:
  assumes "qdup_machine M"
  shows "exec_seq M (fst (qdup_seq c es)) n s = exec_seq M es n s"
  by (simp add: qdup_machine.qdup_exec(1) [OF assms])

theorem qdup_preserves_meaning_witness:
  "exec_seq (ans_machine exit_by_name)
     (fst (qdup_seq SYNTH_COUNTER [WordRef ''?DUP'' (point START), If [WordRef ''1+'' (point START)] None (point START)]))
     0 (cells_of [41]) =
   exec_seq (ans_machine exit_by_name)
     [WordRef ''?DUP'' (point START), If [WordRef ''1+'' (point START)] None (point START)] 0 (cells_of [41])"
  by (rule qdup_preserves_meaning) (rule ans_qdup.qdup_machine_axioms)

section \<open>Nothing is left to rewrite\<close>

fun qdup_done :: "expr list \<Rightarrow> bool"
  and qdup_done_opt :: "expr list option \<Rightarrow> bool"
  and qdup_done_expr :: "expr \<Rightarrow> bool"
  and qdup_done_arms :: "case_arm list \<Rightarrow> bool" where
  "qdup_done [] = True"
| "qdup_done (e # es) = ((is_qdup_word e \<longrightarrow> if_ahead es = None) \<and> qdup_done_expr e \<and> qdup_done es)"
| "qdup_done_opt None = True"
| "qdup_done_opt (Some es) = qdup_done es"
| "qdup_done_expr (If t eb sp) = (qdup_done t \<and> qdup_done_opt eb)"
| "qdup_done_expr (BeginUntil b sp) = qdup_done b"
| "qdup_done_expr (BeginAgain b sp) = qdup_done b"
| "qdup_done_expr (BeginWhileRepeat p b sp) = (qdup_done p \<and> qdup_done b)"
| "qdup_done_expr (DoLoop q b k sp) = qdup_done b"
| "qdup_done_expr (Case arms d sp) = (qdup_done_arms arms \<and> qdup_done_opt d)"
| "qdup_done_expr e = True"
| "qdup_done_arms [] = True"
| "qdup_done_arms (CaseArm mt b sp # arms) = (qdup_done mt \<and> qdup_done b \<and> qdup_done_arms arms)"

lemma not_qdup_words [simp]: "\<not> eq_ignore_ascii_case ''dup'' ''?dup''" "\<not> eq_ignore_ascii_case ''drop'' ''?dup''"
  by (simp_all add: eq_ignore_ascii_case_qdup ascii_simps)

lemma is_qdup_word_cases: "is_qdup_word e \<Longrightarrow> \<exists>w sp. e = WordRef w sp"
  by (cases e) auto

lemma qdup_expr_If: "fst (qdup_expr c e) = If t eb sp \<Longrightarrow> \<exists>t eb. e = If t eb sp"
  by (cases e) (auto split: prod.splits)

lemma if_ahead_qdup: "if_ahead es = None \<Longrightarrow> if_ahead (fst (qdup_seq c es)) = None"
proof (cases es)
  case (Cons e es')
  assume none: "if_ahead es = None"
  show ?thesis
  proof (cases "is_qdup_word e")
    case True
    then show ?thesis using Cons is_qdup_word_cases [of e]
      by (auto simp: qdup_seq.simps(2) split: prod.splits option.splits)
  next
    case False
    obtain e' c1 where e': "qdup_expr c e = (e', c1)" by fastforce
    have "\<nexists>t eb sp. e' = If t eb sp"
      using none qdup_expr_If [of c e] e' Cons by auto
    with False e' Cons show ?thesis
      by (cases e') (auto simp: qdup_seq.simps(2) split: prod.splits)
  qed
qed simp

lemma is_qdup_word_qdup_expr: "is_qdup_word (fst (qdup_expr c e)) \<Longrightarrow> is_qdup_word e"
  by (cases e) (auto split: prod.splits)

lemma qdup_done_atomic [simp]: "atomic e \<Longrightarrow> qdup_done_expr e"
  by (cases e) auto

lemma qdup_done_lowered:
  "qdup_done (fst (qdup_seq c es))" "qdup_done_opt (fst (qdup_opt c d))"
  "qdup_done_expr (fst (qdup_expr c e))" "qdup_done_arms (fst (qdup_arms c arms))"
proof (induction c es and c d and c e and c arms rule: qdup_induct)
  case (pair c e t eb sp rest)
  have "qdup_done (case d of None \<Rightarrow> [] | Some es \<Rightarrow> es)" if "qdup_done_opt d" for d
    using that by (cases d) auto
  with pair show ?case by (simp add: qdup_fst)
next
  case (lone c e es)
  with if_ahead_qdup [OF lone(2)] is_qdup_word_cases [OF lone(1)] show ?case
    by (auto simp: qdup_fst)
next
  case (step c e es)
  then show ?case
    using is_qdup_word_qdup_expr [of c e] by (auto simp: qdup_fst)
qed (simp_all add: qdup_fst)

text \<open>
  After the pass no body contains \<^verbatim>\<open>?DUP\<close> right before an IF, at any depth of nesting.
\<close>

lemma qdup_no_pair_left: "qdup_done (fst (qdup_seq c es))"
  by (rule qdup_done_lowered)

section \<open>Spans stay distinct\<close>

text \<open>
  The resolver keys its targets by the span of a word reference, so two references must not
  share a span.
\<close>

definition offset :: "span \<Rightarrow> nat" where
  "offset sp = unat (byte_offset (span_start sp))"

text \<open>
  A traversal step from the spans \<open>ins\<close> to \<open>outs\<close> that takes the counter from \<open>c\<close> to \<open>c'\<close>:
  it uses at most two values for each reference and the spans it adds carry exactly the counter values
  in between.
\<close>

definition fresh_step :: "u32 \<Rightarrow> span list \<Rightarrow> span list \<Rightarrow> u32 \<Rightarrow> bool" where
  "fresh_step c ins outs c' \<longleftrightarrow>
     (2 * length ins \<le> unat c \<longrightarrow>
        unat c' \<le> unat c \<and> unat c \<le> unat c' + 2 * length ins
        \<and> (\<forall>sp \<in> set outs. sp \<in> set ins \<or> (unat c' < offset sp \<and> offset sp \<le> unat c))
        \<and> (distinct ins \<longrightarrow> (\<forall>sp \<in> set ins. offset sp \<le> unat c') \<longrightarrow> distinct outs))"

lemma fresh_step_refl [intro!]: "fresh_step c ins ins c"
  by (simp add: fresh_step_def)

lemma fresh_step_append:
  assumes "fresh_step c ins1 outs1 c1" "fresh_step c1 ins2 outs2 c2"
  shows "fresh_step c (ins1 @ ins2) (outs1 @ outs2) c2"
proof (cases "2 * length (ins1 @ ins2) \<le> unat c")
  case True
  have 1: "unat c1 \<le> unat c" "unat c \<le> unat c1 + 2 * length ins1"
    "\<forall>sp \<in> set outs1. sp \<in> set ins1 \<or> (unat c1 < offset sp \<and> offset sp \<le> unat c)"
    "distinct ins1 \<longrightarrow> (\<forall>sp \<in> set ins1. offset sp \<le> unat c1) \<longrightarrow> distinct outs1"
    using assms(1) True by (auto simp: fresh_step_def)
  have 2: "unat c2 \<le> unat c1" "unat c1 \<le> unat c2 + 2 * length ins2"
    "\<forall>sp \<in> set outs2. sp \<in> set ins2 \<or> (unat c2 < offset sp \<and> offset sp \<le> unat c1)"
    "distinct ins2 \<longrightarrow> (\<forall>sp \<in> set ins2. offset sp \<le> unat c2) \<longrightarrow> distinct outs2"
    using assms(2) True 1 by (auto simp: fresh_step_def)
  have distinct: "distinct (outs1 @ outs2)"
    if ins: "distinct (ins1 @ ins2)" and low: "\<forall>sp \<in> set (ins1 @ ins2). offset sp \<le> unat c2"
  proof -
    have "\<forall>sp \<in> set ins1. offset sp \<le> unat c1"
    proof
      fix sp assume "sp \<in> set ins1"
      then have "offset sp \<le> unat c2" using low by simp
      then show "offset sp \<le> unat c1" using 2(1) by (rule order_trans)
    qed
    then have "distinct outs1" "distinct outs2" using 1(4) 2(4) ins low by auto
    moreover have "sp \<notin> set outs2" if sp: "sp \<in> set outs1" for sp
    proof
      assume sp2: "sp \<in> set outs2"
      have "sp \<in> set ins1 \<or> unat c1 < offset sp" "sp \<in> set ins2 \<or> (unat c2 < offset sp \<and> offset sp \<le> unat c1)"
        using 1(3) 2(3) sp sp2 by blast+
      moreover have "sp \<in> set ins1 \<Longrightarrow> offset sp \<le> unat c2" "sp \<in> set ins2 \<Longrightarrow> offset sp \<le> unat c2"
        "\<not> (sp \<in> set ins1 \<and> sp \<in> set ins2)" using low ins by auto
      ultimately show False using 2(1) by linarith
    qed
    ultimately show ?thesis by auto
  qed
  have outs: "sp \<in> set (ins1 @ ins2) \<or> (unat c2 < offset sp \<and> offset sp \<le> unat c)"
    if "sp \<in> set (outs1 @ outs2)" for sp
  proof -
    have "sp \<in> set outs1 \<or> sp \<in> set outs2" using that by simp
    then show ?thesis
    proof
      assume "sp \<in> set outs1"
      then have "sp \<in> set ins1 \<or> (unat c1 < offset sp \<and> offset sp \<le> unat c)" using 1(3) by blast
      then show ?thesis using 2(1) by auto
    next
      assume "sp \<in> set outs2"
      then have "sp \<in> set ins2 \<or> (unat c2 < offset sp \<and> offset sp \<le> unat c1)" using 2(3) by blast
      then show ?thesis using 1(1) by auto
    qed
  qed
  show ?thesis unfolding fresh_step_def using distinct outs 1(1,2) 2(1,2) by auto
qed (simp add: fresh_step_def)

lemma fresh_step_synth:
  assumes "fresh_step (c - 2) ins outs c'" "synth_span c sp0 = (sp1, c1)" "synth_span c1 sp0 = (sp2, c2)"
  shows "fresh_step c (sp0 # ins) (sp1 # sp2 # outs) c'"
proof (cases "2 * length (sp0 # ins) \<le> unat c")
  case True
  have c: "unat (c - 2) = unat c - 2" "unat (c - 1) = unat c - 1"
    using True by (simp_all add: unat_sub word_le_nat_alt)
  have sp: "offset sp1 = unat c" "offset sp2 = unat c - 1"
    using assms(2,3) c by (auto simp: synth_span_def offset_def)
  have 1: "unat c' \<le> unat c - 2" "unat c - 2 \<le> unat c' + 2 * length ins"
    "\<forall>sp \<in> set outs. sp \<in> set ins \<or> (unat c' < offset sp \<and> offset sp \<le> unat c - 2)"
    "distinct ins \<longrightarrow> (\<forall>sp \<in> set ins. offset sp \<le> unat c') \<longrightarrow> distinct outs"
    using assms(1) True c by (auto simp: fresh_step_def)
  have len: "2 \<le> unat c" using True by simp
  have small: "offset sp \<le> unat c - 2" if "sp \<in> set outs" "\<forall>sp \<in> set (sp0 # ins). offset sp \<le> unat c'" for sp
  proof -
    have "sp \<in> set ins \<or> offset sp \<le> unat c - 2" using 1(3) that(1) by blast
    then show ?thesis using that(2) 1(1) by auto
  qed
  have distinct: "distinct (sp1 # sp2 # outs)"
    if ins: "distinct (sp0 # ins)" and low: "\<forall>sp \<in> set (sp0 # ins). offset sp \<le> unat c'"
  proof -
    have "sp1 \<noteq> sp2" using sp len by auto
    moreover have "sp1 \<notin> set outs" using small [OF _ low, of sp1] sp len by auto
    moreover have "sp2 \<notin> set outs" using small [OF _ low, of sp2] sp len by auto
    moreover have "distinct outs" using 1(4) ins low by auto
    ultimately show ?thesis by simp
  qed
  have outs: "sp \<in> set (sp0 # ins) \<or> (unat c' < offset sp \<and> offset sp \<le> unat c)"
    if "sp \<in> set (sp1 # sp2 # outs)" for sp
  proof -
    consider "sp = sp1" | "sp = sp2" | "sp \<in> set outs" using \<open>sp \<in> set (sp1 # sp2 # outs)\<close> by auto
    then show ?thesis
    proof cases
      case 3
      then have "sp \<in> set ins \<or> (unat c' < offset sp \<and> offset sp \<le> unat c - 2)" using 1(3) by blast
      then show ?thesis by auto
    qed (use sp 1(1) len in auto)
  qed
  show ?thesis unfolding fresh_step_def using distinct outs 1(1,2) True by auto
qed (simp add: fresh_step_def)

lemma fresh_step_cong:
  "fresh_step c ins outs c' \<Longrightarrow> set outs' = set outs \<Longrightarrow> distinct outs' = distinct outs \<Longrightarrow> ins' = ins \<Longrightarrow> c'' = c' \<Longrightarrow>
   fresh_step c ins' outs' c''"
  by (simp add: fresh_step_def)

lemma word_spans_qdup: "is_qdup_word e \<Longrightarrow> word_spans_expr e = [expr_span e]"
  by (cases e) auto

lemma word_spans_new_else [simp]:
  "word_spans (case d of None \<Rightarrow> [] | Some es \<Rightarrow> es) = word_spans_opt d"
  by (cases d) auto

lemma qdup_fresh:
  "fresh_step c (word_spans es) (word_spans (fst (qdup_seq c es))) (snd (qdup_seq c es))"
  "fresh_step c (word_spans_opt d) (word_spans_opt (fst (qdup_opt c d))) (snd (qdup_opt c d))"
  "fresh_step c (word_spans_expr e) (word_spans_expr (fst (qdup_expr c e))) (snd (qdup_expr c e))"
  "fresh_step c (word_spans_arms arms) (word_spans_arms (fst (qdup_arms c arms))) (snd (qdup_arms c arms))"
proof (induction c es and c d and c e and c arms rule: qdup_induct)
  case (pair c e t eb sp rest)
  obtain sp1 sp2 where syn: "synth_span c (expr_span e) = (sp1, c - 1)" "synth_span (c - 1) (expr_span e) = (sp2, c - 2)"
    by (simp add: synth_span_def)
  note body = fresh_step_synth [OF fresh_step_append [OF pair(2) fresh_step_append [OF pair(3) pair(4)]] syn]
  show ?case
    by (rule fresh_step_cong [OF body]) (auto simp: qdup_fst pair(1) syn word_spans_qdup)
qed (auto simp: qdup_fst intro!: fresh_step_append)

text \<open>
  The spans that the pass makes up are fresh: a body whose word references have distinct spans,
  at offsets that stay clear of the counter values the pass uses, is lowered to a body whose word references
  still have distinct spans, so that no two of them share an entry of the resolver's target map.
\<close>

theorem qdup_spans_distinct:
  assumes "distinct (word_spans es)"
    and "list_all (\<lambda>sp. offset sp + 2 * length (word_spans es) \<le> unat c) (word_spans es)"
  shows "distinct (word_spans (fst (qdup_seq c es)))"
proof (cases "word_spans es = []")
  case True
  have "fresh_step c [] (word_spans (fst (qdup_seq c es))) (snd (qdup_seq c es))"
    using qdup_fresh(1) [of c es] True by simp
  then show ?thesis by (simp add: fresh_step_def)
next
  case False
  then have fits: "2 * length (word_spans es) \<le> unat c"
    using assms(2) by (cases "word_spans es") auto
  have step: "fresh_step c (word_spans es) (word_spans (fst (qdup_seq c es))) (snd (qdup_seq c es))"
    by (rule qdup_fresh)
  then have "unat c \<le> unat (snd (qdup_seq c es)) + 2 * length (word_spans es)"
    using fits by (simp add: fresh_step_def)
  then have "\<forall>sp \<in> set (word_spans es). offset sp \<le> unat (snd (qdup_seq c es))"
    using assms(2) by (auto simp: list_all_iff)
  then show ?thesis using step fits assms(1) by (simp add: fresh_step_def)
qed

theorem qdup_spans_distinct_witness:
  "distinct (word_spans (fst (qdup_seq SYNTH_COUNTER
     [WordRef ''?dup'' (point START), If [WordRef ''emit'' (point \<lparr>pos_line = 1, pos_col = 9, byte_offset = 8\<rparr>)] None (point START)])))"
  by (rule qdup_spans_distinct)
    (simp_all add: point_def START_def offset_def SYNTH_COUNTER_def)

end
