(* ===== verification/Lower_Recurse.thy ===== *)
theory Lower_Recurse
  imports Forth_Machine
begin

text \<open>
  The pass that binds RECURSE to the enclosing definition (\<^verbatim>\<open>src/compiler/lower_recurse.rs\<close>).
  The flag that the source sets through a mutable reference is the second result.
\<close>

section \<open>The pass\<close>

fun rewrite_seq :: "string \<Rightarrow> expr list \<Rightarrow> expr list \<times> bool"
  and rewrite_opt :: "string \<Rightarrow> expr list option \<Rightarrow> expr list option \<times> bool"
  and rewrite_expr :: "string \<Rightarrow> expr \<Rightarrow> expr \<times> bool"
  and rewrite_arms :: "string \<Rightarrow> case_arm list \<Rightarrow> case_arm list \<times> bool" where
  "rewrite_seq target [] = ([], False)"
| "rewrite_seq target (e # es) =
     (let (e', saw1) = rewrite_expr target e; (es', saw2) = rewrite_seq target es in (e' # es', saw1 \<or> saw2))"
| "rewrite_opt target None = (None, False)"
| "rewrite_opt target (Some es) = (let (es', saw) = rewrite_seq target es in (Some es', saw))"
| "rewrite_expr target (WordRef w sp) =
     (if eq_ignore_ascii_case w ''recurse'' then (WordRef target sp, True) else (WordRef w sp, False))"
| "rewrite_expr target (If t eb sp) =
     (let (t', saw1) = rewrite_seq target t; (eb', saw2) = rewrite_opt target eb in (If t' eb' sp, saw1 \<or> saw2))"
| "rewrite_expr target (BeginUntil b sp) = (let (b', saw) = rewrite_seq target b in (BeginUntil b' sp, saw))"
| "rewrite_expr target (BeginAgain b sp) = (let (b', saw) = rewrite_seq target b in (BeginAgain b' sp, saw))"
| "rewrite_expr target (BeginWhileRepeat p b sp) =
     (let (p', saw1) = rewrite_seq target p; (b', saw2) = rewrite_seq target b
      in (BeginWhileRepeat p' b' sp, saw1 \<or> saw2))"
| "rewrite_expr target (DoLoop q b k sp) = (let (b', saw) = rewrite_seq target b in (DoLoop q b' k sp, saw))"
| "rewrite_expr target (Case arms d sp) =
     (let (arms', saw1) = rewrite_arms target arms; (d', saw2) = rewrite_opt target d in (Case arms' d' sp, saw1 \<or> saw2))"
| "rewrite_expr target e = (e, False)"
| "rewrite_arms target [] = ([], False)"
| "rewrite_arms target (CaseArm mt b sp # arms) =
     (let (mt', saw1) = rewrite_seq target mt; (b', saw2) = rewrite_seq target b; (arms', saw3) = rewrite_arms target arms
      in (CaseArm mt' b' sp # arms', saw1 \<or> saw2 \<or> saw3))"

record missing_recurse_effect =
  mre_word_name :: string
  mre_at :: span

definition display_missing_recurse_effect :: "missing_recurse_effect \<Rightarrow> string" where
  "display_missing_recurse_effect m =
     ''RECURSE requires a stack-effect annotation on '' @ bq @ mre_word_name m @ bq @ '' ''
       @ [CHR 0xE2, CHR 0x80, CHR 0x94] @ '' add '' @ bq @ ''( ... -- ... )'' @ bq @ '' after the name''"

definition rewrite_def :: "colon_def \<Rightarrow> colon_def \<times> bool" where
  "rewrite_def d = (let (b, saw) = rewrite_seq (cd_name d) (cd_body d) in (d\<lparr>cd_body := b\<rparr>, saw))"

fun recurse_program :: "program \<Rightarrow> program \<times> missing_recurse_effect list" where
  "recurse_program [] = ([], [])"
| "recurse_program (Definition d # its) =
     (let (d', saw) = rewrite_def d; (its', missing) = recurse_program its
      in (Definition d' # its',
          if saw \<and> cd_effect d' = None
          then \<lparr>mre_word_name = cd_name d', mre_at = cd_name_span d'\<rparr> # missing else missing))"
| "recurse_program (it # its) = (let (its', missing) = recurse_program its in (it # its', missing))"

section \<open>Correctness\<close>

text \<open>Whether a sequence refers to RECURSE, at any depth.\<close>

fun uses_recurse :: "expr list \<Rightarrow> bool"
  and uses_recurse_opt :: "expr list option \<Rightarrow> bool"
  and uses_recurse_expr :: "expr \<Rightarrow> bool"
  and uses_recurse_arms :: "case_arm list \<Rightarrow> bool" where
  "uses_recurse [] = False"
| "uses_recurse (e # es) = (uses_recurse_expr e \<or> uses_recurse es)"
| "uses_recurse_opt None = False"
| "uses_recurse_opt (Some es) = uses_recurse es"
| "uses_recurse_expr (WordRef w sp) = eq_ignore_ascii_case w ''recurse''"
| "uses_recurse_expr (If t eb sp) = (uses_recurse t \<or> uses_recurse_opt eb)"
| "uses_recurse_expr (BeginUntil b sp) = uses_recurse b"
| "uses_recurse_expr (BeginAgain b sp) = uses_recurse b"
| "uses_recurse_expr (BeginWhileRepeat p b sp) = (uses_recurse p \<or> uses_recurse b)"
| "uses_recurse_expr (DoLoop q b k sp) = uses_recurse b"
| "uses_recurse_expr (Case arms d sp) = (uses_recurse_arms arms \<or> uses_recurse_opt d)"
| "uses_recurse_expr e = False"
| "uses_recurse_arms [] = False"
| "uses_recurse_arms (CaseArm mt b sp # arms) = (uses_recurse mt \<or> uses_recurse b \<or> uses_recurse_arms arms)"

lemma rewrite_saw:
  "snd (rewrite_seq target es) = uses_recurse es" "snd (rewrite_opt target d) = uses_recurse_opt d"
  "snd (rewrite_expr target e) = uses_recurse_expr e" "snd (rewrite_arms target arms) = uses_recurse_arms arms"
  by (induction es and d and e and arms rule: expr_induct) (auto simp: case_prod_beta Let_def)

lemma rewrite_removes:
  assumes "\<not> eq_ignore_ascii_case target ''recurse''"
  shows "\<not> uses_recurse (fst (rewrite_seq target es))" "\<not> uses_recurse_opt (fst (rewrite_opt target d))"
    "\<not> uses_recurse_expr (fst (rewrite_expr target e))" "\<not> uses_recurse_arms (fst (rewrite_arms target arms))"
  using assms by (induction es and d and e and arms rule: expr_induct) (auto simp: case_prod_beta Let_def)

text \<open>A machine in the body of a definition: RECURSE means the definition itself.\<close>

locale self_call_machine =
  fixes M :: "'s machine" and target :: string
  assumes recurse_word: "eq_ignore_ascii_case w ''recurse'' \<Longrightarrow> m_word M w sp s = m_word M target sp s"
    and recurse_exit: "eq_ignore_ascii_case w ''recurse'' \<Longrightarrow> m_is_exit M w sp = m_is_exit M target sp"
begin

lemma rewrite_exec:
  "exec_seq M (fst (rewrite_seq target es)) = exec_seq M es"
  "exec_opt M (fst (rewrite_opt target d)) = exec_opt M d"
  "exec_expr M (fst (rewrite_expr target e)) = exec_expr M e"
  "\<forall>df. exec_arms M (fst (rewrite_arms target arms)) df = exec_arms M arms df"
proof (induction es and d and e and arms rule: expr_induct)
  case (WordRef w sp)
  then show ?case using recurse_word recurse_exit by (simp add: fun_eq_iff)
qed (auto simp: case_prod_beta Let_def simp del: exec_seq.simps exec_expr.simps exec_arms.simps intro!: exec_congs)

end

text \<open>The ANS machine extended by the meaning \<open>self\<close> of the definition being compiled.\<close>

definition with_self :: "string \<Rightarrow> (cells \<Rightarrow> cells option) \<Rightarrow> cells machine" where
  "with_self target self =
     (ans_machine exit_by_name)\<lparr>m_word := (\<lambda>w sp s.
        if eq_ignore_ascii_case w ''recurse'' \<or> w = target then self s else ans_word w sp s),
      m_is_exit := (\<lambda>w sp. exit_by_name w sp \<and> w \<noteq> target)\<rparr>"

interpretation ans_self: self_call_machine "with_self target self" target for target self
proof
  have "to_ascii_lowercase ''recurse'' \<noteq> ''exit''" by code_simp
  then show "m_is_exit (with_self target self) w sp = m_is_exit (with_self target self) target sp"
    if "eq_ignore_ascii_case w ''recurse''" for w sp
    using that by (auto simp: with_self_def exit_by_name_def eq_ignore_ascii_case_def)
qed (simp add: with_self_def)

text \<open>
  C23. Binding RECURSE keeps the meaning of a body: wherever RECURSE means the definition itself, the rewritten
  body behaves as the original one; it mentions RECURSE no more, and the pass reports a use exactly
  when there is one.
\<close>

theorem recurse_rewritten:
  assumes "self_call_machine M target" "\<not> eq_ignore_ascii_case target ''recurse''"
  shows "exec_seq M (fst (rewrite_seq target es)) n s = exec_seq M es n s
    \<and> \<not> uses_recurse (fst (rewrite_seq target es))
    \<and> (snd (rewrite_seq target es) \<longleftrightarrow> uses_recurse es)"
  using self_call_machine.rewrite_exec(1) [OF assms(1)] rewrite_removes(1) [OF assms(2)]
  by (simp add: rewrite_saw)

theorem recurse_rewritten_witness:
  "exec_seq (with_self ''sum'' Some) (fst (rewrite_seq ''sum'' [If [WordRef ''recurse'' (point START)] None (point START)])) 0 (cells_of [1])
     = exec_seq (with_self ''sum'' Some) [If [WordRef ''recurse'' (point START)] None (point START)] 0 (cells_of [1])
    \<and> \<not> uses_recurse (fst (rewrite_seq ''sum'' [If [WordRef ''recurse'' (point START)] None (point START)]))
    \<and> (snd (rewrite_seq ''sum'' [If [WordRef ''recurse'' (point START)] None (point START)])
        \<longleftrightarrow> uses_recurse [If [WordRef ''recurse'' (point START)] None (point START)])"
  by (rule recurse_rewritten [OF ans_self.self_call_machine_axioms]) code_simp

fun recurse_without_effect :: "item \<Rightarrow> (string \<times> span) list" where
  "recurse_without_effect (Definition d) =
     (if uses_recurse (cd_body d) \<and> cd_effect d = None then [(cd_name d, cd_name_span d)] else [])"
| "recurse_without_effect _ = []"

text \<open>
  The errors of the pass: exactly the definitions that use RECURSE without declaring a stack effect are
  reported, in source order, by name and name span; the other items are left as they are.
\<close>

theorem recurse_program_missing:
  "map (\<lambda>m. (mre_word_name m, mre_at m)) (snd (recurse_program its)) = concat (map recurse_without_effect its)
    \<and> list_all2 (\<lambda>it it'. case it of Definition d \<Rightarrow> it' = Definition (fst (rewrite_def d)) | _ \<Rightarrow> it' = it)
        its (fst (recurse_program its))"
proof (induction its rule: recurse_program.induct)
  case (2 d its)
  have saw: "snd (rewrite_seq (cd_name d) (cd_body d)) = uses_recurse (cd_body d)" by (rule rewrite_saw)
  from 2 show ?case
    by (simp add: rewrite_def_def case_prod_beta Let_def saw)
qed (simp_all add: case_prod_beta Let_def)

end
