(* ===== verification/Lower_Exit.thy ===== *)
theory Lower_Exit
  imports Forth_Machine Targets
begin

text \<open>
  The pass that removes EXIT by inlining tails (\<^verbatim>\<open>src/compiler/lower_exit.rs\<close>). The result is
  the rewritten sequence and whether every path through it leaves the definition.
\<close>

section \<open>The pass\<close>

fun is_exit_word :: "word_targets \<Rightarrow> expr \<Rightarrow> bool" where
  "is_exit_word r (WordRef w sp) = (r sp = Some (QualifiedBuiltin ''continuations'' ''return''))"
| "is_exit_word r _ = False"

fun body_uses_exit :: "word_targets \<Rightarrow> expr list \<Rightarrow> bool"
  and opt_uses_exit :: "word_targets \<Rightarrow> expr list option \<Rightarrow> bool"
  and expr_uses_exit :: "word_targets \<Rightarrow> expr \<Rightarrow> bool"
  and arms_use_exit :: "word_targets \<Rightarrow> case_arm list \<Rightarrow> bool" where
  "body_uses_exit r [] = False"
| "body_uses_exit r (e # es) = (expr_uses_exit r e \<or> body_uses_exit r es)"
| "opt_uses_exit r None = False"
| "opt_uses_exit r (Some es) = body_uses_exit r es"
| "expr_uses_exit r (WordRef w sp) = is_exit_word r (WordRef w sp)"
| "expr_uses_exit r (If t eb sp) = (body_uses_exit r t \<or> opt_uses_exit r eb)"
| "expr_uses_exit r (BeginUntil b sp) = body_uses_exit r b"
| "expr_uses_exit r (BeginAgain b sp) = body_uses_exit r b"
| "expr_uses_exit r (BeginWhileRepeat p b sp) = (body_uses_exit r p \<or> body_uses_exit r b)"
| "expr_uses_exit r (DoLoop q b k sp) = body_uses_exit r b"
| "expr_uses_exit r (Case arms d sp) = (arms_use_exit r arms \<or> opt_uses_exit r d)"
| "expr_uses_exit r e = False"
| "arms_use_exit r [] = False"
| "arms_use_exit r (CaseArm mt b sp # arms) = (body_uses_exit r b \<or> arms_use_exit r arms)"

definition push_front :: "'a \<Rightarrow> 'a list \<times> bool \<Rightarrow> 'a list \<times> bool" where
  "push_front x p = (x # fst p, snd p)"

text \<open>
  \<open>exit_arms\<close> lowers the body of each arm followed by \<open>tail\<close>, and tells whether all of them
  leave the definition; with an empty tail it is the plain recursion into the arms.
\<close>

function (sequential) exit_seq :: "word_targets \<Rightarrow> expr list \<Rightarrow> expr list \<times> bool"
  and exit_arms :: "word_targets \<Rightarrow> case_arm list \<Rightarrow> expr list \<Rightarrow> case_arm list \<times> bool" where
  "exit_seq r [] = ([], False)"
| "exit_seq r (If t eb sp # tail) =
     (if \<not> (body_uses_exit r t \<or> opt_uses_exit r eb) then
        push_front (If (fst (exit_seq r t)) (case eb of None \<Rightarrow> None | Some b \<Rightarrow> Some (fst (exit_seq r b))) sp)
          (exit_seq r tail)
      else
        (let (then_l, then_term) = exit_seq r (t @ tail);
             (else_l, else_term) = exit_seq r ((case eb of None \<Rightarrow> [] | Some b \<Rightarrow> b) @ tail)
         in ([If then_l (Some else_l) sp], then_term \<and> else_term)))"
| "exit_seq r (Case arms d sp # tail) =
     (if \<not> (arms_use_exit r arms \<or> opt_uses_exit r d) then
        push_front (Case (fst (exit_arms r arms [])) (case d of None \<Rightarrow> None | Some b \<Rightarrow> Some (fst (exit_seq r b))) sp)
          (exit_seq r tail)
      else
        (let (new_arms, arms_term) = exit_arms r arms tail;
             default_seq = (case d of None \<Rightarrow> [] | Some b \<Rightarrow> b) @ tail;
             (default_l, default_term) = (if default_seq = [] then ([], False) else exit_seq r default_seq)
         in ([Case new_arms (if default_l = [] then None else Some default_l) sp], arms_term \<and> default_term)))"
| "exit_seq r (e # tail) =
     (if is_exit_word r e then ([], True) else push_front e (exit_seq r tail))"
| "exit_arms r [] tail = ([], True)"
| "exit_arms r (CaseArm mt b sp # arms) tail =
     (let (arm_l, arm_term) = exit_seq r (b @ tail); (arms', all_term) = exit_arms r arms tail
      in (CaseArm mt arm_l sp # arms', arm_term \<and> all_term))"
  by pat_completeness auto
termination
  by (relation "measure (case_sum (\<lambda>(r, es). size_list size es) (\<lambda>(r, arms, tail). size_list size arms + size_list size tail))")
    (auto simp: size_list_append split: option.split)

definition lower_body :: "word_targets \<Rightarrow> expr list \<Rightarrow> expr list" where
  "lower_body r body = fst (exit_seq r body)"

section \<open>Sequences without EXIT\<close>

lemma exit_free_id:
  "\<not> body_uses_exit r es \<Longrightarrow> exit_seq r es = (es, False)"
  "\<not> arms_use_exit r arms \<Longrightarrow> tail = [] \<Longrightarrow> fst (exit_arms r arms tail) = arms"
proof (induction r es and r arms tail rule: exit_seq_exit_arms.induct)
  case (2 r t eb sp tail)
  then show ?case by (cases eb) (simp_all add: push_front_def)
next
  case (3 r arms d sp tail)
  then show ?case by (cases d) (simp_all add: push_front_def)
qed (auto simp: push_front_def case_prod_beta Let_def)

text \<open>
  The trees on which the pass is exact: outside loops, no CASE has an EXIT in an arm or in its
  default.
\<close>

fun exit_case_free :: "word_targets \<Rightarrow> expr list \<Rightarrow> bool"
  and exit_case_free_opt :: "word_targets \<Rightarrow> expr list option \<Rightarrow> bool"
  and exit_case_free_expr :: "word_targets \<Rightarrow> expr \<Rightarrow> bool" where
  "exit_case_free r [] = True"
| "exit_case_free r (e # es) = (exit_case_free_expr r e \<and> exit_case_free r es)"
| "exit_case_free_opt r None = True"
| "exit_case_free_opt r (Some es) = exit_case_free r es"
| "exit_case_free_expr r (If t eb sp) = (exit_case_free r t \<and> exit_case_free_opt r eb)"
| "exit_case_free_expr r (Case arms d sp) = (\<not> arms_use_exit r arms \<and> \<not> opt_uses_exit r d)"
| "exit_case_free_expr r e = True"

lemma exit_case_free_append [simp]: "exit_case_free r (xs @ ys) = (exit_case_free r xs \<and> exit_case_free r ys)"
  by (induction xs) auto

section \<open>The meaning of a definition\<close>

text \<open>Leaving a definition by EXIT or by reaching its end is the same to its caller.\<close>

fun at_return :: "'s result \<Rightarrow> 's result" where
  "at_return (Exited s) = Norm s"
| "at_return r = r"

lemma at_return_on_flag: "at_return (on_flag m f g) = on_flag m (\<lambda>s. at_return (f s)) (\<lambda>s. at_return (g s))"
  by (simp split: option.split prod.split)

lemma at_return_continue:
  "(\<And>s. at_return (f s) = at_return (g s)) \<Longrightarrow> at_return (continue_with r f) = at_return (continue_with r g)"
  by (cases r) auto

locale exit_machine =
  fixes M :: "'s machine" and r :: word_targets and refs :: "(string \<times> span) set"
  assumes exit_is_return: "(w, sp) \<in> refs \<Longrightarrow>
    m_is_exit M w sp \<longleftrightarrow> r sp = Some (QualifiedBuiltin ''continuations'' ''return'')"
begin

lemma exec_exit: "is_exit_word r e \<Longrightarrow> set (word_refs_expr e) \<subseteq> refs \<Longrightarrow> exec_expr M e n s = Exited s"
  using exit_is_return by (cases e) auto

lemma exec_if_tail:
  "exec_seq M (If t eb sp # tail) n s =
     on_flag (m_flag M s) (exec_seq M (t @ tail) n) (exec_seq M ((case eb of None \<Rightarrow> [] | Some b \<Rightarrow> b) @ tail) n)"
  by (cases eb) (simp_all add: exec_seq_append exec_If split: option.split)

abbreviation same_return :: "expr list \<Rightarrow> expr list \<Rightarrow> bool" where
  "same_return es es' \<equiv> (\<forall>n s. at_return (exec_seq M es n s) = at_return (exec_seq M es' n s))"

lemma same_return_Cons:
  assumes "same_return es es'"
  shows "same_return (e # es) (e # es')"
  unfolding exec_seq.simps by (intro allI at_return_continue) (use assms in blast)

lemma same_return_If:
  assumes "same_return t' (t @ tail)" "same_return e' ((case eb of None \<Rightarrow> [] | Some b \<Rightarrow> b) @ tail)"
  shows "same_return [If t' (Some e') sp] (If t eb sp # tail)"
proof (intro allI)
  fix n s
  have "at_return (exec_seq M [If t' (Some e') sp] n s) =
      on_flag (m_flag M s) (\<lambda>s. at_return (exec_seq M t' n s)) (\<lambda>s. at_return (exec_seq M e' n s))"
    using exec_if_tail [of t' "Some e'" sp "[]" n s] by (simp only: option.case append_Nil2 at_return_on_flag)
  also have "\<dots> = at_return (exec_seq M (If t eb sp # tail) n s)"
    using assms unfolding exec_if_tail at_return_on_flag by (simp only:)
  finally show "at_return (exec_seq M [If t' (Some e') sp] n s) = at_return (exec_seq M (If t eb sp # tail) n s)" .
qed

lemma exit_seq_same_return:
  "exit_case_free r es \<Longrightarrow> set (word_refs es) \<subseteq> refs \<Longrightarrow> same_return (fst (exit_seq r es)) es"
proof (induction es rule: measure_induct_rule [where f = "size_list size"])
  case (less es)
  show ?case
  proof (cases es)
    case (Cons e tail)
    have tail: "same_return (fst (exit_seq r tail)) tail"
      using less Cons by simp
    have keep: ?thesis if "exit_seq r es = push_front e (exit_seq r tail)"
    proof -
      have eq: "fst (exit_seq r es) = e # fst (exit_seq r tail)" by (simp add: that push_front_def)
      show ?thesis unfolding eq unfolding Cons by (rule same_return_Cons [OF tail])
    qed
    show ?thesis
    proof (cases "atomic e")
      case True
      show ?thesis
      proof (cases "is_exit_word r e")
        case True
        then have "exit_seq r es = ([], True)" unfolding Cons by (cases e) auto
        then show ?thesis using exec_exit [OF True] less.prems(2) by (simp add: Cons)
      next
        case False
        with True have "exit_seq r es = push_front e (exit_seq r tail)" unfolding Cons by (cases e) auto
        then show ?thesis by (rule keep)
      qed
    next
      case False
      show ?thesis
      proof (cases e)
        case (If t eb sp)
        show ?thesis
        proof (cases "body_uses_exit r t \<or> opt_uses_exit r eb")
          case inline: True
          let ?else = "(case eb of None \<Rightarrow> [] | Some b \<Rightarrow> b) @ tail"
          have "same_return (fst (exit_seq r (t @ tail))) (t @ tail)"
            using less Cons If by (simp add: size_list_append)
          moreover have "same_return (fst (exit_seq r ?else)) ?else"
            using less Cons If by (cases eb) (simp_all add: size_list_append)
          ultimately show ?thesis
            using inline same_return_If by (simp only: Cons If exit_seq.simps case_prod_beta Let_def fst_conv if_False not_True_eq_False simp_thms if_not_P)
        next
          case False
          then have "exit_seq r es = push_front e (exit_seq r tail)"
            unfolding Cons If by (cases eb) (auto simp: exit_free_id)
          then show ?thesis by (rule keep)
        qed
      next
        case (Case arms d sp)
        then have "exit_seq r es = push_front e (exit_seq r tail)"
          using less.prems unfolding Cons by (cases d) (auto simp: exit_free_id)
        then show ?thesis by (rule keep)
      qed (use keep Cons False in auto)
    qed
  qed simp
qed

end

text \<open>The ANS machine in which EXIT is what the resolver bound to the return word.\<close>

definition returns :: "word_targets \<Rightarrow> string \<Rightarrow> span \<Rightarrow> bool" where
  "returns r w sp \<longleftrightarrow> r sp = Some (QualifiedBuiltin ''continuations'' ''return'')"

interpretation ans_exit: exit_machine "ans_machine (returns r)" r refs for r refs
  by unfold_locales (simp add: ans_machine_def returns_def)

section \<open>The surviving EXITs\<close>

text \<open>EXIT occurs nowhere outside loop bodies and the match sequences of CASE arms.\<close>

fun exit_in_loops_only :: "word_targets \<Rightarrow> expr list \<Rightarrow> bool"
  and exit_in_loops_only_opt :: "word_targets \<Rightarrow> expr list option \<Rightarrow> bool"
  and exit_in_loops_only_expr :: "word_targets \<Rightarrow> expr \<Rightarrow> bool"
  and exit_in_loops_only_arms :: "word_targets \<Rightarrow> case_arm list \<Rightarrow> bool" where
  "exit_in_loops_only r [] = True"
| "exit_in_loops_only r (e # es) = (exit_in_loops_only_expr r e \<and> exit_in_loops_only r es)"
| "exit_in_loops_only_opt r None = True"
| "exit_in_loops_only_opt r (Some es) = exit_in_loops_only r es"
| "exit_in_loops_only_expr r (WordRef w sp) = (\<not> returns r w sp)"
| "exit_in_loops_only_expr r (If t eb sp) = (exit_in_loops_only r t \<and> exit_in_loops_only_opt r eb)"
| "exit_in_loops_only_expr r (Case arms d sp) = (exit_in_loops_only_arms r arms \<and> exit_in_loops_only_opt r d)"
| "exit_in_loops_only_expr r e = True"
| "exit_in_loops_only_arms r [] = True"
| "exit_in_loops_only_arms r (CaseArm mt b sp # arms) = (exit_in_loops_only r b \<and> exit_in_loops_only_arms r arms)"

lemma exit_seq_in_loops_only:
  "exit_in_loops_only r (fst (exit_seq r es))"
  "exit_in_loops_only_arms r (fst (exit_arms r arms tail))"
proof (induction r es and r arms tail rule: exit_seq_exit_arms.induct)
  case (2 r t eb sp tail)
  then show ?case
    by (cases eb; cases "exit_seq r (t @ tail)") (auto simp: push_front_def case_prod_beta Let_def)
next
  case (3 r arms d sp tail)
  then show ?case
    by (cases d; cases "exit_arms r arms tail") (auto simp: push_front_def case_prod_beta Let_def)
next
  case (6 r mt b sp arms tail)
  then show ?case by (cases "exit_seq r (b @ tail)") (auto simp: case_prod_beta Let_def)
qed (auto simp: push_front_def case_prod_beta Let_def returns_def)

section \<open>Properties\<close>

text \<open>
  C22. Lowering EXIT keeps the meaning of a definition: on every machine that leaves the definition at exactly
  those references of the body that are bound to \<^verbatim>\<open>continuations:return\<close>, and for every body in which no CASE outside loops holds an EXIT, the caller
  of the definition sees the same result from the lowered body, for every input and every bound on
  the rounds of its loops.
\<close>

theorem lower_body_same_return:
  assumes "exit_machine M r (set (word_refs body))" "exit_case_free r body"
  shows "at_return (exec_seq M (lower_body r body) n s) = at_return (exec_seq M body n s)"
  using exit_machine.exit_seq_same_return [OF assms subset_refl] by (simp add: lower_body_def)

definition guard_example :: "expr list" where
  "guard_example =
     [If [Lit (IntLit 7 (point START)), WordRef ''exit'' (point START)] None (point START), Lit (IntLit 5 (point START))]"

definition exit_everywhere :: word_targets where
  "exit_everywhere sp = Some (QualifiedBuiltin ''continuations'' ''return'')"

theorem lower_body_same_return_witness:
  "lower_body exit_everywhere guard_example
      = [If [Lit (IntLit 7 (point START))] (Some [Lit (IntLit 5 (point START))]) (point START)]
    \<and> at_return (exec_seq (ans_machine (returns exit_everywhere)) (lower_body exit_everywhere guard_example) 0 (cells_of [1]))
      = at_return (exec_seq (ans_machine (returns exit_everywhere)) guard_example 0 (cells_of [1]))"
  by (rule conjI, code_simp, rule lower_body_same_return [OF ans_exit.exit_machine_axioms]) code_simp

text \<open>
  After the pass an EXIT is left only inside a loop body, the case the emitter keeps its
  \<^verbatim>\<open>with-return\<close> wrap for, or in the match sequence of a CASE arm, into which the pass never looks;
  and a body in which the pass sees no EXIT is left as it is.
\<close>

theorem lower_body_exit_in_loops:
  "exit_in_loops_only r (lower_body r body) \<and> (body_uses_exit r body \<or> lower_body r body = body)"
  using exit_seq_in_loops_only(1) [of r body] exit_free_id(1) [of r body] by (metis fst_conv lower_body_def)

definition case_exit_example :: "expr list" where
  "case_exit_example =
     [Case [CaseArm [Lit (IntLit 1 (point START))] [Lit (IntLit 10 (point START)), WordRef ''exit'' (point START)] (point START)]
        None (point START), Lit (IntLit 5 (point START))]"

text \<open>
  A CASE arm with an EXIT is not lowered faithfully: the tail moved into the default runs before the
  drop of ENDCASE, so that \<^verbatim>\<open>CASE 1 OF 10 EXIT ENDOF ENDCASE 5\<close> on the cell 7 leaves 5 as written and 7
  after lowering.
\<close>

theorem lower_body_case_differs:
  "at_return (exec_seq (ans_machine (returns exit_everywhere)) case_exit_example 0 (cells_of [7])) = Norm (cells_of [5])
    \<and> at_return (exec_seq (ans_machine (returns exit_everywhere)) (lower_body exit_everywhere case_exit_example) 0 (cells_of [7]))
      = Norm (cells_of [7])"
  by code_simp

end
