(* ===== verification/Sema.thy ===== *)
theory Sema
  imports Effects Lower_Qdup Lower_Recurse Lower_Exit
begin

text \<open>
  The semantic model of a program and its construction (\<^verbatim>\<open>src/compiler/sema.rs\<close>): template
  expansion, the composition of the lowering passes with resolution and effect inference, the
  call graph and the escape analysis of variables. Hash maps and ordered maps are maps.
\<close>

section \<open>Data\<close>

datatype escape_reason =
    Duplicated | PassedToUnknownWord | AddressArithmetic | UnknownSink | PrintedAsValue | InteractiveSession

datatype escape_state = Narrow | Wide escape_reason span | NotAnalysed

record user_word =
  uw_name :: string
  uw_def_span :: span
  uw_declared_inputs :: "u32 option"
  uw_declared_outputs :: "u32 option"

record word_doc =
  doc_kind :: string
  doc_effect :: string
  doc_source :: string
  doc_detail :: string

record sema =
  sm_program :: program
  sm_word_targets :: word_targets
  sm_user_words :: "string \<rightharpoonup> user_word"
  sm_variables :: "string \<rightharpoonup> variable_def"
  sm_constants :: "string \<rightharpoonup> constant_def"
  sm_creates :: "string \<rightharpoonup> create_def"
  sm_collections :: "string \<rightharpoonup> collection_def"
  sm_templates :: "string \<rightharpoonup> template_def"
  sm_values :: "string \<rightharpoonup> value_def"
  sm_class_slots :: class_slots_map
  sm_user_effects :: "string \<rightharpoonup> effect"
  sm_body_effects :: "string \<rightharpoonup> effect"
  sm_effect_errors :: "effect_error list"
  sm_call_graph :: "string \<rightharpoonup> string set"
  sm_use_sites :: "string \<rightharpoonup> span list"
  sm_escape :: "string \<rightharpoonup> escape_state"
  sm_docs :: "string \<rightharpoonup> word_doc"

section \<open>Template expansion\<close>

fun alloc_unit :: "expr list \<Rightarrow> u32 \<Rightarrow> u32" where
  "alloc_unit [] unit = unit"
| "alloc_unit (WordRef name sp # es) unit =
     (let lc = to_ascii_lowercase name in
      alloc_unit es (if lc = ''cells'' \<or> lc = ''floats'' then 8 else if lc = ''chars'' then 1 else unit))"
| "alloc_unit (e # es) unit = alloc_unit es unit"

definition compute_alloc_bytes :: "template_def \<Rightarrow> u32 \<Rightarrow> u32" where
  "compute_alloc_bytes tmpl count = max (saturating_mul count (alloc_unit (td_constructor tmpl) 1)) 1"

definition flush_current :: "expr list \<Rightarrow> item list" where
  "flush_current current =
     (case current of
        [] \<Rightarrow> []
      | e # _ \<Rightarrow> [TopLevel current (mk_span (span_start (expr_span e)) (span_end (expr_span (last current))))])"

text \<open>The template at a position, the count before it and the new name after it.\<close>

fun template_at :: "(string \<rightharpoonup> template_def) \<Rightarrow> expr \<Rightarrow> template_def option" where
  "template_at templates (WordRef name sp) = templates (to_ascii_lowercase name)"
| "template_at templates e = None"

fun count_of :: "expr \<Rightarrow> u32 option" where
  "count_of (Lit (IntLit v sp)) = (if 0 \<le> sint v then Some (ucast v) else None)"
| "count_of e = None"

definition count_before :: "expr list \<Rightarrow> u32 option" where
  "count_before current = (case last_opt current of Some e \<Rightarrow> count_of e | None \<Rightarrow> None)"

fun name_after :: "expr list \<Rightarrow> (string \<times> span \<times> expr list) option" where
  "name_after (WordRef name sp # rest) = Some (name, sp, rest)"
| "name_after es = None"

lemma name_after_Some [simp]: "name_after es = Some (n, sp, rest) \<longleftrightarrow> es = WordRef n sp # rest"
  by (cases es rule: name_after.cases) auto

definition template_instance :: "template_def \<Rightarrow> u32 \<Rightarrow> expr \<Rightarrow> string \<Rightarrow> span \<Rightarrow> item" where
  "template_instance tmpl count count_expr newname newname_span =
     TemplateInstance \<lparr>ti_name = newname, ti_name_span = newname_span, ti_template_name = td_name tmpl,
       ti_allocated_bytes = compute_alloc_bytes tmpl count, ti_does_body = td_does_body tmpl,
       ti_span = mk_span (span_start (expr_span count_expr)) (span_end newname_span)\<rparr>"

text \<open>\<open>current\<close> holds the expressions read since the last instance.\<close>

function expand_toplevel :: "(string \<rightharpoonup> template_def) \<Rightarrow> expr list \<Rightarrow> expr list \<Rightarrow> item list" where
  "expand_toplevel templates [] current = flush_current current"
| "expand_toplevel templates (e # es) current =
     (case (template_at templates e, count_before current, name_after es) of
        (Some tmpl, Some count, Some (newname, newname_span, rest)) \<Rightarrow>
          flush_current (butlast current)
          @ [template_instance tmpl count (last current) newname newname_span]
          @ expand_toplevel templates rest []
      | _ \<Rightarrow> expand_toplevel templates es (current @ [e]))"
  by pat_completeness auto
termination
  by (relation "measure (\<lambda>(t, es, c). length es)") (auto simp: eq_commute [of "Some _" "name_after _"])

fun expand_items :: "(string \<rightharpoonup> template_def) \<Rightarrow> program \<Rightarrow> program" where
  "expand_items templates [] = []"
| "expand_items templates (TopLevel exprs sp # its) = expand_toplevel templates exprs [] @ expand_items templates its"
| "expand_items templates (it # its) = it # expand_items templates its"

text \<open>
  Templates by lower-case name: an association list in which the newest entry of a name comes first, so
  that emptiness can be tested.
\<close>

type_synonym template_table = "(string \<times> template_def) list"

fun collect_templates :: "program \<Rightarrow> template_table \<Rightarrow> template_table" where
  "collect_templates [] m = m"
| "collect_templates (Template t # its) m = collect_templates its ((to_ascii_lowercase (td_name t), t) # m)"
| "collect_templates (it # its) m = collect_templates its m"

definition expand_templates_pre_resolve_with_prior :: "program \<Rightarrow> template_table \<Rightarrow> program" where
  "expand_templates_pre_resolve_with_prior prog prior_templates =
     (let templates = collect_templates prog prior_templates in
      if templates = [] then prog else expand_items (map_of templates) prog)"

definition expand_templates_pre_resolve :: "program \<Rightarrow> program" where
  "expand_templates_pre_resolve prog = expand_templates_pre_resolve_with_prior prog []"

section \<open>Call graph and use sites\<close>

type_synonym ref_graph = "(string \<rightharpoonup> string set) \<times> (string \<rightharpoonup> span list)"

definition add_use :: "string \<Rightarrow> span \<Rightarrow> (string \<rightharpoonup> span list) \<Rightarrow> string \<rightharpoonup> span list" where
  "add_use lc sp sites = sites(lc \<mapsto> (case sites lc of None \<Rightarrow> [] | Some sps \<Rightarrow> sps) @ [sp])"

definition add_edge :: "string option \<Rightarrow> string \<Rightarrow> (string \<rightharpoonup> string set) \<Rightarrow> string \<rightharpoonup> string set" where
  "add_edge caller lc graph =
     (case caller of
        None \<Rightarrow> graph
      | Some c \<Rightarrow> graph(c \<mapsto> insert lc (case graph c of None \<Rightarrow> {} | Some callees \<Rightarrow> callees)))"

definition note_ref :: "string option \<Rightarrow> string \<Rightarrow> span \<Rightarrow> ref_graph \<Rightarrow> ref_graph" where
  "note_ref caller name sp g =
     (let lc = to_ascii_lowercase name in (add_edge caller lc (fst g), add_use lc sp (snd g)))"

fun walk_body_for_refs :: "string option \<Rightarrow> expr list \<Rightarrow> ref_graph \<Rightarrow> ref_graph"
  and walk_refs_opt :: "string option \<Rightarrow> expr list option \<Rightarrow> ref_graph \<Rightarrow> ref_graph"
  and walk_refs_expr :: "string option \<Rightarrow> expr \<Rightarrow> ref_graph \<Rightarrow> ref_graph"
  and walk_refs_arms :: "string option \<Rightarrow> case_arm list \<Rightarrow> ref_graph \<Rightarrow> ref_graph" where
  "walk_body_for_refs caller [] g = g"
| "walk_body_for_refs caller (e # es) g = walk_body_for_refs caller es (walk_refs_expr caller e g)"
| "walk_refs_opt caller None g = g"
| "walk_refs_opt caller (Some es) g = walk_body_for_refs caller es g"
| "walk_refs_expr caller (WordRef name sp) g = note_ref caller name sp g"
| "walk_refs_expr caller (Tick name sp) g = note_ref caller name sp g"
| "walk_refs_expr caller (To name sp) g = note_ref caller name sp g"
| "walk_refs_expr caller (See name sp) g = (fst g, add_use (to_ascii_lowercase name) sp (snd g))"
| "walk_refs_expr caller (If t eb sp) g = walk_refs_opt caller eb (walk_body_for_refs caller t g)"
| "walk_refs_expr caller (BeginUntil b sp) g = walk_body_for_refs caller b g"
| "walk_refs_expr caller (BeginAgain b sp) g = walk_body_for_refs caller b g"
| "walk_refs_expr caller (DoLoop q b k sp) g = walk_body_for_refs caller b g"
| "walk_refs_expr caller (BeginWhileRepeat p b sp) g = walk_body_for_refs caller b (walk_body_for_refs caller p g)"
| "walk_refs_expr caller (Case arms d sp) g = walk_refs_opt caller d (walk_refs_arms caller arms g)"
| "walk_refs_expr caller e g = g"
| "walk_refs_arms caller [] g = g"
| "walk_refs_arms caller (CaseArm mt b sp # arms) g =
     walk_refs_arms caller arms (walk_body_for_refs caller b (walk_body_for_refs caller mt g))"

fun call_graph_item :: "item \<Rightarrow> ref_graph \<Rightarrow> ref_graph" where
  "call_graph_item (Definition d) g = walk_body_for_refs (Some (to_ascii_lowercase (cd_name d))) (cd_body d) g"
| "call_graph_item (TopLevel es sp) g = walk_body_for_refs None es g"
| "call_graph_item (Constant c) g =
     (case con_value c of ConstComputed es \<Rightarrow> walk_body_for_refs None es g | _ \<Rightarrow> g)"
| "call_graph_item (Value v) g = walk_body_for_refs None (val_initial v) g"
| "call_graph_item (Template t) g =
     (let lc = Some (to_ascii_lowercase (td_name t)) in
      walk_body_for_refs lc (td_does_body t) (walk_body_for_refs lc (td_constructor t) g))"
| "call_graph_item (TemplateInstance t) g = walk_body_for_refs (Some (to_ascii_lowercase (ti_name t))) (ti_does_body t) g"
| "call_graph_item (Method m) g = walk_body_for_refs (Some (to_ascii_lowercase (md_generic_name m))) (md_body m) g"
| "call_graph_item it g = g"

definition analyse_call_graph :: "sema \<Rightarrow> sema" where
  "analyse_call_graph sm =
     (let g = fold call_graph_item (sm_program sm) (sm_call_graph sm, sm_use_sites sm)
      in sm\<lparr>sm_call_graph := fst g, sm_use_sites := snd g\<rparr>)"

section \<open>Escape analysis\<close>

type_synonym escape_map = "string \<rightharpoonup> escape_state"

definition narrow_sinks :: "string list" where
  "narrow_sinks = [''@'', ''!'', ''+!'', ''c@'', ''c!'']"

fun followed_by_sink :: "expr list \<Rightarrow> bool" where
  "followed_by_sink (WordRef next sp # es) \<longleftrightarrow> to_ascii_lowercase next \<in> set narrow_sinks"
| "followed_by_sink es \<longleftrightarrow> False"

text \<open>Only the first escaping reference of a variable is recorded.\<close>

definition record_escape :: "string \<Rightarrow> span \<Rightarrow> escape_map \<Rightarrow> escape_map" where
  "record_escape lc sp esc =
     (case esc lc of Some (Wide _ _) \<Rightarrow> esc | _ \<Rightarrow> esc(lc \<mapsto> Wide UnknownSink sp))"

definition check_escape :: "string set \<Rightarrow> expr \<Rightarrow> expr list \<Rightarrow> escape_map \<Rightarrow> escape_map" where
  "check_escape vars e rest esc =
     (case e of
        WordRef name sp \<Rightarrow>
          (let lc = to_ascii_lowercase name in
           if lc \<in> vars \<and> \<not> followed_by_sink rest then record_escape lc sp esc else esc)
      | _ \<Rightarrow> esc)"

fun walk_block_for_escape :: "string set \<Rightarrow> expr list \<Rightarrow> escape_map \<Rightarrow> escape_map"
  and walk_escape_opt :: "string set \<Rightarrow> expr list option \<Rightarrow> escape_map \<Rightarrow> escape_map"
  and walk_escape_expr :: "string set \<Rightarrow> expr \<Rightarrow> escape_map \<Rightarrow> escape_map"
  and walk_escape_arms :: "string set \<Rightarrow> case_arm list \<Rightarrow> escape_map \<Rightarrow> escape_map" where
  "walk_block_for_escape vars [] esc = esc"
| "walk_block_for_escape vars (e # es) esc =
     walk_block_for_escape vars es (check_escape vars e es (walk_escape_expr vars e esc))"
| "walk_escape_opt vars None esc = esc"
| "walk_escape_opt vars (Some es) esc = walk_block_for_escape vars es esc"
| "walk_escape_expr vars (If t eb sp) esc = walk_escape_opt vars eb (walk_block_for_escape vars t esc)"
| "walk_escape_expr vars (BeginUntil b sp) esc = walk_block_for_escape vars b esc"
| "walk_escape_expr vars (BeginAgain b sp) esc = walk_block_for_escape vars b esc"
| "walk_escape_expr vars (DoLoop q b k sp) esc = walk_block_for_escape vars b esc"
| "walk_escape_expr vars (BeginWhileRepeat p b sp) esc = walk_block_for_escape vars b (walk_block_for_escape vars p esc)"
| "walk_escape_expr vars (Case arms d sp) esc = walk_escape_opt vars d (walk_escape_arms vars arms esc)"
| "walk_escape_expr vars e esc = esc"
| "walk_escape_arms vars [] esc = esc"
| "walk_escape_arms vars (CaseArm mt b sp # arms) esc =
     walk_escape_arms vars arms (walk_block_for_escape vars b (walk_block_for_escape vars mt esc))"

fun escape_item :: "string set \<Rightarrow> item \<Rightarrow> escape_map \<Rightarrow> escape_map" where
  "escape_item vars (Definition d) esc = walk_block_for_escape vars (cd_body d) esc"
| "escape_item vars (TopLevel es sp) esc = walk_block_for_escape vars es esc"
| "escape_item vars (Constant c) esc =
     (case con_value c of ConstComputed es \<Rightarrow> walk_block_for_escape vars es esc | _ \<Rightarrow> esc)"
| "escape_item vars (Value v) esc = walk_block_for_escape vars (val_initial v) esc"
| "escape_item vars (Template t) esc =
     walk_block_for_escape vars (td_does_body t) (walk_block_for_escape vars (td_constructor t) esc)"
| "escape_item vars (TemplateInstance t) esc = walk_block_for_escape vars (ti_does_body t) esc"
| "escape_item vars (Method m) esc = walk_block_for_escape vars (md_body m) esc"
| "escape_item vars it esc = esc"

fun variable_names :: "program \<Rightarrow> string list" where
  "variable_names [] = []"
| "variable_names (Variable v # its) = to_ascii_lowercase (vd_name v) # variable_names its"
| "variable_names (it # its) = variable_names its"

definition analyse_escape :: "sema \<Rightarrow> sema" where
  "analyse_escape sm =
     (let vars = variable_names (sm_program sm) in
      if vars = [] then sm
      else sm\<lparr>sm_escape := fold (escape_item (set vars)) (sm_program sm)
                (fold (\<lambda>n esc. esc(n \<mapsto> Narrow)) vars (sm_escape sm))\<rparr>)"

section \<open>Building the model\<close>

definition slots_of_class :: "class_slots_map \<Rightarrow> class_def \<Rightarrow> string list" where
  "slots_of_class cs c = (case cs (to_ascii_lowercase (cl_name c)) of None \<Rightarrow> [] | Some slots \<Rightarrow> slots)"

fun seed_slot_effects :: "string \<Rightarrow> string list \<Rightarrow> (string \<rightharpoonup> effect) \<Rightarrow> string \<rightharpoonup> effect" where
  "seed_slot_effects class_lc [] m = m"
| "seed_slot_effects class_lc (s # ss) m =
     seed_slot_effects class_lc ss
       (m(class_lc @ ''>'' @ s \<mapsto> Known 1 1, s @ ''>>'' @ class_lc \<mapsto> Known 2 1, class_lc @ ''.'' @ s @ ''!'' \<mapsto> Known 2 0))"

fun seed_class_effects :: "class_slots_map \<Rightarrow> item \<Rightarrow> (string \<rightharpoonup> effect) \<Rightarrow> string \<rightharpoonup> effect" where
  "seed_class_effects cs (Class c) m =
     (let class_lc = to_ascii_lowercase (cl_name c); all_slots = slots_of_class cs c in
      seed_slot_effects class_lc all_slots (m(''<'' @ class_lc @ ''>'' \<mapsto> Known (of_nat (length all_slots)) 1)))"
| "seed_class_effects cs it m = m"

definition mk_user_word :: "string \<Rightarrow> span \<Rightarrow> (u32 \<times> u32) option \<Rightarrow> user_word" where
  "mk_user_word name sp eff =
     \<lparr>uw_name = name, uw_def_span = sp, uw_declared_inputs = map_option fst eff, uw_declared_outputs = map_option snd eff\<rparr>"

definition declared_counts :: "stack_effect \<Rightarrow> u32 \<times> u32" where
  "declared_counts se = (of_nat (length (se_inputs se)), of_nat (length (se_outputs se)))"

fun user_word_of :: "item \<Rightarrow> user_word option" where
  "user_word_of (Definition d) = Some (mk_user_word (cd_name d) (cd_name_span d) (map_option declared_counts (cd_effect d)))"
| "user_word_of (Variable v) = Some (mk_user_word (vd_name v) (vd_name_span v) None)"
| "user_word_of (Constant c) = Some (mk_user_word (con_name c) (con_name_span c) None)"
| "user_word_of (Create c) = Some (mk_user_word (cr_name c) (cr_name_span c) None)"
| "user_word_of (Collection c) = Some (mk_user_word (col_name c) (col_name_span c) None)"
| "user_word_of (Template t) = Some (mk_user_word (td_name t) (td_name_span t) None)"
| "user_word_of (TemplateInstance t) = Some (mk_user_word (ti_name t) (ti_name_span t) None)"
| "user_word_of (Value v) = Some (mk_user_word (val_name v) (val_name_span v) (Some (0, 1)))"
| "user_word_of (Class c) = Some (mk_user_word (cl_name c) (cl_name_span c) (Some (0, 0)))"
| "user_word_of (Generic g) = Some (mk_user_word (gd_name g) (gd_name_span g) (Some (declared_counts (gd_effect g))))"
| "user_word_of it = None"

definition lift_user_word :: "item \<Rightarrow> (string \<rightharpoonup> user_word) \<Rightarrow> string \<rightharpoonup> user_word" where
  "lift_user_word it m = (case user_word_of it of None \<Rightarrow> m | Some uw \<Rightarrow> m(to_ascii_lowercase (uw_name uw) \<mapsto> uw))"

definition or_insert :: "string \<Rightarrow> 'v \<Rightarrow> (string \<rightharpoonup> 'v) \<Rightarrow> string \<rightharpoonup> 'v" where
  "or_insert k v m = (if m k = None then m(k \<mapsto> v) else m)"

fun register_slot_words :: "class_def \<Rightarrow> string list \<Rightarrow> (string \<rightharpoonup> user_word) \<Rightarrow> string \<rightharpoonup> user_word" where
  "register_slot_words c [] m = m"
| "register_slot_words c (s # ss) m =
     (let lc = to_ascii_lowercase (cl_name c); sp = cl_name_span c in
      register_slot_words c ss
        (or_insert (lc @ ''.'' @ s @ ''!'') (mk_user_word (cl_name c @ ''.'' @ s @ ''!'') sp (Some (2, 0)))
        (or_insert (s @ ''>>'' @ lc) (mk_user_word (s @ ''>>'' @ cl_name c) sp (Some (2, 1)))
        (or_insert (lc @ ''>'' @ s) (mk_user_word (cl_name c @ ''>'' @ s) sp (Some (1, 1))) m))))"

fun register_class_words :: "class_slots_map \<Rightarrow> item \<Rightarrow> (string \<rightharpoonup> user_word) \<Rightarrow> string \<rightharpoonup> user_word" where
  "register_class_words cs (Class c) m =
     (let lc = to_ascii_lowercase (cl_name c); sp = cl_name_span c; all_slots = slots_of_class cs c in
      register_slot_words c all_slots
        (or_insert (lc @ ''?'') (mk_user_word (cl_name c @ ''?'') sp (Some (1, 1)))
        (or_insert (''<'' @ lc @ ''>'')
          (mk_user_word (''<'' @ cl_name c @ ''>'') sp (Some (of_nat (length all_slots), 1))) m)))"
| "register_class_words cs it m = m"

fun lower_exit_item :: "word_targets \<Rightarrow> item \<Rightarrow> item" where
  "lower_exit_item r (Definition d) = Definition (d\<lparr>cd_body := lower_body r (cd_body d)\<rparr>)"
| "lower_exit_item r it = it"

fun collect_tables :: "item \<Rightarrow> sema \<Rightarrow> sema" where
  "collect_tables (Variable v) sm = sm\<lparr>sm_variables := (sm_variables sm)(to_ascii_lowercase (vd_name v) \<mapsto> v)\<rparr>"
| "collect_tables (Constant c) sm = sm\<lparr>sm_constants := (sm_constants sm)(to_ascii_lowercase (con_name c) \<mapsto> c)\<rparr>"
| "collect_tables (Create c) sm = sm\<lparr>sm_creates := (sm_creates sm)(to_ascii_lowercase (cr_name c) \<mapsto> c)\<rparr>"
| "collect_tables (Collection c) sm = sm\<lparr>sm_collections := (sm_collections sm)(to_ascii_lowercase (col_name c) \<mapsto> c)\<rparr>"
| "collect_tables (Template t) sm = sm\<lparr>sm_templates := (sm_templates sm)(to_ascii_lowercase (td_name t) \<mapsto> t)\<rparr>"
| "collect_tables (Value v) sm = sm\<lparr>sm_values := (sm_values sm)(to_ascii_lowercase (val_name v) \<mapsto> v)\<rparr>"
| "collect_tables it sm = sm"

text \<open>The model after resolution, on the program whose bodies no longer hold EXIT outside loops.\<close>

definition finish_sema :: "resolved \<Rightarrow> class_slots_map \<Rightarrow> (string \<rightharpoonup> effect) \<Rightarrow> sema" where
  "finish_sema rs0 class_slots prior_effects =
     (let rs = rs0\<lparr>rs_program := map (lower_exit_item (rs_word_targets rs0)) (rs_program rs0)\<rparr>;
          (found, diagnostics) = infer_with_prior rs prior_effects;
          its = rs_program rs;
          sm = \<lparr>sm_program = its, sm_word_targets = rs_word_targets rs,
                sm_user_words = fold (register_class_words class_slots) its (fold lift_user_word its Map.empty),
                sm_variables = Map.empty, sm_constants = Map.empty, sm_creates = Map.empty, sm_collections = Map.empty,
                sm_templates = Map.empty, sm_values = Map.empty, sm_class_slots = class_slots,
                sm_user_effects = fold (seed_class_effects class_slots) its (inf_user_effects found),
                sm_body_effects = inf_body_effects found, sm_effect_errors = diagnostics,
                sm_call_graph = Map.empty, sm_use_sites = Map.empty, sm_escape = Map.empty, sm_docs = Map.empty\<rparr>
      in analyse_escape (analyse_call_graph (fold collect_tables its sm)))"

text \<open>\<open>c\<close> is the counter for fresh spans when the build starts.\<close>

definition build_with_prior_state ::
  "u32 \<Rightarrow> program \<Rightarrow> (string \<rightharpoonup> span) \<Rightarrow> (string \<rightharpoonup> effect) \<Rightarrow> template_table \<Rightarrow> (string \<rightharpoonup> span) \<Rightarrow> class_slots_map
   \<Rightarrow> (resolve_error, sema) outcome" where
  "build_with_prior_state c prog0 prior_user_words prior_effects prior_templates prior_values prior_classes =
     (let prog1 = expand_templates_pre_resolve_with_prior prog0 prior_templates;
          prog2 = fst (qdup_program c prog1);
          (prog3, missing) = recurse_program prog2
      in case missing of
           m # _ \<Rightarrow> Err (RecurseNeedsEffect (mre_word_name m) (mre_at m))
         | [] \<Rightarrow>
             (let class_slots = compute_class_slots prog3 prior_classes in
              and_then (resolve_with_prior_and_values_and_classes prog3 prior_user_words prior_values class_slots)
                (\<lambda>rs. Ok (finish_sema rs class_slots prior_effects))))"

definition build_with_prior_and_templates ::
  "u32 \<Rightarrow> program \<Rightarrow> (string \<rightharpoonup> span) \<Rightarrow> (string \<rightharpoonup> effect) \<Rightarrow> template_table \<Rightarrow> (resolve_error, sema) outcome" where
  "build_with_prior_and_templates c prog prior_user_words prior_effects prior_templates =
     build_with_prior_state c prog prior_user_words prior_effects prior_templates Map.empty Map.empty"

definition build_with_prior ::
  "u32 \<Rightarrow> program \<Rightarrow> (string \<rightharpoonup> span) \<Rightarrow> (string \<rightharpoonup> effect) \<Rightarrow> (resolve_error, sema) outcome" where
  "build_with_prior c prog prior_user_words prior_effects =
     build_with_prior_and_templates c prog prior_user_words prior_effects []"

definition build :: "u32 \<Rightarrow> program \<Rightarrow> (resolve_error, sema) outcome" where
  "build c prog = build_with_prior c prog Map.empty Map.empty"

end
