(* ===== verification/Sema_Correct.thy ===== *)
theory Sema_Correct
  imports Sema Resolver_Correct
begin

text \<open>
  Correctness of the semantic model: what the escape analysis and the call graph record, the
  expansion of templates, and that the composed lowering passes keep the meaning of definitions.
\<close>

section \<open>Escape analysis\<close>

text \<open>References to a name that are not directly followed by a fetch or store, in walking order.\<close>

definition escape_here :: "expr \<Rightarrow> expr list \<Rightarrow> (string \<times> span) list" where
  "escape_here e rest =
     (case e of WordRef name sp \<Rightarrow> if followed_by_sink rest then [] else [(to_ascii_lowercase name, sp)] | _ \<Rightarrow> [])"

fun escapes :: "expr list \<Rightarrow> (string \<times> span) list"
  and escapes_opt :: "expr list option \<Rightarrow> (string \<times> span) list"
  and escapes_expr :: "expr \<Rightarrow> (string \<times> span) list"
  and escapes_arms :: "case_arm list \<Rightarrow> (string \<times> span) list" where
  "escapes [] = []"
| "escapes (e # es) = escapes_expr e @ escape_here e es @ escapes es"
| "escapes_opt None = []"
| "escapes_opt (Some es) = escapes es"
| "escapes_expr (If t eb sp) = escapes t @ escapes_opt eb"
| "escapes_expr (BeginUntil b sp) = escapes b"
| "escapes_expr (BeginAgain b sp) = escapes b"
| "escapes_expr (BeginWhileRepeat p b sp) = escapes p @ escapes b"
| "escapes_expr (DoLoop q b k sp) = escapes b"
| "escapes_expr (Case arms d sp) = escapes_arms arms @ escapes_opt d"
| "escapes_expr e = []"
| "escapes_arms [] = []"
| "escapes_arms (CaseArm mt b sp # arms) = escapes mt @ escapes b @ escapes_arms arms"

fun item_escapes :: "item \<Rightarrow> (string \<times> span) list" where
  "item_escapes (Definition d) = escapes (cd_body d)"
| "item_escapes (TopLevel es sp) = escapes es"
| "item_escapes (Constant c) = (case con_value c of ConstComputed es \<Rightarrow> escapes es | _ \<Rightarrow> [])"
| "item_escapes (Value v) = escapes (val_initial v)"
| "item_escapes (Template t) = escapes (td_constructor t) @ escapes (td_does_body t)"
| "item_escapes (TemplateInstance t) = escapes (ti_does_body t)"
| "item_escapes (Method m) = escapes (md_body m)"
| "item_escapes it = []"

definition note_escape :: "string set \<Rightarrow> string \<times> span \<Rightarrow> escape_map \<Rightarrow> escape_map" where
  "note_escape vars p esc = (if fst p \<in> vars then record_escape (fst p) (snd p) esc else esc)"

lemma check_escape_fold: "check_escape vars e rest esc = fold (note_escape vars) (escape_here e rest) esc"
  by (auto simp: check_escape_def escape_here_def note_escape_def Let_def split: expr.split)

lemma walk_escape_fold:
  "walk_block_for_escape vars es esc = fold (note_escape vars) (escapes es) esc"
  "walk_escape_opt vars d esc = fold (note_escape vars) (escapes_opt d) esc"
  "walk_escape_expr vars e esc = fold (note_escape vars) (escapes_expr e) esc"
  "walk_escape_arms vars arms esc = fold (note_escape vars) (escapes_arms arms) esc"
  by (induction es and d and e and arms arbitrary: esc and esc and esc and esc rule: expr_induct)
    (simp_all add: check_escape_fold)

lemma escape_item_fold: "escape_item vars it esc = fold (note_escape vars) (item_escapes it) esc"
  by (cases it) (simp_all add: walk_escape_fold split: const_value.split)

lemma fold_escape_item:
  "fold (escape_item vars) its esc = fold (note_escape vars) (concat (map item_escapes its)) esc"
  by (induction its arbitrary: esc) (simp_all add: escape_item_fold)

lemma fold_note_escape:
  "fold (note_escape vars) ps esc n =
     (case esc n of
        Some (Wide r sp) \<Rightarrow> Some (Wide r sp)
      | st \<Rightarrow> (case map_of ps n of
                 None \<Rightarrow> st
               | Some sp \<Rightarrow> if n \<in> vars then Some (Wide UnknownSink sp) else st))"
  by (induction ps arbitrary: esc)
    (auto simp: note_escape_def record_escape_def split: option.splits escape_state.splits)

lemma fold_narrow: "fold (\<lambda>n esc. esc(n \<mapsto> Narrow)) vars esc n = (if n \<in> set vars then Some Narrow else esc n)"
  by (induction vars arbitrary: esc) auto

text \<open>
  C35. Escape analysis: a variable is narrow exactly when every word reference to it, in any body of the
  program and at any depth, is directly followed by one of @ ! +! c@ c!; otherwise it is wide at its
  first other reference. Names that are not variables have no entry.
\<close>

theorem escape_state_spec:
  "sm_escape (analyse_escape (sm\<lparr>sm_escape := Map.empty\<rparr>)) =
     (\<lambda>n. if n \<in> set (variable_names (sm_program sm))
          then Some (case map_of (concat (map item_escapes (sm_program sm))) n of
                       None \<Rightarrow> Narrow | Some sp \<Rightarrow> Wide UnknownSink sp)
          else None)"
  by (auto simp: fun_eq_iff analyse_escape_def Let_def fold_escape_item fold_note_escape fold_narrow split: option.split)

text \<open>
  The analysis looks at word references only: \<^verbatim>\<open>' v\<close>, whose execution yields the address of \<open>v\<close> to
  arbitrary code, leaves the variable narrow.
\<close>

theorem tick_leaves_narrow:
  "sm_escape (analyse_escape (sm\<lparr>sm_escape := Map.empty,
       sm_program := [Variable \<lparr>vd_name = ''v'', vd_name_span = sp, vd_span = sp\<rparr>,
                      TopLevel [Tick ''v'' sp, WordRef ''execute'' sp, WordRef ''dup'' sp] sp]\<rparr>)) ''v'' = Some Narrow"
proof -
  have "to_ascii_lowercase ''v'' = ''v''" "to_ascii_lowercase ''execute'' = ''execute''" "to_ascii_lowercase ''dup'' = ''dup''"
    by code_simp+
  then show ?thesis by (simp add: analyse_escape_def check_escape_def)
qed

section \<open>Call graph and use sites\<close>

text \<open>Every name a body mentions, with its span and whether the mention is a call.\<close>

fun mentions :: "expr list \<Rightarrow> (bool \<times> string \<times> span) list"
  and mentions_opt :: "expr list option \<Rightarrow> (bool \<times> string \<times> span) list"
  and mentions_expr :: "expr \<Rightarrow> (bool \<times> string \<times> span) list"
  and mentions_arms :: "case_arm list \<Rightarrow> (bool \<times> string \<times> span) list" where
  "mentions [] = []"
| "mentions (e # es) = mentions_expr e @ mentions es"
| "mentions_opt None = []"
| "mentions_opt (Some es) = mentions es"
| "mentions_expr (WordRef w sp) = [(True, to_ascii_lowercase w, sp)]"
| "mentions_expr (Tick w sp) = [(True, to_ascii_lowercase w, sp)]"
| "mentions_expr (To w sp) = [(True, to_ascii_lowercase w, sp)]"
| "mentions_expr (See w sp) = [(False, to_ascii_lowercase w, sp)]"
| "mentions_expr (If t eb sp) = mentions t @ mentions_opt eb"
| "mentions_expr (BeginUntil b sp) = mentions b"
| "mentions_expr (BeginAgain b sp) = mentions b"
| "mentions_expr (BeginWhileRepeat p b sp) = mentions p @ mentions b"
| "mentions_expr (DoLoop q b k sp) = mentions b"
| "mentions_expr (Case arms d sp) = mentions_arms arms @ mentions_opt d"
| "mentions_expr e = []"
| "mentions_arms [] = []"
| "mentions_arms (CaseArm mt b sp # arms) = mentions mt @ mentions b @ mentions_arms arms"

fun item_mentions :: "item \<Rightarrow> (string option \<times> bool \<times> string \<times> span) list" where
  "item_mentions (Definition d) = map (Pair (Some (to_ascii_lowercase (cd_name d)))) (mentions (cd_body d))"
| "item_mentions (TopLevel es sp) = map (Pair None) (mentions es)"
| "item_mentions (Constant c) = (case con_value c of ConstComputed es \<Rightarrow> map (Pair None) (mentions es) | _ \<Rightarrow> [])"
| "item_mentions (Value v) = map (Pair None) (mentions (val_initial v))"
| "item_mentions (Template t) =
     map (Pair (Some (to_ascii_lowercase (td_name t)))) (mentions (td_constructor t) @ mentions (td_does_body t))"
| "item_mentions (TemplateInstance t) = map (Pair (Some (to_ascii_lowercase (ti_name t)))) (mentions (ti_does_body t))"
| "item_mentions (Method m) = map (Pair (Some (to_ascii_lowercase (md_generic_name m)))) (mentions (md_body m))"
| "item_mentions it = []"

definition note_mention :: "string option \<times> bool \<times> string \<times> span \<Rightarrow> ref_graph \<Rightarrow> ref_graph" where
  "note_mention m g =
     (case m of (caller, call, lc, sp) \<Rightarrow> (if call then add_edge caller lc (fst g) else fst g, add_use lc sp (snd g)))"

lemma walk_refs_fold:
  "walk_body_for_refs caller es g = fold note_mention (map (Pair caller) (mentions es)) g"
  "walk_refs_opt caller d g = fold note_mention (map (Pair caller) (mentions_opt d)) g"
  "walk_refs_expr caller e g = fold note_mention (map (Pair caller) (mentions_expr e)) g"
  "walk_refs_arms caller arms g = fold note_mention (map (Pair caller) (mentions_arms arms)) g"
  by (induction es and d and e and arms arbitrary: g and g and g and g rule: expr_induct)
    (simp_all add: note_mention_def note_ref_def Let_def)

lemma call_graph_item_fold: "call_graph_item it g = fold note_mention (item_mentions it) g"
  by (cases it) (simp_all add: walk_refs_fold Let_def split: const_value.split)

lemma fold_call_graph_item: "fold call_graph_item its g = fold note_mention (concat (map item_mentions its)) g"
  by (induction its arbitrary: g) (simp_all add: call_graph_item_fold)

definition spans_of :: "string \<Rightarrow> (string option \<times> bool \<times> string \<times> span) list \<Rightarrow> span list" where
  "spans_of n ms = map (\<lambda>(caller, call, lc, sp). sp) (filter (\<lambda>(caller, call, lc, sp). lc = n) ms)"

definition callees_of :: "string \<Rightarrow> (string option \<times> bool \<times> string \<times> span) list \<Rightarrow> string list" where
  "callees_of c ms = map (\<lambda>(caller, call, lc, sp). lc) (filter (\<lambda>(caller, call, lc, sp). caller = Some c \<and> call) ms)"

lemma fold_note_sites:
  "snd (fold note_mention ms g) n =
     (if spans_of n ms = [] then snd g n else Some ((case snd g n of None \<Rightarrow> [] | Some sps \<Rightarrow> sps) @ spans_of n ms))"
  by (induction ms arbitrary: g) (auto simp: note_mention_def add_use_def spans_of_def)

lemma fold_note_calls:
  "fst (fold note_mention ms g) c =
     (if callees_of c ms = [] then fst g c
      else Some ((case fst g c of None \<Rightarrow> {} | Some ns \<Rightarrow> ns) \<union> set (callees_of c ms)))"
proof (induction ms arbitrary: g)
  case (Cons m ms)
  obtain caller call lc sp where m: "m = (caller, call, lc, sp)" by (cases m)
  have step: "fst (note_mention m g) c =
      (if caller = Some c \<and> call then Some (insert lc (case fst g c of None \<Rightarrow> {} | Some ns \<Rightarrow> ns)) else fst g c)"
    by (auto simp: m note_mention_def add_edge_def split: option.split)
  have "callees_of c (m # ms) = (if caller = Some c \<and> call then lc # callees_of c ms else callees_of c ms)"
    by (simp add: m callees_of_def)
  with step show ?case by (auto simp: Cons.IH)
qed (simp add: callees_of_def)

text \<open>
  The call graph and the use sites are complete and exact: the use sites of a name are the spans of all
  its mentions in the bodies of the program (references, ticks, TO and SEE), in source order, and the
  callees of a definition, template, template instance or generic are the names its bodies mention
  otherwise than by SEE. A name without mentions has no entry.
\<close>

theorem call_graph_spec:
  "sm_use_sites (analyse_call_graph (sm\<lparr>sm_call_graph := Map.empty, sm_use_sites := Map.empty\<rparr>)) n =
     (let sps = spans_of n (concat (map item_mentions (sm_program sm))) in if sps = [] then None else Some sps)
   \<and> sm_call_graph (analyse_call_graph (sm\<lparr>sm_call_graph := Map.empty, sm_use_sites := Map.empty\<rparr>)) n =
     (let ns = callees_of n (concat (map item_mentions (sm_program sm))) in if ns = [] then None else Some (set ns))"
  by (simp add: analyse_call_graph_def Let_def fold_call_graph_item fold_note_sites fold_note_calls)

section \<open>Templates\<close>

definition plain :: "(string \<rightharpoonup> template_def) \<Rightarrow> expr list \<Rightarrow> bool" where
  "plain templates es = list_all (\<lambda>e. template_at templates e = None) es"

lemma expand_plain:
  "plain templates es \<Longrightarrow> expand_toplevel templates (es @ rest) current = expand_toplevel templates rest (current @ es)"
  by (induction es arbitrary: current) (simp_all add: plain_def)

text \<open>
  Template instantiation: in a top-level run, a non-negative count, a template name and a new name after
  expressions that name no template become one template instance with the body of the template and the
  memory of the count; what is before it stays a top-level run, and the rest is expanded in the same
  way. A run that names no template stays whole.
\<close>

theorem expand_template_triple:
  assumes "plain templates before" "template_at templates e = Some tmpl" "0 \<le> sint v"
  shows "expand_toplevel templates (before @ [Lit (IntLit v sp), e, WordRef n nsp] @ rest) [] =
      flush_current before @ [template_instance tmpl (ucast v) (Lit (IntLit v sp)) n nsp]
        @ expand_toplevel templates rest []
    \<and> expand_toplevel templates before [] = flush_current before"
proof -
  have "expand_toplevel templates (before @ [Lit (IntLit v sp), e, WordRef n nsp] @ rest) []
      = expand_toplevel templates (e # WordRef n nsp # rest) (before @ [Lit (IntLit v sp)])"
    using expand_plain [OF assms(1), of "[Lit (IntLit v sp), e, WordRef n nsp] @ rest" "[]"] by simp
  also have "\<dots> = flush_current before @ [template_instance tmpl (ucast v) (Lit (IntLit v sp)) n nsp]
        @ expand_toplevel templates rest []"
    using assms(2,3) by (simp add: count_before_def)
  finally show ?thesis using expand_plain [OF assms(1), of "[]" "[]"] by simp
qed

definition buffer_template :: template_def where
  "buffer_template = \<lparr>td_name = ''buffer'', td_name_span = point START, td_effect = None,
     td_constructor = [WordRef ''CELLS'' (point START), WordRef ''allot'' (point START)], td_does_body = [],
     td_span = point START\<rparr>"

theorem expand_template_triple_witness:
  "expand_toplevel [''buffer'' \<mapsto> buffer_template]
      ([] @ [Lit (IntLit 4 (point START)), WordRef ''BUFFER'' (point START), WordRef ''b'' (point START)] @ []) [] =
      flush_current [] @ [template_instance buffer_template (ucast (4 :: i64)) (Lit (IntLit 4 (point START))) ''b'' (point START)]
        @ expand_toplevel [''buffer'' \<mapsto> buffer_template] [] []
    \<and> expand_toplevel [''buffer'' \<mapsto> buffer_template] [] [] = flush_current []"
proof (rule expand_template_triple)
  have "to_ascii_lowercase ''BUFFER'' = ''buffer''" by code_simp
  then show "template_at [''buffer'' \<mapsto> buffer_template] (WordRef ''BUFFER'' (point START)) = Some buffer_template" by simp
qed (simp_all add: plain_def)

text \<open>
  Template memory: an instance gets the count times the unit of its constructor, 1 or 8 bytes, but at
  least one byte, and the largest 32-bit number when the product is out of range.
\<close>

lemma alloc_unit_cases: "unit = 1 \<or> unit = 8 \<Longrightarrow> alloc_unit es unit = 1 \<or> alloc_unit es unit = 8"
  by (induction es unit rule: alloc_unit.induct) (auto simp: Let_def split: if_splits)

theorem alloc_bytes_bounds:
  "alloc_unit (td_constructor t) 1 \<in> {1, 8}
    \<and> unat (compute_alloc_bytes t count) = max 1 (min (unat count * unat (alloc_unit (td_constructor t) 1)) (2 ^ 32 - 1))"
proof -
  have "unat (max a 1) = max 1 (unat a)" for a :: u32 by (simp add: max_def word_le_nat_alt)
  then show ?thesis
    using alloc_unit_cases [of 1 "td_constructor t"] by (simp add: compute_alloc_bytes_def unat_saturating_mul)
qed

section \<open>The composed passes\<close>

text \<open>Bodies without CASE; the lowering passes keep this, and the locals that a body binds.\<close>

fun case_free :: "expr list \<Rightarrow> bool"
  and case_free_opt :: "expr list option \<Rightarrow> bool"
  and case_free_expr :: "expr \<Rightarrow> bool"
  and case_free_arms :: "case_arm list \<Rightarrow> bool" where
  "case_free [] = True"
| "case_free (e # es) = (case_free_expr e \<and> case_free es)"
| "case_free_opt None = True"
| "case_free_opt (Some es) = case_free es"
| "case_free_expr (If t eb sp) = (case_free t \<and> case_free_opt eb)"
| "case_free_expr (BeginUntil b sp) = case_free b"
| "case_free_expr (BeginAgain b sp) = case_free b"
| "case_free_expr (BeginWhileRepeat p b sp) = (case_free p \<and> case_free b)"
| "case_free_expr (DoLoop q b k sp) = case_free b"
| "case_free_expr (Case arms d sp) = False"
| "case_free_expr e = True"
| "case_free_arms [] = True"
| "case_free_arms (CaseArm mt b sp # arms) = (case_free mt \<and> case_free b \<and> case_free_arms arms)"

lemma case_free_exit:
  "case_free es \<Longrightarrow> exit_case_free r es"
  "case_free_opt d \<Longrightarrow> exit_case_free_opt r d"
  "case_free_expr e \<Longrightarrow> exit_case_free_expr r e"
  "case_free_arms arms \<Longrightarrow> True"
  by (induction es and d and e and arms rule: expr_induct) auto

lemma optional_body:
  "case_free (case d of None \<Rightarrow> [] | Some es \<Rightarrow> es) = case_free_opt d"
  "collect_body_locals (case d of None \<Rightarrow> [] | Some es \<Rightarrow> es) = collect_locals_opt d"
  by (cases d; simp)+

lemma qdup_word_locals: "is_qdup_word e \<Longrightarrow> collect_locals_expr e = {}"
  by (cases e) auto

lemma qdup_keeps:
  "case_free es \<Longrightarrow> case_free (fst (qdup_seq c es))"
  "case_free_opt d \<Longrightarrow> case_free_opt (fst (qdup_opt c d))"
  "case_free_expr e \<Longrightarrow> case_free_expr (fst (qdup_expr c e))"
  "case_free_arms arms \<Longrightarrow> case_free_arms (fst (qdup_arms c arms))"
  by (induction c es and c d and c e and c arms rule: qdup_induct) (auto simp: qdup_fst optional_body)

lemma qdup_locals:
  "collect_body_locals (fst (qdup_seq c es)) = collect_body_locals es"
  "collect_locals_opt (fst (qdup_opt c d)) = collect_locals_opt d"
  "collect_locals_expr (fst (qdup_expr c e)) = collect_locals_expr e"
  "collect_locals_arms (fst (qdup_arms c arms)) = collect_locals_arms arms"
  by (induction c es and c d and c e and c arms rule: qdup_induct)
    (simp_all add: qdup_fst optional_body qdup_word_locals)

lemma rewrite_keeps:
  "case_free es \<Longrightarrow> case_free (fst (rewrite_seq target es))"
  "case_free_opt d \<Longrightarrow> case_free_opt (fst (rewrite_opt target d))"
  "case_free_expr e \<Longrightarrow> case_free_expr (fst (rewrite_expr target e))"
  "case_free_arms arms \<Longrightarrow> case_free_arms (fst (rewrite_arms target arms))"
  by (induction es and d and e and arms rule: expr_induct) (auto simp: case_prod_beta Let_def)

lemma rewrite_locals:
  "collect_body_locals (fst (rewrite_seq target es)) = collect_body_locals es"
  "collect_locals_opt (fst (rewrite_opt target d)) = collect_locals_opt d"
  "collect_locals_expr (fst (rewrite_expr target e)) = collect_locals_expr e"
  "collect_locals_arms (fst (rewrite_arms target arms)) = collect_locals_arms arms"
  by (induction es and d and e and arms rule: expr_induct) (auto simp: case_prod_beta Let_def)

lemma word_refs_uses:
  "p \<in> set (word_refs es) \<Longrightarrow> Ref (fst p) (snd p) \<in> set (uses es)"
  "p \<in> set (word_refs_opt d) \<Longrightarrow> Ref (fst p) (snd p) \<in> set (uses_opt d)"
  "p \<in> set (word_refs_expr e) \<Longrightarrow> Ref (fst p) (snd p) \<in> set (uses_expr e)"
  "p \<in> set (word_refs_arms arms) \<Longrightarrow> Ref (fst p) (snd p) \<in> set (uses_arms arms)"
  by (induction es and d and e and arms rule: expr_induct) auto

text \<open>The program that the resolver sees.\<close>

definition lowered_program :: "u32 \<Rightarrow> program \<Rightarrow> template_table \<Rightarrow> program" where
  "lowered_program c prog prior_templates =
     fst (recurse_program (fst (qdup_program c (expand_templates_pre_resolve_with_prior prog prior_templates))))"

lemma expand_keeps_definitions:
  "Definition d \<in> set prog \<Longrightarrow> Definition d \<in> set (expand_templates_pre_resolve_with_prior prog pt)"
proof -
  have "Definition d \<in> set its \<Longrightarrow> Definition d \<in> set (expand_items ts its)" for ts its
    by (induction ts its rule: expand_items.induct) auto
  then show "Definition d \<in> set prog \<Longrightarrow> ?thesis" by (simp add: expand_templates_pre_resolve_with_prior_def Let_def)
qed

lemma qdup_program_definitions:
  "Definition d \<in> set its \<Longrightarrow> \<exists>c'. Definition (d\<lparr>cd_body := fst (qdup_seq c' (cd_body d))\<rparr>) \<in> set (fst (qdup_program c its))"
proof (induction its arbitrary: c)
  case (Cons it its)
  show ?case
  proof (cases "it = Definition d")
    case True
    then show ?thesis by (auto simp: case_prod_beta Let_def)
  next
    case False
    with Cons.prems have "Definition d \<in> set its" by simp
    from Cons.IH [OF this, of "snd (qdup_item c it)"] show ?thesis by (auto simp: case_prod_beta Let_def)
  qed
qed simp

lemma recurse_program_definitions:
  "Definition d \<in> set its \<Longrightarrow> Definition (fst (rewrite_def d)) \<in> set (fst (recurse_program its))"
proof (induction its)
  case (Cons it its)
  have "Definition d \<in> set its \<Longrightarrow> Definition (fst (rewrite_def d)) \<in> set (fst (recurse_program (it # its)))"
    using Cons.IH by (cases it) (auto simp: case_prod_beta Let_def)
  with Cons.prems show ?case by (auto simp: case_prod_beta Let_def)
qed simp

lemma lowered_definition:
  assumes "Definition d \<in> set prog"
  obtains c' where "Definition (d\<lparr>cd_body := fst (rewrite_seq (cd_name d) (fst (qdup_seq c' (cd_body d))))\<rparr>)
    \<in> set (lowered_program c prog pt)"
proof -
  obtain c' where "Definition (d\<lparr>cd_body := fst (qdup_seq c' (cd_body d))\<rparr>)
      \<in> set (fst (qdup_program c (expand_templates_pre_resolve_with_prior prog pt)))"
    using qdup_program_definitions [OF expand_keeps_definitions [OF assms]] by blast
  from recurse_program_definitions [OF this] that show ?thesis
    by (auto simp: lowered_program_def rewrite_def_def case_prod_beta Let_def)
qed

lemma collect_tables_keep [simp]:
  "sm_program (collect_tables it sm) = sm_program sm" "sm_word_targets (collect_tables it sm) = sm_word_targets sm"
  by (cases it; simp)+

lemma fold_collect_tables_keep [simp]:
  "sm_program (fold collect_tables its sm) = sm_program sm"
  "sm_word_targets (fold collect_tables its sm) = sm_word_targets sm"
  by (induction its arbitrary: sm) simp_all

lemma finish_sema_program:
  "sm_program (finish_sema rs cs pe) = map (lower_exit_item (rs_word_targets rs)) (rs_program rs)"
  "sm_word_targets (finish_sema rs cs pe) = rs_word_targets rs"
  by (simp_all add: finish_sema_def analyse_escape_def analyse_call_graph_def Let_def case_prod_beta)

lemma resolve_keeps_program:
  "resolve_with_prior_and_values_and_classes prog pw pv cs = Ok rs \<Longrightarrow> rs_program rs = prog"
  by (auto simp: resolve_flat_program)

lemma build_Ok:
  assumes "build_with_prior_state c prog pw pe pt pv pc = Ok sm"
  obtains rs cs where "cs = compute_class_slots (lowered_program c prog pt) pc"
    "resolve_with_prior_and_values_and_classes (lowered_program c prog pt) pw pv cs = Ok rs"
    "sm = finish_sema rs cs pe"
  using assms that
  by (auto simp: build_with_prior_state_def lowered_program_def Let_def case_prod_beta split: list.splits)

lemma return_is_exit: "builtin_table k = Some (QualifiedBuiltin ''continuations'' ''return'') \<longleftrightarrow> k = ''exit''"
proof -
  have "list_all (\<lambda>(k, t). (t = QualifiedBuiltin ''continuations'' ''return'') = (k = ''exit'')) (rev builtin_entries)"
    by code_simp
  then have "map_of (rev builtin_entries) k = Some (QualifiedBuiltin ''continuations'' ''return'') \<Longrightarrow> k = ''exit''"
    by (auto simp: list_all_iff dest!: map_of_SomeD)
  moreover have "builtin_table ''exit'' = Some (QualifiedBuiltin ''continuations'' ''return'')" by code_simp
  ultimately show ?thesis by (auto simp: builtin_table_def)
qed

text \<open>The program binds no word named EXIT: neither earlier programs, nor this one, nor the locals of \<open>d\<close>.\<close>

definition exit_not_shadowed :: "(string \<rightharpoonup> span) \<Rightarrow> class_slots_map \<Rightarrow> program \<Rightarrow> colon_def \<Rightarrow> bool" where
  "exit_not_shadowed pw cs prog d \<longleftrightarrow>
     pw ''exit'' = None \<and> ''exit'' \<notin> fst ` set (declared_names cs prog)
     \<and> ''exit'' \<notin> binding_names (cd_locals d) \<union> collect_body_locals (cd_body d)"

text \<open>The spans of the references in all bodies of a program, ticks included.\<close>

fun use_span :: "name_use \<Rightarrow> span option" where
  "use_span (Ref n sp) = Some sp"
| "use_span (Store n sp) = None"

definition no_scopes :: scopes where
  "no_scopes = \<lparr>sc_builtins = Map.empty, sc_user_words = Map.empty, sc_value_names = Map.empty, sc_locals = {}\<rparr>"

definition reference_spans :: "program \<Rightarrow> span list" where
  "reference_spans its = List.map_filter (\<lambda>u. use_span (snd u)) (program_uses no_scopes its)"

lemma program_uses_scope: "map snd (program_uses sc its) = map snd (program_uses sc' its)"
proof -
  have "map snd (item_uses sc it) = map snd (item_uses sc' it)" for it
    by (cases it) (simp_all add: comp_def split: const_value.split)
  then show ?thesis by (induction its) (simp_all add: program_uses_def)
qed

lemma reference_spans_distinct:
  assumes "distinct (reference_spans its)"
  shows "distinct (map fst (List.map_filter use_binding (program_uses sc its)))"
proof -
  have sub: "set (map fst (List.map_filter use_binding us)) \<subseteq> set (List.map_filter (\<lambda>u. use_span (snd u)) us)" for us
  proof (induction us)
    case (Cons u us)
    then show ?case by (cases u; cases "snd u") (auto simp: map_filter_simps split: option.split)
  qed (simp add: map_filter_simps)
  have "distinct (List.map_filter (\<lambda>u. use_span (snd u)) us) \<Longrightarrow> distinct (map fst (List.map_filter use_binding us))" for us
  proof (induction us)
    case (Cons u us)
    then show ?case using sub [of us] by (cases u; cases "snd u") (auto simp: map_filter_simps split: option.split)
  qed (simp add: map_filter_simps)
  moreover have "reference_spans its = List.map_filter (\<lambda>u. use_span (snd u)) (program_uses sc its)"
    using map_filter_map [of use_span snd "program_uses sc its"] map_filter_map [of use_span snd "program_uses no_scopes its"]
      program_uses_scope [of sc its no_scopes] unfolding reference_spans_def by simp
  ultimately show ?thesis using assms by metis
qed

lemma exit_agreement:
  assumes res: "resolve_with_prior_and_values_and_classes prog pw pv cs = Ok rs" and d: "Definition d \<in> set prog"
    and shadow: "exit_not_shadowed pw cs prog d" and dist: "distinct (reference_spans prog)"
    and by_name: "\<And>w sp. m_is_exit M w sp \<longleftrightarrow> to_ascii_lowercase w = ''exit''"
  shows "exit_machine M (rs_word_targets rs) (set (word_refs (cd_body d)))"
proof
  fix w sp assume ref: "(w, sp) \<in> set (word_refs (cd_body d))"
  let ?P = "program_scopes prog pw pv cs"
  let ?sc = "?P\<lparr>sc_locals := binding_names (cd_locals d) \<union> collect_body_locals (cd_body d)\<rparr>"
  have "(?sc, Ref w sp) \<in> set (item_uses ?P (Definition d))" using word_refs_uses(1) [OF ref] by auto
  then have "(?sc, Ref w sp) \<in> set (program_uses ?P prog)"
    unfolding program_uses_def set_concat set_map using d by blast
  then have "rs_word_targets rs sp = bind_name ?sc w \<and> bind_name ?sc w \<noteq> None"
    by (rule resolve_binds [OF res _ reference_spans_distinct [OF dist]])
  moreover have "bind_name ?sc w = Some (QualifiedBuiltin ''continuations'' ''return'') \<longleftrightarrow> to_ascii_lowercase w = ''exit''"
    using shadow by (auto simp: bind_name_def Let_def exit_not_shadowed_def program_scopes_def return_is_exit
        map_add_def split: option.splits dest!: map_of_SomeD) force
  ultimately show "m_is_exit M w sp \<longleftrightarrow> rs_word_targets rs sp = Some (QualifiedBuiltin ''continuations'' ''return'')"
    using by_name by simp
qed

lemma exit_not_shadowed_body:
  assumes "exit_not_shadowed pw cs prog d" "collect_body_locals es = collect_body_locals (cd_body d)"
  shows "exit_not_shadowed pw cs prog (d\<lparr>cd_body := es\<rparr>)"
  using assms by (simp add: exit_not_shadowed_def)

text \<open>
  C1. Compilation of definitions: when the semantic model of a program is built, every definition without
  CASE is in it under its name and with its declared effect, and running its final body, after template
  expansion, the rewriting of ?DUP IF, the binding of RECURSE, resolution and the removal of EXIT, has the
  same result for its caller as running the body that was written. This holds on every machine with the ANS
  stack words on which RECURSE calls the definition and EXIT leaves it, provided that nothing in scope
  is called EXIT and the references that the resolver sees have distinct spans.
\<close>

theorem build_keeps_meaning:
  assumes "build_with_prior_state c prog pw pe pt pv pc = Ok sm"
    and "Definition d \<in> set prog" "case_free (cd_body d)"
    and "qdup_machine M" "self_call_machine M (cd_name d)"
    and "\<And>w sp. m_is_exit M w sp \<longleftrightarrow> to_ascii_lowercase w = ''exit''"
    and "exit_not_shadowed pw (compute_class_slots (lowered_program c prog pt) pc) (lowered_program c prog pt) d"
    and "distinct (reference_spans (lowered_program c prog pt))"
  shows "\<exists>d'. Definition d' \<in> set (sm_program sm) \<and> cd_name d' = cd_name d \<and> cd_effect d' = cd_effect d
    \<and> (\<forall>n s. at_return (exec_seq M (cd_body d') n s) = at_return (exec_seq M (cd_body d) n s))"
proof -
  let ?P = "lowered_program c prog pt"
  obtain rs cs where cs: "cs = compute_class_slots ?P pc"
    and rs: "resolve_with_prior_and_values_and_classes ?P pw pv cs = Ok rs" and sm: "sm = finish_sema rs cs pe"
    using build_Ok [OF assms(1)] .
  obtain c' where d3: "Definition (d\<lparr>cd_body := fst (rewrite_seq (cd_name d) (fst (qdup_seq c' (cd_body d))))\<rparr>) \<in> set ?P"
    using lowered_definition [OF assms(2)] .
  let ?es = "fst (rewrite_seq (cd_name d) (fst (qdup_seq c' (cd_body d))))" and ?r = "rs_word_targets rs"
  have "exit_not_shadowed pw cs ?P (d\<lparr>cd_body := ?es\<rparr>)"
    using assms(7) by (intro exit_not_shadowed_body) (simp_all add: cs rewrite_locals(1) qdup_locals(1))
  from exit_agreement [OF rs d3 this assms(8,6)] have "exit_machine M ?r (set (word_refs ?es))" by simp
  then have "at_return (exec_seq M (lower_body ?r ?es) n s) = at_return (exec_seq M ?es n s)" for n s
    using exit_machine.exit_seq_same_return [OF _ case_free_exit(1) [OF rewrite_keeps(1) [OF qdup_keeps(1) [OF assms(3)]]] subset_refl]
    unfolding lower_body_def by blast
  moreover have "exec_seq M ?es = exec_seq M (cd_body d)"
    using self_call_machine.rewrite_exec(1) [OF assms(5)] qdup_machine.qdup_exec(1) [OF assms(4)] by simp
  moreover have "Definition (d\<lparr>cd_body := lower_body ?r ?es\<rparr>) \<in> set (sm_program sm)"
    using d3 resolve_keeps_program [OF rs] by (force simp: sm finish_sema_program)
  ultimately show ?thesis by (intro exI [of _ "d\<lparr>cd_body := lower_body ?r ?es\<rparr>"]) simp
qed

text \<open>The machine of a definition called F, as the ANS words and EXIT by name.\<close>

lemma with_self_words:
  "to_ascii_lowercase w \<in> {''?dup'', ''dup'', ''drop''} \<Longrightarrow> m_word (with_self ''f'' self) w sp s = m_word (ans_machine exit_by_name) w sp s"
proof -
  have "to_ascii_lowercase ''recurse'' = ''recurse''" "to_ascii_lowercase ''f'' = ''f''" by code_simp+
  then show "to_ascii_lowercase w \<in> {''?dup'', ''dup'', ''drop''} \<Longrightarrow> ?thesis"
    by (auto simp: with_self_def ans_machine_def eq_ignore_ascii_case_def)
qed

lemma with_self_flag: "m_flag (with_self ''f'' self) = m_flag (ans_machine exit_by_name)"
  by (simp add: with_self_def)

interpretation self_qdup: qdup_machine "with_self ''f'' self" for self
proof
  show "\<not> m_is_exit (with_self ''f'' self) w sp" if "to_ascii_lowercase w \<in> {''?dup'', ''dup'', ''drop''}" for w sp
    using that by (auto simp: with_self_def exit_by_name_def)
next
  fix w sp sp' s assume w: "eq_ignore_ascii_case w ''?dup''"
  then show "m_word (with_self ''f'' self) w sp s =
      (case m_flag (with_self ''f'' self) s of None \<Rightarrow> None
       | Some (b, _) \<Rightarrow> if b then m_word (with_self ''f'' self) ''dup'' sp' s else Some s)"
    using ans_qdup.qdup_word [OF w, of sp s sp'] by (simp add: with_self_words with_self_flag eq_ignore_ascii_case_qdup ascii_simps split: option.split)
qed (simp_all add: with_self_words with_self_flag ascii_simps ans_qdup.dup_word ans_qdup.dup_underflow ans_qdup.drop_word)

lemma with_self_exit: "m_is_exit (with_self ''f'' self) w sp \<longleftrightarrow> to_ascii_lowercase w = ''exit''"
proof -
  have "to_ascii_lowercase ''f'' \<noteq> ''exit''" by code_simp
  then show ?thesis by (auto simp: with_self_def exit_by_name_def)
qed

definition at_offset :: "u32 \<Rightarrow> span" where
  "at_offset n = point \<lparr>pos_line = 1, pos_col = n + 1, byte_offset = n\<rparr>"

definition example_def :: colon_def where
  "example_def = \<lparr>cd_name = ''f'', cd_name_span = at_offset 2, cd_effect = None, cd_locals = [],
     cd_body = [WordRef ''?DUP'' (at_offset 4),
                If [WordRef ''negate'' (at_offset 12), WordRef ''EXIT'' (at_offset 20)] None (at_offset 9),
                Lit (IntLit 5 (at_offset 30))],
     cd_span = at_offset 0\<rparr>"

theorem build_keeps_meaning_witness:
  "\<exists>sm. build_with_prior_state SYNTH_COUNTER [Definition example_def] Map.empty Map.empty [] Map.empty Map.empty = Ok sm
    \<and> (\<exists>d'. Definition d' \<in> set (sm_program sm) \<and> cd_name d' = cd_name example_def \<and> cd_effect d' = cd_effect example_def
        \<and> (\<forall>n s. at_return (exec_seq (with_self ''f'' Some) (cd_body d') n s)
                 = at_return (exec_seq (with_self ''f'' Some) (cd_body example_def) n s)))"
proof -
  let ?B = "build_with_prior_state SYNTH_COUNTER [Definition example_def] Map.empty Map.empty [] Map.empty Map.empty"
  have "(case ?B of Ok sm \<Rightarrow> True | _ \<Rightarrow> False)" by code_simp
  then obtain sm where sm: "?B = Ok sm" by (cases ?B) auto
  have name: "cd_name example_def = ''f''" by (simp add: example_def_def)
  show ?thesis
  proof (rule exI [of _ sm], rule conjI [OF sm], rule build_keeps_meaning [OF sm])
    show "case_free (cd_body example_def)" by (simp add: example_def_def)
    show "qdup_machine (with_self ''f'' Some)" by (rule self_qdup.qdup_machine_axioms)
    show "self_call_machine (with_self ''f'' Some) (cd_name example_def)"
      unfolding name by (rule ans_self.self_call_machine_axioms)
    show "exit_not_shadowed Map.empty (compute_class_slots (lowered_program SYNTH_COUNTER [Definition example_def] []) Map.empty)
        (lowered_program SYNTH_COUNTER [Definition example_def] []) example_def" by code_simp
    show "distinct (reference_spans (lowered_program SYNTH_COUNTER [Definition example_def] []))" by code_simp
  qed (simp_all add: with_self_exit)
qed

end
