(* ===== verification/Float_Text.thy ===== *)
theory Float_Text
  imports Complex_Main Float64
begin

text \<open>
  The text of a binary64 number: Rust's \<^verbatim>\<open>{:.1}\<close> for a number without a fraction and \<^verbatim>\<open>{}\<close>
  otherwise, which prints the shortest decimal number that reads back as the number, never with
  an exponent. The main result is that the text does read back as the number.
\<close>

section \<open>Magnitudes\<close>

definition f64_sign :: "bool \<Rightarrow> string" where
  "f64_sign s = (if s then ''-'' else [])"

fun is_finite :: "f64 \<Rightarrow> bool" where
  "is_finite (Fin _ _ _) = True"
| "is_finite _ = False"

text \<open>\<^verbatim>\<open>x.fract() == 0.0\<close> for a finite number, and its integral magnitude.\<close>

definition mantissa_integral :: "int \<Rightarrow> int \<Rightarrow> bool" where
  "mantissa_integral m e \<longleftrightarrow> 0 \<le> e \<or> m mod 2 ^ nat (- e) = 0"

definition integral_magnitude :: "int \<Rightarrow> int \<Rightarrow> int" where
  "integral_magnitude m e = (if 0 \<le> e then m * 2 ^ nat e else m div 2 ^ nat (- e))"

fun fract_is_zero :: "f64 \<Rightarrow> bool" where
  "fract_is_zero (Fin s m e) = mantissa_integral m e"
| "fract_is_zero _ = False"

text \<open>\<^verbatim>\<open>{:.1}\<close> of a finite number without a fraction.\<close>

fun display_f64_tenth :: "f64 \<Rightarrow> string" where
  "display_f64_tenth (Fin s m e) = f64_sign s @ display_nat (nat (integral_magnitude m e)) @ ''.0''"
| "display_f64_tenth _ = []"

section \<open>The shortest text\<close>

text \<open>Digits with the decimal point after the first \<open>t\<close> of them.\<close>

definition place_point :: "string \<Rightarrow> int \<Rightarrow> string" where
  "place_point ds t =
     (if t \<le> 0 then ''0.'' @ replicate (nat (- t)) (CHR ''0'') @ ds
      else if nat t < length ds then take (nat t) ds @ ''.'' @ drop (nat t) ds
      else ds @ replicate (nat t - length ds) (CHR ''0''))"

text \<open>
  A positive ratio \<open>n / d\<close> below one is brought above one by powers of ten; \<open>point_of\<close> is the \<open>t\<close> with
  \<open>10 ^ (t - 1) \<le> n / d < 10 ^ t\<close>.
\<close>

function leading_zeros :: "int \<Rightarrow> int \<Rightarrow> nat" where
  "leading_zeros n d = (if 0 < n \<and> n < d then Suc (leading_zeros (10 * n) d) else 0)"
  by pat_completeness auto
termination
  by (relation "measure (\<lambda>(n, d). nat (d - n))") auto

declare leading_zeros.simps [simp del]

definition point_of :: "int \<Rightarrow> int \<Rightarrow> int" where
  "point_of n d =
     (if n < d then 1 - int (leading_zeros n d) else int (length (display_nat (nat (n div d)))))"

text \<open>
  The two numbers of \<open>k\<close> digits next to \<open>n / d\<close>; of those that read back as the number the nearer one
  is taken, and the upper one when they are equally near.
\<close>

definition nearest_text :: "f64 \<Rightarrow> bool \<Rightarrow> int \<Rightarrow> int \<Rightarrow> nat \<Rightarrow> string option" where
  "nearest_text x s n d k =
     (let t = point_of n d;
          sn = n * 10 ^ nat (int k - t); sd = d * 10 ^ nat (t - int k);
          q = sn div sd; r = sn mod sd;
          low = f64_sign s @ place_point (display_nat (nat q)) t;
          high = f64_sign s @ place_point (display_nat (nat (q + 1)))
                   (t + (if length (display_nat (nat (q + 1))) > length (display_nat (nat q)) then 1 else 0));
          low_ok = parse_f64 low = Some x; high_ok = parse_f64 high = Some x
      in if high_ok \<and> (\<not> low_ok \<or> sd \<le> 2 * r) then Some high
         else if low_ok then Some low else None)"

text \<open>All digits of the number.\<close>

definition exact_text :: "bool \<Rightarrow> int \<Rightarrow> int \<Rightarrow> string" where
  "exact_text s m e =
     (let ds = display_nat (nat (m * 2 ^ nat e * 5 ^ nat (- e)))
      in f64_sign s @ place_point ds (int (length ds) - int (nat (- e))))"

text \<open>
  Seventeen digits are always enough for a binary64 number, so that the last case is not reached;
  that it is not is not needed here.
\<close>

function shortest_text :: "f64 \<Rightarrow> bool \<Rightarrow> int \<Rightarrow> int \<Rightarrow> nat \<Rightarrow> string" where
  "shortest_text x s m e k =
     (case nearest_text x s (m * 2 ^ nat e) (2 ^ nat (- e)) k of
        Some t \<Rightarrow> t
      | None \<Rightarrow> if k < 17 then shortest_text x s m e (Suc k) else exact_text s m e)"
  by pat_completeness auto
termination
  by (relation "measure (\<lambda>(x, s, m, e, k). 18 - k)") auto

declare shortest_text.simps [simp del]

text \<open>\<^verbatim>\<open>{}\<close>.\<close>

fun display_f64 :: "f64 \<Rightarrow> string" where
  "display_f64 NaN = ''NaN''"
| "display_f64 (Inf s) = f64_sign s @ ''inf''"
| "display_f64 (Fin s m e) =
     (if m = 0 then f64_sign s @ ''0'' else shortest_text (Fin s m e) s m e 1)"

section \<open>Rounding a number that needs no rounding\<close>

text \<open>The mantissa and exponent of a number have their normal form.\<close>

fun canonical :: "f64 \<Rightarrow> bool" where
  "canonical (Fin s m e) \<longleftrightarrow>
     0 \<le> m \<and> m < 2 ^ 53 \<and> - 1074 \<le> e \<and> e \<le> 971 \<and> (2 ^ 52 \<le> m \<or> e = - 1074)"
| "canonical _ = True"

lemma bit_length_bounds:
  assumes "0 < n"
  shows "0 < bit_length n \<and> 2 ^ nat (bit_length n - 1) \<le> n \<and> n < 2 ^ nat (bit_length n)"
  using assms
proof (induction n rule: bit_length.induct)
  case (1 n)
  show ?case
  proof (cases "n = 1")
    case True
    then show ?thesis by (simp add: bit_length.simps)
  next
    case False
    with 1 have IH: "0 < bit_length (n div 2)" "2 ^ nat (bit_length (n div 2) - 1) \<le> n div 2"
      "n div 2 < 2 ^ nat (bit_length (n div 2))" by auto
    have b: "bit_length n = 1 + bit_length (n div 2)"
      using 1 by (subst bit_length.simps) simp
    have "nat (bit_length n - 1) = Suc (nat (bit_length (n div 2) - 1))"
      "nat (bit_length n) = Suc (nat (bit_length (n div 2)))" using IH(1) b by auto
    then have "(2::int) ^ nat (bit_length n - 1) = 2 * 2 ^ nat (bit_length (n div 2) - 1)"
      "(2::int) ^ nat (bit_length n) = 2 * 2 ^ nat (bit_length (n div 2))" by simp_all
    with IH b show ?thesis by linarith
  qed
qed

text \<open>The same bounds as powers with an integer exponent, for the ratio of two numbers.\<close>

definition ratio :: "int \<Rightarrow> int \<Rightarrow> rat" where
  "ratio n d = of_int n / of_int d"

lemma of_int_power_int: "0 \<le> k \<Longrightarrow> (of_int (2 ^ nat k) :: rat) = 2 powi k"
  by (simp add: power_int_def)

lemma bit_length_powi:
  assumes "0 < n"
  shows "2 powi (bit_length n - 1) \<le> (of_int n :: rat)" "(of_int n :: rat) < 2 powi bit_length n"
proof -
  note b = bit_length_bounds [OF assms]
  from b have "(of_int (2 ^ nat (bit_length n - 1)) :: rat) \<le> of_int n"
    "(of_int n :: rat) < of_int (2 ^ nat (bit_length n))" by (simp_all only: of_int_le_iff of_int_less_iff)
  moreover have "0 \<le> bit_length n - 1" "0 \<le> bit_length n" using b by auto
  ultimately show "2 powi (bit_length n - 1) \<le> (of_int n :: rat)" "(of_int n :: rat) < 2 powi bit_length n"
    by (simp_all only: of_int_power_int)
qed

lemma ratio_bounds:
  assumes "0 < n" "0 < d"
  shows "2 powi (bit_length n - bit_length d - 1) < ratio n d"
    "ratio n d < 2 powi (bit_length n - bit_length d + 1)"
proof -
  have d: "(0::rat) < of_int d" using assms by simp
  have "2 powi (bit_length n - bit_length d - 1) * of_int d
      < 2 powi (bit_length n - bit_length d - 1) * (2 powi bit_length d :: rat)"
    using bit_length_powi(2) [OF assms(2)] by simp
  also have "\<dots> = 2 powi (bit_length n - 1)" by (simp flip: power_int_add)
  also have "\<dots> \<le> of_int n" by (rule bit_length_powi [OF assms(1)])
  finally show "2 powi (bit_length n - bit_length d - 1) < ratio n d"
    using d by (simp add: ratio_def pos_less_divide_eq)
  have "(of_int n :: rat) < 2 powi bit_length n" by (rule bit_length_powi [OF assms(1)])
  also have "\<dots> = 2 powi (bit_length n - bit_length d + 1) * 2 powi (bit_length d - 1)"
    by (simp flip: power_int_add)
  also have "\<dots> \<le> 2 powi (bit_length n - bit_length d + 1) * of_int d"
    using bit_length_powi(1) [OF assms(2)] by simp
  finally show "ratio n d < 2 powi (bit_length n - bit_length d + 1)"
    using d by (simp add: ratio_def pos_divide_less_eq)
qed

lemma powi_split: "(2::rat) powi k * of_int (2 ^ nat (- k)) = of_int (2 ^ nat k)"
  by (cases "0 \<le> k") (simp_all add: power_int_def field_simps)

text \<open>Comparing with a multiple of a power of two, as the source does on integers.\<close>

lemma ratio_ge_iff:
  assumes "0 < d"
  shows "c * (d * 2 ^ nat k) \<le> n * 2 ^ nat (- k) \<longleftrightarrow> of_int c * 2 powi k \<le> ratio n d"
proof -
  have d: "(0::rat) < of_int d" using assms by simp
  have "of_int c * 2 powi k \<le> ratio n d \<longleftrightarrow> of_int c * (2 powi k) * of_int d \<le> (of_int n :: rat)"
    unfolding ratio_def pos_le_divide_eq [OF d] by (rule refl)
  also have "\<dots> \<longleftrightarrow> of_int c * (2 powi k) * of_int d * of_int (2 ^ nat (- k))
      \<le> (of_int n * of_int (2 ^ nat (- k)) :: rat)"
    by (rule mult_le_cancel_right_pos [symmetric]) simp
  also have "of_int c * (2 powi k) * of_int d * of_int (2 ^ nat (- k)) =
      (of_int (c * (d * 2 ^ nat k)) :: rat)"
    using powi_split [of k] by (simp add: algebra_simps)
  also have "(of_int (c * (d * 2 ^ nat k)) \<le> (of_int n * of_int (2 ^ nat (- k)) :: rat)) \<longleftrightarrow>
      c * (d * 2 ^ nat k) \<le> n * 2 ^ nat (- k)"
    by (simp only: of_int_mult [symmetric] of_int_le_iff)
  finally show ?thesis by simp
qed

text \<open>The exponent the source chooses before the bound for subnormal numbers.\<close>

definition ratio_exponent :: "int \<Rightarrow> int \<Rightarrow> int" where
  "ratio_exponent n d =
     (let e0 = bit_length n - bit_length d - 53
      in if 2 ^ 53 * (d * 2 ^ nat e0) \<le> n * 2 ^ nat (- e0) then e0 + 1 else e0)"

lemma ratio_exponent_bounds:
  assumes "0 < n" "0 < d"
  shows "2 ^ 52 * 2 powi ratio_exponent n d \<le> ratio n d" "ratio n d < 2 ^ 53 * 2 powi ratio_exponent n d"
proof -
  let ?e0 = "bit_length n - bit_length d - 53"
  have lo: "(2::rat) ^ 52 * 2 powi ?e0 < ratio n d"
    using ratio_bounds(1) [OF assms] power_int_add [of "2::rat" 52 ?e0] by (simp add: algebra_simps)
  have hi: "ratio n d < (2::rat) ^ 54 * 2 powi ?e0"
    using ratio_bounds(2) [OF assms] power_int_add [of "2::rat" 54 ?e0] by (simp add: algebra_simps)
  have step: "(2::rat) powi (?e0 + 1) = 2 * 2 powi ?e0" by (subst power_int_add) auto
  have big: "(2 ^ 53 * (d * 2 ^ nat ?e0) \<le> n * 2 ^ nat (- ?e0)) = (2 ^ 53 * 2 powi ?e0 \<le> ratio n d)"
    using ratio_ge_iff [OF assms(2), of "2 ^ 53" ?e0 n] by simp
  show "2 ^ 52 * 2 powi ratio_exponent n d \<le> ratio n d" "ratio n d < 2 ^ 53 * 2 powi ratio_exponent n d"
    unfolding ratio_exponent_def Let_def big using lo hi step by auto
qed

lemma ratio_exponent_unique:
  assumes "0 < n" "0 < d" "2 ^ 52 * 2 powi e \<le> ratio n d" "ratio n d < 2 ^ 53 * 2 powi e"
  shows "ratio_exponent n d = e"
proof -
  let ?x = "ratio_exponent n d"
  have mono: "a \<le> b" if "(2::rat) ^ 52 * 2 powi a < 2 ^ 53 * 2 powi b" for a b :: int
  proof (rule ccontr)
    assume "\<not> a \<le> b"
    then have "(2::rat) powi (b + 1) \<le> 2 powi a" by (intro power_int_increasing) auto
    with that show False by (simp add: power_int_add)
  qed
  from mono [of ?x e] mono [of e ?x] ratio_exponent_bounds [OF assms(1,2)] assms(3,4)
  show ?thesis by force
qed

text \<open>The rounding of the source over this exponent.\<close>

lemma f64_of_ratio_unfold:
  assumes "0 < n"
  shows "f64_of_ratio s n d =
    (let e = max (- 1074) (ratio_exponent n d);
         q = round_half_even (n * 2 ^ nat (- e)) (d * 2 ^ nat e);
         (m, x) = (if q = 2 ^ 53 then (2 ^ 52, e + 1) else (q, e))
     in if 971 < x then Inf s else Fin s m x)"
  using assms by (simp add: f64_of_ratio_def ratio_exponent_def Let_def)

lemma round_half_even_exact: "0 < d \<Longrightarrow> round_half_even (m * d) d = m"
  by (simp add: round_half_even_def)

lemma le_div_iff_mult_le:
  assumes "0 < (D::int)"
  shows "c \<le> x div D \<longleftrightarrow> c * D \<le> x"
proof
  assume "c \<le> x div D"
  then have "c * D \<le> x div D * D" using assms by (intro mult_right_mono) auto
  also have "\<dots> \<le> x" using assms by (metis minus_mod_eq_div_mult diff_le_eq le_add_same_cancel1 pos_mod_sign)
  finally show "c * D \<le> x" .
next
  assume "c * D \<le> x"
  from zdiv_mono1 [OF this assms] assms show "c \<le> x div D" by simp
qed

lemma round_half_even_cases: "round_half_even n d = n div d \<or> round_half_even n d = n div d + 1"
  by (simp add: round_half_even_def Let_def)

theorem f64_of_ratio_exact:
  assumes "0 < m" "0 < d" "canonical (Fin s m e)" "n * 2 ^ nat (- e) = m * (d * 2 ^ nat e)"
  shows "f64_of_ratio s n d = Fin s m e"
proof -
  have n: "0 < n" using assms(1,2,4)
    by (metis mult_pos_pos zero_less_mult_pos2 zero_less_numeral zero_less_power)
  have d: "(0::rat) < of_int d" using assms(2) by simp
  have "0 < d * 2 ^ nat e" using assms(2) by simp
  then have "m * (d * 2 ^ nat e) \<le> n * 2 ^ nat (- e)" "\<not> (m + 1) * (d * 2 ^ nat e) \<le> n * 2 ^ nat (- e)"
    unfolding assms(4) by (simp_all add: distrib_right)
  then have r: "of_int m * 2 powi e \<le> ratio n d" "ratio n d < of_int (m + 1) * 2 powi e"
    using ratio_ge_iff [OF assms(2), of _ e n] by (simp_all add: not_le)
  have "max (- 1074) (ratio_exponent n d) = e"
  proof (cases "2 ^ 52 \<le> m")
    case True
    have "(of_int (2 ^ 52) :: rat) \<le> of_int m" "(of_int (m + 1) :: rat) \<le> of_int (2 ^ 53)"
      using True assms(3) by (simp_all only: of_int_le_iff) auto
    then have "(2 ^ 52 :: rat) * 2 powi e \<le> of_int m * 2 powi e"
      "(of_int (m + 1) :: rat) * 2 powi e \<le> 2 ^ 53 * 2 powi e" by (simp_all add: mult_right_mono)
    with r have "2 ^ 52 * 2 powi e \<le> ratio n d" "ratio n d < 2 ^ 53 * 2 powi e" by linarith+
    then have "ratio_exponent n d = e" by (rule ratio_exponent_unique [OF n assms(2)])
    with assms(3) show ?thesis by simp
  next
    case False
    then have e: "e = - 1074" and "m + 1 \<le> 2 ^ 52" using assms(3) by auto
    then have "(of_int (m + 1) :: rat) \<le> of_int (2 ^ 52)" by (simp only: of_int_le_iff)
    then have "(of_int (m + 1) :: rat) * 2 powi e \<le> 2 ^ 52 * 2 powi e" by (simp add: mult_right_mono)
    with r ratio_exponent_bounds(1) [OF n assms(2)]
    have less: "(2::rat) ^ 52 * 2 powi ratio_exponent n d < 2 ^ 52 * 2 powi e" by linarith
    have "ratio_exponent n d \<le> e"
    proof (rule ccontr)
      assume "\<not> ratio_exponent n d \<le> e"
      then have "(2::rat) powi e \<le> 2 powi ratio_exponent n d" by (intro power_int_increasing) auto
      with less show False by simp
    qed
    with e show ?thesis by simp
  qed
  moreover have "round_half_even (n * 2 ^ nat (- e)) (d * 2 ^ nat e) = m"
    unfolding assms(4) using assms(2) by (intro round_half_even_exact) simp
  moreover have "m \<noteq> 2 ^ 53" "e \<le> 971" using assms(3) by auto
  ultimately show ?thesis by (simp add: f64_of_ratio_unfold [OF n])
qed

lemma f64_of_ratio_canonical:
  assumes "0 \<le> n" "0 < d"
  shows "canonical (f64_of_ratio s n d)"
proof (cases "n = 0")
  case False
  with assms have n: "0 < n" by simp
  define e where "e = max (- 1074) (ratio_exponent n d)"
  define q where "q = round_half_even (n * 2 ^ nat (- e)) (d * 2 ^ nat e)"
  define f where "f = n * 2 ^ nat (- e) div (d * 2 ^ nat e)"
  have D: "0 < d * 2 ^ nat e" using assms by simp
  have up: "(2::rat) powi ratio_exponent n d \<le> 2 powi e"
    unfolding e_def by (intro power_int_increasing) auto
  then have "(2::rat) ^ 53 * 2 powi ratio_exponent n d \<le> 2 ^ 53 * 2 powi e" by simp
  with ratio_exponent_bounds(2) [OF n assms(2)] have "ratio n d < 2 ^ 53 * 2 powi e"
    by (rule less_le_trans)
  then have "\<not> 2 ^ 53 * (d * 2 ^ nat e) \<le> n * 2 ^ nat (- e)"
    using ratio_ge_iff [OF assms(2), of "2 ^ 53" e n] by simp
  then have f_hi: "f < 2 ^ 53" unfolding f_def using D by (simp only: not_le flip: le_div_iff_mult_le)
  have f_lo: "2 ^ 52 \<le> f" if "e \<noteq> - 1074"
  proof -
    have "e = ratio_exponent n d" using that by (auto simp: e_def max_def split: if_splits)
    then have "2 ^ 52 * (d * 2 ^ nat e) \<le> n * 2 ^ nat (- e)"
      using ratio_ge_iff [OF assms(2), of "2 ^ 52" e n] ratio_exponent_bounds(1) [OF n assms(2)] by simp
    then show ?thesis unfolding f_def using D by (simp only: le_div_iff_mult_le)
  qed
  have "q = f \<or> q = f + 1" unfolding q_def f_def by (rule round_half_even_cases)
  moreover have "0 \<le> f" unfolding f_def using n D by (simp add: pos_imp_zdiv_nonneg_iff)
  moreover have "- 1074 \<le> e" by (simp add: e_def)
  ultimately show ?thesis
    using f_hi f_lo by (auto simp: f64_of_ratio_unfold [OF n] Let_def simp flip: e_def q_def)
qed (simp add: f64_of_ratio_def)

section \<open>Reading a decimal text\<close>

lemma not_ascii_digit:
  assumes "is_ascii_digit c"
  shows "c \<noteq> CHR ''-''" "c \<noteq> CHR ''+''" "c \<noteq> CHR ''.''"
  using assms by (auto simp: is_ascii_digit_def)

lemma span_digits_append:
  assumes "list_all is_ascii_digit ds" "rest = [] \<or> \<not> is_ascii_digit (hd rest)"
  shows "span_digits (ds @ rest) = (ds, rest)"
  using assms by (induction ds) (cases rest; auto simp: span_digits_def)+

lemma not_digit_point: "\<not> is_ascii_digit (CHR ''.'')"
  by (simp add: is_ascii_digit_def)

lemma parse_number_point:
  assumes "list_all is_ascii_digit ip" "list_all is_ascii_digit fp" "ip \<noteq> []"
  shows "parse_number s (ip @ ''.'' @ fp) = Some (f64_of_ratio s (decimal_value (ip @ fp)) (10 ^ length fp))"
proof -
  have "span_digits (ip @ ''.'' @ fp) = (ip, ''.'' @ fp)"
    using assms(1) by (rule span_digits_append) (simp add: not_digit_point)
  moreover have "span_digits fp = (fp, [])" using span_digits_append [OF assms(2), of "[]"] by simp
  ultimately show ?thesis using assms(3) by (simp add: parse_number_def parse_exponent_def)
qed

lemma parse_number_whole:
  assumes "list_all is_ascii_digit ip" "ip \<noteq> []"
  shows "parse_number s ip = Some (f64_of_ratio s (decimal_value ip) 1)"
proof -
  have "span_digits ip = (ip, [])" using span_digits_append [OF assms(1), of "[]"] by simp
  with assms(2) show ?thesis by (simp add: parse_number_def parse_exponent_def)
qed

lemma parse_f64_sign:
  assumes "is_ascii_digit c" "parse_number s (c # t) = Some x"
  shows "parse_f64 (f64_sign s @ c # t) = Some x"
  using assms by (auto simp: parse_f64_def f64_sign_def not_ascii_digit)

lemma parse_f64_point:
  assumes "list_all is_ascii_digit ip" "list_all is_ascii_digit fp" "ip \<noteq> []"
  shows "parse_f64 (f64_sign s @ ip @ ''.'' @ fp) =
    Some (f64_of_ratio s (decimal_value (ip @ fp)) (10 ^ length fp))"
proof -
  obtain c t where "ip = c # t" using assms(3) by (cases ip) auto
  with parse_f64_sign [of c s "t @ ''.'' @ fp"] parse_number_point [OF assms, of s] assms(1)
  show ?thesis by simp
qed

lemma parse_f64_whole:
  assumes "list_all is_ascii_digit ip" "ip \<noteq> []"
  shows "parse_f64 (f64_sign s @ ip) = Some (f64_of_ratio s (decimal_value ip) 1)"
proof -
  obtain c t where "ip = c # t" using assms(2) by (cases ip) auto
  with parse_f64_sign [of c s t] parse_number_whole [OF assms, of s] assms(1)
  show ?thesis by simp
qed

lemma decimal_value_zeros: "decimal_value (replicate k (CHR ''0'') @ ds) = decimal_value ds"
proof (induction k)
  case (Suc k)
  then show ?case by (simp add: decimal_value_def digit_value_def)
qed simp

lemma decimal_value_append_zero: "decimal_value (ds @ ''0'') = 10 * decimal_value ds"
  using decimal_value_snoc [of ds "CHR ''0''"] by (simp add: digit_value_def)

text \<open>A point placed \<open>k\<close> digits from the right divides by \<open>10 ^ k\<close>.\<close>

lemma parse_place_point:
  assumes "list_all is_ascii_digit ds" "ds \<noteq> []"
  shows "parse_f64 (f64_sign s @ place_point ds (int (length ds) - int k)) =
    Some (f64_of_ratio s (decimal_value ds) (10 ^ k))"
proof -
  consider "length ds \<le> k" | "0 < k" "k < length ds" | "k = 0" by linarith
  then show ?thesis
  proof cases
    case 1
    let ?z = "replicate (k - length ds) (CHR ''0'')"
    have "place_point ds (int (length ds) - int k) = ''0'' @ ''.'' @ (?z @ ds)"
      using 1 by (simp add: place_point_def nat_diff_distrib flip: of_nat_diff)
    moreover have "list_all is_ascii_digit (?z @ ds)"
      using assms(1) by (auto simp: is_ascii_digit_def list_all_iff)
    moreover have "decimal_value (''0'' @ ?z @ ds) = decimal_value ds"
      using decimal_value_zeros [of "Suc (k - length ds)" ds] by simp
    moreover have "length (?z @ ds) = k" using 1 by simp
    ultimately show ?thesis
      using parse_f64_point [of "''0''" "?z @ ds" s] by (simp add: is_ascii_digit_def)
  next
    case 2
    then have t: "nat (int (length ds) - int k) = length ds - k" by linarith
    from 2 have "place_point ds (int (length ds) - int k) =
        take (length ds - k) ds @ ''.'' @ drop (length ds - k) ds"
      by (simp add: place_point_def t)
    moreover have "list_all is_ascii_digit (take (length ds - k) ds)"
      "list_all is_ascii_digit (drop (length ds - k) ds)"
      using assms(1) by (auto simp: list_all_iff dest: in_set_takeD in_set_dropD)
    ultimately show ?thesis
      using 2 assms(2) parse_f64_point [of "take (length ds - k) ds" "drop (length ds - k) ds" s] by simp
  next
    case 3
    with assms have "place_point ds (int (length ds) - int k) = ds"
      by (simp add: place_point_def)
    with 3 assms show ?thesis by (simp add: parse_f64_whole)
  qed
qed

section \<open>The text of a number reads back\<close>

lemma parse_display_f64_tenth:
  assumes "canonical (Fin s m e)" "mantissa_integral m e"
  shows "parse_f64 (display_f64_tenth (Fin s m e)) = Some (Fin s m e)"
proof -
  let ?I = "integral_magnitude m e"
  have m: "0 \<le> m" using assms(1) by simp
  then have I: "0 \<le> ?I" by (simp add: integral_magnitude_def pos_imp_zdiv_nonneg_iff)
  have val: "?I * 2 ^ nat (- e) = m * 2 ^ nat e"
    using assms(2) by (auto simp: integral_magnitude_def mantissa_integral_def)
  have "parse_f64 (display_f64_tenth (Fin s m e)) = Some (f64_of_ratio s (10 * ?I) 10)"
    using parse_f64_point [OF display_nat_digits, of "''0''" "nat ?I" s] I
    by (simp add: decimal_value_append_zero decimal_value_display_nat is_ascii_digit_def)
  also have "f64_of_ratio s (10 * ?I) 10 = Fin s m e"
  proof (cases "m = 0")
    case True
    with val have "?I = 0" by simp
    with True assms(1) show ?thesis by (simp add: f64_of_ratio_def)
  next
    case False
    with m val assms(1) show ?thesis by (intro f64_of_ratio_exact) auto
  qed
  finally show ?thesis .
qed

lemma parse_exact_text:
  assumes "canonical (Fin s m e)" "m \<noteq> 0"
  shows "parse_f64 (exact_text s m e) = Some (Fin s m e)"
proof -
  let ?N = "m * 2 ^ nat e * 5 ^ nat (- e)"
  have "0 < m" using assms by simp
  then have N: "0 < ?N" by simp
  have "parse_f64 (exact_text s m e) = Some (f64_of_ratio s ?N (10 ^ nat (- e)))"
    using parse_place_point [OF display_nat_digits display_nat_not_Nil, of s "nat ?N" "nat (- e)"] N
    by (simp add: exact_text_def Let_def decimal_value_display_nat)
  also have "f64_of_ratio s ?N (10 ^ nat (- e)) = Fin s m e"
  proof (rule f64_of_ratio_exact)
    have "(10::int) ^ nat (- e) = 5 ^ nat (- e) * 2 ^ nat (- e)" by (simp flip: power_mult_distrib)
    then show "?N * 2 ^ nat (- e) = m * (10 ^ nat (- e) * 2 ^ nat e)" by simp
  qed (use \<open>0 < m\<close> assms in auto)
  finally show ?thesis .
qed

lemma nearest_text_reads: "nearest_text x s n d k = Some t \<Longrightarrow> parse_f64 t = Some x"
  by (auto simp: nearest_text_def Let_def split: if_splits)

lemma parse_shortest_text:
  assumes "canonical (Fin s m e)" "m \<noteq> 0"
  shows "parse_f64 (shortest_text (Fin s m e) s m e k) = Some (Fin s m e)"
proof (induction "18 - k" arbitrary: k rule: less_induct)
  case less
  then show ?case
    using parse_exact_text [OF assms]
    by (subst shortest_text.simps) (auto split: option.splits dest: nearest_text_reads)
qed

lemma parse_display_f64:
  assumes "canonical (Fin s m e)"
  shows "parse_f64 (display_f64 (Fin s m e)) = Some (Fin s m e)"
proof (cases "m = 0")
  case True
  with assms show ?thesis
    using parse_f64_whole [of "''0''" s]
    by (simp add: decimal_value_def digit_value_def is_ascii_digit_def f64_of_ratio_def)
qed (use assms parse_shortest_text [OF assms] in simp)

text \<open>The numbers of the program are in normal form.\<close>

lemma decimal_value_nonneg: "0 \<le> decimal_value ds"
proof (induction ds rule: rev_induct)
  case (snoc c ds)
  then show ?case by (simp add: decimal_value_snoc)
qed (simp add: decimal_value_def)

lemma parse_number_canonical: "parse_number s t = Some x \<Longrightarrow> canonical x"
  by (auto simp: parse_number_def Let_def decimal_value_nonneg
      intro!: f64_of_ratio_canonical split: prod.splits list.splits if_splits option.splits)

lemma parse_f64_canonical: "parse_f64 t = Some x \<Longrightarrow> canonical x"
  by (auto simp: parse_f64_def Let_def dest: parse_number_canonical
      split: prod.splits list.splits if_splits option.splits)

end
