(* ===== verification/Let_Codegen.thy ===== *)
theory Let_Codegen
  imports Float_Text Resolver
begin

text \<open>
  The code generator of the LET language, \<^verbatim>\<open>src/compiler/let_lang/codegen.rs\<close>: a LET form
  becomes a Factor quotation with named inputs that is called with its declared effect. Texts
  are built by appending, as the source writes to its output string.
\<close>

section \<open>Expressions\<close>

definition factor_local :: "string \<Rightarrow> string" where
  "factor_local name = ''nfl-'' @ name"

text \<open>\<^verbatim>\<open>n.fract() == 0.0 && n.is_finite() && n.abs() < 1e15\<close>.\<close>

fun small_integral :: "f64 \<Rightarrow> bool" where
  "small_integral (Fin s m e) \<longleftrightarrow> mantissa_integral m e \<and> integral_magnitude m e < 10 ^ 15"
| "small_integral _ \<longleftrightarrow> False"

definition emit_let_number :: "f64 \<Rightarrow> string" where
  "emit_let_number n = (if small_integral n then display_f64_tenth n else display_f64 n)"

fun factor_bin_op :: "bin_op \<Rightarrow> string" where
  "factor_bin_op Add = ''math:+''"
| "factor_bin_op Sub = ''math:-''"
| "factor_bin_op Mul = ''math:*''"
| "factor_bin_op Div = ''math:/''"
| "factor_bin_op Pow = ''math.functions:^''"
| "factor_bin_op EqOp = ''kernel:=  1.0 0.0 kernel:?''"
| "factor_bin_op NeOp = ''kernel:=  kernel:not  1.0 0.0 kernel:?''"
| "factor_bin_op LtOp = ''math.order:<   1.0 0.0 kernel:?''"
| "factor_bin_op GtOp = ''math.order:>   1.0 0.0 kernel:?''"
| "factor_bin_op LeOp = ''math.order:<=  1.0 0.0 kernel:?''"
| "factor_bin_op GeOp = ''math.order:>=  1.0 0.0 kernel:?''"

definition let_functions :: "(string \<times> string) list" where
  "let_functions =
    [(''sqrt'', ''math.functions:sqrt''), (''abs'', ''math:abs''), (''min'', ''math.order:min''),
     (''max'', ''math.order:max''), (''floor'', ''math.functions:floor''),
     (''ceil'', ''math.functions:ceiling''), (''round'', ''math.functions:round''),
     (''trunc'', ''math.functions:truncate''), (''sin'', ''math.functions:sin''),
     (''cos'', ''math.functions:cos''), (''tan'', ''math.functions:tan''),
     (''asin'', ''math.functions:asin''), (''acos'', ''math.functions:acos''),
     (''atan'', ''math.functions:atan''), (''atan2'', ''math.libm:fatan2''),
     (''exp'', ''math.functions:exp''), (''log'', ''math.functions:log''),
     (''pow'', ''math.functions:^''), (''hypot'', ''math.functions:hypot''),
     (''pi'', ''math.constants:pi''), (''e'', ''math.constants:e'')]"

definition factor_call_target :: "string \<Rightarrow> string" where
  "factor_call_target name =
    (case map_of let_functions name of
       Some target \<Rightarrow> target
     | None \<Rightarrow> ''kernel:throw-LET-unknown-call'')"

text \<open>The exponent of a power that is compiled to multiplications: a literal 1 to 8.\<close>

fun small_power :: "bin_op \<Rightarrow> let_expr \<Rightarrow> nat option" where
  "small_power Pow (LLit (Fin False m e)) =
    (if mantissa_integral m e \<and> 1 \<le> integral_magnitude m e \<and> integral_magnitude m e \<le> 8
     then Some (nat (integral_magnitude m e)) else None)"
| "small_power _ _ = None"

fun emit_let_expr :: "let_expr \<Rightarrow> string"
  and emit_let_args :: "let_expr list \<Rightarrow> string" where
  "emit_let_expr (LLit n) = emit_let_number n"
| "emit_let_expr (LVar name) = factor_local name"
| "emit_let_expr (LNeg inner) = emit_let_expr inner @ '' math:neg''"
| "emit_let_expr (LBin op l r) =
    (case small_power op r of
       Some k \<Rightarrow> emit_let_expr l @ concat (replicate (k - 1) '' dup'') @ concat (replicate (k - 1) '' math:*'')
     | None \<Rightarrow> emit_let_expr l @ '' '' @ emit_let_expr r @ '' '' @ factor_bin_op op)"
| "emit_let_expr (LCall name args) = emit_let_args args @ factor_call_target name"
| "emit_let_args [] = []"
| "emit_let_args (a # as) = emit_let_expr a @ '' '' @ emit_let_args as"

section \<open>Forms\<close>

text \<open>
  The bindings of a destructured input: the alias at a position stands for the slot of the
  class at that position.
\<close>

definition slot_binding :: "string \<Rightarrow> string \<Rightarrow> string \<Rightarrow> string \<Rightarrow> string" where
  "slot_binding name cls actual_slot alias =
     factor_local name @ '' '' @ factor_user_name (cls @ ''>'' @ actual_slot) @ '' :> ''
       @ factor_local alias @ '' ''"

definition destructure_input ::
  "class_slots_map \<Rightarrow> let_input \<Rightarrow> (string, string) outcome" where
  "destructure_input class_slots inp =
    (case li_destructure inp of
       None \<Rightarrow> Ok []
     | Some d \<Rightarrow>
         (let cls = to_ascii_lowercase (dc_class d) in
          case class_slots cls of
            None \<Rightarrow> Err (''class '' @ bq @ dc_class d @ bq @ '' not found (in destructure of '' @ bq
              @ li_name inp @ bq @ '')'')
          | Some actual \<Rightarrow>
              if length (dc_slots d) > length actual then
                Err (bq @ li_name inp @ '':'' @ dc_class d @ '' as ...'' @ bq @ '' lists ''
                  @ display_nat (length (dc_slots d)) @ '' aliases but '' @ bq @ dc_class d @ bq @ '' has ''
                  @ display_nat (length actual) @ '' slots'')
              else Ok (concat (map2 (slot_binding (li_name inp) cls) actual (dc_slots d)))))"

fun destructure_inputs :: "class_slots_map \<Rightarrow> let_input list \<Rightarrow> (string, string) outcome" where
  "destructure_inputs class_slots [] = Ok []"
| "destructure_inputs class_slots (inp # inps) =
    and_then (destructure_input class_slots inp)
      (\<lambda>bindings. and_then (destructure_inputs class_slots inps) (\<lambda>rest. Ok (bindings @ rest)))"

definition emit_where :: "string \<times> let_expr \<Rightarrow> string" where
  "emit_where w = emit_let_expr (snd w) @ '' :> '' @ factor_local (fst w) @ '' ''"

definition input_names :: "let_form \<Rightarrow> string" where
  "input_names form = concat (map (\<lambda>inp. factor_local (li_name inp) @ '' '') (lf_inputs form))"

definition lower_to_factor :: "let_form \<Rightarrow> class_slots_map \<Rightarrow> (string, string) outcome" where
  "lower_to_factor form class_slots =
    and_then (destructure_inputs class_slots (lf_inputs form)) (\<lambda>bindings. Ok (
      ''[| '' @ input_names form @ ''| '' @ bindings
      @ concat (map emit_where (lf_wheres form))
      @ concat (map (\<lambda>r. emit_let_expr r @ '' '') (lf_results form))
      @ ''] call( '' @ input_names form @ ''-- ''
      @ concat (map (\<lambda>outp. factor_local outp @ '' '') (lf_outputs form)) @ '')''))"

end
