(* ===== verification/Factor_Ir.thy ===== *)
theory Factor_Ir
  imports Rust_Text
begin

text \<open>
  The lexical form of the Factor source that the compiler emits, as far as the emitter relies on
  it (comments of \<^verbatim>\<open>emit.rs\<close>): words are separated by blanks, a double quote at the
  beginning of a word opens a string literal with backslash escapes, and square brackets that are
  words of their own nest quotations; \<^verbatim>\<open>[|\<close> opens a quotation with named inputs. The emitted
  text is judged by what is read back from it.
\<close>

section \<open>Tokens\<close>

datatype ir_token = TWord string | TStr string

definition ir_blank :: "char \<Rightarrow> bool" where
  "ir_blank c \<longleftrightarrow> c = CHR '' '' \<or> c = CHR 0x0A \<or> c = CHR 0x0D \<or> c = CHR 0x09"

definition quote_char :: char where
  "quote_char = CHR 0x22"

definition backslash :: char where
  "backslash = CHR 0x5C"

text \<open>The character an escape stands for.\<close>

definition ir_escape :: "char \<Rightarrow> char option" where
  "ir_escape c =
    (if c = quote_char \<or> c = backslash then Some c
     else if c = CHR ''n'' then Some (CHR 0x0A)
     else if c = CHR ''r'' then Some (CHR 0x0D)
     else if c = CHR ''t'' then Some (CHR 0x09)
     else None)"

text \<open>The contents of a string literal after its opening quote, and the text behind it.\<close>

fun ir_string :: "string \<Rightarrow> (string \<times> string) option" where
  "ir_string [] = None"
| "ir_string [c] = (if c = quote_char then Some ([], []) else None)"
| "ir_string (c # d # s) =
    (if c = quote_char then Some ([], d # s)
     else if c = backslash then
       (case ir_escape d of
          None \<Rightarrow> None
        | Some x \<Rightarrow> map_option (\<lambda>(t, rest). (x # t, rest)) (ir_string s))
     else map_option (\<lambda>(t, rest). (c # t, rest)) (ir_string (d # s)))"

lemma ir_string_shorter: "ir_string s = Some (t, rest) \<Longrightarrow> length rest < length s"
  by (induction s arbitrary: t rest rule: ir_string.induct)
    (fastforce split: if_splits option.splits intro: less_SucI)+

function ir_lex :: "string \<Rightarrow> ir_token list option" where
  "ir_lex [] = Some []"
| "ir_lex (c # s) =
    (if ir_blank c then ir_lex s
     else if c = quote_char then
       (case ir_string s of
          None \<Rightarrow> None
        | Some (t, rest) \<Rightarrow> map_option (\<lambda>toks. TStr t # toks) (ir_lex rest))
     else map_option (\<lambda>toks. TWord (c # takeWhile (\<lambda>x. \<not> ir_blank x) s) # toks)
       (ir_lex (dropWhile (\<lambda>x. \<not> ir_blank x) s)))"
  by pat_completeness auto
termination
  by (relation "measure length")
    (auto dest: ir_string_shorter simp: le_imp_less_Suc length_dropWhile_le)

text \<open>A word of the emitted text: it does not begin like a string and has no blanks.\<close>

definition ir_word :: "string \<Rightarrow> bool" where
  "ir_word w \<longleftrightarrow> w \<noteq> [] \<and> hd w \<noteq> quote_char \<and> list_all (\<lambda>c. \<not> ir_blank c) w"

text \<open>Text that can follow a word.\<close>

definition delimited :: "string \<Rightarrow> bool" where
  "delimited rest \<longleftrightarrow> rest = [] \<or> ir_blank (hd rest)"

text \<open>\<open>s\<close> is read as the tokens \<open>ts\<close>, whatever follows it.\<close>

definition reads :: "string \<Rightarrow> ir_token list \<Rightarrow> bool" where
  "reads s ts \<longleftrightarrow>
    (\<forall>rest. delimited rest \<longrightarrow> ir_lex (s @ rest) = map_option (\<lambda>toks. ts @ toks) (ir_lex rest))"

lemma readsI:
  "(\<And>rest. delimited rest \<Longrightarrow> ir_lex (s @ rest) = map_option (\<lambda>toks. ts @ toks) (ir_lex rest))
    \<Longrightarrow> reads s ts"
  by (simp add: reads_def)

lemma readsD: "reads s ts \<Longrightarrow> ir_lex s = Some ts"
proof -
  assume "reads s ts"
  then have "ir_lex (s @ []) = map_option (\<lambda>toks. ts @ toks) (ir_lex [])"
    unfolding reads_def by (rule allE [where x = "[]"]) (simp add: delimited_def)
  then show ?thesis by simp
qed

named_theorems reads

lemma reads_Nil [reads]: "reads [] []"
  by (rule readsI) (simp add: option.map_ident)

lemma reads_blank [reads]: "ir_blank c \<Longrightarrow> reads s ts \<Longrightarrow> reads (c # s) ts"
  by (rule readsI) (simp add: reads_def)

lemma reads_append [reads]:
  assumes "reads a ts" "delimited b" "reads b us"
  shows "reads (a @ b) (ts @ us)"
proof (rule readsI)
  fix rest assume rest: "delimited rest"
  with assms(2) have "delimited (b @ rest)" by (cases b) (auto simp: delimited_def)
  with assms(1) have "ir_lex (a @ b @ rest) = map_option (\<lambda>toks. ts @ toks) (ir_lex (b @ rest))"
    by (simp add: reads_def)
  also have "\<dots> = map_option (\<lambda>toks. (ts @ us) @ toks) (ir_lex rest)"
    using assms(3) rest by (simp add: reads_def option.map_comp o_def)
  finally show "ir_lex ((a @ b) @ rest) = map_option (\<lambda>toks. (ts @ us) @ toks) (ir_lex rest)" by simp
qed

lemma reads_word [reads]:
  assumes "ir_word w"
  shows "reads w [TWord w]"
proof (rule readsI)
  fix rest assume rest: "delimited rest"
  obtain c v where w: "w = c # v" using assms by (cases w) (auto simp: ir_word_def)
  have "takeWhile (\<lambda>x. \<not> ir_blank x) (v @ rest) = v" "dropWhile (\<lambda>x. \<not> ir_blank x) (v @ rest) = rest"
    using assms rest w by (auto simp: ir_word_def delimited_def list_all_iff takeWhile_append dropWhile_append
        takeWhile_eq_Nil_iff dropWhile_eq_self_iff)
  with assms w show "ir_lex (w @ rest) = map_option (\<lambda>toks. [TWord w] @ toks) (ir_lex rest)"
    by (simp add: ir_word_def)
qed

lemma delimited_simps [simp]:
  "delimited []" "delimited (c # s) \<longleftrightarrow> ir_blank c"
  by (simp_all add: delimited_def)

lemma ir_blank_chars [simp]:
  "ir_blank (CHR '' '')" "ir_blank (CHR 0x0A)" "\<not> ir_blank (CHR ''['')" "\<not> ir_blank (CHR '']'')"
  by (simp_all add: ir_blank_def)

lemma delimited_append: "delimited a \<Longrightarrow> delimited b \<Longrightarrow> delimited (a @ b)"
  by (cases a) auto

lemma delimited_concat: "\<forall>s\<in>set ss. delimited s \<Longrightarrow> delimited (concat ss)"
  by (induction ss) (auto intro: delimited_append)

text \<open>Two texts with a blank in between.\<close>

lemma reads_space [reads]: "reads a ts \<Longrightarrow> reads b us \<Longrightarrow> reads (a @ '' '' @ b) (ts @ us)"
  using reads_append [of a ts "'' '' @ b" us] reads_blank [of "CHR '' ''" b us] by simp

lemma reads_space_end [reads]: "reads a ts \<Longrightarrow> reads (a @ '' '') ts"
  using reads_space [OF _ reads_Nil] by simp

text \<open>Pieces that each end in a blank.\<close>

lemma reads_pieces:
  assumes "\<forall>x\<in>set xs. reads (f x) (g x)" "reads u us"
  shows "reads (concat (map (\<lambda>x. f x @ '' '') xs) @ u) (concat (map g xs) @ us)"
  using assms(1)
proof (induction xs)
  case (Cons x xs)
  then show ?case using reads_space [of "f x" "g x"] by simp
qed (use assms(2) in simp)

section \<open>Words of a text without strings\<close>

definition ir_words :: "string \<Rightarrow> string list" where
  "ir_words s = (case ir_lex s of Some ts \<Rightarrow> map (\<lambda>t. case t of TWord w \<Rightarrow> w | TStr w \<Rightarrow> w) ts | None \<Rightarrow> [])"

lemma ir_words_reads: "reads s (map TWord ws) \<Longrightarrow> ir_words s = ws"
  by (simp add: ir_words_def readsD o_def)

lemma ir_words_word: "ir_word w \<Longrightarrow> ir_words w = [w]"
  using ir_words_reads [of w "[w]"] reads_word by simp

text \<open>A text without quotes is read as its words.\<close>

lemma reads_plain [reads]:
  assumes "quote_char \<notin> set s"
  shows "reads s (map TWord (ir_words s))"
proof -
  have "\<exists>ws. reads s (map TWord ws)"
    using assms
  proof (induction s rule: ir_lex.induct)
    case 1
    show ?case using reads_Nil by (intro exI [of _ "[]"]) simp
  next
    case (2 c s)
    show ?case
    proof (cases "ir_blank c")
      case True
      with 2 show ?thesis by (auto intro: reads_blank)
    next
      case False
      let ?w = "c # takeWhile (\<lambda>x. \<not> ir_blank x) s" and ?r = "dropWhile (\<lambda>x. \<not> ir_blank x) s"
      have "quote_char \<notin> set ?r" using "2.prems" by (auto dest: set_dropWhileD)
      with 2 False obtain ws where "reads ?r (map TWord ws)" by auto
      moreover have "ir_word ?w"
        using "2.prems" False by (auto simp: ir_word_def list_all_iff dest: set_takeWhileD)
      moreover have "delimited ?r" using hd_dropWhile [of "\<lambda>x. \<not> ir_blank x" s] by (auto simp: delimited_def)
      ultimately have "reads (?w @ ?r) ([TWord ?w] @ map TWord ws)" by (intro reads_append reads_word)
      then show ?thesis by (intro exI [of _ "?w # ws"]) simp
    qed
  qed
  then show ?thesis using ir_words_reads by metis
qed

end
