(* ===== verification/Let_Codegen_Correct.thy ===== *)
theory Let_Codegen_Correct
  imports Let_Codegen Factor_Ir
begin

text \<open>
  Correctness of the LET code generator: the emitted text is read as a sequence of words, and
  these words, run on a Factor data stack with named locals, leave the values of the algebraic
  expressions. What the Factor words do is a parameter with named laws (locale \<open>let_target\<close>);
  the rational numbers are an instance.
\<close>

section \<open>The meaning of LET expressions\<close>

text \<open>
  The values and operations of an algebra of numbers and objects; \<open>None\<close> is an operation that
  has no result.
\<close>

record 'v let_algebra =
  la_num :: "f64 \<Rightarrow> 'v"
  la_neg :: "'v \<Rightarrow> 'v option"
  la_bin :: "bin_op \<Rightarrow> 'v \<Rightarrow> 'v \<Rightarrow> 'v option"
  la_call :: "string \<Rightarrow> 'v list \<Rightarrow> 'v option"
  la_slot :: "string \<Rightarrow> string \<Rightarrow> 'v \<Rightarrow> 'v option"

text \<open>\<open>x * (x * (... * x))\<close>, the value the source gives to a small literal power.\<close>

fun power_by_mul :: "'v let_algebra \<Rightarrow> nat \<Rightarrow> 'v \<Rightarrow> 'v option" where
  "power_by_mul A 0 x = Some x"
| "power_by_mul A (Suc k) x = Option.bind (power_by_mul A k x) (\<lambda>y. la_bin A Mul x y)"

fun eval_let :: "'v let_algebra \<Rightarrow> (string \<rightharpoonup> 'v) \<Rightarrow> let_expr \<Rightarrow> 'v option"
  and eval_let_args :: "'v let_algebra \<Rightarrow> (string \<rightharpoonup> 'v) \<Rightarrow> let_expr list \<Rightarrow> 'v list option" where
  "eval_let A env (LLit n) = Some (la_num A n)"
| "eval_let A env (LVar x) = env x"
| "eval_let A env (LNeg e) = Option.bind (eval_let A env e) (la_neg A)"
| "eval_let A env (LBin op l r) =
    (case small_power op r of
       Some k \<Rightarrow> Option.bind (eval_let A env l) (power_by_mul A (k - 1))
     | None \<Rightarrow> Option.bind (eval_let A env l) (\<lambda>x. Option.bind (eval_let A env r) (la_bin A op x)))"
| "eval_let A env (LCall f args) = Option.bind (eval_let_args A env args) (la_call A f)"
| "eval_let_args A env [] = Some []"
| "eval_let_args A env (a # as) =
    Option.bind (eval_let A env a) (\<lambda>v. map_option (\<lambda>vs. v # vs) (eval_let_args A env as))"

fun bind_slots :: "'v let_algebra \<Rightarrow> string \<Rightarrow> 'v \<Rightarrow> (string \<times> string) list \<Rightarrow> (string \<rightharpoonup> 'v) \<Rightarrow> (string \<rightharpoonup> 'v) option" where
  "bind_slots A cls obj [] env = Some env"
| "bind_slots A cls obj ((slot, alias) # ss) env =
    Option.bind (la_slot A cls slot obj) (\<lambda>v. bind_slots A cls obj ss (env(alias \<mapsto> v)))"

fun bind_wheres :: "'v let_algebra \<Rightarrow> (string \<times> let_expr) list \<Rightarrow> (string \<rightharpoonup> 'v) \<Rightarrow> (string \<rightharpoonup> 'v) option" where
  "bind_wheres A [] env = Some env"
| "bind_wheres A ((x, e) # ws) env =
    Option.bind (eval_let A env e) (\<lambda>v. bind_wheres A ws (env(x \<mapsto> v)))"

section \<open>Running words\<close>

text \<open>
  Words on a data stack, top first, with named locals: \<^verbatim>\<open>:> name\<close> binds the top of the stack, a
  bound name pushes its value, and any other word is looked up in the Factor vocabulary.
\<close>

fun run_words ::
  "(string \<Rightarrow> 'v list \<Rightarrow> 'v list option) \<Rightarrow> string list \<Rightarrow> (string \<rightharpoonup> 'v) \<times> 'v list \<Rightarrow>
   ((string \<rightharpoonup> 'v) \<times> 'v list) option" where
  "run_words word [] (env, st) = Some (env, st)"
| "run_words word (w # ws) (env, st) =
    (if w = '':>'' then
       (case ws of
          [] \<Rightarrow> None
        | x # ws' \<Rightarrow> (case st of [] \<Rightarrow> None | v # st' \<Rightarrow> run_words word ws' (env(x \<mapsto> v), st')))
     else case env w of
       Some v \<Rightarrow> run_words word ws (env, v # st)
     | None \<Rightarrow> Option.bind (word w st) (\<lambda>st'. run_words word ws (env, st')))"

text \<open>Code that binds no name leaves the locals alone.\<close>

lemma run_words_append:
  assumes "run_words word ws (env, st) = Some (env', st')" "'':>'' \<notin> set ws"
  shows "run_words word (ws @ us) (env, st) = run_words word us (env', st')"
  using assms
  by (induction ws arbitrary: env st) (auto split: option.splits Option.bind_splits)

section \<open>The words of an expression\<close>

fun let_code :: "let_expr \<Rightarrow> string list"
  and let_code_args :: "let_expr list \<Rightarrow> string list" where
  "let_code (LLit n) = [emit_let_number n]"
| "let_code (LVar x) = [factor_local x]"
| "let_code (LNeg e) = let_code e @ [''math:neg'']"
| "let_code (LBin op l r) =
    (case small_power op r of
       Some k \<Rightarrow> let_code l @ replicate (k - 1) ''dup'' @ replicate (k - 1) ''math:*''
     | None \<Rightarrow> let_code l @ let_code r @ ir_words (factor_bin_op op))"
| "let_code (LCall f args) = let_code_args args @ [factor_call_target f]"
| "let_code_args [] = []"
| "let_code_args (a # as) = let_code a @ let_code_args as"

text \<open>Names without blanks, as the LET parser makes them.\<close>

definition plain_name :: "string \<Rightarrow> bool" where
  "plain_name x \<longleftrightarrow> list_all (\<lambda>c. \<not> ir_blank c) x"

fun plain_let :: "let_expr \<Rightarrow> bool"
  and plain_let_args :: "let_expr list \<Rightarrow> bool" where
  "plain_let (LLit n) = True"
| "plain_let (LVar x) = plain_name x"
| "plain_let (LNeg e) = plain_let e"
| "plain_let (LBin op l r) = (plain_let l \<and> plain_let r)"
| "plain_let (LCall f args) = plain_let_args args"
| "plain_let_args [] = True"
| "plain_let_args (a # as) = (plain_let a \<and> plain_let_args as)"

lemma ir_word_factor_local: "plain_name x \<Longrightarrow> ir_word (factor_local x)"
  by (simp add: plain_name_def factor_local_def ir_word_def quote_char_def ir_blank_def)

text \<open>Numbers are words.\<close>

lemma no_blank_digit: "is_ascii_digit c \<Longrightarrow> \<not> ir_blank c \<and> c \<noteq> quote_char"
  by (auto simp: is_ascii_digit_def ir_blank_def quote_char_def)

definition number_char :: "char \<Rightarrow> bool" where
  "number_char c \<longleftrightarrow> is_ascii_digit c \<or> c = CHR ''.'' \<or> c = CHR ''-''"

lemma number_chars_display_nat: "list_all number_char (display_nat n)"
  using display_nat_digits [of n] by (auto simp: list_all_iff number_char_def)

lemma number_chars_sign: "list_all number_char (f64_sign s)"
  by (simp add: f64_sign_def number_char_def)

lemma number_chars_place_point:
  "list_all number_char ds \<Longrightarrow> list_all number_char (place_point ds t)"
  by (auto simp: place_point_def list_all_iff number_char_def is_ascii_digit_def
      dest: in_set_takeD in_set_dropD)

lemma number_chars_nearest: "nearest_text x s n d k = Some t \<Longrightarrow> list_all number_char t"
  by (auto simp: nearest_text_def Let_def number_chars_place_point number_chars_display_nat
      number_chars_sign split: if_splits)

lemma number_chars_shortest: "list_all number_char (shortest_text x s m e k)"
proof (induction "18 - k" arbitrary: k rule: less_induct)
  case less
  then show ?case
    by (subst shortest_text.simps)
      (auto simp: exact_text_def Let_def number_chars_place_point number_chars_display_nat
        number_chars_sign dest: number_chars_nearest split: option.splits)
qed

lemma ir_word_number_chars:
  assumes "list_all number_char s" "s \<noteq> []"
  shows "ir_word s"
proof -
  have "\<not> ir_blank c \<and> c \<noteq> quote_char" if "number_char c" for c
    using that no_blank_digit [of c] by (auto simp: number_char_def ir_blank_def quote_char_def)
  with assms show ?thesis by (cases s) (auto simp: ir_word_def list_all_iff)
qed

lemma parse_f64_Nil: "parse_f64 [] = None"
  by (simp add: parse_f64_def parse_number_def span_digits_def to_ascii_lowercase_def)

lemma shortest_text_not_Nil: "canonical (Fin s m e) \<Longrightarrow> m \<noteq> 0 \<Longrightarrow> shortest_text (Fin s m e) s m e 1 \<noteq> []"
  using parse_shortest_text [of s m e 1] parse_f64_Nil by auto

lemma ir_word_number: "canonical n \<Longrightarrow> ir_word (emit_let_number n)"
proof (cases n)
  case (Fin s m e)
  assume "canonical n"
  with Fin shortest_text_not_Nil [of s m e] show ?thesis
    by (intro ir_word_number_chars)
      (auto simp: emit_let_number_def number_chars_sign number_chars_display_nat number_chars_shortest,
       auto simp: number_char_def is_ascii_digit_def)
qed (auto simp: emit_let_number_def ir_word_def quote_char_def ir_blank_def f64_sign_def)

lemma reads_bin_op [reads]: "reads (factor_bin_op op) (map TWord (ir_words (factor_bin_op op)))"
  by (rule reads_plain) (cases op; simp add: quote_char_def)

lemma ir_word_call_target: "ir_word (factor_call_target f)"
proof (cases "map_of let_functions f")
  case (Some t)
  have "list_all (\<lambda>(k, t). ir_word t) let_functions"
    by (simp add: let_functions_def ir_word_def quote_char_def ir_blank_def)
  with Some have "ir_word t" by (auto simp: list_all_iff dest!: map_of_SomeD)
  with Some show ?thesis by (simp add: factor_call_target_def)
qed (simp add: factor_call_target_def ir_word_def quote_char_def ir_blank_def)

lemma reads_repeated:
  assumes "ir_word w"
  shows "reads (concat (replicate k ('' '' @ w))) (map TWord (replicate k w))"
proof (induction k)
  case (Suc k)
  have "delimited (concat (replicate k ('' '' @ w)))" by (cases k) auto
  with Suc assms have "reads (w @ concat (replicate k ('' '' @ w))) ([TWord w] @ map TWord (replicate k w))"
    by (intro reads)
  then show ?case by (simp add: reads_blank)
qed (simp add: reads_Nil)

text \<open>The literals of the form have the normal form that reading a number gives.\<close>

fun canonical_let :: "let_expr \<Rightarrow> bool"
  and canonical_let_args :: "let_expr list \<Rightarrow> bool" where
  "canonical_let (LLit n) = canonical n"
| "canonical_let (LVar x) = True"
| "canonical_let (LNeg e) = canonical_let e"
| "canonical_let (LBin op l r) = (canonical_let l \<and> canonical_let r)"
| "canonical_let (LCall f args) = canonical_let_args args"
| "canonical_let_args [] = True"
| "canonical_let_args (a # as) = (canonical_let a \<and> canonical_let_args as)"

lemma reads_let_expr:
  "plain_let e \<Longrightarrow> canonical_let e \<Longrightarrow> reads (emit_let_expr e) (map TWord (let_code e))"
  "plain_let_args as \<Longrightarrow> canonical_let_args as \<Longrightarrow>
    reads (emit_let_args as) (map TWord (let_code_args as))"
  "plain_let_args as \<Longrightarrow> canonical_let_args as \<Longrightarrow>
    (\<forall>f. ir_word f \<longrightarrow> reads (emit_let_args as @ f) (map TWord (let_code_args as @ [f])))"
proof (induction e and as rule: emit_let_expr_emit_let_args.induct)
  case (1 n)
  then show ?case by (simp add: reads_word ir_word_number)
next
  case (2 x)
  then show ?case by (simp add: reads_word ir_word_factor_local)
next
  case (3 e)
  then show ?case
    using reads_space [of "emit_let_expr e" "map TWord (let_code e)" "''math:neg''" "[TWord ''math:neg'']"]
    by (simp add: reads_word ir_word_def quote_char_def ir_blank_def)
next
  case (4 op l r)
  show ?case
  proof (cases "small_power op r")
    case (Some k)
    have "ir_word ''dup''" "ir_word ''math:*''" by (simp_all add: ir_word_def quote_char_def ir_blank_def)
    note rep = reads_repeated [OF this(1), of "k - 1"] reads_repeated [OF this(2), of "k - 1"]
    have "delimited (concat (replicate (k - 1) '' dup''))" "delimited (concat (replicate (k - 1) '' math:*''))"
      by (auto intro!: delimited_concat)
    with 4 rep have "reads (emit_let_expr l @ concat (replicate (k - 1) '' dup'') @ concat (replicate (k - 1) '' math:*''))
      (map TWord (let_code l) @ map TWord (replicate (k - 1) ''dup'') @ map TWord (replicate (k - 1) ''math:*''))"
      by (intro reads_append delimited_append) auto
    with Some show ?thesis by simp
  next
    case None
    from 4 None have "reads (emit_let_expr l) (map TWord (let_code l))"
      "reads (emit_let_expr r) (map TWord (let_code r))" by auto
    from reads_space [OF this(1) reads_space [OF this(2) reads_bin_op]] None show ?thesis by simp
  qed
next
  case (5 f as)
  then show ?case by (simp add: ir_word_call_target)
next
  case 6
  {
    case 1 then show ?case by (simp add: reads_Nil)
  next
    case 2 then show ?case by (simp add: reads_word)
  }
next
  case (7 a as)
  {
    case 1
    then show ?case using 7 reads_space [of "emit_let_expr a" "map TWord (let_code a)"] by simp
  next
    case 2
    then show ?case using 7 reads_space [of "emit_let_expr a" "map TWord (let_code a)"] by simp
  }
qed

section \<open>Literals that print with a decimal point\<close>

lemma f64_of_whole_integral:
  assumes "0 \<le> n" "f64_of_ratio s n 1 = Fin s' m e"
  shows "mantissa_integral m e"
proof (cases "n = 0")
  case True
  with assms(2) show ?thesis by (auto simp: f64_of_ratio_def mantissa_integral_def)
next
  case False
  with assms have n: "0 < n" by simp
  have one: "round_half_even k 1 = k" for k by (simp add: round_half_even_def)
  show ?thesis
  proof (cases "0 \<le> e")
    case False
    define x where "x = max (- 1074) (ratio_exponent n 1)"
    have "e = x \<or> e = x + 1" and m: "e = x \<Longrightarrow> m = round_half_even (n * 2 ^ nat (- x)) (1 * 2 ^ nat x)"
      "e = x + 1 \<Longrightarrow> m = 2 ^ 52 \<and> round_half_even (n * 2 ^ nat (- x)) (1 * 2 ^ nat x) = 2 ^ 53"
      using assms(2) by (auto simp: f64_of_ratio_unfold [OF n] Let_def simp flip: x_def split: if_splits)
    then have "x < 0" using False by linarith
    then have neg: "round_half_even (n * 2 ^ nat (- x)) (1 * 2 ^ nat x) = n * 2 ^ nat (- x)"
      by (simp add: one)
    from \<open>e = x \<or> e = x + 1\<close> show ?thesis
    proof
      assume "e = x"
      with m(1) neg show ?thesis by (simp add: mantissa_integral_def)
    next
      assume e: "e = x + 1"
      with m(2) neg have "2 * m = n * 2 ^ nat (- x)" by simp
      moreover have "nat (- x) = Suc (nat (- e))" using e False by simp
      ultimately have "m = n * 2 ^ nat (- e)" by simp
      then show ?thesis by (simp add: mantissa_integral_def)
    qed
  qed (simp add: mantissa_integral_def)
qed

lemma place_point_cases:
  "CHR ''.'' \<in> set (place_point ds t) \<or>
   (\<exists>k. place_point ds t = ds @ replicate k (CHR ''0''))"
  by (auto simp: place_point_def)

lemma nearest_text_form:
  "nearest_text x s n d k = Some t \<Longrightarrow> \<exists>j p. t = f64_sign s @ place_point (display_nat j) p"
  by (auto simp: nearest_text_def Let_def split: if_splits)

lemma shortest_text_form: "\<exists>j p. shortest_text x s m e k = f64_sign s @ place_point (display_nat j) p"
proof (induction "18 - k" arbitrary: k rule: less_induct)
  case less
  then show ?case
    by (subst shortest_text.simps)
      (auto simp: exact_text_def Let_def dest: nearest_text_form split: option.splits)
qed

text \<open>A number with a fraction is printed with a point.\<close>

lemma display_f64_point:
  assumes "canonical (Fin s m e)" "\<not> mantissa_integral m e"
  shows "CHR ''.'' \<in> set (display_f64 (Fin s m e))"
proof (rule ccontr)
  have m: "m \<noteq> 0" using assms(2) by (auto simp: mantissa_integral_def)
  assume no: "CHR ''.'' \<notin> set (display_f64 (Fin s m e))"
  obtain j p where t: "display_f64 (Fin s m e) = f64_sign s @ place_point (display_nat j) p"
    using shortest_text_form [of "Fin s m e" s m e 1] m by auto
  with no place_point_cases [of "display_nat j" p] obtain k where
    ds: "place_point (display_nat j) p = display_nat j @ replicate k (CHR ''0'')" (is "_ = ?ds") by auto
  have "list_all is_ascii_digit ?ds" "?ds \<noteq> []"
    using display_nat_digits [of j] by (auto simp: list_all_iff is_ascii_digit_def)
  then have "f64_of_ratio s (decimal_value ?ds) 1 = Fin s m e"
    using parse_f64_whole [of ?ds s] parse_display_f64 [OF assms(1)] t ds by simp
  with f64_of_whole_integral [OF decimal_value_nonneg] assms(2) show False by blast
qed

text \<open>
  The literals that Factor reads as floats: those with a fraction, and those without one below
  \<open>10 ^ 15\<close>.
\<close>

fun float_literal :: "f64 \<Rightarrow> bool" where
  "float_literal (Fin s m e) \<longleftrightarrow>
     canonical (Fin s m e) \<and> (mantissa_integral m e \<longrightarrow> integral_magnitude m e < 10 ^ 15)"
| "float_literal _ \<longleftrightarrow> False"

lemma float_literal_text:
  assumes "float_literal n"
  shows "parse_f64 (emit_let_number n) = Some n" "CHR ''.'' \<in> set (emit_let_number n)"
proof -
  obtain s m e where n: "n = Fin s m e" using assms by (cases n) auto
  with assms have c: "canonical (Fin s m e)" by simp
  show "parse_f64 (emit_let_number n) = Some n"
    using assms n parse_display_f64 [OF c] parse_display_f64_tenth [OF c]
    by (auto simp: emit_let_number_def simp del: display_f64.simps display_f64_tenth.simps)
  show "CHR ''.'' \<in> set (emit_let_number n)"
    using assms n display_f64_point [OF c]
    by (auto simp: emit_let_number_def simp del: display_f64.simps)
qed

text \<open>From \<open>10 ^ 15\<close> on a whole number is printed without a point, and Factor reads an integer.\<close>

lemma display_nat_1e15: "display_nat 1000000000000000 = ''1000000000000000''"
  by (simp add: display_nat.simps digit_char_def char_of_def bit_iff_odd)

lemma large_whole_literal:
  "emit_let_expr (LLit (Fin False 8000000000000000 (- 3))) = ''1000000000000000''"
  "parse_f64 ''1e15'' = Some (Fin False 8000000000000000 (- 3))"
proof -
  let ?x = "Fin False 8000000000000000 (- 3)"
  show "parse_f64 ''1e15'' = Some ?x" by code_simp
  have low: "parse_f64 ''1000000000000000'' = Some ?x" by code_simp
  have high: "parse_f64 ''2000000000000000'' \<noteq> Some ?x" by code_simp
  have pp: "place_point ''1'' 16 = ''1000000000000000''" "place_point ''2'' 16 = ''2000000000000000''"
    by code_simp+
  have "display_nat 1 = ''1''" "display_nat 2 = ''2''" by (simp_all add: display_nat.simps digit_char_def char_of_def bit_iff_odd)
  then have "nearest_text ?x False 8000000000000000 8 1 = Some ''1000000000000000''"
    using low high pp by (simp add: nearest_text_def point_of_def display_nat_1e15 f64_sign_def)
  then have "shortest_text ?x False 8000000000000000 (- 3) 1 = ''1000000000000000''"
    by (subst shortest_text.simps) simp
  then show "emit_let_expr (LLit ?x) = ''1000000000000000''"
    by (simp add: emit_let_number_def mantissa_integral_def integral_magnitude_def)
qed

section \<open>Running the words of an expression\<close>

text \<open>The Factor locals of an environment of LET names.\<close>

definition factor_locals :: "(string \<rightharpoonup> 'v) \<Rightarrow> string \<rightharpoonup> 'v" where
  "factor_locals env w = (case strip_prefix ''nfl-'' w of Some x \<Rightarrow> env x | None \<Rightarrow> None)"

lemma factor_locals_local [simp]: "factor_locals env (factor_local x) = env x"
  by (simp add: factor_locals_def factor_local_def)

lemma factor_locals_update [simp]: "(factor_locals env)(factor_local x \<mapsto> v) = factor_locals (env(x \<mapsto> v))"
  by (auto simp: factor_locals_def factor_local_def fun_eq_iff split: option.splits)

text \<open>A word that is neither a local nor the binding word.\<close>

definition vocabulary_word :: "string \<Rightarrow> bool" where
  "vocabulary_word w \<longleftrightarrow> strip_prefix ''nfl-'' w = None \<and> w \<noteq> '':>''"

lemma run_local:
  "env x = Some v \<Longrightarrow>
    run_words word (factor_local x # ws) (factor_locals env, st) = run_words word ws (factor_locals env, v # st)"
  by (simp add: factor_local_def factor_locals_def)

lemma run_vocabulary:
  "vocabulary_word w \<Longrightarrow> word w st = Some st' \<Longrightarrow>
    run_words word (w # ws) (factor_locals env, st) = run_words word ws (factor_locals env, st')"
  by (simp add: vocabulary_word_def factor_locals_def)

lemma run_bind:
  "run_words word ('':>'' # factor_local x # ws) (factor_locals env, v # st) =
    run_words word ws (factor_locals (env(x \<mapsto> v)), st)"
  by simp

lemma vocabulary_word_number: "float_literal n \<Longrightarrow> vocabulary_word (emit_let_number n)"
proof -
  assume n: "float_literal n"
  then obtain s m e where f: "n = Fin s m e" by (cases n) auto
  have "list_all number_char (emit_let_number n)"
    using n f by (auto simp: emit_let_number_def number_chars_sign number_chars_display_nat
        number_chars_shortest, auto simp: number_char_def is_ascii_digit_def)
  moreover have "emit_let_number n \<noteq> []" using float_literal_text(2) [OF n] by auto
  ultimately show ?thesis
    by (cases "emit_let_number n") (auto simp: vocabulary_word_def number_char_def is_ascii_digit_def)
qed

lemma vocabulary_word_call: "vocabulary_word (factor_call_target f)"
proof (cases "map_of let_functions f")
  case (Some t)
  have "list_all (\<lambda>(k, t). vocabulary_word t) let_functions"
    by (simp add: let_functions_def vocabulary_word_def)
  with Some have "vocabulary_word t" by (auto simp: list_all_iff dest!: map_of_SomeD)
  with Some show ?thesis by (simp add: factor_call_target_def)
qed (simp add: factor_call_target_def vocabulary_word_def)

lemma vocabulary_word_accessor: "vocabulary_word (factor_user_name w)"
  by (simp add: vocabulary_word_def factor_user_name_def USER_NAME_PREFIX_def)

fun float_literals :: "let_expr \<Rightarrow> bool"
  and float_literals_args :: "let_expr list \<Rightarrow> bool" where
  "float_literals (LLit n) = float_literal n"
| "float_literals (LVar x) = True"
| "float_literals (LNeg e) = float_literals e"
| "float_literals (LBin op l r) = (float_literals l \<and> float_literals r)"
| "float_literals (LCall f args) = float_literals_args args"
| "float_literals_args [] = True"
| "float_literals_args (a # as) = (float_literals a \<and> float_literals_args as)"

lemma float_literals_canonical:
  "float_literals e \<Longrightarrow> canonical_let e"
  "float_literals_args as \<Longrightarrow> canonical_let_args as"
  by (induction e and as rule: float_literals_float_literals_args.induct)
    (auto elim: float_literal.elims)

text \<open>The meaning of a form: inputs, destructured slots, WHERE bindings, results.\<close>

definition input_env :: "let_form \<Rightarrow> 'v list \<Rightarrow> string \<rightharpoonup> 'v" where
  "input_env form objs = map_of (rev (zip (map li_name (lf_inputs form)) objs))"

fun bind_destructures :: "'v let_algebra \<Rightarrow> class_slots_map \<Rightarrow> let_input list \<Rightarrow> (string \<rightharpoonup> 'v) \<Rightarrow> (string \<rightharpoonup> 'v) option" where
  "bind_destructures A cs [] env = Some env"
| "bind_destructures A cs (inp # inps) env =
    (case li_destructure inp of
       None \<Rightarrow> bind_destructures A cs inps env
     | Some d \<Rightarrow>
         (case (env (li_name inp), cs (to_ascii_lowercase (dc_class d))) of
            (Some obj, Some actual) \<Rightarrow>
              Option.bind (bind_slots A (to_ascii_lowercase (dc_class d)) obj (zip actual (dc_slots d)) env)
                (bind_destructures A cs inps)
          | _ \<Rightarrow> None))"

definition eval_form :: "'v let_algebra \<Rightarrow> class_slots_map \<Rightarrow> let_form \<Rightarrow> 'v list \<Rightarrow> 'v list option" where
  "eval_form A cs form objs =
    Option.bind (bind_destructures A cs (lf_inputs form) (input_env form objs)) (\<lambda>env1.
    Option.bind (bind_wheres A (lf_wheres form) env1) (\<lambda>env2.
    eval_let_args A env2 (lf_results form)))"

text \<open>No alias of a destructured input is the name of the input itself.\<close>

definition own_name_kept :: "let_input \<Rightarrow> bool" where
  "own_name_kept inp = (case li_destructure inp of None \<Rightarrow> True | Some d \<Rightarrow> li_name inp \<notin> set (dc_slots d))"

text \<open>The words of the body of a form.\<close>

definition slot_code :: "string \<Rightarrow> string \<Rightarrow> string \<Rightarrow> string \<Rightarrow> string list" where
  "slot_code name cls actual_slot alias =
    [factor_local name, factor_user_name (cls @ ''>'' @ actual_slot), '':>'', factor_local alias]"

definition destructure_code :: "class_slots_map \<Rightarrow> let_input \<Rightarrow> string list" where
  "destructure_code cs inp =
    (case li_destructure inp of
       None \<Rightarrow> []
     | Some d \<Rightarrow>
         (case cs (to_ascii_lowercase (dc_class d)) of
            None \<Rightarrow> []
          | Some actual \<Rightarrow> concat (map2 (slot_code (li_name inp) (to_ascii_lowercase (dc_class d))) actual (dc_slots d))))"

abbreviation destructures_code :: "class_slots_map \<Rightarrow> let_input list \<Rightarrow> string list" where
  "destructures_code cs inps \<equiv> concat (map (destructure_code cs) inps)"

definition where_code :: "string \<times> let_expr \<Rightarrow> string list" where
  "where_code w = let_code (snd w) @ ['':>'', factor_local (fst w)]"

definition form_code :: "class_slots_map \<Rightarrow> let_form \<Rightarrow> string list" where
  "form_code cs form =
    destructures_code cs (lf_inputs form) @ concat (map where_code (lf_wheres form)) @ let_code_args (lf_results form)"

text \<open>
  What the generated code relies on in Factor: a decimal number with a point is a float, the
  arithmetic words compute the operations on the top of the stack, the word of a LET function
  takes its arguments from the stack, and the accessor of a class slot reads the slot.
\<close>

lemma op_words: "'':>'' \<notin> set (ir_words (factor_bin_op op))"
proof -
  have "list_all (\<lambda>op. '':>'' \<notin> set (ir_words (factor_bin_op op)))
    [Add, Sub, Mul, Div, Pow, EqOp, NeOp, LtOp, GtOp, LeOp, GeOp]" by code_simp
  then show ?thesis by (cases op) simp_all
qed

locale let_target =
  fixes A :: "'v let_algebra"
    and word :: "string \<Rightarrow> 'v list \<Rightarrow> 'v list option"
  assumes number: "parse_f64 t = Some n \<Longrightarrow> CHR ''.'' \<in> set t \<Longrightarrow> word t st = Some (la_num A n # st)"
    and neg: "la_neg A x = Some y \<Longrightarrow> word ''math:neg'' (x # st) = Some (y # st)"
    and dup: "word ''dup'' (x # st) = Some (x # x # st)"
    and bin: "la_bin A op x y = Some z \<Longrightarrow>
      run_words word (ir_words (factor_bin_op op)) (factor_locals env, y # x # st) = Some (factor_locals env, z # st)"
    and call: "la_call A f vs = Some v \<Longrightarrow> word (factor_call_target f) (rev vs @ st) = Some (v # st)"
    and slot: "la_slot A cls s obj = Some v \<Longrightarrow>
      word (factor_user_name (cls @ ''>'' @ s)) (obj # st) = Some (v # st)"
begin

lemmas run_vocabulary_word = run_vocabulary [where word = word]

lemma run_bin:
  assumes "la_bin A op x y = Some z"
  shows "run_words word (ir_words (factor_bin_op op) @ ws) (factor_locals env, y # x # st) =
    run_words word ws (factor_locals env, z # st)"
proof -
  from op_words run_words_append [OF bin [OF assms, of env st]] show ?thesis by simp
qed

lemma run_mul:
  assumes "la_bin A Mul x y = Some z"
  shows "run_words word (''math:*'' # ws) (factor_locals env, y # x # st) =
    run_words word ws (factor_locals env, z # st)"
proof -
  have "ir_words (factor_bin_op Mul) = [''math:*'']" by code_simp
  with run_bin [OF assms, of ws env st] show ?thesis by simp
qed

lemma run_dups:
  "run_words word (replicate k ''dup'' @ ws) (factor_locals env, x # st) =
    run_words word ws (factor_locals env, x # replicate k x @ st)"
proof (induction k arbitrary: st)
  case (Suc k)
  have "vocabulary_word ''dup''" by (simp add: vocabulary_word_def)
  from run_vocabulary_word [OF this dup] Suc [of "x # st"] show ?case
    by (simp add: replicate_app_Cons_same del: run_words.simps)
qed simp

lemma power_by_mul_prefix: "power_by_mul A (i + j) x = Some z \<Longrightarrow> \<exists>y. power_by_mul A i x = Some y"
  by (induction j arbitrary: z) (auto simp: bind_eq_Some_conv)

lemma run_muls:
  assumes "power_by_mul A i x = Some y" "power_by_mul A (i + j) x = Some z"
  shows "run_words word (replicate j ''math:*'' @ ws) (factor_locals env, y # replicate j x @ st) =
    run_words word ws (factor_locals env, z # st)"
  using assms
proof (induction j arbitrary: i y)
  case (Suc j)
  from Suc.prems(2) have z: "power_by_mul A (Suc i + j) x = Some z" by simp
  then obtain w where w: "power_by_mul A (Suc i) x = Some w" using power_by_mul_prefix by blast
  with Suc.prems(1) have "la_bin A Mul x y = Some w" by simp
  from run_mul [OF this] Suc.IH [OF w z] show ?case by (simp del: run_words.simps)
qed simp

lemma run_let_code:
  "float_literals e \<Longrightarrow> (\<forall>v. eval_let A env e = Some v \<longrightarrow>
    (\<forall>ws st. run_words word (let_code e @ ws) (factor_locals env, st) = run_words word ws (factor_locals env, v # st)))"
  "float_literals_args as \<Longrightarrow> (\<forall>vs. eval_let_args A env as = Some vs \<longrightarrow>
    (\<forall>ws st. run_words word (let_code_args as @ ws) (factor_locals env, st) = run_words word ws (factor_locals env, rev vs @ st)))"
proof (induction e and as rule: emit_let_expr_emit_let_args.induct)
  case (1 n)
  then show ?case
    using run_vocabulary_word [OF vocabulary_word_number number [OF float_literal_text]]
    by (simp del: run_words.simps float_literal.simps)
next
  case (2 x)
  then show ?case by (simp add: run_local del: run_words.simps)
next
  case (3 e)
  have "vocabulary_word ''math:neg''" by (simp add: vocabulary_word_def)
  from run_vocabulary_word [OF this neg] 3 show ?case
    by (auto simp: bind_eq_Some_conv simp del: run_words.simps)
next
  case (4 op l r)
  show ?case
  proof (cases "small_power op r")
    case (Some k)
    with 4 show ?thesis
      using run_muls [of 0] by (auto simp: bind_eq_Some_conv run_dups simp del: run_words.simps)
  next
    case None
    with 4 show ?thesis by (auto simp: bind_eq_Some_conv run_bin simp del: run_words.simps)
  qed
next
  case (5 f as)
  then show ?case
    using run_vocabulary_word [OF vocabulary_word_call call]
    by (auto simp: bind_eq_Some_conv simp del: run_words.simps)
next
  case 6
  then show ?case by simp
next
  case (7 a as)
  then show ?case by (auto simp: bind_eq_Some_conv simp del: run_words.simps)
qed

lemma run_slots:
  assumes "bind_slots A cls obj (zip actual aliases) env = Some env'" "env x = Some obj" "x \<notin> set aliases"
  shows "run_words word (concat (map2 (slot_code x cls) actual aliases) @ ws) (factor_locals env, st) =
      run_words word ws (factor_locals env', st) \<and> env' x = Some obj"
  using assms
proof (induction actual aliases arbitrary: env rule: list_induct2')
  case (4 s ss a as)
  from "4.prems"(1) obtain v where v: "la_slot A cls s obj = Some v"
    "bind_slots A cls obj (zip ss as) (env(a \<mapsto> v)) = Some env'" by (auto simp: bind_eq_Some_conv)
  have x: "(env(a \<mapsto> v)) x = Some obj" "x \<notin> set as" using "4.prems" by auto
  have "run_words word (slot_code x cls s a @ us) (factor_locals env, st) =
      run_words word us (factor_locals (env(a \<mapsto> v)), st)" for us
    using run_local [where env = env and x = x, OF "4.prems"(2)] run_vocabulary_word [OF vocabulary_word_accessor slot [OF v(1)]]
    by (simp add: slot_code_def)
  moreover have "run_words word (concat (map2 (slot_code x cls) ss as) @ ws) (factor_locals (env(a \<mapsto> v)), st) =
      run_words word ws (factor_locals env', st) \<and> env' x = Some obj"
    by (rule "4.IH" [OF v(2) x])
  ultimately show ?case by simp
qed simp_all

lemma run_destructures:
  assumes "bind_destructures A cs inps env = Some env'" "\<forall>inp\<in>set inps. own_name_kept inp"
  shows "run_words word (destructures_code cs inps @ ws) (factor_locals env, st) =
      run_words word ws (factor_locals env', st)"
  using assms
proof (induction inps arbitrary: env)
  case (Cons inp inps)
  show ?case
  proof (cases "li_destructure inp")
    case None
    with Cons show ?thesis by (simp add: destructure_code_def)
  next
    case (Some d)
    let ?cls = "to_ascii_lowercase (dc_class d)"
    from Some Cons.prems obtain obj actual env1 where e:
      "env (li_name inp) = Some obj" "cs ?cls = Some actual"
      "bind_slots A ?cls obj (zip actual (dc_slots d)) env = Some env1"
      "bind_destructures A cs inps env1 = Some env'"
      by (auto simp: bind_eq_Some_conv split: option.splits)
    have "li_name inp \<notin> set (dc_slots d)" using Cons.prems(2) Some by (simp add: own_name_kept_def)
    from run_slots [OF e(3,1) this] Cons.IH [OF e(4)] Cons.prems(2) Some e(2)
    show ?thesis by (simp add: destructure_code_def)
  qed
qed simp

lemma run_wheres:
  assumes "bind_wheres A wheres env = Some env'" "\<forall>w\<in>set wheres. float_literals (snd w)"
  shows "run_words word (concat (map where_code wheres) @ ws) (factor_locals env, st) =
    run_words word ws (factor_locals env', st)"
  using assms
proof (induction wheres arbitrary: env)
  case (Cons w wheres)
  obtain x e where w: "w = (x, e)" by (cases w)
  with Cons.prems obtain v where "eval_let A env e = Some v" "bind_wheres A wheres (env(x \<mapsto> v)) = Some env'"
    by (auto simp: bind_eq_Some_conv)
  with Cons w run_let_code(1) [of e env] show ?case by (simp add: where_code_def)
qed simp

lemma run_results:
  assumes "eval_let_args A env rs = Some vs" "\<forall>r\<in>set rs. float_literals r"
  shows "run_words word (let_code_args rs) (factor_locals env, []) = Some (factor_locals env, rev vs)"
proof -
  have "float_literals_args rs" using assms(2) by (induction rs) auto
  with assms(1) run_let_code(2) [of rs env] have
    "run_words word (let_code_args rs @ []) (factor_locals env, []) = run_words word [] (factor_locals env, rev vs @ [])"
    by blast
  then show ?thesis by simp
qed

lemma run_form:
  assumes "eval_form A cs form objs = Some vs"
    "\<forall>inp\<in>set (lf_inputs form). own_name_kept inp"
    "\<forall>w\<in>set (lf_wheres form). float_literals (snd w)" "\<forall>r\<in>set (lf_results form). float_literals r"
  shows "\<exists>env. run_words word (form_code cs form) (factor_locals (input_env form objs), []) =
    Some (factor_locals env, rev vs)"
proof -
  from assms(1) obtain env1 env2 where e: "bind_destructures A cs (lf_inputs form) (input_env form objs) = Some env1"
    "bind_wheres A (lf_wheres form) env1 = Some env2" "eval_let_args A env2 (lf_results form) = Some vs"
    by (auto simp: eval_form_def bind_eq_Some_conv)
  show ?thesis
    using run_destructures [OF e(1) assms(2)] run_wheres [OF e(2) assms(3)] run_results [OF e(3) assms(4)]
    by (auto simp: form_code_def)
qed

end

section \<open>Reading the text of a form\<close>

definition plain_form :: "let_form \<Rightarrow> bool" where
  "plain_form form \<longleftrightarrow>
    (\<forall>inp\<in>set (lf_inputs form). plain_name (li_name inp) \<and>
       (case li_destructure inp of None \<Rightarrow> True
        | Some d \<Rightarrow> plain_name (to_ascii_lowercase (dc_class d)) \<and> list_all plain_name (dc_slots d))) \<and>
    (\<forall>w\<in>set (lf_wheres form). plain_name (fst w) \<and> plain_let (snd w)) \<and>
    (\<forall>r\<in>set (lf_results form). plain_let r)"

definition plain_slots :: "class_slots_map \<Rightarrow> bool" where
  "plain_slots cs \<longleftrightarrow> (\<forall>c ss. cs c = Some ss \<longrightarrow> list_all plain_name ss)"

lemma ir_word_user_name: "plain_name w \<Longrightarrow> ir_word (factor_user_name w)"
  by (simp add: plain_name_def factor_user_name_def USER_NAME_PREFIX_def ir_word_def quote_char_def ir_blank_def)

lemma ir_word_bind: "ir_word '':>''"
  by (simp add: ir_word_def quote_char_def ir_blank_def)

lemma reads_words:
  assumes "list_all ir_word ws" "ws \<noteq> []"
  shows "reads (hd ws @ concat (map (\<lambda>w. '' '' @ w) (tl ws))) (map TWord ws)"
  using assms
proof (induction ws)
  case (Cons w ws)
  show ?case
  proof (cases ws)
    case (Cons v vs)
    with Cons.IH Cons.prems have "reads w [TWord w]" "reads (v @ concat (map (\<lambda>w. '' '' @ w) vs)) (map TWord ws)"
      by (simp_all add: reads_word)
    from reads_space [OF this] Cons show ?thesis by simp
  qed (use Cons.prems in \<open>simp add: reads_word\<close>)
qed simp

lemma slot_binding_pieces:
  "slot_binding name cls s a =
    (factor_local name @ concat (map (\<lambda>w. '' '' @ w) [factor_user_name (cls @ ''>'' @ s), '':>'', factor_local a])) @ '' ''"
  by (simp add: slot_binding_def)

lemma reads_slots:
  assumes "list_all plain_name actual" "list_all plain_name aliases" "plain_name name" "plain_name cls" "reads u us"
  shows "reads (concat (map2 (slot_binding name cls) actual aliases) @ u)
    (map TWord (concat (map2 (slot_code name cls) actual aliases)) @ us)"
  using assms(1,2)
proof (induction actual aliases rule: list_induct2')
  case (4 s ss a as)
  have "plain_name (cls @ ''>'' @ s)" using 4 assms(4) by (simp add: plain_name_def ir_blank_def)
  then have "list_all ir_word (slot_code name cls s a)"
    using 4 assms(3) by (simp add: slot_code_def ir_word_factor_local ir_word_user_name ir_word_bind)
  from reads_words [OF this] have
    "reads (factor_local name @ concat (map (\<lambda>w. '' '' @ w) [factor_user_name (cls @ ''>'' @ s), '':>'', factor_local a]))
      (map TWord (slot_code name cls s a))" by (simp add: slot_code_def)
  from reads_space [OF this] 4 show ?case by (simp add: slot_binding_pieces)
qed (use assms(5) in simp_all)

lemma reads_destructures:
  assumes "destructure_inputs cs inps = Ok b" "plain_slots cs" "reads u us"
    "\<forall>inp\<in>set inps. plain_name (li_name inp) \<and>
       (case li_destructure inp of None \<Rightarrow> True
        | Some d \<Rightarrow> plain_name (to_ascii_lowercase (dc_class d)) \<and> list_all plain_name (dc_slots d))"
  shows "reads (b @ u) (map TWord (destructures_code cs inps) @ us)"
  using assms(1,4)
proof (induction inps arbitrary: b)
  case (Cons inp inps)
  then obtain b1 b2 where b: "destructure_input cs inp = Ok b1" "destructure_inputs cs inps = Ok b2" "b = b1 @ b2"
    by auto
  with Cons have rest: "reads (b2 @ u) (map TWord (destructures_code cs inps) @ us)" by simp
  show ?case
  proof (cases "li_destructure inp")
    case None
    with b rest show ?thesis by (simp add: destructure_input_def destructure_code_def [of cs inp])
  next
    case (Some d)
    with b(1) obtain actual where a: "cs (to_ascii_lowercase (dc_class d)) = Some actual"
      "b1 = concat (map2 (slot_binding (li_name inp) (to_ascii_lowercase (dc_class d))) actual (dc_slots d))"
      by (auto simp: destructure_input_def Let_def split: option.splits if_splits)
    have "list_all plain_name actual" using a(1) assms(2) by (auto simp: plain_slots_def)
    from reads_slots [OF this _ _ _ rest, of "dc_slots d" "li_name inp" "to_ascii_lowercase (dc_class d)"]
    show ?thesis using Some a b(3) Cons.prems(2) by (simp add: destructure_code_def [of cs inp])
  qed
qed (use assms(3) in simp)

lemma reads_where:
  assumes "plain_let (snd w)" "canonical_let (snd w)" "plain_name (fst w)"
  shows "reads (emit_let_expr (snd w) @ '' :> '' @ factor_local (fst w)) (map TWord (where_code w))"
  using reads_space [OF reads_let_expr(1) [OF assms(1,2)]
      reads_space [OF reads_word [OF ir_word_bind] reads_word [OF ir_word_factor_local [OF assms(3)]]]]
  by (simp add: where_code_def)

lemma let_code_args_concat: "let_code_args as = concat (map let_code as)"
  by (induction as) auto

definition literals_ok :: "let_form \<Rightarrow> bool" where
  "literals_ok form \<longleftrightarrow>
    (\<forall>w\<in>set (lf_wheres form). float_literals (snd w)) \<and> (\<forall>r\<in>set (lf_results form). float_literals r)"

lemma lower_to_factor_body:
  assumes "lower_to_factor form cs = Ok text" "plain_form form" "plain_slots cs" "literals_ok form"
  shows "\<exists>body. text = ''[| '' @ input_names form @ ''| '' @ body @ ''] call( '' @ input_names form @ ''-- ''
      @ concat (map (\<lambda>outp. factor_local outp @ '' '') (lf_outputs form)) @ '')'' \<and>
    (\<forall>u us. reads u us \<longrightarrow> reads (body @ u) (map TWord (form_code cs form) @ us))"
proof -
  from assms(1) obtain b where b: "destructure_inputs cs (lf_inputs form) = Ok b"
    and out: "text = ''[| '' @ input_names form @ ''| '' @ b
      @ concat (map emit_where (lf_wheres form)) @ concat (map (\<lambda>r. emit_let_expr r @ '' '') (lf_results form))
      @ ''] call( '' @ input_names form @ ''-- ''
      @ concat (map (\<lambda>outp. factor_local outp @ '' '') (lf_outputs form)) @ '')''"
    by (auto simp: lower_to_factor_def)
  have wheres: "emit_where = (\<lambda>w. (emit_let_expr (snd w) @ '' :> '' @ factor_local (fst w)) @ '' '')"
    by (simp add: emit_where_def fun_eq_iff)
  let ?body = "b @ concat (map emit_where (lf_wheres form)) @ concat (map (\<lambda>r. emit_let_expr r @ '' '') (lf_results form))"
  have "reads (?body @ u) (map TWord (form_code cs form) @ us)" if u: "reads u us" for u us
  proof -
    have "\<forall>r\<in>set (lf_results form). reads (emit_let_expr r) (map TWord (let_code r))"
      using assms(2,4) by (auto simp: plain_form_def literals_ok_def intro!: reads_let_expr(1) float_literals_canonical(1))
    from reads_pieces [OF this u]
    have r: "reads (concat (map (\<lambda>r. emit_let_expr r @ '' '') (lf_results form)) @ u)
        (map TWord (let_code_args (lf_results form)) @ us)"
      by (simp add: let_code_args_concat map_concat o_def)
    have "\<forall>w\<in>set (lf_wheres form). reads (emit_let_expr (snd w) @ '' :> '' @ factor_local (fst w)) (map TWord (where_code w))"
    proof
      fix w assume "w \<in> set (lf_wheres form)"
      then show "reads (emit_let_expr (snd w) @ '' :> '' @ factor_local (fst w)) (map TWord (where_code w))"
        using assms(2,4) float_literals_canonical(1) [of "snd w"]
        by (intro reads_where) (auto simp: plain_form_def literals_ok_def)
    qed
    from reads_pieces [OF this r]
    have w: "reads (concat (map emit_where (lf_wheres form)) @ concat (map (\<lambda>r. emit_let_expr r @ '' '') (lf_results form)) @ u)
        (map TWord (concat (map where_code (lf_wheres form)) @ let_code_args (lf_results form)) @ us)"
      by (simp add: wheres map_concat o_def)
    from reads_destructures [OF b assms(3) w] assms(2) show ?thesis
      by (simp add: plain_form_def form_code_def)
  qed
  then show ?thesis using out by (intro exI [of _ ?body]) simp
qed

text \<open>The words of the whole text.\<close>

lemma reads_names:
  assumes "\<forall>x\<in>set xs. plain_name x" "reads u us"
  shows "reads (concat (map (\<lambda>x. factor_local x @ '' '') xs) @ u) (map (TWord \<circ> factor_local) xs @ us)"
  using reads_pieces [of xs factor_local "\<lambda>x. [TWord (factor_local x)]" u us] assms
  by (simp add: reads_word ir_word_factor_local o_def)

lemma reads_word_space: "ir_word w \<Longrightarrow> reads u us \<Longrightarrow> reads (w @ '' '' @ u) (TWord w # us)"
  using reads_space [OF reads_word] by fastforce

lemma ir_words_form:
  assumes "lower_to_factor form cs = Ok text" "plain_form form" "plain_slots cs" "literals_ok form"
    "list_all plain_name (lf_outputs form)"
  shows "ir_words text = ''[|'' # map (factor_local \<circ> li_name) (lf_inputs form) @ ''|'' # form_code cs form
    @ '']'' # ''call('' # map (factor_local \<circ> li_name) (lf_inputs form) @ ''--'' # map factor_local (lf_outputs form) @ ['')'']"
proof -
  from lower_to_factor_body [OF assms(1-4)] obtain body where
    shape: "text = ''[|'' @ '' '' @ input_names form @ ''|'' @ '' '' @ body @ '']'' @ '' '' @ ''call('' @ '' '' @ input_names form
      @ ''--'' @ '' '' @ concat (map (\<lambda>outp. factor_local outp @ '' '') (lf_outputs form)) @ '')''"
    and body: "\<And>u us. reads u us \<Longrightarrow> reads (body @ u) (map TWord (form_code cs form) @ us)" by auto
  have ins: "reads (input_names form @ u) (map (TWord \<circ> factor_local \<circ> li_name) (lf_inputs form) @ us)" if "reads u us" for u us
    using assms(2) reads_names [OF _ that, of "map li_name (lf_inputs form)"]
    by (simp add: plain_form_def input_names_def o_def)
  have marks: "ir_word ''[|''" "ir_word ''|''" "ir_word '']''" "ir_word ''call(''" "ir_word ''--''" "ir_word '')''"
    by (simp_all add: ir_word_def quote_char_def ir_blank_def)
  have outs: "\<forall>x\<in>set (lf_outputs form). plain_name x" using assms(5) by (simp add: list_all_iff)
  have "reads text (map TWord (''[|'' # map (factor_local \<circ> li_name) (lf_inputs form) @ ''|'' # form_code cs form
    @ '']'' # ''call('' # map (factor_local \<circ> li_name) (lf_inputs form) @ ''--'' # map factor_local (lf_outputs form) @ ['')'']))"
    using reads_word_space [OF marks(1) ins [OF reads_word_space [OF marks(2) body [OF reads_word_space [OF marks(3)
      reads_word_space [OF marks(4) ins [OF reads_word_space [OF marks(5) reads_names [OF outs reads_word [OF marks(6)]]]]]]]]]]
    by (simp add: shape o_assoc)
  then show ?thesis by (rule ir_words_reads)
qed

section \<open>Calling the text of a form\<close>

text \<open>
  Factor's reading of \<^verbatim>\<open>[| a b | ... ] call( ... )\<close>: the names take the top values of the stack,
  the last name the top, the words up to the bracket run, and their results replace the inputs.
\<close>

definition call_quotation :: "(string \<Rightarrow> 'v list \<Rightarrow> 'v list option) \<Rightarrow> string \<Rightarrow> 'v list \<Rightarrow> 'v list option" where
  "call_quotation word text st =
    (case ir_words text of
       [] \<Rightarrow> None
     | w # ws \<Rightarrow>
         (let ins = takeWhile (\<lambda>w. w \<noteq> ''|'') ws;
              body = takeWhile (\<lambda>w. w \<noteq> '']'') (tl (dropWhile (\<lambda>w. w \<noteq> ''|'') ws)) in
          if w \<noteq> ''[|'' \<or> length st < length ins then None
          else map_option (\<lambda>(env, results). results @ drop (length ins) st)
            (run_words word body (map_of (rev (zip ins (rev (take (length ins) st)))), []))))"

definition not_bracket :: "string \<Rightarrow> bool" where
  "not_bracket w \<longleftrightarrow> w \<noteq> '']''"

lemma not_bracket_names: "not_bracket (factor_local x)" "not_bracket (factor_user_name x)" "not_bracket '':>''"
  by (simp_all add: not_bracket_def factor_local_def factor_user_name_def USER_NAME_PREFIX_def)

lemma not_bracket_op: "list_all not_bracket (ir_words (factor_bin_op op))"
proof -
  have "list_all (\<lambda>op. list_all not_bracket (ir_words (factor_bin_op op)))
    [Add, Sub, Mul, Div, Pow, EqOp, NeOp, LtOp, GtOp, LeOp, GeOp]" by code_simp
  then show ?thesis by (cases op) simp_all
qed

lemma not_bracket_call: "not_bracket (factor_call_target f)"
proof (cases "map_of let_functions f")
  case (Some t)
  have "list_all (\<lambda>(k, t). not_bracket t) let_functions"
    by (simp add: let_functions_def not_bracket_def)
  with Some have "not_bracket t" by (auto simp: list_all_iff dest!: map_of_SomeD)
  with Some show ?thesis by (simp add: factor_call_target_def)
qed (simp add: factor_call_target_def not_bracket_def)

lemma not_bracket_number: "float_literal n \<Longrightarrow> not_bracket (emit_let_number n)"
  using float_literal_text(2) [of n] by (auto simp: not_bracket_def)

lemma not_bracket_let_code:
  "float_literals e \<Longrightarrow> list_all not_bracket (let_code e)"
  "float_literals_args as \<Longrightarrow> list_all not_bracket (let_code_args as)"
  by (induction e and as rule: float_literals_float_literals_args.induct)
    (auto simp: not_bracket_names not_bracket_op not_bracket_call not_bracket_number list_all_iff [of _ "replicate _ _"]
      not_bracket_def [of "''dup''"] not_bracket_def [of "''math:*''"] not_bracket_def [of "''math:neg''"]
      simp del: float_literal.simps split: option.splits)

lemma not_bracket_slots: "list_all not_bracket (concat (map2 (slot_code x cls) actual aliases))"
  by (induction actual aliases rule: list_induct2') (simp_all add: slot_code_def not_bracket_names)

lemma list_all_concat: "(\<forall>xs\<in>set xss. list_all P xs) \<Longrightarrow> list_all P (concat xss)"
  by (induction xss) auto

lemma not_bracket_form_code:
  assumes "literals_ok form"
  shows "list_all not_bracket (form_code cs form)"
proof -
  have "list_all not_bracket (destructure_code cs inp)" for inp
    by (simp add: destructure_code_def not_bracket_slots split: option.splits)
  moreover have "list_all not_bracket (where_code w)" if "w \<in> set (lf_wheres form)" for w
    using that assms by (simp add: where_code_def literals_ok_def not_bracket_let_code(1) not_bracket_names)
  moreover have "list_all not_bracket (let_code r)" if "r \<in> set (lf_results form)" for r
    using that assms by (simp add: literals_ok_def not_bracket_let_code(1))
  ultimately show ?thesis
    by (simp add: form_code_def let_code_args_concat list_all_concat)
qed

lemma factor_locals_map_of: "map_of (map (\<lambda>(x, v). (factor_local x, v)) l) = factor_locals (map_of l)"
proof (induction l)
  case Nil
  show ?case by (auto simp: factor_locals_def fun_eq_iff split: option.splits)
next
  case (Cons p l)
  obtain x v where "p = (x, v)" by (cases p)
  with Cons factor_locals_update [of "map_of l" x v] show ?case by (simp add: fun_upd_def)
qed

lemma input_locals:
  "map_of (rev (zip (map (factor_local \<circ> li_name) inps) objs)) = factor_locals (map_of (rev (zip (map li_name inps) objs)))"
  by (simp add: zip_map1 rev_map o_def flip: factor_locals_map_of)
    (simp add: case_prod_unfold)

text \<open>
  C24. A LET form computes its algebraic meaning: the emitted quotation, read back word by word and
  called on the input values in order on the data stack, leaves the values of the result expressions
  on top of the rest of the stack, the last result uppermost.
\<close>

theorem let_form_computes:
  assumes "let_target A word"
    and "lower_to_factor form cs = Ok text"
    and "plain_form form" "plain_slots cs" "list_all plain_name (lf_outputs form)"
    and "literals_ok form"
    and "\<forall>inp\<in>set (lf_inputs form). own_name_kept inp"
    and "length objs = length (lf_inputs form)"
    and "eval_form A cs form objs = Some vs"
  shows "call_quotation word text (rev objs @ st) = Some (rev vs @ st)"
proof -
  let ?ins = "map (factor_local \<circ> li_name) (lf_inputs form)"
  note words = ir_words_form [OF assms(2-4,6,5)]
  from let_target.run_form [OF assms(1,9,7)] assms(6) obtain env where
    run: "run_words word (form_code cs form) (factor_locals (input_env form objs), []) = Some (factor_locals env, rev vs)"
    by (auto simp: literals_ok_def)
  have bar: "takeWhile (\<lambda>w. w \<noteq> ''|'') (?ins @ ''|'' # us) = ?ins" "dropWhile (\<lambda>w. w \<noteq> ''|'') (?ins @ ''|'' # us) = ''|'' # us" for us
    by (subst takeWhile_append2 dropWhile_append2; auto simp: factor_local_def)+
  have bracket: "takeWhile (\<lambda>w. w \<noteq> '']'') (form_code cs form @ '']'' # us) = form_code cs form" for us
    using not_bracket_form_code [OF assms(6), of cs]
    by (subst takeWhile_append2) (auto simp: list_all_iff not_bracket_def)
  have env: "map_of (rev (zip ?ins objs)) = factor_locals (input_env form objs)"
    by (simp add: input_locals input_env_def)
  show ?thesis using assms(8) run by (simp add: call_quotation_def words bar bracket env)
qed

section \<open>Rational numbers as a target\<close>

datatype rat_value = RNum rat | RSpecial f64 | RBool bool | RObj "(string \<times> rat) list"

fun f64_rat :: "f64 \<Rightarrow> rat_value" where
  "f64_rat (Fin s m e) = RNum ((if s then - 1 else 1) * of_int m * 2 powi e)"
| "f64_rat x = RSpecial x"

definition rat_flag :: "bool \<Rightarrow> rat_value" where
  "rat_flag b = RNum (if b then 1 else 0)"

fun rat_bin :: "bin_op \<Rightarrow> rat_value \<Rightarrow> rat_value \<Rightarrow> rat_value option" where
  "rat_bin Add (RNum x) (RNum y) = Some (RNum (x + y))"
| "rat_bin Sub (RNum x) (RNum y) = Some (RNum (x - y))"
| "rat_bin Mul (RNum x) (RNum y) = Some (RNum (x * y))"
| "rat_bin Div (RNum x) (RNum y) = (if y = 0 then None else Some (RNum (x / y)))"
| "rat_bin EqOp (RNum x) (RNum y) = Some (rat_flag (x = y))"
| "rat_bin NeOp (RNum x) (RNum y) = Some (rat_flag (x \<noteq> y))"
| "rat_bin LtOp (RNum x) (RNum y) = Some (rat_flag (x < y))"
| "rat_bin GtOp (RNum x) (RNum y) = Some (rat_flag (x > y))"
| "rat_bin LeOp (RNum x) (RNum y) = Some (rat_flag (x \<le> y))"
| "rat_bin GeOp (RNum x) (RNum y) = Some (rat_flag (x \<ge> y))"
| "rat_bin _ _ _ = None"

fun rat_call :: "string \<Rightarrow> rat_value list \<Rightarrow> rat_value option" where
  "rat_call f [RNum x] =
    (if f = ''abs'' then Some (RNum \<bar>x\<bar>)
     else if f = ''floor'' then Some (RNum (of_int \<lfloor>x\<rfloor>))
     else if f = ''ceil'' then Some (RNum (of_int \<lceil>x\<rceil>)) else None)"
| "rat_call f [RNum x, RNum y] =
    (if f = ''min'' then Some (RNum (min x y)) else if f = ''max'' then Some (RNum (max x y)) else None)"
| "rat_call f _ = None"

fun rat_neg :: "rat_value \<Rightarrow> rat_value option" where
  "rat_neg (RNum x) = Some (RNum (- x))"
| "rat_neg _ = None"

fun rat_slot :: "string \<Rightarrow> string \<Rightarrow> rat_value \<Rightarrow> rat_value option" where
  "rat_slot cls s (RObj fs) = map_option RNum (map_of fs (factor_user_name (cls @ ''>'' @ s)))"
| "rat_slot cls s _ = None"

definition rat_algebra :: "rat_value let_algebra" where
  "rat_algebra = \<lparr>la_num = f64_rat, la_neg = rat_neg, la_bin = rat_bin, la_call = rat_call, la_slot = rat_slot\<rparr>"

fun rat1 :: "(rat \<Rightarrow> rat) \<Rightarrow> rat_value list \<Rightarrow> rat_value list option" where
  "rat1 f (RNum x # st) = Some (RNum (f x) # st)"
| "rat1 f _ = None"

fun rat2 :: "(rat \<Rightarrow> rat \<Rightarrow> rat_value option) \<Rightarrow> rat_value list \<Rightarrow> rat_value list option" where
  "rat2 f (RNum y # RNum x # st) = map_option (\<lambda>z. z # st) (f x y)"
| "rat2 f _ = None"

fun rat_not :: "rat_value list \<Rightarrow> rat_value list option" where
  "rat_not (RBool b # st) = Some (RBool (\<not> b) # st)"
| "rat_not _ = None"

fun rat_choose :: "rat_value list \<Rightarrow> rat_value list option" where
  "rat_choose (y # x # RBool b # st) = Some ((if b then x else y) # st)"
| "rat_choose _ = None"

fun rat_dup :: "rat_value list \<Rightarrow> rat_value list option" where
  "rat_dup (x # st) = Some (x # x # st)"
| "rat_dup _ = None"

definition rat_vocabulary :: "(string \<times> (rat_value list \<Rightarrow> rat_value list option)) list" where
  "rat_vocabulary =
    [(''dup'', rat_dup), (''math:neg'', rat1 uminus),
     (''math:+'', rat2 (\<lambda>x y. Some (RNum (x + y)))), (''math:-'', rat2 (\<lambda>x y. Some (RNum (x - y)))),
     (''math:*'', rat2 (\<lambda>x y. Some (RNum (x * y)))),
     (''math:/'', rat2 (\<lambda>x y. if y = 0 then None else Some (RNum (x / y)))),
     (''kernel:='', rat2 (\<lambda>x y. Some (RBool (x = y)))), (''math.order:<'', rat2 (\<lambda>x y. Some (RBool (x < y)))),
     (''math.order:>'', rat2 (\<lambda>x y. Some (RBool (x > y)))), (''math.order:<='', rat2 (\<lambda>x y. Some (RBool (x \<le> y)))),
     (''math.order:>='', rat2 (\<lambda>x y. Some (RBool (x \<ge> y)))), (''kernel:not'', rat_not), (''kernel:?'', rat_choose),
     (''math:abs'', rat1 abs), (''math.functions:floor'', rat1 (\<lambda>x. of_int \<lfloor>x\<rfloor>)),
     (''math.functions:ceiling'', rat1 (\<lambda>x. of_int \<lceil>x\<rceil>)),
     (''math.order:min'', rat2 (\<lambda>x y. Some (RNum (min x y)))), (''math.order:max'', rat2 (\<lambda>x y. Some (RNum (max x y))))]"

fun rat_access :: "string \<Rightarrow> rat_value list \<Rightarrow> rat_value list option" where
  "rat_access w (RObj fs # st) = map_option (\<lambda>x. RNum x # st) (map_of fs w)"
| "rat_access w _ = None"

definition rat_word :: "string \<Rightarrow> rat_value list \<Rightarrow> rat_value list option" where
  "rat_word w st =
    (case map_of rat_vocabulary w of
       Some f \<Rightarrow> f st
     | None \<Rightarrow> if starts_with ''z-'' w then rat_access w st
               else map_option (\<lambda>n. f64_rat n # st) (parse_f64 w))"

lemma rat_vocabulary_no_number: "list_all (\<lambda>(w, f). parse_f64 w = None \<and> \<not> starts_with ''z-'' w) rat_vocabulary"
  by (simp add: rat_vocabulary_def) code_simp

lemma rat_word_number:
  assumes "parse_f64 t = Some n"
  shows "rat_word t st = Some (f64_rat n # st)"
proof -
  have "t \<notin> fst ` set rat_vocabulary"
    using rat_vocabulary_no_number assms by (auto simp: list_all_iff)
  then have "map_of rat_vocabulary t = None" by (simp add: map_of_eq_None_iff)
  moreover have "\<not> starts_with ''z-'' t"
  proof
    assume "starts_with ''z-'' t"
    then obtain u where "t = ''z-'' @ u" by (cases t; cases "tl t"; auto simp: starts_with_def split: if_splits)
    with assms show False
      by (simp add: parse_f64_def parse_number_def span_digits_def is_ascii_digit_def to_ascii_lowercase_def
          ascii_lower_def is_ascii_uppercase_def)
  qed
  ultimately show ?thesis using assms by (simp add: rat_word_def)
qed

lemma rat_word_constants:
  "rat_word ''1.0'' st = Some (RNum 1 # st)" "rat_word ''0.0'' st = Some (RNum 0 # st)"
proof -
  have "parse_f64 ''1.0'' = Some (Fin False 4503599627370496 (- 52))" "parse_f64 ''0.0'' = Some (Fin False 0 (- 1074))"
    by code_simp+
  then show "rat_word ''1.0'' st = Some (RNum 1 # st)" "rat_word ''0.0'' st = Some (RNum 0 # st)"
    by (simp_all add: rat_word_number power_int_def power_one_over)
qed

text \<open>The laws hold for the rational numbers.\<close>

lemma rat_vocabulary_word: "map_of rat_vocabulary w = Some f \<Longrightarrow> rat_word w st = f st"
  by (simp add: rat_word_def)

lemma rat_bin_Some:
  "rat_bin op a b = Some c \<Longrightarrow> \<exists>x y. a = RNum x \<and> b = RNum y"
  by (induction op a b rule: rat_bin.induct) auto

lemma run_rat_constants:
  "run_words rat_word (''1.0'' # ws) (factor_locals env, st) = run_words rat_word ws (factor_locals env, RNum 1 # st)"
  "run_words rat_word (''0.0'' # ws) (factor_locals env, st) = run_words rat_word ws (factor_locals env, RNum 0 # st)"
  by (rule run_vocabulary; simp add: vocabulary_word_def rat_word_constants)+

lemma bin_op_words:
  "ir_words (factor_bin_op Add) = [''math:+'']" "ir_words (factor_bin_op Sub) = [''math:-'']"
  "ir_words (factor_bin_op Mul) = [''math:*'']" "ir_words (factor_bin_op Div) = [''math:/'']"
  "ir_words (factor_bin_op EqOp) = [''kernel:='', ''1.0'', ''0.0'', ''kernel:?'']"
  "ir_words (factor_bin_op NeOp) = [''kernel:='', ''kernel:not'', ''1.0'', ''0.0'', ''kernel:?'']"
  "ir_words (factor_bin_op LtOp) = [''math.order:<'', ''1.0'', ''0.0'', ''kernel:?'']"
  "ir_words (factor_bin_op GtOp) = [''math.order:>'', ''1.0'', ''0.0'', ''kernel:?'']"
  "ir_words (factor_bin_op LeOp) = [''math.order:<='', ''1.0'', ''0.0'', ''kernel:?'']"
  "ir_words (factor_bin_op GeOp) = [''math.order:>='', ''1.0'', ''0.0'', ''kernel:?'']"
  by code_simp+

lemma rat_word_steps:
  "rat_word ''math:+'' (RNum y # RNum x # st) = Some (RNum (x + y) # st)"
  "rat_word ''math:-'' (RNum y # RNum x # st) = Some (RNum (x - y) # st)"
  "rat_word ''math:*'' (RNum y # RNum x # st) = Some (RNum (x * y) # st)"
  "y \<noteq> 0 \<Longrightarrow> rat_word ''math:/'' (RNum y # RNum x # st) = Some (RNum (x / y) # st)"
  "rat_word ''kernel:='' (RNum y # RNum x # st) = Some (RBool (x = y) # st)"
  "rat_word ''kernel:not'' (RBool b # st) = Some (RBool (\<not> b) # st)"
  "rat_word ''math.order:<'' (RNum y # RNum x # st) = Some (RBool (x < y) # st)"
  "rat_word ''math.order:>'' (RNum y # RNum x # st) = Some (RBool (x > y) # st)"
  "rat_word ''math.order:<='' (RNum y # RNum x # st) = Some (RBool (x \<le> y) # st)"
  "rat_word ''math.order:>='' (RNum y # RNum x # st) = Some (RBool (x \<ge> y) # st)"
  "rat_word ''kernel:?'' (q # p # RBool b # st) = Some ((if b then p else q) # st)"
  by (simp_all add: rat_word_def rat_vocabulary_def)

lemma run_rat_words:
  "run_words rat_word (''math:+'' # ws) (factor_locals env, RNum y # RNum x # st) = run_words rat_word ws (factor_locals env, RNum (x + y) # st)"
  "run_words rat_word (''math:-'' # ws) (factor_locals env, RNum y # RNum x # st) = run_words rat_word ws (factor_locals env, RNum (x - y) # st)"
  "run_words rat_word (''math:*'' # ws) (factor_locals env, RNum y # RNum x # st) = run_words rat_word ws (factor_locals env, RNum (x * y) # st)"
  "y \<noteq> 0 \<Longrightarrow> run_words rat_word (''math:/'' # ws) (factor_locals env, RNum y # RNum x # st) = run_words rat_word ws (factor_locals env, RNum (x / y) # st)"
  "run_words rat_word (''kernel:='' # ws) (factor_locals env, RNum y # RNum x # st) = run_words rat_word ws (factor_locals env, RBool (x = y) # st)"
  "run_words rat_word (''kernel:not'' # ws) (factor_locals env, RBool b # st) = run_words rat_word ws (factor_locals env, RBool (\<not> b) # st)"
  "run_words rat_word (''math.order:<'' # ws) (factor_locals env, RNum y # RNum x # st) = run_words rat_word ws (factor_locals env, RBool (x < y) # st)"
  "run_words rat_word (''math.order:>'' # ws) (factor_locals env, RNum y # RNum x # st) = run_words rat_word ws (factor_locals env, RBool (x > y) # st)"
  "run_words rat_word (''math.order:<='' # ws) (factor_locals env, RNum y # RNum x # st) = run_words rat_word ws (factor_locals env, RBool (x \<le> y) # st)"
  "run_words rat_word (''math.order:>='' # ws) (factor_locals env, RNum y # RNum x # st) = run_words rat_word ws (factor_locals env, RBool (x \<ge> y) # st)"
  "run_words rat_word (''kernel:?'' # ws) (factor_locals env, q # p # RBool b # st) = run_words rat_word ws (factor_locals env, (if b then p else q) # st)"
  by (rule run_vocabulary; simp add: vocabulary_word_def rat_word_steps)+

lemma call_targets:
  "factor_call_target ''abs'' = ''math:abs''" "factor_call_target ''floor'' = ''math.functions:floor''"
  "factor_call_target ''ceil'' = ''math.functions:ceiling''" "factor_call_target ''min'' = ''math.order:min''"
  "factor_call_target ''max'' = ''math.order:max''"
  by code_simp+

lemma rat_word_calls:
  "rat_word ''math:abs'' (RNum x # st) = Some (RNum \<bar>x\<bar> # st)"
  "rat_word ''math.functions:floor'' (RNum x # st) = Some (RNum (of_int \<lfloor>x\<rfloor>) # st)"
  "rat_word ''math.functions:ceiling'' (RNum x # st) = Some (RNum (of_int \<lceil>x\<rceil>) # st)"
  "rat_word ''math.order:min'' (RNum y # RNum x # st) = Some (RNum (min x y) # st)"
  "rat_word ''math.order:max'' (RNum y # RNum x # st) = Some (RNum (max x y) # st)"
  by (simp_all add: rat_word_def rat_vocabulary_def)

lemma rat_word_call: "rat_call f vs = Some v \<Longrightarrow> rat_word (factor_call_target f) (rev vs @ st) = Some (v # st)"
  by (erule rat_call.elims) (simp_all only: call_targets rat_word_calls rev.simps append.simps option.inject
      option.distinct simp_thms split: if_splits)

lemma run_rat_bin:
  "rat_bin op (RNum x) (RNum y) = Some z \<Longrightarrow>
    run_words rat_word (ir_words (factor_bin_op op)) (factor_locals env, RNum y # RNum x # st) = Some (factor_locals env, z # st)"
proof (cases op)
  case Pow
  then show "rat_bin op (RNum x) (RNum y) = Some z \<Longrightarrow> ?thesis" by simp
qed (simp_all only: bin_op_words run_rat_words run_rat_constants run_words.simps(1) rat_bin.simps rat_flag_def
    option.inject option.distinct if_distrib [of RNum] simp_thms if_False if_True prod.inject list.inject split: if_splits)

interpretation rationals: let_target rat_algebra rat_word
proof
  show "rat_word t st = Some (la_num rat_algebra n # st)" if "parse_f64 t = Some n" for t n st
    using rat_word_number [OF that] by (simp add: rat_algebra_def)
  show "rat_word ''math:neg'' (x # st) = Some (y # st)" if "la_neg rat_algebra x = Some y" for x y st
    using that by (cases x) (auto simp: rat_algebra_def rat_word_def rat_vocabulary_def)
  show "rat_word ''dup'' (x # st) = Some (x # x # st)" for x st
    by (simp add: rat_word_def rat_vocabulary_def)
  show "run_words rat_word (ir_words (factor_bin_op op)) (factor_locals env, y # x # st) = Some (factor_locals env, z # st)"
    if op: "la_bin rat_algebra op x y = Some z" for op x y z env st
  proof -
    have op': "rat_bin op x y = Some z" using op by (simp add: rat_algebra_def)
    then obtain a b where "x = RNum a" "y = RNum b" using rat_bin_Some by blast
    with op' show ?thesis by (simp only: run_rat_bin)
  qed
  show "rat_word (factor_call_target f) (rev vs @ st) = Some (v # st)"
    if "la_call rat_algebra f vs = Some v" for f vs v st
    using that by (simp add: rat_algebra_def rat_word_call)
  show "rat_word (factor_user_name (cls @ ''>'' @ s)) (obj # st) = Some (v # st)"
    if "la_slot rat_algebra cls s obj = Some v" for cls s obj v st
  proof -
    have "starts_with ''z-'' (factor_user_name w)" for w
      by (simp add: starts_with_def factor_user_name_def USER_NAME_PREFIX_def)
    moreover have "map_of rat_vocabulary (factor_user_name w) = None" for w
      by (simp add: rat_vocabulary_def factor_user_name_def USER_NAME_PREFIX_def)
    ultimately show ?thesis using that by (cases obj) (auto simp: rat_algebra_def rat_word_def)
  qed
qed

definition sample_form :: let_form where
  "sample_form = \<lparr>lf_inputs = [let_input_plain ''a'',
      \<lparr>li_name = ''p'', li_destructure = Some \<lparr>dc_class = ''Point'', dc_slots = [''u'', ''v'']\<rparr>\<rparr>],
    lf_outputs = [''r'', ''s''],
    lf_results =
      [LBin Add (LVar ''q'') (LVar ''v''),
       LBin Mul (LBin Pow (LVar ''q'') (LLit (Fin False 4503599627370496 (- 51)))) (LLit (Fin False 4503599627370496 (- 51)))],
    lf_wheres = [(''q'', LBin Mul (LVar ''a'') (LVar ''u''))]\<rparr>"

definition sample_slots :: class_slots_map where
  "sample_slots = [''point'' \<mapsto> [''x'', ''y'']]"

definition sample_text :: string where
  "sample_text = ''[| nfl-a nfl-p | nfl-p z-point>x :> nfl-u nfl-p z-point>y :> nfl-v nfl-a nfl-u math:* :> nfl-q '' @
    ''nfl-q nfl-v math:+ nfl-q dup math:* 2.0 math:* ] call( nfl-a nfl-p -- nfl-r nfl-s )''"

text \<open>The text of a form with a destructured input, a WHERE binding, a power and a literal.\<close>

lemma sample_text: "lower_to_factor sample_form sample_slots = Ok sample_text"
  by code_simp

theorem let_form_computes_witness:
  "call_quotation rat_word sample_text [RObj [(''z-point>x'', 5), (''z-point>y'', 7)], RNum 3] = Some [RNum 450, RNum 22]"
proof -
  have point: "to_ascii_lowercase ''Point'' = ''point''" by code_simp
  have "plain_slots sample_slots" by (simp add: plain_slots_def sample_slots_def plain_name_def ir_blank_def)
  moreover have "plain_form sample_form" "list_all plain_name (lf_outputs sample_form)"
    "\<forall>inp\<in>set (lf_inputs sample_form). own_name_kept inp" by code_simp+
  moreover have "literals_ok sample_form" by code_simp
  moreover have "eval_form rat_algebra sample_slots sample_form [RNum 3, RObj [(''z-point>x'', 5), (''z-point>y'', 7)]]
      = Some [RNum 22, RNum 450]"
    by (simp add: eval_form_def sample_form_def sample_slots_def input_env_def let_input_plain_def rat_algebra_def
        point factor_user_name_def USER_NAME_PREFIX_def
        mantissa_integral_def integral_magnitude_def numeral_2_eq_2)
  ultimately show ?thesis
    using let_form_computes [OF rationals.let_target_axioms sample_text, of "[RNum 3, RObj [(''z-point>x'', 5), (''z-point>y'', 7)]]" "[RNum 22, RNum 450]" "[]"]
    by (simp add: sample_form_def)
qed

text \<open>
  Code is generated exactly when every destructured input names a known class with at least as many
  slots as it lists aliases.
\<close>

definition destructure_known :: "class_slots_map \<Rightarrow> let_input \<Rightarrow> bool" where
  "destructure_known cs inp =
    (case li_destructure inp of
       None \<Rightarrow> True
     | Some d \<Rightarrow> \<exists>actual. cs (to_ascii_lowercase (dc_class d)) = Some actual \<and> length (dc_slots d) \<le> length actual)"

lemma destructure_inputs_ok:
  "(\<exists>b. destructure_inputs cs inps = Ok b) \<longleftrightarrow> (\<forall>inp\<in>set inps. destructure_known cs inp)"
proof (induction inps)
  case (Cons inp inps)
  have "(\<exists>b. destructure_input cs inp = Ok b) \<longleftrightarrow> destructure_known cs inp"
    by (auto simp: destructure_input_def destructure_known_def Let_def split: option.splits)
  moreover have "(\<exists>b. destructure_inputs cs (inp # inps) = Ok b) \<longleftrightarrow>
      (\<exists>b. destructure_input cs inp = Ok b) \<and> (\<exists>b. destructure_inputs cs inps = Ok b)"
    by (cases "destructure_input cs inp"; cases "destructure_inputs cs inps") auto
  ultimately show ?case using Cons by simp
qed simp

theorem let_form_generated_iff:
  "(\<exists>text. lower_to_factor form cs = Ok text) \<longleftrightarrow> (\<forall>inp\<in>set (lf_inputs form). destructure_known cs inp)"
proof -
  have "(\<exists>text. lower_to_factor form cs = Ok text) \<longleftrightarrow> (\<exists>b. destructure_inputs cs (lf_inputs form) = Ok b)"
    by (cases "destructure_inputs cs (lf_inputs form)") (simp_all add: lower_to_factor_def)
  then show ?thesis by (simp add: destructure_inputs_ok)
qed

text \<open>
  C25. A number literal of the source keeps its value through the generated code: the text that is
  emitted for a finite literal reads back as the same double.
\<close>

theorem let_number_reads_back:
  assumes "parse_f64 t = Some (Fin s m e)"
  shows "parse_f64 (emit_let_number (Fin s m e)) = Some (Fin s m e)"
  using parse_f64_canonical [OF assms] parse_display_f64 parse_display_f64_tenth
  by (auto simp: emit_let_number_def simp del: display_f64.simps display_f64_tenth.simps)

theorem let_number_reads_back_witness:
  "parse_f64 (emit_let_number (Fin False 7205759403792794 (- 56))) = Some (Fin False 7205759403792794 (- 56))"
proof -
  have "parse_f64 ''0.1'' = Some (Fin False 7205759403792794 (- 56))" by code_simp
  then show ?thesis by (rule let_number_reads_back)
qed

end
