(* ===== verification/Emit.thy ===== *)
theory Emit
  imports Sema Let_Codegen "HOL-Library.Char_ord" "HOL-Library.List_Lexorder"
begin

text \<open>
  The emitter, \<^verbatim>\<open>src/compiler/emit.rs\<close>: the semantic model becomes Factor source text. Texts are
  built by appending, as the source writes to its output string. The two process-wide counters
  for fresh names are threaded through.
\<close>

section \<open>Fresh names and spellings\<close>

record emit_state =
  es_discards :: usize
  es_helpers :: usize

definition next_discard_name :: "usize \<Rightarrow> string \<times> usize" where
  "next_discard_name k = (''_d'' @ display_nat (k + 1), k + 1)"

text \<open>A dot is no part of a Factor local name.\<close>

definition undotted :: "string \<Rightarrow> string" where
  "undotted s = map (\<lambda>c. if c = CHR ''.'' then CHR ''_'' else c) s"

definition local_text :: "string \<Rightarrow> usize \<Rightarrow> string \<times> usize" where
  "local_text name k =
     (if name = ''_'' then next_discard_name k else (undotted (to_ascii_lowercase name), k))"

text \<open>The names of a locals block in order, each followed by a blank.\<close>

fun head_locals :: "local_decl list \<Rightarrow> usize \<Rightarrow> string \<times> usize" where
  "head_locals [] k = ([], k)"
| "head_locals (l # ls) k =
     (let (n, k1) = local_text (ld_name l) k; (t, k2) = head_locals ls k1 in (n @ '' '' @ t, k2))"

text \<open>\<^verbatim>\<open>{: a b :}\<close> inside a body: the last name is bound first.\<close>

fun bind_locals :: "local_decl list \<Rightarrow> usize \<Rightarrow> string \<times> usize" where
  "bind_locals [] k = ([], k)"
| "bind_locals (l # ls) k =
     (let (n, k1) = local_text (ld_name l) k; (t, k2) = bind_locals ls k1 in ('':> '' @ n @ '' '' @ t, k2))"

text \<open>Names of stack-effect comments, as the definitions without and with locals write them.\<close>

definition sanitize :: "string \<Rightarrow> string" where
  "sanitize name = (if name = ''...'' then ''_dots_'' else undotted name)"

definition sanitize_lower :: "string \<Rightarrow> string" where
  "sanitize_lower s =
     (if s = ''...'' then ''_dots_'' else if CHR ''.'' \<in> set s then undotted s else to_ascii_lowercase s)"

definition value_storage_name :: "string \<Rightarrow> string" where
  "value_storage_name name_lc = ''nf-value-'' @ name_lc"

section \<open>Literals\<close>

definition quote_mark :: string where
  "quote_mark = [CHR 0x22]"

definition escape_char :: "char \<Rightarrow> string" where
  "escape_char c =
     (if c = CHR 0x5C then [CHR 0x5C, CHR 0x5C]
      else if c = CHR 0x22 then [CHR 0x5C, CHR 0x22]
      else if c = CHR 0x0A then [CHR 0x5C, CHR ''n'']
      else if c = CHR 0x0D then [CHR 0x5C, CHR ''r'']
      else if c = CHR 0x09 then [CHR 0x5C, CHR ''t'']
      else [c])"

definition factor_escape :: "string \<Rightarrow> string" where
  "factor_escape s = concat (map escape_char s)"

definition quoted :: "string \<Rightarrow> string" where
  "quoted s = quote_mark @ s @ quote_mark"

fun emit_float :: "f64 \<Rightarrow> string" where
  "emit_float (Fin s m e) =
     (if mantissa_integral m e then display_f64_tenth (Fin s m e) else display_f64 (Fin s m e))"
| "emit_float x = display_f64 x"

fun string_suffix :: "string_kind \<Rightarrow> string" where
  "string_suffix DotQuote = '' forth.runtime:print-string''"
| "string_suffix SQuote = '' forth.runtime:s-quote-runtime''"
| "string_suffix SDollarQuote = []"
| "string_suffix CQuote = []"

fun emit_literal :: "literal \<Rightarrow> string" where
  "emit_literal (IntLit v sp) = display_i64 v"
| "emit_literal (FloatLit v sp) = emit_float v"
| "emit_literal (StrLit v kind sp) = quoted (factor_escape v) @ string_suffix kind"

text \<open>\<^verbatim>\<open>str::replace\<close> of a single character.\<close>

definition replace_char :: "char \<Rightarrow> string \<Rightarrow> string \<Rightarrow> string" where
  "replace_char c by s = concat (map (\<lambda>x. if x = c then by else [x]) s)"

section \<open>SEE reports\<close>

definition effect_letter :: "u32 \<Rightarrow> string" where
  "effect_letter i =
     (if i < 26 then [char_of (97 + unat i)] else ''x'' @ display_nat (unat (i - 26)))"

definition render_effect_counts :: "u32 \<Rightarrow> u32 \<Rightarrow> string" where
  "render_effect_counts inputs outputs =
     ''( '' @ concat (map (\<lambda>i. effect_letter (of_nat i) @ '' '') [0..<unat inputs])
     @ ''-- '' @ concat (map (\<lambda>i. effect_letter (inputs + of_nat i) @ '' '') [0..<unat outputs]) @ '')''"

text \<open>\<^verbatim>\<open>str::lines\<close>: the last line need not be terminated, and a carriage return at the end goes.\<close>

definition strip_cr :: "string \<Rightarrow> string" where
  "strip_cr s = (if s \<noteq> [] \<and> last s = CHR 0x0D then butlast s else s)"

lemma split_once_shorter: "split_once d s = Some (a, b) \<Longrightarrow> length b < length s"
  by (induction d s arbitrary: a rule: split_once.induct) (auto split: if_splits)

function text_lines :: "string \<Rightarrow> string list" where
  "text_lines s =
     (if s = [] then []
      else case split_once (CHR 0x0A) s of
        None \<Rightarrow> [s]
      | Some (a, b) \<Rightarrow> strip_cr a # text_lines b)"
  by pat_completeness auto

termination
  by (relation "measure length") (auto dest: split_once_shorter)

declare text_lines.simps [simp del]

abbreviation newline :: string where
  "newline \<equiv> [CHR 0x0A]"

definition doc_report :: "string \<Rightarrow> word_doc \<Rightarrow> string" where
  "doc_report name doc =
     name @ ''   '' @ doc_kind doc
     @ (if doc_effect doc = [] then [] else ''   '' @ doc_effect doc)
     @ newline
     @ (if doc_detail doc = [] then [] else ''  '' @ doc_detail doc @ newline)
     @ (if doc_source doc = [] then []
        else ''  source:'' @ newline
          @ concat (map (\<lambda>line. ''    '' @ line @ newline) (text_lines (doc_source doc))))"

definition builtin_report :: "string \<Rightarrow> string \<Rightarrow> string" where
  "builtin_report name lc =
     (if builtin_table lc \<noteq> None then
        name @ ''   builtin (core word)''
        @ (case builtin_effects lc of
             Some (Known inputs outputs) \<Rightarrow> ''   '' @ render_effect_counts inputs outputs
           | _ \<Rightarrow> [])
        @ newline
      else name @ ''   (unknown word '' @ [CHR 0xE2, CHR 0x80, CHR 0x94] @ '' not defined this session)'' @ newline)"

definition see_report :: "string \<Rightarrow> sema \<Rightarrow> string" where
  "see_report name r =
     (let lc = to_ascii_lowercase name in
      case sm_docs r lc of
        Some doc \<Rightarrow> doc_report name doc
      | None \<Rightarrow> builtin_report name lc)"

definition emit_see :: "string \<Rightarrow> sema \<Rightarrow> string" where
  "emit_see name r =
     (let escaped = replace_char (CHR 0x0A) [CHR 0x5C, CHR ''n'']
        (replace_char (CHR 0x22) [CHR 0x5C, CHR 0x22] (replace_char (CHR 0x5C) [CHR 0x5C, CHR 0x5C] (see_report name r)))
      in quoted escaped @ '' forth.runtime:print-string'')"

section \<open>Expressions\<close>

definition word_token :: "sema \<Rightarrow> string \<Rightarrow> span \<Rightarrow> string" where
  "word_token r name sp = (case sm_word_targets r sp of Some t \<Rightarrow> to_factor_token t | None \<Rightarrow> name)"

text \<open>A narrow variable followed by a fetch or store becomes an access to a Factor global.\<close>

definition sink_text :: "string \<Rightarrow> string \<Rightarrow> string option" where
  "sink_text n next_lc =
     (if next_lc = ''@'' \<or> next_lc = ''c@'' then Some (n @ '' get-global'')
      else if next_lc = ''!'' \<or> next_lc = ''c!'' then Some (n @ '' set-global'')
      else if next_lc = ''+!'' then Some (n @ '' get-global + '' @ n @ '' set-global'')
      else None)"

fun try_emit_narrow_sink :: "expr \<Rightarrow> expr \<Rightarrow> sema \<Rightarrow> string option" where
  "try_emit_narrow_sink (WordRef name sp) (WordRef next sp') r =
     (let var_lc = to_ascii_lowercase name in
      if sm_escape r var_lc = Some Narrow
      then sink_text (factor_user_name var_lc) (to_ascii_lowercase next) else None)"
| "try_emit_narrow_sink _ _ r = None"

definition emit_let_form :: "let_form \<Rightarrow> sema \<Rightarrow> string" where
  "emit_let_form form r =
     (case lower_to_factor form (sm_class_slots r) of
        Ok ir \<Rightarrow> ir
      | Err e \<Rightarrow>
          quoted (''LET codegen error: ''
            @ replace_char (CHR 0x22) [CHR 0x5C, CHR 0x22] (replace_char (CHR 0x5C) [CHR 0x5C, CHR 0x5C] e))
          @ '' forth.runtime:print-string''
      | _ \<Rightarrow> [])"

function (sequential) emit_exprs :: "expr list \<Rightarrow> sema \<Rightarrow> usize \<Rightarrow> string \<times> usize"
  and emit_expr :: "expr \<Rightarrow> sema \<Rightarrow> usize \<Rightarrow> string \<times> usize"
  and emit_case_chain :: "case_arm list \<Rightarrow> expr list option \<Rightarrow> sema \<Rightarrow> usize \<Rightarrow> string \<times> usize" where
  "emit_exprs [] r k = ([], k)"
| "emit_exprs [e] r k = emit_expr e r k"
| "emit_exprs (e # e' # es) r k =
     (case try_emit_narrow_sink e e' r of
        Some t \<Rightarrow>
          (let (rest, k1) = emit_exprs es r k in (t @ (if es = [] then [] else '' '' @ rest), k1))
      | None \<Rightarrow>
          (let (t, k1) = emit_expr e r k; (rest, k2) = emit_exprs (e' # es) r k1 in (t @ '' '' @ rest, k2)))"
| "emit_expr (Lit l) r k = (emit_literal l, k)"
| "emit_expr (WordRef name sp) r k = (word_token r name sp, k)"
| "emit_expr (If t (Some eb) sp) r k =
     (let (te, k1) = emit_exprs eb r k; (tt, k2) = emit_exprs t r k1 in
      (''math:zero? [ '' @ te @ '' ] [ '' @ tt @ '' ] kernel:if'', k2))"
| "emit_expr (If t None sp) r k =
     (let (tt, k1) = emit_exprs t r k in (''math:zero? [ '' @ tt @ '' ] kernel:unless'', k1))"
| "emit_expr (BeginUntil b sp) r k =
     (let (tb, k1) = emit_exprs b r k in (''[ '' @ tb @ '' math:zero? ] kernel:loop'', k1))"
| "emit_expr (BeginWhileRepeat p b sp) r k =
     (let (tp, k1) = emit_exprs p r k; (tb, k2) = emit_exprs b r k1 in
      (''[ '' @ tp @ '' math:zero? [ f ] [ '' @ tb @ '' t ] kernel:if ] kernel:loop'', k2))"
| "emit_expr (BeginAgain b sp) r k =
     (let (tb, k1) = emit_exprs b r k in (''[ '' @ tb @ '' t ] kernel:loop'', k1))"
| "emit_expr (DoLoop is_qdo b kind sp) r k =
     (let (tb, k1) = emit_exprs b r k in
      (''[ '' @ tb @ (case kind of Plus1 \<Rightarrow> '' 1'' | PlusN \<Rightarrow> []) @ '' ] ''
        @ (if is_qdo then ''forth.runtime:?do-loop'' else ''forth.runtime:do-loop''), k1))"
| "emit_expr (Case arms d sp) r k = emit_case_chain arms d r k"
| "emit_expr (Tick name sp) r k = (''[ '' @ word_token r name sp @ '' ]'', k)"
| "emit_expr (To name sp) r k = (value_storage_name (to_ascii_lowercase name) @ '' set-global'', k)"
| "emit_expr (See name sp) r k = (emit_see name r, k)"
| "emit_expr (LetForm form sp) r k = (emit_let_form form r, k)"
| "emit_expr (Locals names sp) r k = bind_locals (rev names) k"
| "emit_case_chain [] None r k = (''kernel:drop'', k)"
| "emit_case_chain [] (Some d) r k = (let (td, k1) = emit_exprs d r k in (td @ '' kernel:drop'', k1))"
| "emit_case_chain (CaseArm mt b sp # arms) d r k =
     (let (tm, k1) = emit_exprs mt r k; (tb, k2) = emit_exprs b r k1; (tc, k3) = emit_case_chain arms d r k2 in
      (''dup '' @ tm @ '' = [ drop '' @ tb @ '' ] [ '' @ tc @ '' ] kernel:if'', k3))"
  by pat_completeness auto
termination
  by (relation "measure (case_sum (\<lambda>(es, _, _). size_list size es)
      (case_sum (\<lambda>(e, _, _). size e) (\<lambda>(arms, d, _, _). size_list size arms + size_option (size_list size) d)))")
    simp_all

text \<open>A body that still uses EXIT is wrapped.\<close>

definition emit_body :: "expr list \<Rightarrow> sema \<Rightarrow> usize \<Rightarrow> string \<times> usize" where
  "emit_body es r k =
     (let (t, k1) = emit_exprs es r k in
      (if body_uses_exit (sm_word_targets r) es
       then ''[ '' @ t @ '' ] continuations:with-return'' else t, k1))"

end
