(* ===== verification/Emit_Items.thy ===== *)
theory Emit_Items
  imports Emit
begin

text \<open>
  The emitter, continued: definitions, declarations, the object system and the whole program
  (\<^verbatim>\<open>src/compiler/emit.rs\<close>).
\<close>

section \<open>Stack-effect annotations\<close>

definition numbered :: "string \<Rightarrow> nat \<Rightarrow> string" where
  "numbered prefix n = concat (map (\<lambda>i. prefix @ display_nat i @ '' '') [0..<n])"

definition synth_effect_annotation :: "u32 \<Rightarrow> u32 \<Rightarrow> string" where
  "synth_effect_annotation inputs outputs =
     ''('' @ concat (map (\<lambda>i. '' '' @ [char_of (97 + i mod 26)]) [0..<unat inputs])
     @ (if inputs = 0 then '' '' else []) @ '' --''
     @ concat (map (\<lambda>i. '' r'' @ display_nat i) [0..<unat outputs])
     @ (if outputs = 0 then '' '' else []) @ '' ) ''"

definition declared_annotation :: "stack_effect \<Rightarrow> string" where
  "declared_annotation eff =
     ''('' @ concat (map (\<lambda>s. '' '' @ sanitize s) (se_inputs eff))
     @ (if se_inputs eff = [] then '' '' else []) @ '' --''
     @ concat (map (\<lambda>s. '' '' @ sanitize s) (se_outputs eff)) @ '' ) ''"

text \<open>The inferred effect wins over a declared one with other counts; an unknown effect does not.\<close>

definition effect_annotation :: "stack_effect option \<Rightarrow> effect option \<Rightarrow> string" where
  "effect_annotation declared synth =
     (case (declared, synth) of
        (Some eff, Some (Known inputs outputs)) \<Rightarrow>
          if declared_counts eff = (inputs, outputs) then declared_annotation eff
          else synth_effect_annotation inputs outputs
      | (Some eff, _) \<Rightarrow> declared_annotation eff
      | (None, Some (Known inputs outputs)) \<Rightarrow> synth_effect_annotation inputs outputs
      | (None, _) \<Rightarrow> ''( ..a -- ..b ) '')"

section \<open>Colon definitions\<close>

definition blank_if_none :: "'a list \<Rightarrow> string" where
  "blank_if_none xs = (if xs = [] then '' '' else [])"

definition locals_outputs :: "stack_effect option \<Rightarrow> effect option \<Rightarrow> (string \<Rightarrow> string) \<Rightarrow> string" where
  "locals_outputs declared synth clean =
     (case (declared, synth) of
        (Some eff, _) \<Rightarrow>
          concat (map (\<lambda>s. clean s @ '' '') (se_outputs eff)) @ blank_if_none (se_outputs eff)
      | (None, Some (Known inputs outputs)) \<Rightarrow>
          numbered ''r'' (unat outputs) @ (if outputs = 0 then '' '' else [])
      | (None, _) \<Rightarrow> ''..b '')"

definition emit_definition_with_locals :: "colon_def \<Rightarrow> sema \<Rightarrow> string \<Rightarrow> usize \<Rightarrow> string \<times> usize" where
  "emit_definition_with_locals d r factor_name k =
     (let (ins, k1) = head_locals (cd_locals d) k;
          (body, k2) = emit_body (cd_body d) r k1 in
      ('':: '' @ factor_name @ '' ( '' @ ins @ ''-- ''
        @ locals_outputs (cd_effect d) (sm_body_effects r (to_ascii_lowercase (cd_name d))) sanitize
        @ '') '' @ body @ '' ;'', k2))"

definition mid_inputs :: "stack_effect option \<Rightarrow> effect option \<Rightarrow> string list option" where
  "mid_inputs declared synth =
     (case (declared, synth) of
        (Some eff, _) \<Rightarrow> Some (map sanitize_lower (se_inputs eff))
      | (None, Some (Known inputs outputs)) \<Rightarrow> Some (map (\<lambda>i. ''_mi'' @ display_nat i) [0..<unat inputs])
      | (None, _) \<Rightarrow> None)"

definition emit_definition_mid_locals_only :: "colon_def \<Rightarrow> sema \<Rightarrow> string \<Rightarrow> usize \<Rightarrow> string \<times> usize" where
  "emit_definition_mid_locals_only d r factor_name k =
     (let synth = sm_body_effects r (to_ascii_lowercase (cd_name d));
          (body, k1) = emit_body (cd_body d) r k in
      case mid_inputs (cd_effect d) synth of
        None \<Rightarrow> ('':: '' @ factor_name @ '' ( ..a -- ..b ) '' @ body @ '' ;'', k1)
      | Some names \<Rightarrow>
          (let ins = concat (map (\<lambda>n. n @ '' '') names) in
           ('':: '' @ factor_name @ '' ( '' @ ins @ blank_if_none names @ ''-- ''
             @ locals_outputs (cd_effect d) synth sanitize_lower @ '') '' @ ins @ body @ '' ;'', k1)))"

fun body_uses_locals :: "expr list \<Rightarrow> bool"
  and uses_locals_opt :: "expr list option \<Rightarrow> bool"
  and uses_locals_expr :: "expr \<Rightarrow> bool"
  and uses_locals_arms :: "case_arm list \<Rightarrow> bool" where
  "body_uses_locals [] = False"
| "body_uses_locals (e # es) = (uses_locals_expr e \<or> body_uses_locals es)"
| "uses_locals_opt None = False"
| "uses_locals_opt (Some es) = body_uses_locals es"
| "uses_locals_expr (Locals names sp) = True"
| "uses_locals_expr (If t eb sp) = (body_uses_locals t \<or> uses_locals_opt eb)"
| "uses_locals_expr (BeginUntil b sp) = body_uses_locals b"
| "uses_locals_expr (BeginAgain b sp) = body_uses_locals b"
| "uses_locals_expr (DoLoop q b k sp) = body_uses_locals b"
| "uses_locals_expr (BeginWhileRepeat p b sp) = (body_uses_locals p \<or> body_uses_locals b)"
| "uses_locals_expr (Case arms d sp) = (uses_locals_arms arms \<or> uses_locals_opt d)"
| "uses_locals_expr e = False"
| "uses_locals_arms [] = False"
| "uses_locals_arms (CaseArm mt b sp # arms) = (body_uses_locals mt \<or> body_uses_locals b \<or> uses_locals_arms arms)"

definition emit_definition :: "colon_def \<Rightarrow> sema \<Rightarrow> usize \<Rightarrow> string \<times> usize" where
  "emit_definition d r k =
     (let lc = to_ascii_lowercase (cd_name d); factor_name = factor_user_name lc in
      if cd_locals d \<noteq> [] then emit_definition_with_locals d r factor_name k
      else if body_uses_locals (cd_body d) then emit_definition_mid_locals_only d r factor_name k
      else (let (body, k1) = emit_body (cd_body d) r k in
        ('': '' @ factor_name @ '' '' @ effect_annotation (cd_effect d) (sm_body_effects r lc) @ body @ '' ;'', k1)))"

section \<open>Variables, constants and buffers\<close>

definition emit_variable :: "variable_def \<Rightarrow> sema \<Rightarrow> string" where
  "emit_variable v r =
     (let lc = to_ascii_lowercase (vd_name v); n = factor_user_name lc in
      if sm_escape r lc = Some Narrow then
        ''SYMBOL: '' @ n @ newline @ ''0 '' @ n @ '' set-global''
      else
        ''SYMBOL: nf-var-'' @ lc @ newline @ ''<variable> nf-var-'' @ lc @ '' set-global'' @ newline
        @ '': '' @ n @ '' ( -- addr ) nf-var-'' @ lc @ '' get-global ; inline'')"

definition emit_value_decl :: "value_def \<Rightarrow> string" where
  "emit_value_decl v =
     (let lc = to_ascii_lowercase (val_name v); storage = value_storage_name lc in
      ''SYMBOL: '' @ storage @ newline
      @ '': '' @ factor_user_name lc @ '' ( -- v ) '' @ storage @ '' get-global ; inline'')"

definition emit_value_seed :: "value_def \<Rightarrow> sema \<Rightarrow> usize \<Rightarrow> string \<times> usize" where
  "emit_value_seed v r k =
     (let (t, k1) = emit_exprs (val_initial v) r k in
      (t @ '' '' @ value_storage_name (to_ascii_lowercase (val_name v)) @ '' set-global'', k1))"

definition emit_collection :: "collection_def \<Rightarrow> string" where
  "emit_collection cl =
     (let raw = to_ascii_lowercase (col_name cl);
          total_bytes = max (saturating_mul (col_count cl) (elt_size (col_kind cl))) 1 in
      ''SYMBOL: nf-coll-'' @ raw @ newline
      @ display_nat (unat total_bytes) @ '' <buffer> nf-coll-'' @ raw @ '' set-global'' @ newline
      @ '': '' @ factor_user_name raw @ '' ( idx -- addr ) nf-coll-'' @ raw @ '' get-global swap ''
      @ display_nat (unat (elt_size (col_kind cl))) @ '' * forth.runtime:nf-addr+ ; inline'')"

definition does_prefixed :: "string list" where
  "does_prefixed =
     [''cells'', ''chars'', ''floats'', ''cell+'', ''char+'', ''@'', ''!'', ''c@'', ''c!'', ''+!'', ''f@'', ''f!'',
      ''nf-!'', ''nf-c!'', ''nf-+!'', ''nf-f!'', ''type'', ''cmove'', ''fill'', ''bl'']"

definition emit_does_word :: "string \<Rightarrow> string" where
  "emit_does_word name =
     (let lc = to_ascii_lowercase name in
      if lc \<in> set does_prefixed then ''forth.runtime:'' @ lc else name)"

fun emit_does_expr :: "expr \<Rightarrow> string" where
  "emit_does_expr (WordRef name sp) = (if name = ''+'' then ''forth.runtime:nf-addr+'' else emit_does_word name)"
| "emit_does_expr (Lit (IntLit v sp)) = display_i64 v"
| "emit_does_expr (Lit (FloatLit v sp)) = emit_float v"
| "emit_does_expr _ = ''/* deferred-does-expr */''"

fun emit_does_body :: "expr list \<Rightarrow> string" where
  "emit_does_body [] = []"
| "emit_does_body [e] = emit_does_expr e"
| "emit_does_body (e # es) = emit_does_expr e @ '' '' @ emit_does_body es"

definition emit_template_instance :: "template_instance_def \<Rightarrow> string" where
  "emit_template_instance ti =
     (let raw = to_ascii_lowercase (ti_name ti) in
      ''SYMBOL: nf-tmpl-'' @ raw @ newline
      @ display_nat (unat (max (ti_allocated_bytes ti) 1)) @ '' <buffer> nf-tmpl-'' @ raw @ '' set-global'' @ newline
      @ '': '' @ factor_user_name raw @ '' ( idx -- addr ) nf-tmpl-'' @ raw @ '' get-global ''
      @ emit_does_body (ti_does_body ti) @ '' ; inline'')"

definition emit_create :: "create_def \<Rightarrow> string" where
  "emit_create cd =
     (let raw = to_ascii_lowercase (cr_name cd) in
      ''SYMBOL: nf-create-'' @ raw @ newline
      @ display_nat (unat (max (cr_allotted_bytes cd) 1)) @ '' <buffer> nf-create-'' @ raw @ '' set-global'' @ newline
      @ '': '' @ factor_user_name raw @ '' ( -- addr ) nf-create-'' @ raw @ '' get-global ; inline'')"

definition emit_constant :: "constant_def \<Rightarrow> sema \<Rightarrow> usize \<Rightarrow> string \<times> usize" where
  "emit_constant c r k =
     (let n = factor_user_name (to_ascii_lowercase (con_name c)) in
      case con_value c of
        ConstInt v \<Rightarrow> (''CONSTANT: '' @ n @ '' '' @ display_i64 v, k)
      | ConstFloat v \<Rightarrow> (''CONSTANT: '' @ n @ '' '' @ emit_float v, k)
      | ConstComputed es \<Rightarrow>
          (let (t, k1) = emit_exprs es r k in
           ('': '' @ n @ '' ( -- '' @ (case con_flavour c of FloatFlavour \<Rightarrow> ''f'' | CellFlavour \<Rightarrow> ''n'') @ '' ) ''
             @ t @ '' ; inline'', k1)))"

end
