(* ===== verification/Emit_Program.thy ===== *)
theory Emit_Program
  imports Emit_Items
begin

text \<open>
  The emitter, concluded: classes, generics and methods, the USING line, and the passes over a
  program (\<^verbatim>\<open>src/compiler/emit.rs\<close>).
\<close>

section \<open>Classes\<close>

definition emit_slot_words :: "string \<Rightarrow> string \<Rightarrow> string" where
  "emit_slot_words n sn =
     '': '' @ factor_user_name (n @ ''>'' @ sn) @ '' ( p -- v ) '' @ sn @ ''>> ; inline'' @ newline
     @ '': '' @ factor_user_name (sn @ ''>>'' @ n) @ '' ( p v -- p ) >>'' @ sn @ '' ; inline'' @ newline
     @ '': '' @ factor_user_name (n @ ''.'' @ sn @ ''!'') @ '' ( v p -- ) swap >>'' @ sn @ '' drop ; inline'' @ newline"

definition emit_class :: "class_def \<Rightarrow> sema \<Rightarrow> string" where
  "emit_class c r =
     (let n = to_ascii_lowercase (cl_name c); mn = factor_user_name n;
          all_slots = (case sm_class_slots r n of Some ss \<Rightarrow> ss | None \<Rightarrow> []) in
      ''TUPLE: '' @ mn
      @ (case cl_extends c of
           Some parent \<Rightarrow> '' < '' @ factor_user_name (to_ascii_lowercase parent)
         | None \<Rightarrow> [])
      @ concat (map (\<lambda>s. '' { '' @ to_ascii_lowercase (sl_name s) @ '' }'') (cl_slots c)) @ '' ;'' @ newline
      @ '': '' @ factor_user_name (''<'' @ n @ ''>'') @ '' ( '' @ concat (map (\<lambda>s. s @ '' '') all_slots) @ ''-- p ) ''
      @ mn @ '' boa ; inline'' @ newline
      @ concat (map (emit_slot_words n) all_slots))"

section \<open>Generics and methods\<close>

definition aux_generics :: "program \<Rightarrow> string set" where
  "aux_generics items =
     set (concat (map (\<lambda>it. case it of
       Method m \<Rightarrow> if md_kind m = Primary then [] else [to_ascii_lowercase (md_generic_name m)]
     | _ \<Rightarrow> []) items))"

definition ndrop :: "nat \<Rightarrow> string" where
  "ndrop n =
     (if n = 0 then []
      else if n = 1 then ''drop''
      else if n = 2 then ''2drop''
      else if n = 3 then ''3drop''
      else if odd n then concat (replicate (n div 2) ''2drop '') @ ''drop''
      else concat (replicate (n div 2 - 1) ''2drop '') @ ''2drop'')"

abbreviation spaced :: "string list \<Rightarrow> string" where
  "spaced ss \<equiv> concat (map (\<lambda>s. s @ '' '') ss)"

definition emit_plain_generic :: "string \<Rightarrow> stack_effect \<Rightarrow> string" where
  "emit_plain_generic n eff =
     ''multi-methods:GENERIC: '' @ n @ '' ( '' @ spaced (se_inputs eff) @ ''-- '' @ spaced (se_outputs eff) @ '')'' @ newline"

definition emit_wrapper :: "string \<Rightarrow> nat \<Rightarrow> nat \<Rightarrow> string" where
  "emit_wrapper n n_in n_out =
     (let push = numbered ''a'' n_in; outs = numbered ''r'' n_out in
      '':: '' @ n @ '' ( '' @ push @ ''-- '' @ outs @ '') ''
      @ (if n_in > 0 then push @ n @ '':before '' else [])
      @ (if n_in > 0 then push else [])
      @ n @ '':primary''
      @ (if n_out = 0 then '' '' else if n_out = 1 then '' :> r0 '' else '' :> ( '' @ outs @ '') '')
      @ (if n_in > 0 then push @ n @ '':after '' else [])
      @ outs @ '';'' @ newline)"

definition emit_generic :: "generic_def \<Rightarrow> string set \<Rightarrow> string" where
  "emit_generic g aux =
     (let raw_lc = to_ascii_lowercase (gd_name g); n = factor_user_name raw_lc; eff = gd_effect g;
          n_in = length (se_inputs eff); n_out = length (se_outputs eff) in
      if raw_lc \<notin> aux then emit_plain_generic n eff
      else
        ''multi-methods:GENERIC: '' @ n @ '':primary ( '' @ spaced (se_inputs eff) @ ''-- '' @ spaced (se_outputs eff) @ '')'' @ newline
        @ ''multi-methods:GENERIC: '' @ n @ '':before ( '' @ spaced (se_inputs eff) @ ''-- )'' @ newline
        @ ''multi-methods:GENERIC: '' @ n @ '':after ( '' @ spaced (se_inputs eff) @ ''-- )'' @ newline
        @ (if n_in > 0 then
             ''multi-methods:METHOD: '' @ n @ '':before { '' @ concat (replicate n_in ''object '') @ ''} '' @ ndrop n_in @ '' ;'' @ newline
             @ ''multi-methods:METHOD: '' @ n @ '':after { '' @ concat (replicate n_in ''object '') @ ''} '' @ ndrop n_in @ '' ;'' @ newline
           else [])
        @ emit_wrapper n n_in n_out)"

definition specializer_at :: "method_specializer list \<Rightarrow> nat \<Rightarrow> string" where
  "specializer_at specs pos =
     (case filter (\<lambda>s. unat (ms_position s) = pos) specs of
        [] \<Rightarrow> ''object''
      | s # _ \<Rightarrow> (let raw = to_ascii_lowercase (ms_class_name s) in
                  if raw = ''object'' then ''object'' else factor_user_name raw))"

definition emit_specializer_list :: "method_def \<Rightarrow> string" where
  "emit_specializer_list m =
     (let n_inputs = length (se_inputs (md_effect m)) in
      ''{ '' @ (if n_inputs = 0 then ''object ''
               else concat (map (\<lambda>pos. specializer_at (md_specializers m) pos @ '' '') [0..<n_inputs])) @ ''}'')"

definition next_method_helper_name :: "string \<Rightarrow> usize \<Rightarrow> string \<times> usize" where
  "next_method_helper_name gname_lc h = (factor_user_name gname_lc @ ''-mh'' @ display_nat (h + 1), h + 1)"

definition method_target :: "method_def \<Rightarrow> string set \<Rightarrow> string" where
  "method_target m aux =
     (let g_lc = to_ascii_lowercase (md_generic_name m); mg = factor_user_name g_lc in
      case md_kind m of
        Primary \<Rightarrow> if g_lc \<in> aux then mg @ '':primary'' else mg
      | Before \<Rightarrow> mg @ '':before''
      | After \<Rightarrow> mg @ '':after'')"

definition len32 :: "'a list \<Rightarrow> nat" where
  "len32 xs = unat (of_nat (length xs) :: u32)"

definition emit_method :: "method_def \<Rightarrow> sema \<Rightarrow> string set \<Rightarrow> emit_state \<Rightarrow> string \<times> emit_state" where
  "emit_method m r aux st =
     (if md_locals m \<noteq> [] \<or> body_uses_locals (md_body m) then
        (let (helper, h) = next_method_helper_name (to_ascii_lowercase (md_generic_name m)) (es_helpers st);
             (ins, k1) = (if md_locals m = [] then (numbered ''a'' (len32 (se_inputs (md_effect m))), es_discards st)
                          else head_locals (md_locals m) (es_discards st));
             n_out = len32 (se_outputs (md_effect m));
             (body, k2) = emit_body (md_body m) r k1 in
         ('':: '' @ helper @ '' ( '' @ ins @ ''-- '' @ numbered ''r'' n_out @ (if n_out = 0 then '' '' else []) @ '') ''
           @ body @ '' ;'' @ newline
           @ ''multi-methods:METHOD: '' @ method_target m aux @ '' '' @ emit_specializer_list m @ '' '' @ helper @ '' ;'' @ newline,
          \<lparr>es_discards = k2, es_helpers = h\<rparr>))
      else
        (let (body, k1) = emit_body (md_body m) r (es_discards st) in
         (''multi-methods:METHOD: '' @ method_target m aux @ '' '' @ emit_specializer_list m @ '' '' @ body @ '' ;'' @ newline,
          st\<lparr>es_discards := k1\<rparr>)))"

section \<open>The USING line\<close>

fun is_class_system :: "item \<Rightarrow> bool" where
  "is_class_system (Class _) = True"
| "is_class_system (Generic _) = True"
| "is_class_system (Method _) = True"
| "is_class_system (RawFactor _) = True"
| "is_class_system _ = False"

fun is_method_item :: "item \<Rightarrow> bool" where
  "is_method_item (Generic _) = True"
| "is_method_item (Method _) = True"
| "is_method_item _ = False"

fun is_aux_method :: "item \<Rightarrow> bool" where
  "is_aux_method (Method m) \<longleftrightarrow> md_kind m \<noteq> Primary"
| "is_aux_method _ \<longleftrightarrow> False"

fun has_def_locals :: "item \<Rightarrow> bool" where
  "has_def_locals (Definition d) \<longleftrightarrow> cd_locals d \<noteq> [] \<or> body_uses_locals (cd_body d)"
| "has_def_locals (Method m) \<longleftrightarrow> md_locals m \<noteq> [] \<or> body_uses_locals (md_body m)"
| "has_def_locals _ \<longleftrightarrow> False"

definition baseline_vocabs :: "string list" where
  "baseline_vocabs =
     [''kernel'', ''math'', ''io'', ''forth.runtime'', ''namespaces'', ''math.functions'', ''math.order'',
      ''math.constants'', ''math.libm'']"

definition vocab_set :: "sema \<Rightarrow> string set" where
  "vocab_set s =
     (let items = sm_program s in
      set baseline_vocabs
      \<union> (if list_ex is_class_system items then {''classes.tuple'', ''accessors''} else {})
      \<union> (if list_ex is_method_item items then {''multi-methods''} else {})
      \<union> (if list_ex is_aux_method items \<or> list_ex has_def_locals items then {''locals''} else {})
      \<union> (\<Union>t\<in>ran (sm_word_targets s). set_option (target_vocab t)))"

definition vocabs_needed :: "sema \<Rightarrow> string list" where
  "vocabs_needed s = sorted_list_of_set (vocab_set s)"

definition emit_using_line :: "sema \<Rightarrow> string" where
  "emit_using_line r = ''USING:'' @ concat (map (\<lambda>v. '' '' @ v) (vocabs_needed r)) @ '' ;'' @ newline"

section \<open>The passes\<close>

text \<open>A pass over the items; an item that the pass does not concern writes nothing.\<close>

fun emit_pass :: "(item \<Rightarrow> emit_state \<Rightarrow> string \<times> emit_state) \<Rightarrow> program \<Rightarrow> emit_state \<Rightarrow> string \<times> emit_state" where
  "emit_pass f [] st = ([], st)"
| "emit_pass f (it # its) st = (let (a, st1) = f it st; (b, st2) = emit_pass f its st1 in (a @ b, st2))"

abbreviation with_discards :: "emit_state \<Rightarrow> string \<times> usize \<Rightarrow> string \<times> emit_state" where
  "with_discards st res \<equiv> (fst res @ newline, st\<lparr>es_discards := snd res\<rparr>)"

fun emit_declaration :: "sema \<Rightarrow> string set \<Rightarrow> item \<Rightarrow> emit_state \<Rightarrow> string \<times> emit_state" where
  "emit_declaration r aux (Variable v) st = (emit_variable v r @ newline, st)"
| "emit_declaration r aux (Constant c) st = with_discards st (emit_constant c r (es_discards st))"
| "emit_declaration r aux (Create cd) st = (emit_create cd @ newline, st)"
| "emit_declaration r aux (Collection cl) st = (emit_collection cl @ newline, st)"
| "emit_declaration r aux (TemplateInstance ti) st = (emit_template_instance ti @ newline, st)"
| "emit_declaration r aux (Value v) st = (emit_value_decl v @ newline, st)"
| "emit_declaration r aux (Class c) st = (emit_class c r @ newline, st)"
| "emit_declaration r aux (Generic g) st = (emit_generic g aux @ newline, st)"
| "emit_declaration r aux (RawFactor raw) st = (rf_source raw @ newline, st)"
| "emit_declaration r aux _ st = ([], st)"

fun emit_methods :: "sema \<Rightarrow> string set \<Rightarrow> item \<Rightarrow> emit_state \<Rightarrow> string \<times> emit_state" where
  "emit_methods r aux (Method m) st = (let (t, st1) = emit_method m r aux st in (t @ newline, st1))"
| "emit_methods r aux _ st = ([], st)"

fun emit_definitions :: "sema \<Rightarrow> item \<Rightarrow> emit_state \<Rightarrow> string \<times> emit_state" where
  "emit_definitions r (Definition d) st = with_discards st (emit_definition d r (es_discards st))"
| "emit_definitions r _ st = ([], st)"

fun emit_load_time :: "sema \<Rightarrow> item \<Rightarrow> emit_state \<Rightarrow> string \<times> emit_state" where
  "emit_load_time r (TopLevel exprs sp) st = with_discards st (emit_exprs exprs r (es_discards st))"
| "emit_load_time r (Value v) st = with_discards st (emit_value_seed v r (es_discards st))"
| "emit_load_time r _ st = ([], st)"

definition emit :: "sema \<Rightarrow> bool \<Rightarrow> emit_state \<Rightarrow> string \<times> emit_state" where
  "emit r flush_at_end st =
     (let aux = aux_generics (sm_program r);
          (ta, st1) = emit_pass (emit_declaration r aux) (sm_program r) st;
          (tm, st2) = emit_pass (emit_methods r aux) (sm_program r) st1;
          (td, st3) = emit_pass (emit_definitions r) (sm_program r) st2;
          (tt, st4) = emit_pass (emit_load_time r) (sm_program r) st3;
          out = emit_using_line r @ ''IN: scratchpad'' @ newline @ ta @ tm @ td @ tt in
      (if flush_at_end then
         out @ (if last out \<noteq> CHR '' '' \<and> last out \<noteq> CHR 0x0A then '' '' else []) @ ''flush''
       else out, st4))"

end
