(* ===== verification/Factor_Terms.thy ===== *)
theory Factor_Terms
  imports Factor_Ir Forth_Machine
begin

text \<open>
  The terms of emitted Factor source and their execution. Square brackets nest quotations,
  \<^verbatim>\<open>[|\<close> opens one with named inputs, and \<^verbatim>\<open>:>\<close> binds the name behind it. Quotations are
  given to the combinators that the emitter uses; what the other words do is a parameter.
\<close>

section \<open>Terms\<close>

datatype fterm =
    FWord string
  | FStr string
  | FBind string
  | FQuot "fterm list"
  | FNamed "fterm list"

text \<open>
  Reading terms from tokens, with the quotations that are open: whether it has named inputs and what
  was read before it, last term first.
\<close>

fun nest :: "ir_token list \<Rightarrow> (bool \<times> fterm list) list \<Rightarrow> fterm list \<Rightarrow> fterm list option" where
  "nest [] open_quots cur = (if open_quots = [] then Some (rev cur) else None)"
| "nest (TStr s # ts) open_quots cur = nest ts open_quots (FStr s # cur)"
| "nest (TWord w # ts) open_quots cur =
     (if w = ''['' then nest ts ((False, cur) # open_quots) []
      else if w = ''[|'' then nest ts ((True, cur) # open_quots) []
      else if w = '']'' then
        (case open_quots of
           [] \<Rightarrow> None
         | (named, outer) # qs \<Rightarrow> nest ts qs ((if named then FNamed (rev cur) else FQuot (rev cur)) # outer))
      else if w = '':>'' then
        (case ts of TWord x # ts' \<Rightarrow> nest ts' open_quots (FBind x # cur) | _ \<Rightarrow> None)
      else nest ts open_quots (FWord w # cur))"

definition read_terms :: "string \<Rightarrow> fterm list option" where
  "read_terms s = Option.bind (ir_lex s) (\<lambda>ts. nest ts [] [])"

text \<open>\<open>s\<close> is read as the terms \<open>us\<close>, whatever surrounds it.\<close>

definition codes :: "string \<Rightarrow> fterm list \<Rightarrow> bool" where
  "codes s us \<longleftrightarrow>
     (\<exists>ts. reads s ts \<and> (\<forall>rest qs cur. nest (ts @ rest) qs cur = nest rest qs (rev us @ cur)))"

lemma codesI:
  "reads s ts \<Longrightarrow> (\<And>rest qs cur. nest (ts @ rest) qs cur = nest rest qs (rev us @ cur)) \<Longrightarrow> codes s us"
  by (auto simp: codes_def)

lemma codes_read_terms: "codes s us \<Longrightarrow> read_terms s = Some us"
proof -
  assume "codes s us"
  then obtain ts where ts: "reads s ts" "\<And>rest qs cur. nest (ts @ rest) qs cur = nest rest qs (rev us @ cur)"
    by (auto simp: codes_def)
  from ts(2) [of "[]" "[]" "[]"] have "nest ts [] [] = Some us" by simp
  with readsD [OF ts(1)] show ?thesis by (simp add: read_terms_def)
qed

text \<open>A word that is no part of the syntax of quotations.\<close>

definition plain_word :: "string \<Rightarrow> bool" where
  "plain_word w \<longleftrightarrow> ir_word w \<and> w \<noteq> ''['' \<and> w \<noteq> ''[|'' \<and> w \<noteq> '']'' \<and> w \<noteq> '':>''"

lemma codes_Nil: "codes [] []"
  by (rule codesI [OF reads_Nil]) simp

lemma codes_word: "plain_word w \<Longrightarrow> codes w [FWord w]"
  by (rule codesI [OF reads_word]) (simp_all add: plain_word_def)

lemma codes_space: "codes a ts \<Longrightarrow> codes b us \<Longrightarrow> codes (a @ '' '' @ b) (ts @ us)"
proof -
  assume "codes a ts" "codes b us"
  then obtain p q where p: "reads a p" "\<And>rest qs cur. nest (p @ rest) qs cur = nest rest qs (rev ts @ cur)"
    and q: "reads b q" "\<And>rest qs cur. nest (q @ rest) qs cur = nest rest qs (rev us @ cur)"
    by (auto simp: codes_def)
  show ?thesis by (rule codesI [OF reads_space [OF p(1) q(1)]]) (simp add: p(2) q(2))
qed

lemma codes_space_end: "codes a ts \<Longrightarrow> codes (a @ '' '') ts"
  using codes_space [OF _ codes_Nil] by simp

lemma codes_words: "list_all plain_word ws \<Longrightarrow> reads s (map TWord ws) \<Longrightarrow> codes s (map FWord ws)"
proof (rule codesI)
  assume ws: "list_all plain_word ws"
  show "nest (map TWord ws @ rest) qs cur = nest rest qs (rev (map FWord ws) @ cur)" for rest qs cur
    using ws by (induction ws arbitrary: cur) (simp_all add: plain_word_def)
qed

lemma ir_word_brackets: "ir_word ''[''" "ir_word '']''" "ir_word ''[|''" "ir_word '':>''"
  by (simp_all add: ir_word_def quote_char_def ir_blank_def)

lemma codes_quot:
  assumes "codes a ts"
  shows "codes (''[ '' @ a @ '' ]'') [FQuot ts]"
proof -
  from assms obtain p where p: "reads a p" "\<And>rest qs cur. nest (p @ rest) qs cur = nest rest qs (rev ts @ cur)"
    by (auto simp: codes_def)
  have "reads (''['' @ '' '' @ a @ '' '' @ '']'') ([TWord ''[''] @ p @ [TWord '']''])"
    by (intro reads_space reads_word ir_word_brackets p)
  then have "reads (''[ '' @ a @ '' ]'') ([TWord ''[''] @ p @ [TWord '']''])" by simp
  then show ?thesis by (rule codesI) (simp add: p(2))
qed

lemma codes_bind:
  assumes "ir_word x"
  shows "codes ('':> '' @ x) [FBind x]"
proof -
  have "reads ('':>'' @ '' '' @ x) ([TWord '':>''] @ [TWord x])"
    by (intro reads_space reads_word ir_word_brackets assms)
  then have "reads ('':> '' @ x) ([TWord '':>''] @ [TWord x])" by simp
  then show ?thesis by (rule codesI) simp
qed

text \<open>String literals.\<close>

lemma codes_string: "reads s [TStr v] \<Longrightarrow> codes s [FStr v]"
  by (erule codesI) simp

section \<open>Execution\<close>

text \<open>
  What the words of a Factor image provide: \<open>f_word\<close> is every word but the combinators below,
  \<open>f_bool\<close> pops a boolean. A counted loop (\<^verbatim>\<open>forth.runtime:do-loop\<close>) enters a frame with the limit and
  the start on the stack, calls its body, bumps the frame by the step that the body leaves, and
  leaves the frame when that reports the end; \<^verbatim>\<open>?do-loop\<close> first drops limit and start when they are
  equal.
\<close>

record 'f factor =
  f_word :: "string \<Rightarrow> 'f \<Rightarrow> 'f option"
  f_str :: "string \<Rightarrow> 'f \<Rightarrow> 'f option"
  f_bind :: "string \<Rightarrow> 'f \<Rightarrow> 'f option"
  f_bool :: "'f \<Rightarrow> (bool \<times> 'f) option"
  f_enter :: "'f \<Rightarrow> 'f option"
  f_equal :: "'f \<Rightarrow> (bool \<times> 'f) option"
  f_bump :: "'f \<Rightarrow> (bool \<times> 'f) option"
  f_leave :: "'f \<Rightarrow> 'f option"

fun loop_quot :: "'f factor \<Rightarrow> 'f code \<Rightarrow> 'f code" where
  "loop_quot F q n s =
     continue_with (q n s) (\<lambda>s1.
     on_flag (f_bool F s1)
       (\<lambda>s2. case n of 0 \<Rightarrow> Timeout | Suc m \<Rightarrow> loop_quot F q m s2)
       (\<lambda>s2. Norm s2))"

fun bump_quot :: "'f factor \<Rightarrow> 'f code \<Rightarrow> 'f code" where
  "bump_quot F q n s =
     continue_with (q n s) (\<lambda>s1.
     on_flag (f_bump F s1)
       (\<lambda>s2. Norm s2)
       (\<lambda>s2. case n of 0 \<Rightarrow> Timeout | Suc m \<Rightarrow> bump_quot F q m s2))"

declare loop_quot.simps [simp del] bump_quot.simps [simp del]

definition do_quot :: "'f factor \<Rightarrow> 'f code \<Rightarrow> 'f code" where
  "do_quot F q n s =
     (case f_enter F s of
        None \<Rightarrow> Stuck
      | Some s1 \<Rightarrow> continue_with (bump_quot F q n s1) (\<lambda>s2. settle (f_leave F s2)))"

definition qdo_quot :: "'f factor \<Rightarrow> 'f code \<Rightarrow> 'f code" where
  "qdo_quot F q n s = on_flag (f_equal F s) (\<lambda>s1. Norm s1) (\<lambda>s1. do_quot F q n s1)"

text \<open>
  The combinators take their quotations from the top of the stack. The quotations that
  have been pushed and not yet been taken are kept beside the state, the top first.
\<close>

fun combinator :: "'f factor \<Rightarrow> string \<Rightarrow> 'f code list \<Rightarrow> ('f code \<times> 'f code list) option" where
  "combinator F w (b # qs) =
     (if w = ''kernel:if'' then
        (case qs of a # qs' \<Rightarrow> Some (\<lambda>n s. on_flag (f_bool F s) (a n) (b n), qs') | [] \<Rightarrow> None)
      else if w = ''kernel:unless'' then Some (\<lambda>n s. on_flag (f_bool F s) Norm (b n), qs)
      else if w = ''kernel:loop'' then Some (loop_quot F b, qs)
      else if w = ''forth.runtime:do-loop'' then Some (do_quot F b, qs)
      else if w = ''forth.runtime:?do-loop'' then Some (qdo_quot F b, qs)
      else None)"
| "combinator F w [] = None"

text \<open>A word that takes no quotation while one is pending is not covered and gets stuck.\<close>

fun run_terms :: "'f factor \<Rightarrow> 'f code list \<Rightarrow> fterm list \<Rightarrow> 'f code" where
  "run_terms F qs [] = (\<lambda>n s. if qs = [] then Norm s else Stuck)"
| "run_terms F qs (FQuot a # ts) = run_terms F (run_terms F [] a # qs) ts"
| "run_terms F qs (FWord w # ts) =
     (case combinator F w qs of
        Some (c, qs') \<Rightarrow> (\<lambda>n s. continue_with (c n s) (\<lambda>s1. run_terms F qs' ts n s1))
      | None \<Rightarrow> (\<lambda>n s. if qs = [] then continue_with (settle (f_word F w s)) (\<lambda>s1. run_terms F [] ts n s1) else Stuck))"
| "run_terms F qs (FStr v # ts) =
     (\<lambda>n s. if qs = [] then continue_with (settle (f_str F v s)) (\<lambda>s1. run_terms F [] ts n s1) else Stuck)"
| "run_terms F qs (FBind x # ts) =
     (\<lambda>n s. if qs = [] then continue_with (settle (f_bind F x s)) (\<lambda>s1. run_terms F [] ts n s1) else Stuck)"
| "run_terms F qs (FNamed a # ts) = (\<lambda>n s. Stuck)"

text \<open>The text of a piece of code, read and run.\<close>

definition run_text :: "'f factor \<Rightarrow> string \<Rightarrow> 'f code" where
  "run_text F s = (case read_terms s of Some ts \<Rightarrow> run_terms F [] ts | None \<Rightarrow> (\<lambda>n s. Stuck))"

lemma run_terms_append:
  "run_terms F qs ts n s = Norm s1 \<Longrightarrow> run_terms F qs (ts @ us) n s = run_terms F [] us n s1"
proof (induction ts arbitrary: qs s)
  case (Cons t ts)
  then show ?case by (cases t) (auto split: option.splits prod.splits result.splits if_splits)
qed (simp split: if_splits)

end
