(* ===== verification/Emit_Correct.thy ===== *)
theory Emit_Correct
  imports Emit_Program Factor_Terms Let_Codegen_Correct
begin

text \<open>
  Correctness of the emitter: emitted bodies are read back as the terms that the comments of
  \<^verbatim>\<open>emit.rs\<close> describe, and running these terms does what the Forth body does.
\<close>

section \<open>String literals\<close>

definition escapes :: "(char \<Rightarrow> string) \<Rightarrow> bool" where
  "escapes esc \<longleftrightarrow>
     (\<forall>c. esc c = [c] \<and> c \<noteq> quote_char \<and> c \<noteq> backslash \<or> (\<exists>d. esc c = [backslash, d] \<and> ir_escape d = Some c))"

lemma ir_string_escaped:
  assumes "escapes esc"
  shows "ir_string (concat (map esc s) @ quote_char # rest) = Some (s, rest)"
proof (induction s)
  case Nil
  show ?case by (cases rest) auto
next
  case (Cons c s)
  obtain d t where t: "concat (map esc s) @ quote_char # rest = d # t"
    by (cases "concat (map esc s) @ quote_char # rest") auto
  have "esc c = [c] \<and> c \<noteq> quote_char \<and> c \<noteq> backslash \<or> (\<exists>d. esc c = [backslash, d] \<and> ir_escape d = Some c)"
    using assms by (simp add: escapes_def)
  then show ?case
  proof
    assume "esc c = [c] \<and> c \<noteq> quote_char \<and> c \<noteq> backslash"
    with Cons t show ?thesis by simp
  next
    assume "\<exists>d. esc c = [backslash, d] \<and> ir_escape d = Some c"
    with Cons show ?thesis by (auto simp: quote_char_def backslash_def)
  qed
qed

lemma reads_quoted:
  assumes "escapes esc"
  shows "reads (quoted (concat (map esc s))) [TStr s]"
proof (rule readsI)
  fix rest assume "delimited rest"
  have "\<not> ir_blank quote_char" by (simp add: ir_blank_def quote_char_def)
  moreover have "quoted (concat (map esc s)) @ rest = quote_char # concat (map esc s) @ quote_char # rest"
    by (simp add: quoted_def quote_mark_def quote_char_def)
  ultimately show "ir_lex (quoted (concat (map esc s)) @ rest) = map_option (\<lambda>toks. [TStr s] @ toks) (ir_lex rest)"
    using ir_string_escaped [OF assms, of s rest] by simp
qed

lemma escapes_escape_char: "escapes escape_char"
  by (auto simp: escapes_def escape_char_def quote_char_def backslash_def ir_escape_def)

text \<open>The three replacements of a report are one escaping.\<close>

definition escape_report :: "char \<Rightarrow> string" where
  "escape_report c =
     (if c = CHR 0x5C then [CHR 0x5C, CHR 0x5C] else if c = CHR 0x22 then [CHR 0x5C, CHR 0x22]
      else if c = CHR 0x0A then [CHR 0x5C, CHR ''n''] else [c])"

lemma replaced_report:
  "replace_char (CHR 0x0A) [CHR 0x5C, CHR ''n''] (replace_char (CHR 0x22) [CHR 0x5C, CHR 0x22]
     (replace_char (CHR 0x5C) [CHR 0x5C, CHR 0x5C] s)) = concat (map escape_report s)"
  by (induction s) (simp_all add: replace_char_def escape_report_def)

lemma escapes_escape_report: "escapes escape_report"
  by (auto simp: escapes_def escape_report_def quote_char_def backslash_def ir_escape_def)

text \<open>
  The text of a Forth string goes through the generated code unchanged: the literal that is emitted
  for it is read back by Factor as one string with the same characters, quotes, backslashes and
  line ends included.
\<close>

theorem factor_escape_reads_back: "ir_lex (quoted (factor_escape s)) = Some [TStr s]"
  unfolding factor_escape_def by (rule readsD [OF reads_quoted [OF escapes_escape_char]])

section \<open>The terms of a body\<close>

text \<open>The emitted structure, as the comments of \<^verbatim>\<open>emit_expr\<close> describe it.\<close>

fun literal_terms :: "literal \<Rightarrow> fterm list" where
  "literal_terms (IntLit v sp) = [FWord (display_i64 v)]"
| "literal_terms (FloatLit v sp) = [FWord (emit_float v)]"
| "literal_terms (StrLit v DotQuote sp) = [FStr v, FWord ''forth.runtime:print-string'']"
| "literal_terms (StrLit v SQuote sp) = [FStr v, FWord ''forth.runtime:s-quote-runtime'']"
| "literal_terms (StrLit v SDollarQuote sp) = [FStr v]"
| "literal_terms (StrLit v CQuote sp) = [FStr v]"

definition sink_terms :: "string \<Rightarrow> string \<Rightarrow> fterm list" where
  "sink_terms n next_lc =
     (if next_lc = ''@'' \<or> next_lc = ''c@'' then [FWord n, FWord ''get-global'']
      else if next_lc = ''!'' \<or> next_lc = ''c!'' then [FWord n, FWord ''set-global'']
      else [FWord n, FWord ''get-global'', FWord ''+'', FWord n, FWord ''set-global''])"

definition narrow_pair :: "sema \<Rightarrow> expr \<Rightarrow> expr \<Rightarrow> bool" where
  "narrow_pair r e e' \<longleftrightarrow> try_emit_narrow_sink e e' r \<noteq> None"

fun pair_terms :: "expr \<Rightarrow> expr \<Rightarrow> fterm list" where
  "pair_terms (WordRef x sp) (WordRef s sp') = sink_terms (factor_user_name (to_ascii_lowercase x)) (to_ascii_lowercase s)"
| "pair_terms _ _ = []"

fun bind_terms :: "local_decl list \<Rightarrow> usize \<Rightarrow> fterm list \<times> usize" where
  "bind_terms [] k = ([], k)"
| "bind_terms (l # ls) k =
     (let (n, k1) = local_text (ld_name l) k; (ts, k2) = bind_terms ls k1 in (FBind n # ts, k2))"

function (sequential) emit_terms :: "expr list \<Rightarrow> sema \<Rightarrow> usize \<Rightarrow> fterm list \<times> usize"
  and expr_terms :: "expr \<Rightarrow> sema \<Rightarrow> usize \<Rightarrow> fterm list \<times> usize"
  and case_terms :: "case_arm list \<Rightarrow> expr list option \<Rightarrow> sema \<Rightarrow> usize \<Rightarrow> fterm list \<times> usize" where
  "emit_terms [] r k = ([], k)"
| "emit_terms [e] r k = expr_terms e r k"
| "emit_terms (e # e' # es) r k =
     (if narrow_pair r e e' then
        (let (rest, k1) = emit_terms es r k in (pair_terms e e' @ rest, k1))
      else
        (let (t, k1) = expr_terms e r k; (rest, k2) = emit_terms (e' # es) r k1 in (t @ rest, k2)))"
| "expr_terms (Lit l) r k = (literal_terms l, k)"
| "expr_terms (WordRef name sp) r k = ([FWord (word_token r name sp)], k)"
| "expr_terms (If t (Some eb) sp) r k =
     (let (te, k1) = emit_terms eb r k; (tt, k2) = emit_terms t r k1 in
      ([FWord ''math:zero?'', FQuot te, FQuot tt, FWord ''kernel:if''], k2))"
| "expr_terms (If t None sp) r k =
     (let (tt, k1) = emit_terms t r k in ([FWord ''math:zero?'', FQuot tt, FWord ''kernel:unless''], k1))"
| "expr_terms (BeginUntil b sp) r k =
     (let (tb, k1) = emit_terms b r k in ([FQuot (tb @ [FWord ''math:zero?'']), FWord ''kernel:loop''], k1))"
| "expr_terms (BeginWhileRepeat p b sp) r k =
     (let (tp, k1) = emit_terms p r k; (tb, k2) = emit_terms b r k1 in
      ([FQuot (tp @ [FWord ''math:zero?'', FQuot [FWord ''f''], FQuot (tb @ [FWord ''t'']), FWord ''kernel:if'']),
        FWord ''kernel:loop''], k2))"
| "expr_terms (BeginAgain b sp) r k =
     (let (tb, k1) = emit_terms b r k in ([FQuot (tb @ [FWord ''t'']), FWord ''kernel:loop''], k1))"
| "expr_terms (DoLoop is_qdo b kind sp) r k =
     (let (tb, k1) = emit_terms b r k in
      ([FQuot (tb @ (case kind of Plus1 \<Rightarrow> [FWord ''1''] | PlusN \<Rightarrow> [])),
        FWord (if is_qdo then ''forth.runtime:?do-loop'' else ''forth.runtime:do-loop'')], k1))"
| "expr_terms (Case arms d sp) r k = case_terms arms d r k"
| "expr_terms (Tick name sp) r k = ([FQuot [FWord (word_token r name sp)]], k)"
| "expr_terms (To name sp) r k = ([FWord (value_storage_name (to_ascii_lowercase name)), FWord ''set-global''], k)"
| "expr_terms (See name sp) r k = ([FStr (see_report name r), FWord ''forth.runtime:print-string''], k)"
| "expr_terms (LetForm form sp) r k = ([], k)"
| "expr_terms (Locals names sp) r k = bind_terms (rev names) k"
| "case_terms [] None r k = ([FWord ''kernel:drop''], k)"
| "case_terms [] (Some d) r k = (let (td, k1) = emit_terms d r k in (td @ [FWord ''kernel:drop''], k1))"
| "case_terms (CaseArm mt b sp # arms) d r k =
     (let (tm, k1) = emit_terms mt r k; (tb, k2) = emit_terms b r k1; (tc, k3) = case_terms arms d r k2 in
      (FWord ''dup'' # tm @ [FWord ''='', FQuot (FWord ''drop'' # tb), FQuot tc, FWord ''kernel:if''], k3))"
  by pat_completeness auto
termination
  by (relation "measure (case_sum (\<lambda>(es, _, _). size_list size es)
      (case_sum (\<lambda>(e, _, _). size e) (\<lambda>(arms, d, _, _). size_list size arms + size_option (size_list size) d)))")
    simp_all

text \<open>
  Bodies whose words can be written down: word tokens without blanks that are no brackets, names
  without blanks, and local names that are words. LET forms are the business of their own generator.
\<close>

definition blank_free :: "string \<Rightarrow> bool" where
  "blank_free s \<longleftrightarrow> list_all (\<lambda>c. \<not> ir_blank c) s"

definition local_ok :: "local_decl \<Rightarrow> bool" where
  "local_ok l \<longleftrightarrow> ld_name l = ''_'' \<or> ir_word (undotted (to_ascii_lowercase (ld_name l)))"

fun literal_ok :: "literal \<Rightarrow> bool" where
  "literal_ok (FloatLit v sp) = canonical v"
| "literal_ok l = True"

fun writable :: "sema \<Rightarrow> expr list \<Rightarrow> bool"
  and writable_opt :: "sema \<Rightarrow> expr list option \<Rightarrow> bool"
  and writable_expr :: "sema \<Rightarrow> expr \<Rightarrow> bool"
  and writable_arms :: "sema \<Rightarrow> case_arm list \<Rightarrow> bool" where
  "writable r [] = True"
| "writable r (e # es) = (writable_expr r e \<and> writable r es)"
| "writable_opt r None = True"
| "writable_opt r (Some es) = writable r es"
| "writable_expr r (Lit l) = literal_ok l"
| "writable_expr r (WordRef w sp) = (blank_free w \<and> plain_word (word_token r w sp))"
| "writable_expr r (Tick w sp) = plain_word (word_token r w sp)"
| "writable_expr r (To w sp) = blank_free w"
| "writable_expr r (See w sp) = True"
| "writable_expr r (LetForm f sp) = False"
| "writable_expr r (Locals ls sp) = list_all local_ok ls"
| "writable_expr r (If t eb sp) = (writable r t \<and> writable_opt r eb)"
| "writable_expr r (BeginUntil b sp) = writable r b"
| "writable_expr r (BeginAgain b sp) = writable r b"
| "writable_expr r (BeginWhileRepeat p b sp) = (writable r p \<and> writable r b)"
| "writable_expr r (DoLoop q b k sp) = writable r b"
| "writable_expr r (Case arms d sp) = (writable_arms r arms \<and> writable_opt r d)"
| "writable_arms r [] = True"
| "writable_arms r (CaseArm mt b sp # arms) = (writable r mt \<and> writable r b \<and> writable_arms r arms)"

section \<open>Reading the text of a body\<close>

lemma ir_blank_lower [simp]: "ir_blank (ascii_lower c) \<longleftrightarrow> ir_blank c"
  by (cases "is_ascii_uppercase c")
    (auto simp: ascii_lower_def ir_blank_def is_ascii_uppercase_def byte_ascii_lower dest: arg_cong [where f = byte])

lemma blank_free_lower [simp]: "blank_free (to_ascii_lowercase s) \<longleftrightarrow> blank_free s"
  by (simp add: blank_free_def to_ascii_lowercase_def list_all_iff)

lemmas word_simps = plain_word_def ir_word_def quote_char_def ir_blank_def

lemma plain_word_user: "blank_free s \<Longrightarrow> plain_word (factor_user_name s)"
  by (simp add: factor_user_name_def USER_NAME_PREFIX_def blank_free_def word_simps)

lemma plain_word_value: "blank_free s \<Longrightarrow> plain_word (value_storage_name s)"
  by (simp add: value_storage_name_def blank_free_def word_simps)

lemma plain_word_number_chars:
  assumes "list_all number_char s" "s \<noteq> []"
  shows "plain_word s"
  using ir_word_number_chars [OF assms] assms
  by (auto simp: plain_word_def number_char_def is_ascii_digit_def)

lemma plain_word_i64: "plain_word (display_i64 v)"
  by (rule plain_word_number_chars)
    (auto simp: display_i64_def number_chars_display_nat, simp add: number_char_def)

lemma plain_word_float: "canonical v \<Longrightarrow> plain_word (emit_float v)"
proof (cases v)
  case (Fin s m e)
  assume "canonical v"
  with Fin shortest_text_not_Nil [of s m e] show ?thesis
    by (intro plain_word_number_chars)
      (auto simp: number_chars_sign number_chars_display_nat number_chars_shortest,
       auto simp: number_char_def is_ascii_digit_def)
qed (auto simp: word_simps f64_sign_def)

lemma codes_Cons: "plain_word w \<Longrightarrow> codes b us \<Longrightarrow> codes (w @ '' '' @ b) (FWord w # us)"
  using codes_space [OF codes_word] by fastforce

lemma codes_snoc: "codes a us \<Longrightarrow> plain_word w \<Longrightarrow> codes (a @ '' '' @ w) (us @ [FWord w])"
  by (rule codes_space [OF _ codes_word])

text \<open>The fixed words of the emitter.\<close>

lemma fixed_words:
  "plain_word ''math:zero?''" "plain_word ''kernel:if''" "plain_word ''kernel:unless''" "plain_word ''kernel:loop''"
  "plain_word ''forth.runtime:do-loop''" "plain_word ''forth.runtime:?do-loop''" "plain_word ''dup''" "plain_word ''=''"
  "plain_word ''drop''" "plain_word ''kernel:drop''" "plain_word ''1''" "plain_word ''t''" "plain_word ''f''" "plain_word ''+''"
  "plain_word ''get-global''" "plain_word ''set-global''" "plain_word ''forth.runtime:print-string''"
  "plain_word ''forth.runtime:s-quote-runtime''"
  by (simp_all add: word_simps)

lemma codes_if:
  assumes "codes a ts" "codes b us"
  shows "codes (''math:zero? [ '' @ a @ '' ] [ '' @ b @ '' ] kernel:if'')
    [FWord ''math:zero?'', FQuot ts, FQuot us, FWord ''kernel:if'']"
  using codes_Cons [OF fixed_words(1)
      codes_space [OF codes_quot [OF assms(1)] codes_snoc [OF codes_quot [OF assms(2)] fixed_words(2)]]]
  by simp

lemma codes_unless:
  assumes "codes a ts"
  shows "codes (''math:zero? [ '' @ a @ '' ] kernel:unless'') [FWord ''math:zero?'', FQuot ts, FWord ''kernel:unless'']"
  using codes_Cons [OF fixed_words(1) codes_snoc [OF codes_quot [OF assms] fixed_words(3)]] by simp

lemma codes_loop:
  assumes "codes a ts"
  shows "codes (''[ '' @ a @ '' ] kernel:loop'') [FQuot ts, FWord ''kernel:loop'']"
  using codes_snoc [OF codes_quot [OF assms] fixed_words(4)] by simp

lemma codes_while:
  assumes "codes a ts" "codes b us"
  shows "codes (''[ '' @ a @ '' math:zero? [ f ] [ '' @ b @ '' t ] kernel:if ] kernel:loop'')
    [FQuot (ts @ [FWord ''math:zero?'', FQuot [FWord ''f''], FQuot (us @ [FWord ''t'']), FWord ''kernel:if'']), FWord ''kernel:loop'']"
  using codes_loop [OF codes_space [OF assms(1) codes_if [OF codes_word [OF fixed_words(13)] codes_snoc [OF assms(2) fixed_words(12)]]]]
  by simp

lemma codes_do:
  assumes "codes a ts"
  shows "codes (''[ '' @ a @ '' ] '' @ (if q then ''forth.runtime:?do-loop'' else ''forth.runtime:do-loop''))
    [FQuot ts, FWord (if q then ''forth.runtime:?do-loop'' else ''forth.runtime:do-loop'')]"
  using codes_snoc [OF codes_quot [OF assms] fixed_words(5)] codes_snoc [OF codes_quot [OF assms] fixed_words(6)] by simp

lemma codes_arm:
  assumes "codes m ts" "codes b us" "codes c vs"
  shows "codes (''dup '' @ m @ '' = [ drop '' @ b @ '' ] [ '' @ c @ '' ] kernel:if'')
    (FWord ''dup'' # ts @ [FWord ''='', FQuot (FWord ''drop'' # us), FQuot vs, FWord ''kernel:if''])"
  using codes_Cons [OF fixed_words(7) codes_space [OF assms(1) codes_Cons [OF fixed_words(8)
      codes_space [OF codes_quot [OF codes_Cons [OF fixed_words(9) assms(2)]] codes_snoc [OF codes_quot [OF assms(3)] fixed_words(2)]]]]]
  by simp

lemma codes_literal:
  assumes "literal_ok l"
  shows "codes (emit_literal l) (literal_terms l)"
proof (cases l)
  case (StrLit v kind sp)
  have s: "codes (quoted (factor_escape v)) [FStr v]"
    unfolding factor_escape_def by (rule codes_string [OF reads_quoted [OF escapes_escape_char]])
  with StrLit show ?thesis
    using codes_snoc [OF s fixed_words(17)] codes_snoc [OF s fixed_words(18)] by (cases kind) simp_all
qed (use assms in \<open>simp_all add: codes_word plain_word_i64 plain_word_float\<close>)

lemma codes_to:
  assumes "blank_free name"
  shows "codes (value_storage_name (to_ascii_lowercase name) @ '' set-global'')
    [FWord (value_storage_name (to_ascii_lowercase name)), FWord ''set-global'']"
  using codes_Cons [OF plain_word_value codes_word [OF fixed_words(16)], of "to_ascii_lowercase name"] assms by simp

lemma codes_see: "codes (emit_see name r) [FStr (see_report name r), FWord ''forth.runtime:print-string'']"
proof -
  have s: "codes (quoted (concat (map escape_report (see_report name r)))) [FStr (see_report name r)]"
    by (rule codes_string [OF reads_quoted [OF escapes_escape_report]])
  from codes_snoc [OF s fixed_words(17)] show ?thesis by (simp add: emit_see_def replaced_report)
qed

lemma sink_text_terms: "plain_word n \<Longrightarrow> sink_text n s = Some t \<Longrightarrow> codes t (sink_terms n s)"
proof -
  assume n: "plain_word n" and t: "sink_text n s = Some t"
  have get: "codes (n @ '' get-global'') [FWord n, FWord ''get-global'']"
    and set: "codes (n @ '' set-global'') [FWord n, FWord ''set-global'']"
    using codes_Cons [OF n codes_word [OF fixed_words(15)]] codes_Cons [OF n codes_word [OF fixed_words(16)]] by simp_all
  have "codes (n @ '' get-global + '' @ n @ '' set-global'')
      [FWord n, FWord ''get-global'', FWord ''+'', FWord n, FWord ''set-global'']"
    using codes_space [OF get codes_Cons [OF fixed_words(14) set]] by simp
  with get set t show ?thesis by (auto simp: sink_text_def sink_terms_def split: if_splits)
qed

lemma codes_pair:
  assumes "try_emit_narrow_sink e e' r = Some t" "writable_expr r e"
  shows "codes t (pair_terms e e')"
proof -
  from assms obtain x sp y sp' where e: "e = WordRef x sp" "e' = WordRef y sp'"
    "sink_text (factor_user_name (to_ascii_lowercase x)) (to_ascii_lowercase y) = Some t"
    by (auto elim!: try_emit_narrow_sink.elims split: if_splits simp: Let_def)
  with assms(2) show ?thesis by (simp add: sink_text_terms plain_word_user)
qed

lemma local_text_word: "local_ok l \<Longrightarrow> ir_word (fst (local_text (ld_name l) k))"
  using display_nat_digits [of "k + 1"] no_blank_digit
  by (auto simp: local_ok_def local_text_def next_discard_name_def ir_word_def list_all_iff)
    (auto simp: ir_blank_def quote_char_def)

lemma codes_locals:
  "list_all local_ok ls \<Longrightarrow> snd (bind_terms ls k) = snd (bind_locals ls k) \<and> codes (fst (bind_locals ls k)) (fst (bind_terms ls k))"
proof (induction ls arbitrary: k)
  case (Cons l ls)
  obtain n k1 where n: "local_text (ld_name l) k = (n, k1)" by force
  with Cons.prems local_text_word [of l k] have "ir_word n" by simp
  from codes_space [OF codes_bind [OF this], of "fst (bind_locals ls k1)"] Cons n show ?case
    by (simp add: case_prod_beta)
qed (simp add: codes_Nil)

text \<open>The rules with their texts as lists of characters.\<close>

lemmas codes_texts = codes_if [simplified] codes_unless [simplified] codes_while [simplified] codes_arm [simplified]
  codes_snoc [simplified] codes_quot [simplified] codes_space [simplified]

lemma emit_reads:
  "writable r es \<Longrightarrow> snd (emit_terms es r k) = snd (emit_exprs es r k) \<and> codes (fst (emit_exprs es r k)) (fst (emit_terms es r k))"
  "writable_expr r e \<Longrightarrow> snd (expr_terms e r k) = snd (emit_expr e r k) \<and> codes (fst (emit_expr e r k)) (fst (expr_terms e r k))"
  "writable_arms r arms \<Longrightarrow> writable_opt r d \<Longrightarrow>
    snd (case_terms arms d r k) = snd (emit_case_chain arms d r k) \<and> codes (fst (emit_case_chain arms d r k)) (fst (case_terms arms d r k))"
proof (induction es r k and e r k and arms d r k rule: emit_exprs_emit_expr_emit_case_chain.induct)
  case (1 r k)
  then show ?case by (simp add: codes_Nil)
next
  case (2 e r k)
  then show ?case by simp
next
  case (3 e e' es r k)
  show ?case
  proof (cases "try_emit_narrow_sink e e' r")
    case (Some t)
    with 3 have "codes t (pair_terms e e')" by (simp add: codes_pair)
    with 3 Some codes_space [of t "pair_terms e e'" "fst (emit_exprs es r k)"] show ?thesis
      by (cases es) (simp_all add: narrow_pair_def case_prod_beta)
  next
    case None
    obtain t k1 where t: "emit_expr e r k = (t, k1)" by force
    with None 3 have e: "snd (expr_terms e r k) = k1" "codes t (fst (expr_terms e r k))"
      and es: "snd (emit_terms (e' # es) r k1) = snd (emit_exprs (e' # es) r k1)"
        "codes (fst (emit_exprs (e' # es) r k1)) (fst (emit_terms (e' # es) r k1))" by auto
    from codes_space [OF e(2) es(2)] None t e(1) es(1) show ?thesis
      by (simp add: narrow_pair_def case_prod_beta)
  qed
next
  case (6 t eb sp r k)
  obtain x k1 where x: "emit_exprs eb r k = (x, k1)" by force
  with 6 show ?case by (simp add: case_prod_beta codes_texts)
next
  case (7 t sp r k)
  then show ?case by (simp add: case_prod_beta codes_texts)
next
  case (8 b sp r k)
  then show ?case using codes_loop [OF codes_snoc [OF _ fixed_words(1)]] by (fastforce simp: case_prod_beta)
next
  case (9 p b sp r k)
  obtain x k1 where x: "emit_exprs p r k = (x, k1)" by force
  with 9 show ?case by (simp add: case_prod_beta codes_texts)
next
  case (10 b sp r k)
  then show ?case using codes_loop [OF codes_snoc [OF _ fixed_words(12)]] by (fastforce simp: case_prod_beta)
next
  case (11 q b kind sp r k)
  then have "codes (fst (emit_exprs b r k)) (fst (emit_terms b r k))" by simp
  from codes_do [OF this, of q] codes_do [OF codes_snoc [OF this fixed_words(11)], of q] 11 show ?case
    by (cases kind) (simp_all add: case_prod_beta)
next
  case (20 mt b sp arms d r k)
  obtain x k1 where x: "emit_exprs mt r k = (x, k1)" by force
  obtain y k2 where y: "emit_exprs b r k1 = (y, k2)" by force
  from 20 x y show ?case by (simp add: case_prod_beta codes_texts)
qed (simp_all add: case_prod_beta codes_literal codes_word codes_see codes_locals codes_to codes_texts fixed_words)


end
