(* ===== verification/Emit_Meaning.thy ===== *)
theory Emit_Meaning
  imports Emit_Correct
begin


text \<open>
  The emitted code of a body does what the body does: a forward simulation between the reference
  semantics of Forth expressions and the execution of Factor terms. What the Factor words do
  is a parameter with named laws (locale \<open>factor_target\<close>).
\<close>

section \<open>Simulation of code\<close>

text \<open>
  When the Forth code comes to an end, so does the Factor code, in a corresponding state, and when it
  needs more rounds than it is given, so does the Factor code.
\<close>

fun related :: "('s \<Rightarrow> 'f \<Rightarrow> bool) \<Rightarrow> 's result \<Rightarrow> 'f result \<Rightarrow> bool" where
  "related R (Norm s) x \<longleftrightarrow> (\<exists>y. x = Norm y \<and> R s y)"
| "related R Timeout x \<longleftrightarrow> x = Timeout"
| "related R _ x \<longleftrightarrow> True"

definition implements :: "('s \<Rightarrow> 'f \<Rightarrow> bool) \<Rightarrow> 'f code \<Rightarrow> 's code \<Rightarrow> bool" where
  "implements R d c \<longleftrightarrow> (\<forall>n s y. R s y \<longrightarrow> related R (c n s) (d n y))"

lemma implementsI: "(\<And>n s y. R s y \<Longrightarrow> related R (c n s) (d n y)) \<Longrightarrow> implements R d c"
  by (simp add: implements_def)

lemma implementsD: "implements R d c \<Longrightarrow> R s y \<Longrightarrow> related R (c n s) (d n y)"
  by (simp add: implements_def)

lemma continue_Norm_id [simp]: "continue_with x Norm = x"
  by (cases x) auto

lemma related_Norm: "R s y \<Longrightarrow> related R (Norm s) (Norm y)"
  by simp

lemma related_continue:
  assumes "related R x z" "\<And>s y. R s y \<Longrightarrow> related R' (f s) (g y)"
  shows "related R' (continue_with x f) (continue_with z g)"
  using assms by (cases x) auto

lemma related_settle:
  "(\<And>s. x = Some s \<Longrightarrow> \<exists>y. z = Some y \<and> R s y) \<Longrightarrow> related R (settle x) (settle z)"
  by (cases x) auto

lemma run_terms_timeout: "run_terms F qs ts n y = Timeout \<Longrightarrow> run_terms F qs (ts @ us) n y = Timeout"
proof (induction ts arbitrary: qs y)
  case (Cons t ts)
  then show ?case by (cases t) (auto split: option.splits prod.splits result.splits if_splits)
qed (simp split: if_splits)

text \<open>Code behind a part that is already related.\<close>

lemma related_behind:
  assumes "related R x (run_terms F [] ts n y)"
    and "\<And>s z. R s z \<Longrightarrow> related R' (f s) (continue_with (run_terms F [] us n z) g)"
  shows "related R' (continue_with x f) (continue_with (run_terms F [] (ts @ us) n y) g)"
  using assms by (cases x) (auto simp: run_terms_append run_terms_timeout)

lemma implements_seq:
  assumes "implements R (run_terms F [] ts) c" "implements R (run_terms F [] us) d"
  shows "implements R (run_terms F [] (ts @ us)) (\<lambda>n s. continue_with (c n s) (\<lambda>s1. d n s1))"
proof (rule implementsI)
  fix n s y assume "R s y"
  from implementsD [OF assms(1) this] have "related R (c n s) (run_terms F [] ts n y)" .
  then have "related R (continue_with (c n s) (\<lambda>s1. d n s1)) (continue_with (run_terms F [] (ts @ us) n y) Norm)"
    by (rule related_behind) (simp add: implementsD [OF assms(2)])
  then show "related R (continue_with (c n s) (\<lambda>s1. d n s1)) (run_terms F [] (ts @ us) n y)" by simp
qed

text \<open>The terms of the control structures, run.\<close>

lemma run_word: "run_terms F [] [FWord w] n y = settle (f_word F w y)"
  by (cases "f_word F w y") simp_all

lemma run_if:
  "run_terms F [] [FWord w, FQuot us, FQuot ts, FWord ''kernel:if''] n y =
    continue_with (settle (f_word F w y)) (\<lambda>y1. on_flag (f_bool F y1) (run_terms F [] us n) (run_terms F [] ts n))"
  by (cases "f_word F w y") (auto split: option.splits prod.splits result.splits)

lemma run_unless:
  "run_terms F [] [FWord w, FQuot ts, FWord ''kernel:unless''] n y =
    continue_with (settle (f_word F w y)) (\<lambda>y1. on_flag (f_bool F y1) Norm (run_terms F [] ts n))"
  by (cases "f_word F w y") (auto split: option.splits prod.splits result.splits)

lemma run_loop: "run_terms F [] [FQuot ts, FWord ''kernel:loop''] n y = loop_quot F (run_terms F [] ts) n y"
  by (cases "loop_quot F (run_terms F [] ts) n y") simp_all

lemma run_do:
  "run_terms F [] [FQuot ts, FWord (if q then ''forth.runtime:?do-loop'' else ''forth.runtime:do-loop'')] n y =
    (if q then qdo_quot F (run_terms F [] ts) n y else do_quot F (run_terms F [] ts) n y)"
  by (cases "qdo_quot F (run_terms F [] ts) n y"; cases "do_quot F (run_terms F [] ts) n y") simp_all

lemma run_branches:
  "run_terms F [] [FQuot us, FQuot ts, FWord ''kernel:if''] n y = on_flag (f_bool F y) (run_terms F [] us n) (run_terms F [] ts n)"
  by (auto split: option.splits prod.splits result.splits)

lemma continue_on_flag:
  "continue_with (on_flag x f g) h = on_flag x (\<lambda>s. continue_with (f s) h) (\<lambda>s. continue_with (g s) h)"
  by (cases x) (auto split: prod.split)

section \<open>The fragment\<close>

text \<open>
  Bodies made of literals, words, stores to VALUEs and control structures, in which CASE compares with
  literals and a narrow variable is fetched from or stored to as a whole cell.
\<close>

definition narrow_name :: "sema \<Rightarrow> string \<Rightarrow> bool" where
  "narrow_name r w \<longleftrightarrow> sm_escape r (to_ascii_lowercase w) = Some Narrow"

fun cell_access :: "expr \<Rightarrow> expr \<Rightarrow> bool" where
  "cell_access (WordRef x sp) (WordRef s sp') \<longleftrightarrow> to_ascii_lowercase s \<in> {''@'', ''!'', ''+!''}"
| "cell_access _ _ \<longleftrightarrow> False"

fun literal_match :: "expr list \<Rightarrow> bool" where
  "literal_match [Lit l] \<longleftrightarrow> True"
| "literal_match _ \<longleftrightarrow> False"

function (sequential) regular :: "sema \<Rightarrow> expr list \<Rightarrow> bool"
  and regular_expr :: "sema \<Rightarrow> expr \<Rightarrow> bool"
  and regular_arms :: "sema \<Rightarrow> case_arm list \<Rightarrow> expr list option \<Rightarrow> bool" where
  "regular r [] \<longleftrightarrow> True"
| "regular r [e] \<longleftrightarrow> regular_expr r e"
| "regular r (e # e' # es) \<longleftrightarrow>
     (if narrow_pair r e e' then cell_access e e' \<and> regular r es else regular_expr r e \<and> regular r (e' # es))"
| "regular_expr r (Lit l) \<longleftrightarrow> True"
| "regular_expr r (WordRef w sp) \<longleftrightarrow> \<not> narrow_name r w"
| "regular_expr r (If t (Some eb) sp) \<longleftrightarrow> regular r t \<and> regular r eb"
| "regular_expr r (If t None sp) \<longleftrightarrow> regular r t"
| "regular_expr r (BeginUntil b sp) \<longleftrightarrow> regular r b"
| "regular_expr r (BeginWhileRepeat p b sp) \<longleftrightarrow> regular r p \<and> regular r b"
| "regular_expr r (BeginAgain b sp) \<longleftrightarrow> regular r b"
| "regular_expr r (DoLoop q b k sp) \<longleftrightarrow> regular r b"
| "regular_expr r (Case arms d sp) \<longleftrightarrow> regular_arms r arms d"
| "regular_expr r (To w sp) \<longleftrightarrow> True"
| "regular_expr r e \<longleftrightarrow> False"
| "regular_arms r [] None \<longleftrightarrow> True"
| "regular_arms r [] (Some d) \<longleftrightarrow> regular r d"
| "regular_arms r (CaseArm mt b sp # arms) d \<longleftrightarrow> literal_match mt \<and> regular r b \<and> regular_arms r arms d"
  by pat_completeness auto
termination
  by (relation "measure (case_sum (\<lambda>(_, es). size_list size es)
      (case_sum (\<lambda>(_, e). size e) (\<lambda>(_, arms, d). size_list size arms + size_option (size_list size) d)))")
    simp_all

section \<open>The laws of the target\<close>

locale factor_target =
  fixes r :: sema
    and refs :: "(string \<times> span) set"
    and M :: "'s machine"
    and F :: "'f factor"
    and R :: "'s \<Rightarrow> 'f \<Rightarrow> bool"
  assumes lit: "m_lit M l s = Some s' \<Longrightarrow> R s y \<Longrightarrow> \<exists>y'. run_terms F [] (literal_terms l) n y = Norm y' \<and> R s' y'"
    and word: "(w, sp) \<in> refs \<Longrightarrow> m_word M w sp s = Some s' \<Longrightarrow> \<not> m_is_exit M w sp \<Longrightarrow> \<not> narrow_name r w \<Longrightarrow> R s y \<Longrightarrow>
      \<exists>y'. f_word F (word_token r w sp) y = Some y' \<and> R s' y'"
    and access: "m_word M x sp s = Some s1 \<Longrightarrow> m_word M w sp' s1 = Some s' \<Longrightarrow> narrow_name r x \<Longrightarrow>
      to_ascii_lowercase w \<in> {''@'', ''!'', ''+!''} \<Longrightarrow> R s y \<Longrightarrow>
      \<exists>y'. run_terms F [] (sink_terms (factor_user_name (to_ascii_lowercase x)) (to_ascii_lowercase w)) n y = Norm y' \<and> R s' y'"
    and to: "m_other M (To w sp) s = Some s' \<Longrightarrow> R s y \<Longrightarrow>
      \<exists>y'. run_terms F [] [FWord (value_storage_name (to_ascii_lowercase w)), FWord ''set-global''] n y = Norm y' \<and> R s' y'"
    and flag: "m_flag M s = Some (b, s') \<Longrightarrow> R s y \<Longrightarrow>
      \<exists>y1 y2. f_word F ''math:zero?'' y = Some y1 \<and> f_bool F y1 = Some (\<not> b, y2) \<and> R s' y2"
    and true: "\<exists>z. f_word F ''t'' y = Some z \<and> f_bool F z = Some (True, y)"
    and false: "\<exists>z. f_word F ''f'' y = Some z \<and> f_bool F z = Some (False, y)"
    and match: "m_lit M l s = Some s1 \<Longrightarrow> m_of M s1 = Some (b, s') \<Longrightarrow> R s y \<Longrightarrow>
      \<exists>y1 y2. run_terms F [] (FWord ''dup'' # literal_terms l @ [FWord ''='']) n y = Norm y1 \<and> f_bool F y1 = Some (b, y2) \<and>
        (if b then \<exists>y3. f_word F ''drop'' y2 = Some y3 \<and> R s' y3 else R s' y2)"
    and drop: "m_drop M s = Some s' \<Longrightarrow> R s y \<Longrightarrow> \<exists>y'. f_word F ''kernel:drop'' y = Some y' \<and> R s' y'"
    and enter: "m_do M False s = Some (b, s') \<Longrightarrow> R s y \<Longrightarrow> b \<and> (\<exists>y'. f_enter F y = Some y' \<and> R s' y')"
    and qenter: "m_do M True s = Some (b, s') \<Longrightarrow> R s y \<Longrightarrow>
      \<exists>y1. f_equal F y = Some (\<not> b, y1) \<and> (if b then \<exists>y'. f_enter F y1 = Some y' \<and> R s' y' else R s' y1)"
    and bump: "m_loop M k s = Some (b, s') \<Longrightarrow> R s y \<Longrightarrow>
      \<exists>y1 y2. (case k of Plus1 \<Rightarrow> f_word F ''1'' y = Some y1 | PlusN \<Rightarrow> y1 = y) \<and> f_bump F y1 = Some (\<not> b, y2) \<and>
        (if b then R s' y2 else \<exists>y'. f_leave F y2 = Some y' \<and> R s' y')"
begin

abbreviation impl :: "fterm list \<Rightarrow> 's code \<Rightarrow> bool" where
  "impl ts c \<equiv> implements R (run_terms F [] ts) c"

text \<open>The test of a flag, with the branches swapped as the emitter does.\<close>

lemma related_flag:
  assumes "R s y" "\<And>s y. R s y \<Longrightarrow> related R' (f s) (f' y)" "\<And>s y. R s y \<Longrightarrow> related R' (g s) (g' y)"
  shows "related R' (on_flag (m_flag M s) f g)
    (continue_with (settle (f_word F ''math:zero?'' y)) (\<lambda>y1. on_flag (f_bool F y1) g' f'))"
proof (cases "m_flag M s")
  case (Some p)
  obtain b s' where p: "p = (b, s')" by (cases p)
  from flag [OF Some [unfolded p] assms(1)] obtain y1 y2 where
    "f_word F ''math:zero?'' y = Some y1" "f_bool F y1 = Some (\<not> b, y2)" "R s' y2" by blast
  with Some p assms(2,3) show ?thesis by (cases b) auto
qed simp

lemma impl_if:
  assumes "impl ts c" "impl us d"
  shows "impl [FWord ''math:zero?'', FQuot us, FQuot ts, FWord ''kernel:if'']
    (\<lambda>n s. on_flag (m_flag M s) (\<lambda>s1. c n s1) (\<lambda>s1. d n s1))"
  by (rule implementsI) (simp only: run_if related_flag implementsD [OF assms(1)] implementsD [OF assms(2)])

lemma impl_unless:
  assumes "impl ts c"
  shows "impl [FWord ''math:zero?'', FQuot ts, FWord ''kernel:unless'']
    (\<lambda>n s. on_flag (m_flag M s) (\<lambda>s1. c n s1) (\<lambda>s1. Norm s1))"
  by (rule implementsI) (simp only: run_unless related_flag implementsD [OF assms] related_Norm)

lemma impl_until:
  assumes "impl ts c"
  shows "impl [FQuot (ts @ [FWord ''math:zero?'']), FWord ''kernel:loop''] (until_loop M c)"
proof -
  let ?q = "run_terms F [] (ts @ [FWord ''math:zero?''])"
  have "related R (until_loop M c n s) (loop_quot F ?q n y)" if "R s y" for n s y
    using that
  proof (induction n arbitrary: s y)
    case 0
    show ?case
      by (subst until_loop.simps, subst loop_quot.simps)
        (rule related_behind [OF implementsD [OF assms 0]], simp add: run_word related_flag del: run_terms.simps)
  next
    case (Suc n)
    show ?case
      by (subst until_loop.simps, subst loop_quot.simps)
        (rule related_behind [OF implementsD [OF assms Suc.prems]], simp add: run_word related_flag Suc.IH del: run_terms.simps)
  qed
  then show ?thesis by (simp add: implements_def run_loop del: run_terms.simps)
qed

text \<open>The constants that the emitter leaves for a loop to test.\<close>

lemma test_true: "continue_with (settle (f_word F ''t'' y)) (\<lambda>z. on_flag (f_bool F z) g h) = g y"
  using true [of y] by auto

lemma test_false: "continue_with (settle (f_word F ''f'' y)) (\<lambda>z. on_flag (f_bool F z) g h) = h y"
  using false [of y] by auto

lemma impl_again:
  assumes "impl ts c"
  shows "impl [FQuot (ts @ [FWord ''t'']), FWord ''kernel:loop''] (again_loop c)"
proof -
  let ?q = "run_terms F [] (ts @ [FWord ''t''])"
  have "related R (again_loop c n s) (loop_quot F ?q n y)" if "R s y" for n s y
    using that
  proof (induction n arbitrary: s y)
    case 0
    show ?case
      by (subst again_loop.simps, subst loop_quot.simps)
        (rule related_behind [OF implementsD [OF assms 0]], simp add: run_word test_true del: run_terms.simps)
  next
    case (Suc n)
    show ?case
      by (subst again_loop.simps, subst loop_quot.simps)
        (rule related_behind [OF implementsD [OF assms Suc.prems]], simp add: run_word test_true Suc.IH del: run_terms.simps)
  qed
  then show ?thesis by (simp add: implements_def run_loop del: run_terms.simps)
qed

lemma impl_while:
  assumes "impl ts c" "impl us d"
  shows "impl [FQuot (ts @ [FWord ''math:zero?'', FQuot [FWord ''f''], FQuot (us @ [FWord ''t'']), FWord ''kernel:if'']),
      FWord ''kernel:loop''] (while_loop M c d)"
proof -
  let ?q = "run_terms F [] (ts @ [FWord ''math:zero?'', FQuot [FWord ''f''], FQuot (us @ [FWord ''t'']), FWord ''kernel:if''])"
  have "related R (while_loop M c d n s) (loop_quot F ?q n y)" if "R s y" for n s y
    using that
  proof (induction n arbitrary: s y)
    case 0
    show ?case
      by (subst while_loop.simps, subst loop_quot.simps)
        (rule related_behind [OF implementsD [OF assms(1) 0]],
          simp only: run_if continue_with_assoc continue_on_flag,
          intro related_flag, assumption, rule related_behind [OF implementsD [OF assms(2)]],
          simp_all add: run_word test_true test_false del: run_terms.simps)
  next
    case (Suc n)
    show ?case
      by (subst while_loop.simps, subst loop_quot.simps)
        (rule related_behind [OF implementsD [OF assms(1) Suc.prems]],
          simp only: run_if continue_with_assoc continue_on_flag,
          intro related_flag, assumption, rule related_behind [OF implementsD [OF assms(2)]],
          simp_all add: run_word test_true test_false Suc.IH del: run_terms.simps)
  qed
  then show ?thesis by (simp add: implements_def run_loop del: run_terms.simps)
qed

text \<open>Counted loops. The Factor loop leaves its frame after the last round.\<close>

abbreviation R_leaving :: "'s \<Rightarrow> 'f \<Rightarrow> bool" where
  "R_leaving s y \<equiv> \<exists>y'. f_leave F y = Some y' \<and> R s y'"

abbreviation step_terms :: "loop_kind \<Rightarrow> fterm list" where
  "step_terms k \<equiv> (case k of Plus1 \<Rightarrow> [FWord ''1''] | PlusN \<Rightarrow> [])"

lemma related_bump:
  assumes "R s y" "\<And>s y. R s y \<Longrightarrow> related R' (f s) (f' y)" "\<And>s y. R_leaving s y \<Longrightarrow> related R' (g s) (g' y)"
  shows "related R' (on_flag (m_loop M k s) f g)
    (continue_with (run_terms F [] (step_terms k) n y) (\<lambda>y1. on_flag (f_bump F y1) g' f'))"
proof (cases "m_loop M k s")
  case (Some p)
  obtain b s' where p: "p = (b, s')" by (cases p)
  from bump [OF Some [unfolded p] assms(1)] obtain y1 y2 where
    y: "case k of Plus1 \<Rightarrow> f_word F ''1'' y = Some y1 | PlusN \<Rightarrow> y1 = y" "f_bump F y1 = Some (\<not> b, y2)"
      "if b then R s' y2 else R_leaving s' y2" by blast
  from y(1) have "run_terms F [] (step_terms k) n y = Norm y1"
    by (cases k) (simp_all add: run_word)
  with Some p y(2,3) assms(2,3) show ?thesis by (cases b) auto
qed simp

lemma related_do_loop:
  assumes "impl ts c" "R s y"
  shows "related R_leaving (do_loop M k c n s) (bump_quot F (run_terms F [] (ts @ step_terms k)) n y)"
  using assms(2)
proof (induction n arbitrary: s y)
  case 0
  show ?case
    by (subst do_loop.simps, subst bump_quot.simps)
      (rule related_behind [OF implementsD [OF assms(1) 0]], rule related_bump, simp_all)
next
  case (Suc n)
  show ?case
    by (subst do_loop.simps, subst bump_quot.simps)
      (rule related_behind [OF implementsD [OF assms(1) Suc.prems]], rule related_bump, simp_all add: Suc.IH)
qed

lemma related_left:
  assumes "related R_leaving x z"
  shows "related R x (continue_with z (\<lambda>y. settle (f_leave F y)))"
  using assms by (cases x) auto

lemma impl_do:
  assumes "impl ts c"
  shows "impl [FQuot (ts @ step_terms k), FWord (if q then ''forth.runtime:?do-loop'' else ''forth.runtime:do-loop'')]
    (\<lambda>n s. on_flag (m_do M q s) (\<lambda>s1. do_loop M k c n s1) (\<lambda>s1. Norm s1))"
proof (rule implementsI)
  fix n s y assume R: "R s y"
  let ?c = "run_terms F [] (ts @ step_terms k)"
  have "related R (on_flag (m_do M q s) (\<lambda>s1. do_loop M k c n s1) (\<lambda>s1. Norm s1))
      (if q then qdo_quot F ?c n y else do_quot F ?c n y)"
  proof (cases "m_do M q s")
    case (Some p)
    obtain b s' where p: "p = (b, s')" by (cases p)
    note do_it = related_left [OF related_do_loop [OF assms]]
    show ?thesis
    proof (cases q)
      case True
      with Some p have "m_do M True s = Some (b, s')" by simp
      from qenter [OF this R] obtain y1 where y1: "f_equal F y = Some (\<not> b, y1)"
        "if b then \<exists>y'. f_enter F y1 = Some y' \<and> R s' y' else R s' y1" by blast
      with Some p True do_it show ?thesis by (cases b) (auto simp: qdo_quot_def do_quot_def)
    next
      case False
      with Some p have "m_do M False s = Some (b, s')" by simp
      from enter [OF this R] Some p False do_it show ?thesis by (auto simp: do_quot_def)
    qed
  qed simp
  then show "related R (on_flag (m_do M q s) (\<lambda>s1. do_loop M k c n s1) (\<lambda>s1. Norm s1))
      (run_terms F [] [FQuot (ts @ step_terms k), FWord (if q then ''forth.runtime:?do-loop'' else ''forth.runtime:do-loop'')] n y)"
    by (simp only: run_do)
qed

text \<open>The arms of a CASE with a literal to compare with.\<close>

lemma impl_arm:
  assumes "impl ts c" "impl us d"
  shows "impl (FWord ''dup'' # literal_terms l @ [FWord ''='', FQuot (FWord ''drop'' # ts), FQuot us, FWord ''kernel:if''])
    (\<lambda>n s. continue_with (exec_seq M [Lit l] n s) (\<lambda>s1. on_flag (m_of M s1) (\<lambda>s2. c n s2) (\<lambda>s2. d n s2)))"
proof (rule implementsI)
  fix n s y assume R: "R s y"
  let ?pre = "FWord ''dup'' # literal_terms l @ [FWord ''='']"
  let ?post = "[FQuot (FWord ''drop'' # ts), FQuot us, FWord ''kernel:if'']"
  show "related R (continue_with (exec_seq M [Lit l] n s) (\<lambda>s1. on_flag (m_of M s1) (\<lambda>s2. c n s2) (\<lambda>s2. d n s2)))
    (run_terms F [] (FWord ''dup'' # literal_terms l @ [FWord ''='', FQuot (FWord ''drop'' # ts), FQuot us, FWord ''kernel:if'']) n y)"
  proof (cases "\<exists>s1 b s'. m_lit M l s = Some s1 \<and> m_of M s1 = Some (b, s')")
    case True
    then obtain s1 b s' where s: "m_lit M l s = Some s1" "m_of M s1 = Some (b, s')" by blast
    from match [OF s R, of n] obtain y1 y2 where y: "run_terms F [] ?pre n y = Norm y1" "f_bool F y1 = Some (b, y2)"
      "if b then \<exists>y3. f_word F ''drop'' y2 = Some y3 \<and> R s' y3 else R s' y2" by blast
    from run_terms_append [OF y(1), of ?post] have
      "run_terms F [] (FWord ''dup'' # literal_terms l @ [FWord ''='', FQuot (FWord ''drop'' # ts), FQuot us, FWord ''kernel:if'']) n y =
        on_flag (f_bool F y1) (run_terms F [] (FWord ''drop'' # ts) n) (run_terms F [] us n)"
      unfolding run_branches by simp
    with s y(2,3) implementsD [OF assms(1)] implementsD [OF assms(2)] show ?thesis
      by (cases b) auto
  next
    case False
    then show ?thesis by (cases "m_lit M l s") (auto split: option.splits)
  qed
qed

lemma impl_pair:
  assumes "narrow_pair r e e'" "cell_access e e'"
  shows "impl (pair_terms e e') (\<lambda>n s. continue_with (exec_expr M e n s) (\<lambda>s1. exec_expr M e' n s1))"
proof -
  from assms obtain x sp w sp' where e: "e = WordRef x sp" "e' = WordRef w sp'" "narrow_name r x"
    "to_ascii_lowercase w \<in> {''@'', ''!'', ''+!''}"
    by (cases e; cases e') (auto simp: narrow_pair_def narrow_name_def Let_def split: if_splits)
  show ?thesis
  proof (rule implementsI)
    fix n s y assume R: "R s y"
    show "related R (continue_with (exec_expr M e n s) (\<lambda>s1. exec_expr M e' n s1)) (run_terms F [] (pair_terms e e') n y)"
    proof (cases "m_is_exit M x sp \<or> m_is_exit M w sp' \<or> m_word M x sp s = None")
      case True
      then show ?thesis by (cases "m_word M x sp s") (auto simp: e)
    next
      case False
      then obtain s1 where s1: "m_word M x sp s = Some s1" by auto
      show ?thesis
      proof (cases "m_word M w sp' s1")
        case (Some s2)
        from access [OF s1 Some e(3,4) R, of n] False s1 Some show ?thesis by (auto simp: e(1,2))
      qed (use False s1 in \<open>simp add: e\<close>)
    qed
  qed
qed

lemma impl_single:
  "impl (literal_terms l) (exec_expr M (Lit l))"
  "(w, sp) \<in> refs \<Longrightarrow> \<not> narrow_name r w \<Longrightarrow> impl [FWord (word_token r w sp)] (exec_expr M (WordRef w sp))"
  "impl [FWord (value_storage_name (to_ascii_lowercase w)), FWord ''set-global''] (exec_expr M (To w sp))"
proof -
  show "impl (literal_terms l) (exec_expr M (Lit l))"
    by (rule implementsI, case_tac "m_lit M l s") (auto dest: lit)
  show "impl [FWord (word_token r w sp)] (exec_expr M (WordRef w sp))" if "(w, sp) \<in> refs" "\<not> narrow_name r w"
    by (rule implementsI, case_tac "m_word M w sp s") (auto simp: run_word dest: word [OF that(1) _ _ that(2)])
  show "impl [FWord (value_storage_name (to_ascii_lowercase w)), FWord ''set-global''] (exec_expr M (To w sp))"
    by (rule implementsI, case_tac "m_other M (To w sp) s") (auto simp del: run_terms.simps dest: to)
qed

lemma exec_Lit_arm: "exec_arms M (CaseArm [Lit l] b sp # arms) d =
    (\<lambda>n s. continue_with (exec_seq M [Lit l] n s) (\<lambda>s1. on_flag (m_of M s1) (\<lambda>s2. exec_seq M b n s2) (\<lambda>s2. exec_arms M arms d n s2)))"
  by (rule exec_arms.simps)

lemma impl_drop: "impl [FWord ''kernel:drop''] (\<lambda>n s. settle (m_drop M s))"
  by (rule implementsI, case_tac "m_drop M s") (auto simp: run_word dest: drop)

lemma exec_single: "exec_seq M [e] = exec_expr M e"
  unfolding exec_seq.simps by simp

lemma emitted_implements:
  "q = r \<Longrightarrow> regular q es \<Longrightarrow> set (word_refs es) \<subseteq> refs \<Longrightarrow> impl (fst (emit_terms es q k)) (exec_seq M es)"
  "q = r \<Longrightarrow> regular_expr q e \<Longrightarrow> set (word_refs_expr e) \<subseteq> refs \<Longrightarrow> impl (fst (expr_terms e q k)) (exec_expr M e)"
  "q = r \<Longrightarrow> regular_arms q arms d \<Longrightarrow> set (word_refs_arms arms) \<union> set (word_refs_opt d) \<subseteq> refs \<Longrightarrow> impl (fst (case_terms arms d q k)) (exec_arms M arms (exec_opt M d))"
proof (induction es q k and e q k and arms d q k rule: emit_terms_expr_terms_case_terms.induct)
  case (1 z k)
  then show ?case by (simp add: implements_def)
next
  case (2 e z k)
  then show ?case by (simp add: exec_single del: exec_seq.simps)
next
  case (3 e e' es z k)
  show ?case
  proof (cases "narrow_pair z e e'")
    case True
    with 3 have es: "impl (fst (emit_terms es z k)) (exec_seq M es)"
      and pair: "narrow_pair r e e'" "cell_access e e'" by simp_all
    from implements_seq [OF impl_pair [OF pair] es] True show ?thesis
      by (simp add: exec_seq_Cons2 case_prod_beta del: exec_seq.simps run_terms.simps)
  next
    case False
    obtain ts k1 where ts: "expr_terms e z k = (ts, k1)" by force
    from 3 False ts have "impl ts (exec_expr M e)" "impl (fst (emit_terms (e' # es) z k1)) (exec_seq M (e' # es))"
      by simp_all
    from implements_seq [OF this] False ts show ?thesis by (simp add: case_prod_beta del: run_terms.simps)
  qed
next
  case (6 t eb sp z k)
  obtain ts k1 where ts: "emit_terms eb z k = (ts, k1)" by force
  with 6 show ?case by (simp add: case_prod_beta impl_if del: run_terms.simps)
next
  case (7 t sp z k)
  then show ?case by (simp add: case_prod_beta impl_unless del: run_terms.simps)
next
  case (8 b sp z k)
  then show ?case by (simp add: case_prod_beta impl_until del: run_terms.simps)
next
  case (9 p b sp z k)
  obtain ts k1 where ts: "emit_terms p z k = (ts, k1)" by force
  with 9 show ?case by (simp add: case_prod_beta impl_while del: run_terms.simps)
next
  case (10 b sp z k)
  then show ?case by (simp add: case_prod_beta impl_again del: run_terms.simps)
next
  case (11 is_qdo b kind sp z k)
  then have "impl (fst (emit_terms b z k)) (exec_seq M b)" by simp
  from impl_do [OF this, of kind is_qdo] show ?case by (simp add: case_prod_beta del: run_terms.simps)
next
  case (20 mt b sp arms d z k)
  then obtain l where mt: "mt = [Lit l]" by (auto elim: literal_match.elims)
  obtain ts k2 where ts: "emit_terms b z k = (ts, k2)" by force
  from 20 mt ts have "impl ts (exec_seq M b)" "impl (fst (case_terms arms d z k2)) (exec_arms M arms (exec_opt M d))"
    by simp_all
  from impl_arm [OF this, of l] mt ts show ?case by (simp add: exec_Lit_arm case_prod_beta del: run_terms.simps exec_arms.simps exec_seq.simps)
next
  case (19 d z k)
  then have "impl (fst (emit_terms d z k)) (exec_seq M d)" by simp
  from implements_seq [OF this impl_drop] show ?case by (simp add: case_prod_beta del: run_terms.simps)
qed (simp_all add: impl_single [unfolded exec_expr.simps] impl_drop exec_Case del: run_terms.simps)

end

end
