(* ===== verification/Factor_Cells.thy ===== *)
theory Factor_Cells
  imports Emit_Meaning
begin

text \<open>
  The laws of \<open>factor_target\<close> hold: a Forth machine with variables, VALUEs and counted loops on 64-bit
  cells, and a Factor machine with a data stack of integers, booleans and symbols, a stack of
  loop frames (\<^verbatim>\<open>factor/forth/runtime/runtime.factor\<close>) and global variables.
\<close>

section \<open>The Forth machine\<close>

text \<open>
  An address is only used by the fetch or store that follows the variable. Counted loops are the
  ascending ones, on which the runtime agrees with ANS.
\<close>

record var_cells =
  vc_cells :: cells
  vc_vars :: "string \<rightharpoonup> i64"
  vc_vals :: "string \<rightharpoonup> i64"
  vc_addr :: "string option"

definition on_cells :: "(cells \<Rightarrow> cells option) \<Rightarrow> var_cells \<Rightarrow> var_cells option" where
  "on_cells f s =
     (if vc_addr s = None then map_option (\<lambda>c. s\<lparr>vc_cells := c\<rparr>) (f (vc_cells s)) else None)"

definition test_cells :: "(cells \<Rightarrow> (bool \<times> cells) option) \<Rightarrow> var_cells \<Rightarrow> (bool \<times> var_cells) option" where
  "test_cells f s =
     (if vc_addr s = None then map_option (\<lambda>(b, c). (b, s\<lparr>vc_cells := c\<rparr>)) (f (vc_cells s)) else None)"

definition core_words :: "string list" where
  "core_words =
     [''dup'', ''drop'', ''negate'', ''0='', ''1+'', ''1-'', ''swap'', ''over'', ''nip'', ''tuck'', ''2drop'', ''2dup'',
      ''+'', ''-'', ''*'', ''='', ''<'', ''>'', ''rot'', ''i'']"

definition access_word :: "string \<Rightarrow> string \<Rightarrow> var_cells \<Rightarrow> var_cells option" where
  "access_word x lc s =
     (let c = vc_cells s; s0 = s\<lparr>vc_addr := None\<rparr> in
      case vc_vars s x of
        None \<Rightarrow> None
      | Some v \<Rightarrow>
          if lc = ''@'' then Some (s0\<lparr>vc_cells := c\<lparr>data := v # data c\<rparr>\<rparr>)
          else case data c of
            [] \<Rightarrow> None
          | a # ds \<Rightarrow>
              if lc = ''!'' then Some (s0\<lparr>vc_cells := c\<lparr>data := ds\<rparr>, vc_vars := (vc_vars s)(x \<mapsto> a)\<rparr>)
              else if lc = ''+!'' then Some (s0\<lparr>vc_cells := c\<lparr>data := ds\<rparr>, vc_vars := (vc_vars s)(x \<mapsto> v + a)\<rparr>)
              else None)"

definition var_word :: "sema \<Rightarrow> string \<Rightarrow> span \<Rightarrow> var_cells \<Rightarrow> var_cells option" where
  "var_word r w sp s =
     (let lc = to_ascii_lowercase w in
      case vc_addr s of
        Some x \<Rightarrow> access_word x lc s
      | None \<Rightarrow>
          if narrow_name r w then (if vc_vars s lc = None then None else Some (s\<lparr>vc_addr := Some lc\<rparr>))
          else if sm_word_targets r sp = Some (UserDefined (factor_user_name lc)) then
            (case vc_vals s lc of
               Some v \<Rightarrow> on_cells (\<lambda>c. Some (c\<lparr>data := v # data c\<rparr>)) s
             | None \<Rightarrow> None)
          else if lc \<in> set core_words \<and> builtin_table lc \<noteq> None \<and> sm_word_targets r sp = builtin_table lc then on_cells (ans_word w sp) s
          else None)"

fun var_other :: "expr \<Rightarrow> var_cells \<Rightarrow> var_cells option" where
  "var_other (To w sp) s =
     (let lc = to_ascii_lowercase w; c = vc_cells s in
      case (vc_addr s, vc_vals s lc, data c) of
        (None, Some _, a # ds) \<Rightarrow> Some (s\<lparr>vc_cells := c\<lparr>data := ds\<rparr>, vc_vals := (vc_vals s)(lc \<mapsto> a)\<rparr>)
      | _ \<Rightarrow> None)"
| "var_other e s = None"

definition ascending_do :: "bool \<Rightarrow> cells \<Rightarrow> (bool \<times> cells) option" where
  "ascending_do q s =
     (case data s of
        start # limit # ds \<Rightarrow>
          if q \<and> start = limit then Some (False, s\<lparr>data := ds\<rparr>)
          else if sint start < sint limit then Some (True, s\<lparr>data := ds, loops := (limit, start) # loops s\<rparr>)
          else None
      | _ \<Rightarrow> None)"

definition ascending_round :: "i64 \<Rightarrow> cells \<Rightarrow> (bool \<times> cells) option" where
  "ascending_round step s =
     (case loops s of
        (limit, i) # ls \<Rightarrow>
          if 0 \<le> sint step \<and> sint i < sint limit \<and> sint limit - sint i < 2 ^ 63 \<and> sint i + sint step < 2 ^ 63 then
            (if sint limit \<le> sint (i + step) then Some (False, s\<lparr>loops := ls\<rparr>)
             else Some (True, s\<lparr>loops := (limit, i + step) # ls\<rparr>))
          else None
      | [] \<Rightarrow> None)"

fun ascending_loop :: "loop_kind \<Rightarrow> cells \<Rightarrow> (bool \<times> cells) option" where
  "ascending_loop Plus1 s = ascending_round 1 s"
| "ascending_loop PlusN s = (case data s of a # ds \<Rightarrow> ascending_round a (s\<lparr>data := ds\<rparr>) | [] \<Rightarrow> None)"

definition var_machine :: "sema \<Rightarrow> var_cells machine" where
  "var_machine r =
     \<lparr>m_lit = (\<lambda>l. on_cells (ans_lit l)), m_word = var_word r, m_other = var_other, m_flag = test_cells pop_flag,
      m_of = test_cells ans_of, m_drop = on_cells (on_stack (stack_word ''drop'')),
      m_do = (\<lambda>q. test_cells (ascending_do q)), m_loop = (\<lambda>k. test_cells (ascending_loop k)),
      m_is_exit = (\<lambda>w sp. is_exit_word (sm_word_targets r) (WordRef w sp))\<rparr>"

section \<open>The Factor machine\<close>

datatype factor_value = FInt i64 | FBool bool | FSym string

record factor_state =
  fs_stack :: "factor_value list"
  fs_frames :: "(i64 \<times> i64) list"
  fs_globals :: "string \<rightharpoonup> i64"

text \<open>The Factor words of the core words.\<close>

definition factor_core :: "(string \<times> string) list" where
  "factor_core =
     [(''dup'', ''dup''), (''drop'', ''drop''), (''kernel:drop'', ''drop''), (''neg'', ''negate''),
      (''forth.runtime:ans0='', ''0=''), (''forth.runtime:1+'', ''1+''), (''forth.runtime:1-'', ''1-''),
      (''swap'', ''swap''), (''over'', ''over''), (''nip'', ''nip''), (''tuck'', ''tuck''), (''2drop'', ''2drop''),
      (''2dup'', ''2dup''), (''+'', ''+''), (''-'', ''-''), (''*'', ''*''), (''forth.runtime:ans='', ''=''),
      (''forth.runtime:ans<'', ''<''), (''forth.runtime:ans>'', ''>''), (''rot'', ''rot'')]"

fun as_ints :: "factor_value list \<Rightarrow> i64 list option" where
  "as_ints [] = Some []"
| "as_ints (FInt v # st) = map_option (\<lambda>vs. v # vs) (as_ints st)"
| "as_ints _ = None"

definition on_ints :: "(i64 list \<Rightarrow> i64 list option) \<Rightarrow> factor_value list \<Rightarrow> factor_value list option" where
  "on_ints f st = Option.bind (as_ints st) (\<lambda>vs. map_option (map FInt) (f vs))"

definition number_text :: "string \<Rightarrow> i64 option" where
  "number_text w =
     (case w of
        [] \<Rightarrow> None
      | c # cs \<Rightarrow>
          if list_all is_ascii_digit w then Some (word_of_int (decimal_value w))
          else if c = CHR ''-'' \<and> cs \<noteq> [] \<and> list_all is_ascii_digit cs then Some (word_of_int (- decimal_value cs))
          else None)"

text \<open>Fixed words on the stack, and the access to global variables.\<close>

fun stack_op :: "string \<Rightarrow> factor_value list \<Rightarrow> factor_value list option" where
  "stack_op w (FInt a # FInt b # st) =
     (if w = ''='' then Some (FBool (b = a) # st)
      else if w = ''math:zero?'' then Some (FBool (a = 0) # FInt b # st) else None)"
| "stack_op w (FInt a # st) = (if w = ''math:zero?'' then Some (FBool (a = 0) # st) else None)"
| "stack_op w st = None"

fun global_op :: "string \<Rightarrow> factor_state \<Rightarrow> factor_state option" where
  "global_op w s =
     (case fs_stack s of
        FSym k # st \<Rightarrow>
          if w = ''get-global'' then map_option (\<lambda>v. s\<lparr>fs_stack := FInt v # st\<rparr>) (fs_globals s k)
          else (case st of
                  FInt v # st' \<Rightarrow> Some (s\<lparr>fs_stack := st', fs_globals := (fs_globals s)(k \<mapsto> v)\<rparr>)
                | _ \<Rightarrow> None)
      | _ \<Rightarrow> None)"

text \<open>
  Words of the program: a variable pushes its symbol, the storage name of a VALUE pushes its symbol,
  and the word of a VALUE reads the storage.
\<close>

definition program_word :: "string list \<Rightarrow> string list \<Rightarrow> string \<Rightarrow> factor_state \<Rightarrow> factor_state option" where
  "program_word vars vals w s =
     (if w \<in> set (map factor_user_name vars) \<or> w \<in> set (map value_storage_name vals)
      then Some (s\<lparr>fs_stack := FSym w # fs_stack s\<rparr>)
      else case find (\<lambda>x. factor_user_name x = w) vals of
        Some x \<Rightarrow> map_option (\<lambda>v. s\<lparr>fs_stack := FInt v # fs_stack s\<rparr>) (fs_globals s (value_storage_name x))
      | None \<Rightarrow> None)"

definition on_fs_stack :: "(factor_value list \<Rightarrow> factor_value list option) \<Rightarrow> factor_state \<Rightarrow> factor_state option" where
  "on_fs_stack f s = map_option (\<lambda>st. s\<lparr>fs_stack := st\<rparr>) (f (fs_stack s))"

definition factor_word :: "string list \<Rightarrow> string list \<Rightarrow> string \<Rightarrow> factor_state \<Rightarrow> factor_state option" where
  "factor_word vars vals w s =
     (case map_of factor_core w of
        Some fw \<Rightarrow> on_fs_stack (on_ints (stack_word fw)) s
      | None \<Rightarrow>
          case number_text w of
            Some v \<Rightarrow> on_fs_stack (\<lambda>st. Some (FInt v # st)) s
          | None \<Rightarrow>
              if w = ''t'' then on_fs_stack (\<lambda>st. Some (FBool True # st)) s
              else if w = ''f'' then on_fs_stack (\<lambda>st. Some (FBool False # st)) s
              else if w = ''='' \<or> w = ''math:zero?'' then on_fs_stack (stack_op w) s
              else if w = ''get-global'' \<or> w = ''set-global'' then global_op w s
              else if w = ''forth.runtime:i'' then
                (case fs_frames s of (l, i) # fr \<Rightarrow> Some (s\<lparr>fs_stack := FInt i # fs_stack s\<rparr>) | [] \<Rightarrow> None)
              else program_word vars vals w s)"

text \<open>The steps of the counted loop, as the runtime defines them.\<close>

fun factor_enter :: "factor_state \<Rightarrow> factor_state option" where
  "factor_enter s =
     (case fs_stack s of
        FInt start # FInt limit # st \<Rightarrow> Some (s\<lparr>fs_stack := st, fs_frames := (limit, start) # fs_frames s\<rparr>)
      | _ \<Rightarrow> None)"

fun factor_equal :: "factor_state \<Rightarrow> (bool \<times> factor_state) option" where
  "factor_equal s =
     (case fs_stack s of
        FInt start # FInt limit # st \<Rightarrow>
          Some (start = limit, if start = limit then s\<lparr>fs_stack := st\<rparr> else s)
      | _ \<Rightarrow> None)"

fun factor_bump :: "factor_state \<Rightarrow> (bool \<times> factor_state) option" where
  "factor_bump s =
     (case (fs_stack s, fs_frames s) of
        (FInt delta # st, (limit, i) # fr) \<Rightarrow>
          Some (sint limit \<le> sint (i + delta), s\<lparr>fs_stack := st, fs_frames := (limit, i + delta) # fr\<rparr>)
      | _ \<Rightarrow> None)"

fun factor_leave :: "factor_state \<Rightarrow> factor_state option" where
  "factor_leave s = (case fs_frames s of _ # fr \<Rightarrow> Some (s\<lparr>fs_frames := fr\<rparr>) | [] \<Rightarrow> None)"

fun factor_bool :: "factor_state \<Rightarrow> (bool \<times> factor_state) option" where
  "factor_bool s = (case fs_stack s of FBool b # st \<Rightarrow> Some (b, s\<lparr>fs_stack := st\<rparr>) | _ \<Rightarrow> None)"

definition cells_factor :: "string list \<Rightarrow> string list \<Rightarrow> factor_state factor" where
  "cells_factor vars vals =
     \<lparr>f_word = factor_word vars vals, f_str = (\<lambda>v s. None), f_bind = (\<lambda>x s. None), f_bool = factor_bool,
      f_enter = factor_enter, f_equal = factor_equal, f_bump = factor_bump, f_leave = factor_leave\<rparr>"

section \<open>Corresponding states\<close>

text \<open>The variables and VALUEs of a program have distinct Factor names, and all variables are narrow.\<close>

definition names_ok :: "sema \<Rightarrow> string list \<Rightarrow> string list \<Rightarrow> bool" where
  "names_ok r vars vals \<longleftrightarrow>
     distinct (map factor_user_name (vars @ vals)) \<and> (\<forall>x\<in>set vars. sm_escape r x = Some Narrow)"

definition declares :: "(string \<rightharpoonup> i64) \<Rightarrow> string list \<Rightarrow> bool" where
  "declares m xs \<longleftrightarrow> dom m = set xs"

lemma declares_Some: "declares m xs \<Longrightarrow> m x = Some v \<Longrightarrow> x \<in> set xs"
  by (auto simp: declares_def)

lemma declares_update: "declares m xs \<Longrightarrow> m x = Some v \<Longrightarrow> declares (m(x \<mapsto> a)) xs"
  by (auto simp: declares_def)

definition same_cells :: "sema \<Rightarrow> string list \<Rightarrow> string list \<Rightarrow> var_cells \<Rightarrow> factor_state \<Rightarrow> bool" where
  "same_cells r vars vals s y \<longleftrightarrow>
     names_ok r vars vals \<and> vc_addr s = None \<and> declares (vc_vars s) vars \<and> declares (vc_vals s) vals
     \<and> fs_stack y = map FInt (data (vc_cells s)) \<and> fs_frames y = loops (vc_cells s)
     \<and> (\<forall>x\<in>set vars. fs_globals y (factor_user_name x) = vc_vars s x)
     \<and> (\<forall>x\<in>set vals. fs_globals y (value_storage_name x) = vc_vals s x)"

lemma as_ints_map [simp]: "as_ints (map FInt vs) = Some vs"
  by (induction vs) auto

lemma on_ints_map: "on_ints f (map FInt vs) = map_option (map FInt) (f vs)"
  by (simp add: on_ints_def)

text \<open>Numbers.\<close>

lemma number_text_i64: "number_text (display_i64 v) = Some v"
proof (cases "sint v < 0")
  case True
  then show ?thesis using display_nat_digits [of "nat (- sint v)"]
    by (simp add: display_i64_def number_text_def is_ascii_digit_def decimal_value_display_nat)
next
  case False
  obtain c cs where "display_nat (nat (sint v)) = c # cs" by (cases "display_nat (nat (sint v))") auto
  with False show ?thesis
    using display_nat_digits [of "nat (sint v)"] decimal_value_display_nat [of "nat (sint v)"]
    by (simp add: display_i64_def number_text_def)
qed

lemma core_no_number: "list_all (\<lambda>(w, f). number_text w = None) factor_core"
  by code_simp

lemma number_no_core: "number_text w = Some v \<Longrightarrow> map_of factor_core w = None"
  using core_no_number by (auto simp: map_of_eq_None_iff list_all_iff)

lemma factor_word_number: "number_text w = Some v \<Longrightarrow> factor_word vars vals w y = Some (y\<lparr>fs_stack := FInt v # fs_stack y\<rparr>)"
  using number_no_core by (simp add: factor_word_def on_fs_stack_def)

text \<open>Core words.\<close>

lemma core_entries:
  "list_all (\<lambda>(k, t). if k \<in> set core_words
      then map_of factor_core (to_factor_token t) = Some k \<or> k = ''i'' \<and> to_factor_token t = ''forth.runtime:i''
      else True) builtin_entries"
  by code_simp

lemma core_tokens:
  assumes "fw \<in> set core_words" "builtin_table fw = Some t"
  shows "map_of factor_core (to_factor_token t) = Some fw \<or> fw = ''i'' \<and> to_factor_token t = ''forth.runtime:i''"
proof -
  have "(fw, t) \<in> set builtin_entries" using assms(2) by (auto simp: builtin_table_def dest: map_of_SomeD)
  with assms(1) core_entries show ?thesis by (auto simp: list_all_iff)
qed

lemma factor_word_fixed:
  "factor_word vars vals ''kernel:drop'' y = on_fs_stack (on_ints (stack_word ''drop'')) y"
  "factor_word vars vals ''drop'' y = on_fs_stack (on_ints (stack_word ''drop'')) y"
  "factor_word vars vals ''dup'' y = on_fs_stack (on_ints (stack_word ''dup'')) y"
  "factor_word vars vals ''+'' y = on_fs_stack (on_ints (stack_word ''+'')) y"
  "factor_word vars vals ''t'' y = Some (y\<lparr>fs_stack := FBool True # fs_stack y\<rparr>)"
  "factor_word vars vals ''f'' y = Some (y\<lparr>fs_stack := FBool False # fs_stack y\<rparr>)"
  "factor_word vars vals ''='' y = on_fs_stack (stack_op ''='') y"
  "factor_word vars vals ''math:zero?'' y = on_fs_stack (stack_op ''math:zero?'') y"
  "factor_word vars vals ''get-global'' y = global_op ''get-global'' y"
  "factor_word vars vals ''set-global'' y = global_op ''set-global'' y"
  "factor_word vars vals ''1'' y = Some (y\<lparr>fs_stack := FInt 1 # fs_stack y\<rparr>)"
  by (simp_all add: factor_word_def factor_core_def number_text_def is_ascii_digit_def on_fs_stack_def decimal_value_def
      digit_value_def)

text \<open>Names of the program.\<close>

lemma core_keys: "list_all (\<lambda>(w, f). \<not> starts_with ''z-'' w \<and> \<not> starts_with ''nf-value-'' w) factor_core"
  by code_simp

lemma starts_with_prefix: "starts_with p (p @ s)"
  by (simp add: starts_with_def)

lemma factor_word_user:
  "factor_word vars vals (factor_user_name x) y = program_word vars vals (factor_user_name x) y"
  "factor_word vars vals (value_storage_name x) y = program_word vars vals (value_storage_name x) y"
proof -
  have "map_of factor_core (''z-'' @ u) = None" "map_of factor_core (''nf-value-'' @ u) = None" for u
    using core_keys starts_with_prefix [of "''z-''" u] starts_with_prefix [of "''nf-value-''" u]
    by (auto simp: map_of_eq_None_iff list_all_iff simp del: append_Cons append_Nil)
  then show "factor_word vars vals (factor_user_name x) y = program_word vars vals (factor_user_name x) y"
    "factor_word vars vals (value_storage_name x) y = program_word vars vals (value_storage_name x) y"
    by (simp_all add: factor_word_def factor_user_name_def USER_NAME_PREFIX_def value_storage_name_def
        number_text_def is_ascii_digit_def)
qed

lemma storage_not_user [simp]:
  "value_storage_name x \<noteq> factor_user_name y" "factor_user_name y \<noteq> value_storage_name x"
  by (simp_all add: value_storage_name_def factor_user_name_def USER_NAME_PREFIX_def)

lemma storage_inj [simp]: "value_storage_name x = value_storage_name y \<longleftrightarrow> x = y"
  by (simp add: value_storage_name_def)

lemma variable_word:
  "x \<in> set vars \<Longrightarrow> factor_word vars vals (factor_user_name x) y = Some (y\<lparr>fs_stack := FSym (factor_user_name x) # fs_stack y\<rparr>)"
  by (simp add: factor_word_user program_word_def)

lemma storage_word:
  "x \<in> set vals \<Longrightarrow> factor_word vars vals (value_storage_name x) y = Some (y\<lparr>fs_stack := FSym (value_storage_name x) # fs_stack y\<rparr>)"
  by (simp add: factor_word_user program_word_def)

lemma value_word:
  assumes "names_ok r vars vals" "x \<in> set vals" "fs_globals y (value_storage_name x) = Some v"
  shows "factor_word vars vals (factor_user_name x) y = Some (y\<lparr>fs_stack := FInt v # fs_stack y\<rparr>)"
proof -
  have d: "distinct (map factor_user_name vals)" "factor_user_name x \<notin> factor_user_name ` set vars"
    using assms(1,2) by (auto simp: names_ok_def)
  from d(1) assms(2) have "find (\<lambda>z. factor_user_name z = factor_user_name x) vals = Some x"
  proof (induction vals)
    case (Cons z zs)
    then show ?case by (cases "z = x") (auto simp: image_iff)
  qed simp
  moreover have "factor_user_name x \<notin> value_storage_name ` set vals" by auto
  ultimately show ?thesis using assms(3) d(2) by (simp add: factor_word_user program_word_def)
qed

section \<open>The laws\<close>

lemmas same_simps = same_cells_def on_cells_def test_cells_def cells_factor_def var_machine_def

lemma law_lit:
  assumes "on_cells (ans_lit l) s = Some s'" "same_cells r vars vals s y"
  shows "\<exists>y'. run_terms (cells_factor vars vals) [] (literal_terms l) n y = Norm y' \<and> same_cells r vars vals s' y'"
proof (cases l)
  case (IntLit v sp)
  with assms show ?thesis
    by (auto simp: same_simps run_word factor_word_number [OF number_text_i64] split: if_splits)
qed (use assms in \<open>auto simp: same_simps split: if_splits\<close>)

lemma core_word_runs:
  assumes "fw \<in> set core_words" "builtin_table fw = Some t" "on_cells (ans_word w sp) s = Some s'"
    "to_ascii_lowercase w = fw" "same_cells r vars vals s y"
  shows "\<exists>y'. factor_word vars vals (to_factor_token t) y = Some y' \<and> same_cells r vars vals s' y'"
  using core_tokens [OF assms(1,2)]
proof
  assume tok: "map_of factor_core (to_factor_token t) = Some fw"
  then have "fw \<noteq> ''i''"
  proof -
    have "list_all (\<lambda>(w, f). f \<noteq> ''i'') factor_core" by code_simp
    with tok show ?thesis by (auto simp: list_all_iff dest!: map_of_SomeD)
  qed
  with assms(3-5) tok show ?thesis
    by (auto simp: same_simps factor_word_def on_fs_stack_def on_ints_map ans_word_def on_stack_def split: if_splits)
next
  assume i: "fw = ''i'' \<and> to_factor_token t = ''forth.runtime:i''"
  have "map_of factor_core ''forth.runtime:i'' = None" "number_text ''forth.runtime:i'' = None" by code_simp+
  with i assms(3-5) show ?thesis
    by (auto simp: same_simps factor_word_def ans_word_def split: if_splits list.splits)
qed

lemma law_word:
  assumes "var_word r w sp s = Some s'" "\<not> narrow_name r w" "same_cells r vars vals s y"
  shows "\<exists>y'. factor_word vars vals (word_token r w sp) y = Some y' \<and> same_cells r vars vals s' y'"
proof (cases "sm_word_targets r sp = Some (UserDefined (factor_user_name (to_ascii_lowercase w)))")
  case True
  with assms obtain v where v: "vc_vals s (to_ascii_lowercase w) = Some v"
    "s' = s\<lparr>vc_cells := (vc_cells s)\<lparr>data := v # data (vc_cells s)\<rparr>\<rparr>"
    by (auto simp: var_word_def same_cells_def on_cells_def Let_def split: option.splits if_splits)
  then have x: "to_ascii_lowercase w \<in> set vals" using assms(3) by (auto simp: same_cells_def dest: declares_Some)
  with assms(3) v(1) have "factor_word vars vals (factor_user_name (to_ascii_lowercase w)) y =
      Some (y\<lparr>fs_stack := FInt v # fs_stack y\<rparr>)"
    by (intro value_word [of r]) (auto simp: same_cells_def)
  with True v assms(3) show ?thesis by (auto simp: word_token_def same_cells_def)
next
  case False
  with assms have core: "to_ascii_lowercase w \<in> set core_words"
    "builtin_table (to_ascii_lowercase w) \<noteq> None" "sm_word_targets r sp = builtin_table (to_ascii_lowercase w)" "on_cells (ans_word w sp) s = Some s'"
    by (auto simp: var_word_def same_cells_def Let_def split: if_splits)
  from core(2) obtain t where t: "builtin_table (to_ascii_lowercase w) = Some t" by blast
  with core_word_runs [OF core(1) t core(4) refl assms(3)] core(3) show ?thesis by (simp add: word_token_def)
qed

lemma law_access:
  assumes "var_word r x sp s = Some s1" "var_word r w sp' s1 = Some s'" "narrow_name r x"
    "to_ascii_lowercase w \<in> {''@'', ''!'', ''+!''}" "same_cells r vars vals s y"
  shows "\<exists>y'. run_terms (cells_factor vars vals) []
      (sink_terms (factor_user_name (to_ascii_lowercase x)) (to_ascii_lowercase w)) n y = Norm y' \<and> same_cells r vars vals s' y'"
proof -
  let ?x = "to_ascii_lowercase x" and ?n = "factor_user_name (to_ascii_lowercase x)"
  from assms(1,3,5) obtain v where v: "vc_vars s ?x = Some v" and s1: "s1 = s\<lparr>vc_addr := Some ?x\<rparr>"
    by (auto simp: var_word_def same_cells_def Let_def split: if_splits)
  from v assms(5) have x: "?x \<in> set vars" by (auto simp: same_cells_def dest: declares_Some)
  from assms(5) x v have g: "fs_globals y ?n = Some v" "fs_stack y = map FInt (data (vc_cells s))"
    by (simp_all add: same_cells_def)
  have inj: "factor_user_name z = ?n \<longleftrightarrow> z = ?x" if "z \<in> set vars" for z
    using that x assms(5) by (auto simp: same_cells_def names_ok_def distinct_map dest: inj_onD)
  from assms(2) s1 v have acc: "access_word ?x (to_ascii_lowercase w) (s\<lparr>vc_addr := Some ?x\<rparr>) = Some s'"
    by (simp add: var_word_def Let_def)
  note upd = declares_update [where m = "vc_vars s" and x = "to_ascii_lowercase x", OF _ v]
  from assms(4) consider "to_ascii_lowercase w = ''@''" | "to_ascii_lowercase w = ''!''" | "to_ascii_lowercase w = ''+!''" by auto
  then show ?thesis
  proof cases
    case 1
    with acc v g assms(5) show ?thesis
      by (auto simp: access_word_def Let_def sink_terms_def cells_factor_def variable_word [OF x] factor_word_fixed same_cells_def)
  next
    case 2
    with acc v obtain a ds where d: "data (vc_cells s) = a # ds"
      "s' = s\<lparr>vc_addr := None, vc_cells := (vc_cells s)\<lparr>data := ds\<rparr>, vc_vars := (vc_vars s)(?x \<mapsto> a)\<rparr>"
      by (auto simp: access_word_def Let_def split: list.splits)
    with 2 g assms(5) inj upd show ?thesis
      by (simp add: sink_terms_def cells_factor_def variable_word [OF x] factor_word_fixed same_cells_def)
  next
    case 3
    with acc v obtain a ds where d: "data (vc_cells s) = a # ds"
      "s' = s\<lparr>vc_addr := None, vc_cells := (vc_cells s)\<lparr>data := ds\<rparr>, vc_vars := (vc_vars s)(?x \<mapsto> v + a)\<rparr>"
      by (auto simp: access_word_def Let_def split: list.splits)
    have "on_ints (stack_word ''+'') (FInt v # FInt a # map FInt ds) = Some (FInt (v + a) # map FInt ds)"
      by (simp add: on_ints_def add.commute)
    with 3 d g assms(5) inj upd show ?thesis
      by (simp add: sink_terms_def cells_factor_def variable_word [OF x] factor_word_fixed same_cells_def on_fs_stack_def)
  qed
qed

lemma law_to:
  assumes "var_other (To w sp) s = Some s'" "same_cells r vars vals s y"
  shows "\<exists>y'. run_terms (cells_factor vars vals) []
      [FWord (value_storage_name (to_ascii_lowercase w)), FWord ''set-global''] n y = Norm y' \<and> same_cells r vars vals s' y'"
proof -
  let ?x = "to_ascii_lowercase w"
  from assms(1) obtain v a ds where v: "vc_vals s ?x = Some v" and d: "data (vc_cells s) = a # ds"
    and s': "s' = s\<lparr>vc_cells := (vc_cells s)\<lparr>data := ds\<rparr>, vc_vals := (vc_vals s)(?x \<mapsto> a)\<rparr>"
    by (auto simp: Let_def split: option.splits list.splits)
  from v assms(2) have x: "?x \<in> set vals" by (auto simp: same_cells_def dest: declares_Some)
  from assms(2) d s' declares_update [where m = "vc_vals s" and x = "to_ascii_lowercase w", OF _ v] show ?thesis
    by (simp add: cells_factor_def storage_word [OF x] factor_word_fixed same_cells_def)
qed

lemma law_flag:
  assumes "test_cells pop_flag s = Some (b, s')" "same_cells r vars vals s y"
  shows "\<exists>y1 y2. factor_word vars vals ''math:zero?'' y = Some y1 \<and> factor_bool y1 = Some (\<not> b, y2) \<and> same_cells r vars vals s' y2"
proof -
  from assms obtain a ds where d: "data (vc_cells s) = a # ds" "b = (a \<noteq> 0)"
    "s' = s\<lparr>vc_cells := (vc_cells s)\<lparr>data := ds\<rparr>\<rparr>"
    by (auto simp: test_cells_def pop_flag_def split: if_splits list.splits)
  from d(1) assms(2) have "stack_op ''math:zero?'' (fs_stack y) = Some (FBool (a = 0) # map FInt ds)"
    by (cases ds) (simp_all add: same_cells_def)
  with d assms(2) show ?thesis
    by (simp add: factor_word_fixed on_fs_stack_def same_cells_def)
qed

lemma law_match:
  assumes "on_cells (ans_lit l) s = Some s1" "test_cells ans_of s1 = Some (b, s')" "same_cells r vars vals s y"
  shows "\<exists>y1 y2. run_terms (cells_factor vars vals) [] (FWord ''dup'' # literal_terms l @ [FWord ''='']) n y = Norm y1 \<and>
    factor_bool y1 = Some (b, y2) \<and>
    (if b then \<exists>y3. factor_word vars vals ''drop'' y2 = Some y3 \<and> same_cells r vars vals s' y3 else same_cells r vars vals s' y2)"
proof -
  from assms(1) obtain v sp where l: "l = IntLit v sp"
    and s1: "s1 = s\<lparr>vc_cells := (vc_cells s)\<lparr>data := v # data (vc_cells s)\<rparr>\<rparr>"
    by (cases l) (auto simp: on_cells_def split: if_splits)
  with assms(2,3) obtain a ds where d: "data (vc_cells s) = a # ds" "b = (v = a)"
    "s' = s1\<lparr>vc_cells := (vc_cells s1)\<lparr>data := (if b then ds else a # ds)\<rparr>\<rparr>"
    by (auto simp: test_cells_def ans_of_def split: if_splits list.splits)
  from assms(3) d(1) have st: "fs_stack y = FInt a # map FInt ds" by (simp add: same_cells_def)
  have dup: "on_ints (stack_word ''dup'') (FInt a # map FInt ds) = Some (FInt a # FInt a # map FInt ds)"
    "on_ints (stack_word ''drop'') (FInt a # map FInt ds) = Some (map FInt ds)" by (simp_all add: on_ints_def)
  let ?y1 = "y\<lparr>fs_stack := FBool (a = v) # FInt a # map FInt ds\<rparr>" and ?y2 = "y\<lparr>fs_stack := FInt a # map FInt ds\<rparr>"
  have "run_terms (cells_factor vars vals) [] (FWord ''dup'' # literal_terms l @ [FWord ''='']) n y = Norm ?y1"
    using st dup by (simp add: l cells_factor_def factor_word_fixed on_fs_stack_def factor_word_number [OF number_text_i64])
  moreover have "factor_bool ?y1 = Some (b, ?y2)" using d(2) by auto
  moreover have "if b then \<exists>y3. factor_word vars vals ''drop'' ?y2 = Some y3 \<and> same_cells r vars vals s' y3 else same_cells r vars vals s' ?y2"
    using d(3) s1 dup(2) assms(3) by (simp add: factor_word_fixed on_fs_stack_def same_cells_def)
  ultimately show ?thesis by blast
qed

lemma law_drop:
  assumes "on_cells (on_stack (stack_word ''drop'')) s = Some s'" "same_cells r vars vals s y"
  shows "\<exists>y'. factor_word vars vals ''kernel:drop'' y = Some y' \<and> same_cells r vars vals s' y'"
  using assms by (auto simp: same_cells_def on_cells_def on_stack_def factor_word_fixed on_fs_stack_def on_ints_map split: if_splits)

lemma law_enter:
  assumes "test_cells (ascending_do False) s = Some (b, s')" "same_cells r vars vals s y"
  shows "b \<and> (\<exists>y'. factor_enter y = Some y' \<and> same_cells r vars vals s' y')"
  using assms by (auto simp: test_cells_def same_cells_def ascending_do_def split: if_splits list.splits)

lemma law_qenter:
  assumes "test_cells (ascending_do True) s = Some (b, s')" "same_cells r vars vals s y"
  shows "\<exists>y1. factor_equal y = Some (\<not> b, y1) \<and>
    (if b then \<exists>y'. factor_enter y1 = Some y' \<and> same_cells r vars vals s' y' else same_cells r vars vals s' y1)"
proof -
  from assms(1) obtain start limit ds where d: "data (vc_cells s) = start # limit # ds"
    by (auto simp: test_cells_def ascending_do_def split: if_splits list.splits)
  with assms show ?thesis
    by (intro exI [of _ "if b then y else y\<lparr>fs_stack := map FInt ds\<rparr>"])
      (auto simp: test_cells_def same_cells_def ascending_do_def split: if_splits)
qed

lemma bump_round:
  assumes "ascending_round step (vc_cells s\<lparr>data := ds\<rparr>) = Some (b, c)" "vc_addr s = None"
    "same_cells r vars vals s y"
  shows "\<exists>y2. factor_bump (y\<lparr>fs_stack := FInt step # map FInt ds\<rparr>) = Some (\<not> b, y2) \<and>
    (if b then same_cells r vars vals (s\<lparr>vc_cells := c\<rparr>) y2
     else \<exists>y'. factor_leave y2 = Some y' \<and> same_cells r vars vals (s\<lparr>vc_cells := c\<rparr>) y')"
proof -
  from assms(1) obtain limit i ls where l: "loops (vc_cells s) = (limit, i) # ls"
    by (auto simp: ascending_round_def split: list.splits)
  with assms show ?thesis
    by (intro exI [of _ "y\<lparr>fs_stack := map FInt ds, fs_frames := (limit, i + step) # ls\<rparr>"])
      (auto simp: same_cells_def ascending_round_def split: if_splits)
qed

lemma law_bump:
  assumes "test_cells (ascending_loop k) s = Some (b, s')" "same_cells r vars vals s y"
  shows "\<exists>y1 y2. (case k of Plus1 \<Rightarrow> factor_word vars vals ''1'' y = Some y1 | PlusN \<Rightarrow> y1 = y) \<and> factor_bump y1 = Some (\<not> b, y2) \<and>
    (if b then same_cells r vars vals s' y2 else \<exists>y'. factor_leave y2 = Some y' \<and> same_cells r vars vals s' y')"
proof -
  from assms obtain c where c: "ascending_loop k (vc_cells s) = Some (b, c)" "s' = s\<lparr>vc_cells := c\<rparr>" "vc_addr s = None"
    "fs_stack y = map FInt (data (vc_cells s))"
    by (auto simp: test_cells_def same_cells_def split: if_splits)
  show ?thesis
  proof (cases k)
    case Plus1
    with c have "ascending_round 1 (vc_cells s\<lparr>data := data (vc_cells s)\<rparr>) = Some (b, c)" by simp
    from bump_round [OF this c(3) assms(2)] Plus1 c(2,4) show ?thesis
      by (cases b) (simp_all add: factor_word_fixed del: factor_bump.simps factor_leave.simps)
  next
    case PlusN
    with c(1) obtain a ds where d: "data (vc_cells s) = a # ds" "ascending_round a (vc_cells s\<lparr>data := ds\<rparr>) = Some (b, c)"
      by (auto split: list.splits)
    have "y\<lparr>fs_stack := FInt a # map FInt ds\<rparr> = y" using c(4) d(1) by simp
    with bump_round [OF d(2) c(3) assms(2)] PlusN c(2) show ?thesis
      by (cases b) (simp_all del: factor_bump.simps factor_leave.simps)
  qed
qed

lemma machine_parts:
  "m_lit (var_machine r) l = on_cells (ans_lit l)" "m_word (var_machine r) = var_word r" "m_other (var_machine r) = var_other"
  "m_flag (var_machine r) = test_cells pop_flag" "m_of (var_machine r) = test_cells ans_of"
  "m_drop (var_machine r) = on_cells (on_stack (stack_word ''drop''))" "m_do (var_machine r) q = test_cells (ascending_do q)"
  "m_loop (var_machine r) k = test_cells (ascending_loop k)"
  "f_word (cells_factor vars vals) = factor_word vars vals" "f_bool (cells_factor vars vals) = factor_bool"
  "f_enter (cells_factor vars vals) = factor_enter" "f_equal (cells_factor vars vals) = factor_equal"
  "f_bump (cells_factor vars vals) = factor_bump" "f_leave (cells_factor vars vals) = factor_leave"
  by (simp_all add: var_machine_def cells_factor_def)

interpretation cells_target: factor_target r refs "var_machine r" "cells_factor vars vals" "same_cells r vars vals"
  for r refs vars vals
proof (unfold_locales, unfold machine_parts)
  show "\<exists>z. factor_word vars vals ''t'' y = Some z \<and> factor_bool z = Some (True, y)"
    "\<exists>z. factor_word vars vals ''f'' y = Some z \<and> factor_bool z = Some (False, y)" for y
    by (simp_all add: factor_word_fixed)
qed (rule law_lit law_word law_access law_to law_flag law_match law_drop law_enter law_qenter law_bump; assumption)+

text \<open>On ascending loops the step of the runtime is the ANS step.\<close>

lemma sint_in_range:
  assumes "- (2 ^ 63) \<le> n" "n < 2 ^ 63"
  shows "sint (word_of_int n :: i64) = n"
  using assms by (simp add: int_word_sint mod_pos_pos_trivial)

lemma ascending_round_ans:
  assumes "ascending_round step c = Some x"
  shows "loop_round step c = Some x"
proof -
  from assms obtain limit i ls where l: "loops c = (limit, i) # ls" and a: "0 \<le> sint step" "sint i < sint limit"
    "sint limit - sint i < 2 ^ 63" "sint i + sint step < 2 ^ 63"
    by (auto simp: ascending_round_def split: list.splits if_splits)
  have r: "- (2 ^ 63) \<le> sint i" "sint limit < 2 ^ 63" "- (2 ^ 63) \<le> sint limit" "sint i < 2 ^ 63" "sint step < 2 ^ 63"
    using sint_range_size [of i] sint_range_size [of limit] sint_range_size [of step] by (simp_all add: word_size)
  have i': "sint (i + step) = sint i + sint step"
    using a r sint_in_range [of "sint i + sint step"] by (simp flip: word_add_def)
  have d: "sint (i - limit) = sint i - sint limit"
    using a r sint_in_range [of "sint i - sint limit"] by (simp flip: word_sub_wi)
  have "sint (i + step - limit) = sint i + sint step - sint limit"
    using a r sint_in_range [of "sint i + sint step - sint limit"] i' by (simp flip: word_sub_wi)
  with d i' a assms l show ?thesis by (auto simp: loop_round_def ascending_round_def)
qed


section \<open>The emitted code of a body\<close>

text \<open>
  C2. Code generation is correct: for every Factor image whose words obey the laws of \<open>factor_target\<close>, the
  text emitted for a body, read back and run, comes to an end whenever the body does, in a state
  that corresponds to the final state of the body, and goes on looping whenever the body does.
\<close>

theorem emitted_code_correct:
  assumes "factor_target r (set (word_refs es)) M F R"
    and "regular r es" and "writable r es"
    and "R s y"
  shows "related R (exec_seq M es n s) (run_text F (fst (emit_exprs es r k)) n y)"
  using factor_target.emitted_implements(1) [OF assms(1) refl assms(2) subset_refl] assms(4)
    codes_read_terms [OF conjunct2 [OF emit_reads(1) [OF assms(3)]]]
  by (simp add: run_text_def implements_def)

text \<open>A body with a counted loop, a narrow variable, a CASE and a VALUE.\<close>

definition at_byte :: "nat \<Rightarrow> span" where
  "at_byte n = point \<lparr>pos_line = 1, pos_col = of_nat n, byte_offset = of_nat n\<rparr>"

definition sample_body :: "expr list" where
  "sample_body =
     [DoLoop False [WordRef ''i'' (at_byte 1), WordRef ''x'' (at_byte 2), WordRef ''+!'' (at_byte 3)] Plus1 (at_byte 0),
      WordRef ''x'' (at_byte 4), WordRef ''@'' (at_byte 5),
      Case [CaseArm [Lit (IntLit 1 (at_byte 7))] [Lit (IntLit 7 (at_byte 8))] (at_byte 7)]
        (Some [Lit (IntLit 0 (at_byte 9)), WordRef ''swap'' (at_byte 10)]) (at_byte 6),
      To ''v'' (at_byte 11)]"

definition sample_sema :: sema where
  "sample_sema =
     \<lparr>sm_program = [], sm_word_targets =
        [at_byte 1 \<mapsto> QualifiedBuiltin ''forth.runtime'' ''i'', at_byte 10 \<mapsto> Builtin ''kernel'' ''swap''],
      sm_user_words = Map.empty, sm_variables = Map.empty, sm_constants = Map.empty, sm_creates = Map.empty,
      sm_collections = Map.empty, sm_templates = Map.empty, sm_values = Map.empty, sm_class_slots = Map.empty,
      sm_user_effects = Map.empty, sm_body_effects = Map.empty, sm_effect_errors = [], sm_call_graph = Map.empty,
      sm_use_sites = Map.empty, sm_escape = [''x'' \<mapsto> Narrow], sm_docs = Map.empty\<rparr>"

definition sample_start :: var_cells where
  "sample_start = \<lparr>vc_cells = cells_of [0, 2], vc_vars = [''x'' \<mapsto> 0], vc_vals = [''v'' \<mapsto> 0], vc_addr = None\<rparr>"

definition sample_image :: factor_state where
  "sample_image = \<lparr>fs_stack = [FInt 0, FInt 2], fs_frames = [], fs_globals = [''z-x'' \<mapsto> 0, ''nf-value-v'' \<mapsto> 0]\<rparr>"

definition sample_text :: string where
  "sample_text =
     ''[ forth.runtime:i z-x get-global + z-x set-global 1 ] forth.runtime:do-loop z-x get-global '' @
     ''dup 1 = [ drop 7 ] [ 0 swap kernel:drop ] kernel:if nf-value-v set-global''"

lemma sample_facts:
  "regular sample_sema sample_body \<and> writable sample_sema sample_body \<and>
   fst (emit_exprs sample_body sample_sema 0) = sample_text \<and>
   (case exec_seq (var_machine sample_sema) sample_body 2 sample_start of
      Norm s \<Rightarrow> data (vc_cells s) = [] \<and> vc_vars s ''x'' = Some 1 \<and> vc_vals s ''v'' = Some 7
    | _ \<Rightarrow> False)"
  by code_simp


lemma sample_related: "same_cells sample_sema [''x''] [''v''] sample_start sample_image"
  by (simp add: same_cells_def names_ok_def sample_sema_def sample_start_def sample_image_def declares_def
      factor_user_name_def USER_NAME_PREFIX_def value_storage_name_def)

theorem emitted_code_correct_witness:
  "\<exists>y. run_text (cells_factor [''x''] [''v'']) sample_text 2 sample_image = Norm y \<and>
    fs_stack y = [] \<and> fs_globals y ''z-x'' = Some 1 \<and> fs_globals y ''nf-value-v'' = Some 7"
proof -
  from emitted_code_correct [OF cells_target.factor_target_axioms _ _ sample_related, of sample_body 2 0] sample_facts
  have "related (same_cells sample_sema [''x''] [''v'']) (exec_seq (var_machine sample_sema) sample_body 2 sample_start)
      (run_text (cells_factor [''x''] [''v'']) sample_text 2 sample_image)" by simp
  with sample_facts show ?thesis
    by (auto simp: same_cells_def factor_user_name_def USER_NAME_PREFIX_def value_storage_name_def
        split: result.splits)
qed

end
