(* ===== verification/Emit_Program_Correct.thy ===== *)
theory Emit_Program_Correct
  imports Factor_Cells
begin

text \<open>
  The program text around the bodies: the USING line, stack-effect annotations, the accesses to narrow
  variables and the fresh names.
\<close>

section \<open>The USING line\<close>

lemma vocab_set_finite: "finite (dom (sm_word_targets r)) \<Longrightarrow> finite (vocab_set r)"
proof -
  assume "finite (dom (sm_word_targets r))"
  then have "finite (ran (sm_word_targets r))" by (rule finite_ran)
  then show ?thesis by (simp add: vocab_set_def Let_def)
qed

lemma set_vocabs_needed: "finite (dom (sm_word_targets r)) \<Longrightarrow> set (vocabs_needed r) = vocab_set r"
  by (simp add: vocabs_needed_def vocab_set_finite)

definition using_words_plain :: "sema \<Rightarrow> bool" where
  "using_words_plain r \<longleftrightarrow> (\<forall>t\<in>ran (sm_word_targets r). \<forall>v\<in>set_option (target_vocab t). ir_word v)"

lemma vocab_set_words: "using_words_plain r \<Longrightarrow> v \<in> vocab_set r \<Longrightarrow> ir_word v"
  by (auto simp: vocab_set_def using_words_plain_def baseline_vocabs_def Let_def split: if_splits)
    (simp_all add: ir_word_def quote_char_def ir_blank_def)

lemma reads_word_then: "ir_word w \<Longrightarrow> delimited b \<Longrightarrow> reads b us \<Longrightarrow> reads (w @ b) (TWord w # us)"
  using reads_append [OF reads_word, of w b us] by simp

lemma reads_blank_words:
  assumes "\<forall>v\<in>set vs. ir_word v" "reads u us" "delimited u"
  shows "reads (concat (map (\<lambda>v. '' '' @ v) vs) @ u) (map TWord vs @ us)"
  using assms(1)
proof (induction vs)
  case (Cons v vs)
  have "delimited (concat (map (\<lambda>v. '' '' @ v) vs) @ u)" using assms(3) by (cases vs) simp_all
  with Cons have "reads (v @ concat (map (\<lambda>v. '' '' @ v) vs) @ u) (TWord v # map TWord vs @ us)"
    by (intro reads_word_then) simp_all
  then show ?case by (simp add: reads_blank)
qed (use assms(2) in simp)

text \<open>
  C27. The USING line names the vocabulary of every word the program refers to: read back, it is the
  word \<^verbatim>\<open>USING:\<close>, a sorted list of vocabularies without repetition that contains those the emitter
  always needs and the vocabulary of each bound reference, and a semicolon.
\<close>

theorem using_line_complete:
  assumes "finite (dom (sm_word_targets r))" "using_words_plain r"
  shows "\<exists>vs. ir_words (emit_using_line r) = ''USING:'' # vs @ ['';''] \<and> sorted vs \<and> distinct vs \<and>
    set baseline_vocabs \<subseteq> set vs \<and>
    (\<forall>sp t v. sm_word_targets r sp = Some t \<longrightarrow> target_vocab t = Some v \<longrightarrow> v \<in> set vs)"
proof (intro exI conjI allI impI)
  let ?vs = "vocabs_needed r"
  have "\<forall>v\<in>set ?vs. ir_word v" using vocab_set_words [OF assms(2)] set_vocabs_needed [OF assms(1)] by simp
  moreover have "reads ('' ;'' @ newline) [TWord '';'']"
    using reads_append [OF reads_word, of "'';''" newline "[]"] reads_blank [of "CHR '' ''"]
    by (simp add: ir_word_def quote_char_def ir_blank_def reads_blank reads_Nil)
  ultimately have "reads (concat (map (\<lambda>v. '' '' @ v) ?vs) @ '' ;'' @ newline) (map TWord ?vs @ [TWord '';''])"
    by (intro reads_blank_words) simp_all
  moreover have "delimited (concat (map (\<lambda>v. '' '' @ v) ?vs) @ '' ;'' @ newline)" by (cases ?vs) simp_all
  moreover have "ir_word ''USING:''" by (simp add: ir_word_def quote_char_def ir_blank_def)
  ultimately have "reads (''USING:'' @ concat (map (\<lambda>v. '' '' @ v) ?vs) @ '' ;'' @ newline)
      (TWord ''USING:'' # map TWord ?vs @ [TWord '';''])"
    by (intro reads_word_then)
  then show "ir_words (emit_using_line r) = ''USING:'' # ?vs @ ['';'']"
    by (intro ir_words_reads) (simp add: emit_using_line_def)
  show "sorted ?vs" "distinct ?vs" using vocab_set_finite [OF assms(1)] by (simp_all add: vocabs_needed_def)
  show "set baseline_vocabs \<subseteq> set ?vs" by (auto simp: set_vocabs_needed [OF assms(1)] vocab_set_def Let_def)
  show "v \<in> set ?vs" if "sm_word_targets r sp = Some t" "target_vocab t = Some v" for sp t v
    using that by (auto simp: set_vocabs_needed [OF assms(1)] vocab_set_def Let_def ran_def)
qed

theorem using_line_complete_witness:
  "\<exists>vs. ir_words (emit_using_line sample_sema) = ''USING:'' # vs @ ['';''] \<and> ''kernel'' \<in> set vs \<and> sorted vs"
proof -
  have dom: "finite (dom (sm_word_targets sample_sema))" by (simp add: sample_sema_def)
  have words: "using_words_plain sample_sema"
    by (auto simp: using_words_plain_def sample_sema_def ran_def ir_word_def quote_char_def ir_blank_def split: if_splits)
  have "sm_word_targets sample_sema (at_byte 10) = Some (Builtin ''kernel'' ''swap'')"
    by (simp add: sample_sema_def)
  with using_line_complete [OF dom words] show ?thesis by fastforce
qed

section \<open>Stack-effect annotations\<close>

definition annotation_names_ok :: "stack_effect \<Rightarrow> bool" where
  "annotation_names_ok eff \<longleftrightarrow>
     (\<forall>s\<in>set (se_inputs eff) \<union> set (se_outputs eff). ir_word (sanitize s) \<and> sanitize s \<noteq> ''--'')"

text \<open>The names on both sides of an annotation, as Factor reads them.\<close>

definition annotation_sides :: "string \<Rightarrow> (string list \<times> string list) option" where
  "annotation_sides s =
     (case ir_words s of
        w # ws \<Rightarrow>
          (let ins = takeWhile (\<lambda>x. x \<noteq> ''--'') ws; rest = dropWhile (\<lambda>x. x \<noteq> ''--'') ws in
           if w = ''('' \<and> rest \<noteq> [] \<and> last rest = '')'' then Some (ins, butlast (tl rest)) else None)
      | [] \<Rightarrow> None)"

lemma annotation_sidesI:
  assumes "ir_words s = ''('' # ins @ ''--'' # outs @ ['')'']" "''--'' \<notin> set ins"
  shows "annotation_sides s = Some (ins, outs)"
proof -
  have "takeWhile (\<lambda>x. x \<noteq> ''--'') (ins @ ''--'' # us) = ins" "dropWhile (\<lambda>x. x \<noteq> ''--'') (ins @ ''--'' # us) = ''--'' # us" for us
    using assms(2) by (subst takeWhile_append2 dropWhile_append2; auto)+
  then show ?thesis by (simp add: annotation_sides_def assms(1))
qed

lemma reads_annotation:
  assumes "\<forall>v\<in>set ins. ir_word v" "\<forall>v\<in>set outs. ir_word v" "list_all ir_blank p" "list_all ir_blank q"
  shows "ir_words (''('' @ concat (map (\<lambda>v. '' '' @ v) ins) @ p @ '' --'' @ concat (map (\<lambda>v. '' '' @ v) outs) @ q @ '' ) '')
    = ''('' # ins @ ''--'' # outs @ ['')'']"
proof -
  have blanks: "reads (p @ u) us" if "list_all ir_blank p" "reads u us" for p u us
    using that by (induction p) (simp_all add: reads_blank)
  have del: "delimited (concat (map (\<lambda>v. '' '' @ v) vs) @ p @ CHR '' '' # u)" if "list_all ir_blank p" for vs p u
    using that by (cases vs; cases p) simp_all
  have "reads '' ) '' [TWord '')'']"
    using reads_append [OF reads_word, of "'')''" "'' ''" "[]"]
    by (simp add: ir_word_def quote_char_def ir_blank_def reads_blank reads_Nil)
  from reads_blank_words [OF assms(2) blanks [OF assms(4) this]] assms(4)
  have "reads (concat (map (\<lambda>v. '' '' @ v) outs) @ q @ '' ) '') (map TWord outs @ [TWord '')''])"
    by (cases q) simp_all
  moreover have "ir_word ''--''" "ir_word ''(''" by (simp_all add: ir_word_def quote_char_def ir_blank_def)
  ultimately have "reads (''--'' @ concat (map (\<lambda>v. '' '' @ v) outs) @ q @ '' ) '') (TWord ''--'' # map TWord outs @ [TWord '')''])"
    using del [OF assms(4), of outs "'') ''"] by (intro reads_word_then) simp_all
  then have "reads ('' --'' @ concat (map (\<lambda>v. '' '' @ v) outs) @ q @ '' ) '') (TWord ''--'' # map TWord outs @ [TWord '')''])"
    by (simp add: reads_blank)
  from reads_blank_words [OF assms(1) blanks [OF assms(3) this]] assms(3)
  have "reads (concat (map (\<lambda>v. '' '' @ v) ins) @ p @ '' --'' @ concat (map (\<lambda>v. '' '' @ v) outs) @ q @ '' ) '')
      (map TWord ins @ TWord ''--'' # map TWord outs @ [TWord '')''])"
    by (cases p) simp_all
  with \<open>ir_word ''(''\<close> del [OF assms(3), of ins "''--'' @ concat (map (\<lambda>v. '' '' @ v) outs) @ q @ '' ) ''"]
  have "reads (''('' @ concat (map (\<lambda>v. '' '' @ v) ins) @ p @ '' --'' @ concat (map (\<lambda>v. '' '' @ v) outs) @ q @ '' ) '')
      (TWord ''('' # map TWord ins @ TWord ''--'' # map TWord outs @ [TWord '')''])"
    by (intro reads_word_then) simp_all
  then show ?thesis by (intro ir_words_reads) simp
qed

definition letter_names :: "nat \<Rightarrow> string list" where
  "letter_names n = map (\<lambda>i. [char_of (97 + i mod 26)]) [0..<n]"

definition result_names :: "nat \<Rightarrow> string list" where
  "result_names n = map (\<lambda>i. ''r'' @ display_nat i) [0..<n]"

lemma letter_word: "ir_word [char_of (97 + i mod 26 :: nat)] \<and> [char_of (97 + i mod 26 :: nat)] \<noteq> ''--''"
proof -
  have b: "byte (char_of (97 + i mod 26)) = 97 + i mod 26" by simp
  have "char_of (97 + i mod 26) \<noteq> quote_char" "\<not> ir_blank (char_of (97 + i mod 26))"
    using b by (auto simp: ir_blank_def quote_char_def dest: arg_cong [where f = byte])
  then show ?thesis by (simp add: ir_word_def)
qed

lemma result_word: "ir_word (''r'' @ display_nat i)"
  using display_nat_digits [of i] no_blank_digit by (auto simp: ir_word_def list_all_iff quote_char_def ir_blank_def)

lemma synth_sides:
  "annotation_sides (synth_effect_annotation inputs outputs) = Some (letter_names (unat inputs), result_names (unat outputs))"
proof (rule annotation_sidesI)
  have "synth_effect_annotation inputs outputs =
      ''('' @ concat (map (\<lambda>v. '' '' @ v) (letter_names (unat inputs))) @ (if inputs = 0 then '' '' else []) @ '' --''
      @ concat (map (\<lambda>v. '' '' @ v) (result_names (unat outputs))) @ (if outputs = 0 then '' '' else []) @ '' ) ''"
    by (simp add: synth_effect_annotation_def letter_names_def result_names_def o_def)
  moreover have "\<forall>v\<in>set (letter_names (unat inputs)). ir_word v" "\<forall>v\<in>set (result_names (unat outputs)). ir_word v"
    using letter_word result_word by (auto simp: letter_names_def result_names_def)
  ultimately show "ir_words (synth_effect_annotation inputs outputs) =
      ''('' # letter_names (unat inputs) @ ''--'' # result_names (unat outputs) @ ['')'']"
    by (simp only: reads_annotation) (subst reads_annotation; simp)
  show "''--'' \<notin> set (letter_names (unat inputs))"
    using letter_word by (auto simp: letter_names_def simp del: append.simps)
qed

lemma declared_sides:
  assumes "annotation_names_ok eff"
  shows "annotation_sides (declared_annotation eff) = Some (map sanitize (se_inputs eff), map sanitize (se_outputs eff))"
proof (rule annotation_sidesI)
  have "declared_annotation eff =
      ''('' @ concat (map (\<lambda>v. '' '' @ v) (map sanitize (se_inputs eff))) @ (if se_inputs eff = [] then '' '' else []) @ '' --''
      @ concat (map (\<lambda>v. '' '' @ v) (map sanitize (se_outputs eff))) @ [] @ '' ) ''"
    by (simp add: declared_annotation_def o_def)
  then show "ir_words (declared_annotation eff) =
      ''('' # map sanitize (se_inputs eff) @ ''--'' # map sanitize (se_outputs eff) @ ['')'']"
    using assms by (simp only:, subst reads_annotation) (auto simp: annotation_names_ok_def)
  show "''--'' \<notin> set (map sanitize (se_inputs eff))" using assms by (auto simp: annotation_names_ok_def)
qed



section \<open>Narrow variables\<close>

lemma byte_words_lower:
  "to_ascii_lowercase ''C@'' = ''c@''" "to_ascii_lowercase ''C!'' = ''c!''"
  "to_ascii_lowercase ''@'' = ''@''" "to_ascii_lowercase ''!'' = ''!''"
  by code_simp+

text \<open>
  A variable that is kept as a Factor global has no byte access: \<^verbatim>\<open>X C@\<close> and \<^verbatim>\<open>X C!\<close> are emitted
  as the very text of \<^verbatim>\<open>X @\<close> and \<^verbatim>\<open>X !\<close>, whole cells read and written, whatever the byte words are
  bound to; the same source with the variable kept wide names the bound byte words.
\<close>

theorem narrow_byte_access:
  "(sm_escape r (to_ascii_lowercase x) = Some Narrow \<longrightarrow>
      emit_exprs [WordRef x sp, WordRef ''C@'' sp'] r k = emit_exprs [WordRef x sp, WordRef ''@'' sp'] r k \<and>
      emit_exprs [WordRef x sp, WordRef ''C!'' sp'] r k = emit_exprs [WordRef x sp, WordRef ''!'' sp'] r k) \<and>
   (sm_escape r (to_ascii_lowercase x) \<noteq> Some Narrow \<longrightarrow>
      fst (emit_exprs [WordRef x sp, WordRef w sp'] r k) = word_token r x sp @ '' '' @ word_token r w sp')"
  by (simp add: Let_def byte_words_lower sink_text_def)

theorem narrow_byte_access_witness:
  "emit_exprs [WordRef ''X'' (at_byte 4), WordRef ''C@'' (at_byte 5)] sample_sema 0 =
   emit_exprs [WordRef ''X'' (at_byte 4), WordRef ''@'' (at_byte 5)] sample_sema 0"
proof -
  have "to_ascii_lowercase ''X'' = ''x''" by code_simp
  then have "sm_escape sample_sema (to_ascii_lowercase ''X'') = Some Narrow" by (simp add: sample_sema_def)
  with narrow_byte_access [of sample_sema "''X''"] show ?thesis by blast
qed

end
