(* ===== verification/Driver.thy ===== *)
theory Driver
  imports Parser Emit_Program
begin

text \<open>
  The compiler driver, \<^verbatim>\<open>src/src/compiler/mod.rs\<close>: the context that an interactive session carries from one
  compile to the next, the records behind SEE, the expansion of NEEDS and the composition of all
  passes. Files are reached through a parameter, the operations of the operating system that the
  driver calls.
\<close>

section \<open>Text\<close>

text \<open>\<^verbatim>\<open>str::trim\<close> on UTF-8 text. No white-space character starts with a continuation byte, so the
  characters at the end can be looked for at every byte.\<close>

function all_white :: "string \<Rightarrow> bool" where
  "all_white s = (if s = [] then True else if ws_len s = 0 then False else all_white (drop (ws_len s) s))"
  by pat_completeness auto
termination
  by (relation "measure length") auto

function trim_start :: "string \<Rightarrow> string" where
  "trim_start s = (if s = [] \<or> ws_len s = 0 then s else trim_start (drop (ws_len s) s))"
  by pat_completeness auto
termination
  by (relation "measure length") auto

declare all_white.simps [simp del] trim_start.simps [simp del]

fun trim_end :: "string \<Rightarrow> string" where
  "trim_end [] = []"
| "trim_end (c # s) = (if all_white (c # s) then [] else c # trim_end s)"

definition trim :: "string \<Rightarrow> string" where
  "trim s = trim_end (trim_start s)"

text \<open>\<^verbatim>\<open>str::get\<close> of a range: nothing when the range is out of bounds or cuts a character.\<close>

definition is_char_boundary :: "string \<Rightarrow> nat \<Rightarrow> bool" where
  "is_char_boundary s i \<longleftrightarrow> i = 0 \<or> i = length s \<or> i < length s \<and> \<not> is_cont (s ! i)"

definition str_get :: "string \<Rightarrow> nat \<Rightarrow> nat \<Rightarrow> string option" where
  "str_get s a b =
     (if a \<le> b \<and> is_char_boundary s a \<and> is_char_boundary s b then Some (slice_of s a b) else None)"

fun join_words :: "string list \<Rightarrow> string" where
  "join_words [] = []"
| "join_words [w] = w"
| "join_words (w # ws) = w @ '' '' @ join_words ws"

section \<open>SEE records\<close>

type_synonym docs = "string \<rightharpoonup> word_doc"

definition render_effect :: "stack_effect \<Rightarrow> string" where
  "render_effect e =
     ''( '' @ concat (map (\<lambda>i. i @ '' '') (se_inputs e)) @ ''-- ''
     @ concat (map (\<lambda>out. out @ '' '') (se_outputs e)) @ '')''"

definition source_slice :: "string \<Rightarrow> span \<Rightarrow> string" where
  "source_slice source sp =
     trim (case str_get source (unat (byte_offset (span_start sp))) (unat (byte_offset (span_end sp))) of
       Some t \<Rightarrow> t | None \<Rightarrow> [])"

definition mk_doc :: "string \<Rightarrow> string \<Rightarrow> string \<Rightarrow> string \<Rightarrow> word_doc" where
  "mk_doc kind effect source detail =
     \<lparr>doc_kind = kind, doc_effect = effect, doc_source = source, doc_detail = detail\<rparr>"

fun const_detail :: "const_value \<Rightarrow> string" where
  "const_detail (ConstInt v) = ''value: '' @ display_i64 v"
| "const_detail (ConstFloat v) = ''value: '' @ display_f64 v"
| "const_detail (ConstComputed es) = ''value: (computed)''"

definition class_detail :: "class_def \<Rightarrow> string" where
  "class_detail c =
     (let slots = join_words (map sl_name (cl_slots c)) in
      (if slots = [] then ''slots: (none)'' else ''slots: '' @ slots)
      @ (case cl_extends c of Some parent \<Rightarrow> ''   extends: '' @ parent | None \<Rightarrow> []))"

fun doc_of_item :: "string \<Rightarrow> item \<Rightarrow> (string \<times> word_doc) option" where
  "doc_of_item src (Definition d) =
     Some (cd_name d, mk_doc ''colon definition''
       (case cd_effect d of Some e \<Rightarrow> render_effect e | None \<Rightarrow> []) (source_slice src (cd_span d)) [])"
| "doc_of_item src (Generic g) =
     Some (gd_name g, mk_doc ''generic'' (render_effect (gd_effect g)) (source_slice src (gd_span g)) [])"
| "doc_of_item src (Constant c) =
     Some (con_name c, mk_doc ''constant'' [] (source_slice src (con_span c)) (const_detail (con_value c)))"
| "doc_of_item src (Variable v) = Some (vd_name v, mk_doc ''variable'' [] (source_slice src (vd_span v)) [])"
| "doc_of_item src (Value v) = Some (val_name v, mk_doc ''value'' [] (source_slice src (val_span v)) [])"
| "doc_of_item src (Class c) = Some (cl_name c, mk_doc ''class'' [] (source_slice src (cl_span c)) (class_detail c))"
| "doc_of_item src (Collection cl) =
     Some (col_name cl, mk_doc ''collection'' [] (source_slice src (col_span cl)) [])"
| "doc_of_item src (Create cd) =
     Some (cr_name cd, mk_doc ''data buffer (CREATE)'' [] (source_slice src (cr_span cd)) [])"
| "doc_of_item src (Template t) =
     Some (td_name t, mk_doc ''defining word (CREATE/DOES>)'' [] (source_slice src (td_span t)) [])"
| "doc_of_item src it = None"

text \<open>A later definition of a name replaces the record of an earlier one.\<close>

fun build_docs :: "program \<Rightarrow> string \<Rightarrow> docs \<Rightarrow> docs" where
  "build_docs [] src out = out"
| "build_docs (it # its) src out =
     build_docs its src
       (case doc_of_item src it of Some (name, doc) \<Rightarrow> out(to_ascii_lowercase name \<mapsto> doc) | None \<Rightarrow> out)"

section \<open>Reading a source text\<close>

fun map_err :: "('e \<Rightarrow> 'f) \<Rightarrow> ('e, 'a) outcome \<Rightarrow> ('f, 'a) outcome" where
  "map_err f (Ok x) = Ok x"
| "map_err f (Err e) = Err (f e)"
| "map_err f Panic = Panic"
| "map_err f OutOfFuel = OutOfFuel"

text \<open>\<open>reason\<close> renders the LET errors that the source prints with the debug formatter.\<close>

definition parse_source :: "(let_message \<Rightarrow> string) \<Rightarrow> string \<Rightarrow> (string, program) outcome" where
  "parse_source reason source =
     and_then (map_err display_compile_error (lex source)) (\<lambda>toks.
     map_err (display_parse_error reason) (parse toks))"

section \<open>NEEDS\<close>

text \<open>The operations of the operating system: a failing read gives the text of its error.\<close>

record file_system =
  fs_canonicalize :: "string \<Rightarrow> string option"
  fs_read :: "string \<Rightarrow> string + string"
  fs_join :: "string \<Rightarrow> string \<Rightarrow> string"
  fs_parent :: "string \<Rightarrow> string option"

definition full_path :: "file_system \<Rightarrow> string option \<Rightarrow> string \<Rightarrow> string" where
  "full_path fs base path = (case base of Some dir \<Rightarrow> fs_join fs dir path | None \<Rightarrow> path)"

definition include_key :: "file_system \<Rightarrow> string \<Rightarrow> string" where
  "include_key fs full = (case fs_canonicalize fs full of Some p \<Rightarrow> p | None \<Rightarrow> full)"

definition read_error :: "string \<Rightarrow> string \<Rightarrow> string" where
  "read_error full e = ''NEEDS: cannot read '' @ full @ '': '' @ e"

text \<open>
  The set of included files and the SEE records are changed even when the expansion fails. \<open>n\<close> bounds the
  nesting of files.
\<close>

record include_state =
  is_included :: "string set"
  is_docs :: docs

definition or_insert_docs :: "docs \<Rightarrow> docs \<Rightarrow> docs" where
  "or_insert_docs new old = new ++ old"

abbreviation prepend :: "'a list \<Rightarrow> ('e, 'a list) outcome \<times> 's \<Rightarrow> ('e, 'a list) outcome \<times> 's" where
  "prepend xs res \<equiv> (and_then (fst res) (\<lambda>ys. Ok (xs @ ys)), snd res)"

function (sequential) expand_needs ::
  "file_system \<Rightarrow> (let_message \<Rightarrow> string) \<Rightarrow> nat \<Rightarrow> string option \<Rightarrow> program \<Rightarrow> include_state
   \<Rightarrow> (string, program) outcome \<times> include_state" where
  "expand_needs fs reason n base [] st = (Ok [], st)"
| "expand_needs fs reason n base (Needs path sp # its) st =
     (let full = full_path fs base path; key = include_key fs full in
      if key \<in> is_included st then expand_needs fs reason n base its st
      else
        (let st1 = st\<lparr>is_included := insert key (is_included st)\<rparr> in
         case fs_read fs full of
           Inl e \<Rightarrow> (Err (read_error full e), st1)
         | Inr contents \<Rightarrow>
             (case parse_source reason contents of
                Ok sub \<Rightarrow>
                  (let st2 = st1\<lparr>is_docs := or_insert_docs (build_docs sub contents Map.empty) (is_docs st1)\<rparr> in
                   case n of
                     0 \<Rightarrow> (OutOfFuel, st2)
                   | Suc m \<Rightarrow>
                       (case expand_needs fs reason m (fs_parent fs full) sub st2 of
                          (Ok items, st3) \<Rightarrow> prepend items (expand_needs fs reason n base its st3)
                        | (Err e, st3) \<Rightarrow> (Err e, st3)
                        | (Panic, st3) \<Rightarrow> (Panic, st3)
                        | (OutOfFuel, st3) \<Rightarrow> (OutOfFuel, st3)))
              | Err e \<Rightarrow> (Err e, st1)
              | Panic \<Rightarrow> (Panic, st1)
              | OutOfFuel \<Rightarrow> (OutOfFuel, st1))))"
| "expand_needs fs reason n base (it # its) st = prepend [it] (expand_needs fs reason n base its st)"
  by pat_completeness auto
termination
  by (relation "measures [\<lambda>(_, _, n, _, _, _). n, \<lambda>(_, _, _, _, its, _). length its]") auto

section \<open>Compiling in a context\<close>

record compile_context =
  cc_user_words :: "string \<rightharpoonup> span"
  cc_user_effects :: "string \<rightharpoonup> effect"
  cc_templates :: template_table
  cc_values :: "string \<rightharpoonup> span"
  cc_classes :: class_slots_map
  cc_docs :: docs
  cc_included :: "string set"

definition new_context :: compile_context where
  "new_context =
     \<lparr>cc_user_words = Map.empty, cc_user_effects = Map.empty, cc_templates = [], cc_values = Map.empty,
      cc_classes = Map.empty, cc_docs = Map.empty, cc_included = {}\<rparr>"

text \<open>The counters for fresh spans and fresh names belong to the process.\<close>

record process =
  pr_spans :: u32
  pr_names :: emit_state

definition dummy_span :: span where
  "dummy_span =
     mk_span \<lparr>pos_line = 0, pos_col = 0, byte_offset = 0\<rparr> \<lparr>pos_line = 0, pos_col = 0, byte_offset = 0\<rparr>"

definition force_wide :: "sema \<Rightarrow> sema" where
  "force_wide sm =
     sm\<lparr>sm_escape := (\<lambda>v. map_option (\<lambda>_. Wide InteractiveSession dummy_span) (sm_escape sm v))\<rparr>"

text \<open>
  What a successful compile leaves for the next one. The templates of the model are those of its program,
  in source order.
\<close>

definition merge_context :: "sema \<Rightarrow> compile_context \<Rightarrow> compile_context" where
  "merge_context sm ctx = ctx\<lparr>
     cc_user_words := cc_user_words ctx ++ (\<lambda>w. map_option uw_def_span (sm_user_words sm w)),
     cc_user_effects := cc_user_effects ctx ++ sm_user_effects sm,
     cc_templates := collect_templates (sm_program sm) (cc_templates ctx),
     cc_values := cc_values ctx ++ (\<lambda>v. map_option val_name_span (sm_values sm v)),
     cc_classes := cc_classes ctx ++ sm_class_slots sm,
     cc_docs := sm_docs sm\<rparr>"

definition build_in_context :: "compile_context \<Rightarrow> process \<Rightarrow> program \<Rightarrow> (string, sema) outcome" where
  "build_in_context ctx pr prog =
     map_err display_resolve_error
       (build_with_prior_state (pr_spans pr) prog (cc_user_words ctx) (cc_user_effects ctx) (cc_templates ctx)
          (cc_values ctx) (cc_classes ctx))"

definition spans_after :: "compile_context \<Rightarrow> process \<Rightarrow> program \<Rightarrow> process" where
  "spans_after ctx pr prog =
     pr\<lparr>pr_spans := snd (qdup_program (pr_spans pr) (expand_templates_pre_resolve_with_prior prog (cc_templates ctx)))\<rparr>"

text \<open>The model that is emitted: all variables wide, the records of earlier compiles and of this one.\<close>

definition final_sema :: "docs \<Rightarrow> compile_context \<Rightarrow> sema \<Rightarrow> sema" where
  "final_sema compile_docs ctx sm = (force_wide sm)\<lparr>sm_docs := cc_docs ctx ++ compile_docs\<rparr>"

definition finish_compile ::
  "docs \<Rightarrow> sema \<Rightarrow> compile_context \<Rightarrow> process
   \<Rightarrow> (string, string \<times> effect_error list) outcome \<times> compile_context \<times> process" where
  "finish_compile compile_docs sm0 ctx pr =
     (let sm = final_sema compile_docs ctx sm0;
          (ir, names) = emit sm True (pr_names pr)
      in (Ok (ir, sm_effect_errors sm), merge_context sm ctx, pr\<lparr>pr_names := names\<rparr>))"

definition compile_in_context_with_diagnostics ::
  "file_system \<Rightarrow> (let_message \<Rightarrow> string) \<Rightarrow> nat \<Rightarrow> string \<Rightarrow> compile_context \<Rightarrow> process
   \<Rightarrow> (string, string \<times> effect_error list) outcome \<times> compile_context \<times> process" where
  "compile_in_context_with_diagnostics fs reason n source ctx pr =
     (case parse_source reason source of
        Ok prog \<Rightarrow>
          (let (r, st) = expand_needs fs reason n None prog
                 \<lparr>is_included = cc_included ctx, is_docs = build_docs prog source Map.empty\<rparr>;
               ctx1 = ctx\<lparr>cc_included := is_included st\<rparr>
           in case r of
                Ok prog1 \<Rightarrow>
                  (let pr1 = spans_after ctx1 pr prog1 in
                   case build_in_context ctx1 pr prog1 of
                     Ok sm \<Rightarrow> finish_compile (is_docs st) sm ctx1 pr1
                   | Err e \<Rightarrow> (Err e, ctx1, pr1)
                   | Panic \<Rightarrow> (Panic, ctx1, pr1)
                   | OutOfFuel \<Rightarrow> (OutOfFuel, ctx1, pr1))
              | Err e \<Rightarrow> (Err e, ctx1, pr)
              | Panic \<Rightarrow> (Panic, ctx1, pr)
              | OutOfFuel \<Rightarrow> (OutOfFuel, ctx1, pr))
      | Err e \<Rightarrow> (Err e, ctx, pr)
      | Panic \<Rightarrow> (Panic, ctx, pr)
      | OutOfFuel \<Rightarrow> (OutOfFuel, ctx, pr))"

definition compile_in_context ::
  "file_system \<Rightarrow> (let_message \<Rightarrow> string) \<Rightarrow> nat \<Rightarrow> string \<Rightarrow> compile_context \<Rightarrow> process
   \<Rightarrow> (string, string) outcome \<times> compile_context \<times> process" where
  "compile_in_context fs reason n source ctx pr =
     (let (r, ctx1, pr1) = compile_in_context_with_diagnostics fs reason n source ctx pr in
      (and_then r (\<lambda>(ir, warnings). Ok ir), ctx1, pr1))"

definition compile_with_diagnostics ::
  "file_system \<Rightarrow> (let_message \<Rightarrow> string) \<Rightarrow> nat \<Rightarrow> string \<Rightarrow> process
   \<Rightarrow> (string, string \<times> effect_error list) outcome \<times> process" where
  "compile_with_diagnostics fs reason n source pr =
     (let (r, ctx, pr1) = compile_in_context_with_diagnostics fs reason n source new_context pr in (r, pr1))"

definition compile ::
  "file_system \<Rightarrow> (let_message \<Rightarrow> string) \<Rightarrow> nat \<Rightarrow> string \<Rightarrow> process \<Rightarrow> (string, string) outcome \<times> process" where
  "compile fs reason n source pr =
     (let (r, pr1) = compile_with_diagnostics fs reason n source pr in
      (and_then r (\<lambda>(ir, warnings). Ok ir), pr1))"

end
