(* ===== verification/Driver_Correct.thy ===== *)
theory Driver_Correct
  imports Driver Sema_Correct Parser_Correct "HOL-Library.Multiset"
begin

text \<open>
  The driver: every request is answered on a finite file system, NEEDS includes each file once, what a
  session knows is consistent, and what happens to failed inclusions and to references in
  included files.
\<close>

section \<open>Answers\<close>

lemma returned_map_err [simp]: "returned (map_err f r) = returned r"
  by (cases r) simp_all

lemma map_err_eq_Ok [simp]: "map_err f r = Ok x \<longleftrightarrow> r = Ok x"
  by (cases r) simp_all

lemma returned_cases:
  assumes "returned r" obtains x where "r = Ok x" | e where "r = Err e"
  using assms by (cases r) simp_all

lemma returned_not: "returned r \<Longrightarrow> r \<noteq> Panic \<and> r \<noteq> OutOfFuel"
  by auto

lemma lex_returned: "returned (lex source)"
  using forth_lexer.drive_returns [of "lexer_new source"] by (simp add: lex_def)

lemma parse_returned: "returned (parse toks)"
  unfolding parse_def by (rule program_loop_returns) (simp_all add: pending_ok_def)

lemma parse_source_returned: "returned (parse_source reason source)"
  using lex_returned [of source] parse_returned
  by (cases "lex source") (simp_all add: parse_source_def)

lemma resolved_uses_returned: "returned (resolved_uses us m)"
  by (simp add: resolved_uses_def split: list.split)

lemma resolve_returned: "returned (resolve_with_prior_and_values_and_classes prog pw pv cs)"
  using register_all_returned resolved_uses_returned
  by (auto simp: resolve_flat_program split: outcome.split) (metis returned.simps)+

lemma build_in_context_returned: "returned (build_in_context ctx pr prog)"
  using resolve_returned
  by (auto simp: build_in_context_def build_with_prior_state_def Let_def case_prod_beta split: list.split outcome.split)
    (metis returned.simps)+

section \<open>Expansion of NEEDS\<close>

text \<open>The states in which a file has been marked, and in which its SEE records have been added.\<close>

abbreviation marked :: "string \<Rightarrow> include_state \<Rightarrow> include_state" where
  "marked key st \<equiv> st\<lparr>is_included := insert key (is_included st)\<rparr>"

abbreviation entered :: "string \<Rightarrow> program \<Rightarrow> string \<Rightarrow> include_state \<Rightarrow> include_state" where
  "entered key sub contents st \<equiv>
     (marked key st)\<lparr>is_docs := or_insert_docs (build_docs sub contents Map.empty) (is_docs st)\<rparr>"

text \<open>The cases of the expansion, as a rule for properties of its results.\<close>

lemma expand_rule [case_names Nil Seen Unreadable Unparsed Deep Failed Whole Item]:
  assumes "\<And>n base st. P n base [] st (Ok [], st)"
    and seen: "\<And>n base path sp its st res. include_key fs (full_path fs base path) \<in> is_included st \<Longrightarrow>
      P n base its st res \<Longrightarrow> P n base (Needs path sp # its) st res"
    and unread: "\<And>n base path sp its st key full e. full = full_path fs base path \<Longrightarrow> key = include_key fs full \<Longrightarrow>
      key \<notin> is_included st \<Longrightarrow> fs_read fs full = Inl e \<Longrightarrow>
      P n base (Needs path sp # its) st (Err (read_error full e), marked key st)"
    and unparsed: "\<And>n base path sp its st key full contents e. full = full_path fs base path \<Longrightarrow>
      key = include_key fs full \<Longrightarrow> key \<notin> is_included st \<Longrightarrow> fs_read fs full = Inr contents \<Longrightarrow>
      parse_source reason contents = Err e \<Longrightarrow> P n base (Needs path sp # its) st (Err e, marked key st)"
    and deep: "\<And>base path sp its st key full contents sub. full = full_path fs base path \<Longrightarrow>
      key = include_key fs full \<Longrightarrow> key \<notin> is_included st \<Longrightarrow> fs_read fs full = Inr contents \<Longrightarrow>
      parse_source reason contents = Ok sub \<Longrightarrow>
      P 0 base (Needs path sp # its) st (OutOfFuel, entered key sub contents st)"
    and failed: "\<And>n base path sp its st key full contents sub r st'. full = full_path fs base path \<Longrightarrow>
      key = include_key fs full \<Longrightarrow> key \<notin> is_included st \<Longrightarrow> fs_read fs full = Inr contents \<Longrightarrow>
      parse_source reason contents = Ok sub \<Longrightarrow> \<forall>items. r \<noteq> Ok items \<Longrightarrow>
      P n (fs_parent fs full) sub (entered key sub contents st) (r, st') \<Longrightarrow>
      P (Suc n) base (Needs path sp # its) st (r, st')"
    and whole: "\<And>n base path sp its st key full contents sub items st' res. full = full_path fs base path \<Longrightarrow>
      key = include_key fs full \<Longrightarrow> key \<notin> is_included st \<Longrightarrow> fs_read fs full = Inr contents \<Longrightarrow>
      parse_source reason contents = Ok sub \<Longrightarrow>
      P n (fs_parent fs full) sub (entered key sub contents st) (Ok items, st') \<Longrightarrow>
      P (Suc n) base its st' res \<Longrightarrow> P (Suc n) base (Needs path sp # its) st (prepend items res)"
    and item: "\<And>n base it its st res. (\<forall>path sp. it \<noteq> Needs path sp) \<Longrightarrow> P n base its st res \<Longrightarrow>
      P n base (it # its) st (prepend [it] res)"
  shows "P n base prog st (expand_needs fs reason n base prog st)"
proof (induction n arbitrary: base prog st rule: less_induct)
  case (less n)
  show ?case
  proof (induction prog arbitrary: st)
    case (Cons it its)
    show ?case
    proof (cases "\<exists>path sp. it = Needs path sp")
      case True
      then obtain path sp where it: "it = Needs path sp" by blast
      define full where "full = full_path fs base path"
      define key where "key = include_key fs full"
      note step = full_def key_def
      show ?thesis
      proof (cases "key \<in> is_included st")
        case True
        with seen [OF _ Cons.IH] show ?thesis by (simp add: it step)
      next
        case new: False
        show ?thesis
        proof (cases "fs_read fs full")
          case (Inl e)
          from unread [OF full_def key_def new Inl] show ?thesis by (simp add: it step [symmetric] new Inl Let_def)
        next
          case (Inr contents)
          from parse_source_returned [of reason contents] show ?thesis
          proof (cases rule: returned_cases)
            case (1 sub)
            let ?st = "entered key sub contents st"
            show ?thesis
            proof (cases n)
              case 0
              from deep [OF full_def key_def new Inr 1] show ?thesis
                by (simp add: it step [symmetric] new Inr 1 0 Let_def)
            next
              case (Suc m)
              obtain r st' where sub: "expand_needs fs reason m (fs_parent fs full) sub ?st = (r, st')" by fastforce
              have P: "P m (fs_parent fs full) sub ?st (r, st')" using less [of m] unfolding Suc sub [symmetric] by simp
              show ?thesis
              proof (cases "\<exists>items. r = Ok items")
                case True
                then obtain items where r: "r = Ok items" by blast
                from whole [OF full_def key_def new Inr 1 P [unfolded r] Cons.IH [unfolded Suc]] show ?thesis
                  using sub by (simp add: it step [symmetric] new Inr 1 Suc r Let_def)
              next
                case False
                then have "\<forall>items. r \<noteq> Ok items" by blast
                from failed [OF full_def key_def new Inr 1 this P] show ?thesis
                  using sub False by (cases r) (simp_all add: it step [symmetric] new Inr 1 Suc Let_def)
              qed
            qed
          next
            case (2 e)
            from unparsed [OF full_def key_def new Inr 2] show ?thesis by (simp add: it step [symmetric] new Inr 2 Let_def)
          qed
        qed
      qed
    next
      case False
      then have "expand_needs fs reason n base (it # its) st = prepend [it] (expand_needs fs reason n base its st)"
        by (cases it) auto
      with item [OF _ Cons.IH] False show ?thesis by simp
    qed
  qed (simp add: assms(1))
qed

lemma expand_mono: "is_included st \<subseteq> is_included (snd (expand_needs fs reason n base prog st))"
  by (rule expand_rule [where P = "\<lambda>n base prog st res. is_included st \<subseteq> is_included (snd res)"]) auto

text \<open>On a finite set of readable files the nesting is bounded by the number of files not yet included.\<close>

definition readable_keys :: "file_system \<Rightarrow> string set" where
  "readable_keys fs = {include_key fs full | full contents. fs_read fs full = Inr contents}"

lemma expand_returned:
  assumes "finite (readable_keys fs)" "card (readable_keys fs - is_included st) \<le> n"
  shows "returned (fst (expand_needs fs reason n base prog st))"
proof -
  have less: "card (readable_keys fs - insert key I) < card (readable_keys fs - I)"
    if "fs_read fs full = Inr c" "key = include_key fs full" "key \<notin> I" for full c key and I :: "string set"
  proof (rule psubset_card_mono)
    show "readable_keys fs - insert key I \<subset> readable_keys fs - I" using that by (auto simp: readable_keys_def)
  qed (use assms(1) in simp)
  have mono: "card (readable_keys fs - J) \<le> card (readable_keys fs - I)" if "I \<subseteq> J" for I J :: "string set"
    using that assms(1) by (intro card_mono) auto
  let ?P = "\<lambda>n (base :: string option) (prog :: program) (st :: include_state) (res :: (string, program) outcome \<times> include_state). card (readable_keys fs - is_included st) \<le> n \<longrightarrow>
      returned (fst res) \<and> is_included st \<subseteq> is_included (snd res)"
  have "?P n base prog st (expand_needs fs reason n base prog st)"
  proof (rule expand_rule [where P = ?P])
    fix base path sp its key full contents sub and st :: include_state
    assume new: "key = include_key fs full" "key \<notin> is_included st" "fs_read fs full = Inr contents"
    from less [OF new(3,1,2)] show "?P 0 base (Needs path sp # its) st (OutOfFuel, entered key sub contents st)" by simp
  next
    fix n base path sp its key full contents sub and st st' :: include_state and r :: "(string, program) outcome"
    assume new: "key = include_key fs full" "key \<notin> is_included st" "fs_read fs full = Inr contents"
      and "?P n (fs_parent fs full) sub (entered key sub contents st) (r, st')"
    with less [OF new(3,1,2)] show "?P (Suc n) base (Needs path sp # its) st (r, st')" by auto
  next
    fix n base path sp its key full contents sub and st st' :: include_state and items :: program
      and res :: "(string, program) outcome \<times> include_state"
    assume new: "key = include_key fs full" "key \<notin> is_included st" "fs_read fs full = Inr contents"
      and sub: "?P n (fs_parent fs full) sub (entered key sub contents st) (Ok items, st')"
      and rest: "?P (Suc n) base its st' res"
    show "?P (Suc n) base (Needs path sp # its) st (prepend items res)"
    proof
      assume "card (readable_keys fs - is_included st) \<le> Suc n"
      with less [OF new(3,1,2)] sub have "is_included st \<subseteq> is_included st'" by auto
      moreover with mono [OF this] \<open>card _ \<le> Suc n\<close> rest
      have "returned (fst res) \<and> is_included st' \<subseteq> is_included (snd res)" by simp
      ultimately show "returned (fst (prepend items res)) \<and> is_included st \<subseteq> is_included (snd (prepend items res))"
        by auto
    qed
  qed auto
  with assms(2) show ?thesis by blast
qed

lemma compile_returned:
  assumes "finite (readable_keys fs)" "card (readable_keys fs) \<le> n"
  shows "returned (fst (compile_in_context_with_diagnostics fs reason n source ctx pr))"
proof -
  have "card (readable_keys fs - I) \<le> n" for I
    using assms(2) card_mono [OF assms(1), of "readable_keys fs - I"] by (simp add: order_trans [rotated])
  then have "returned (fst (expand_needs fs reason n None prog st))" for prog st
    by (intro expand_returned assms(1)) simp
  note answers = this [THEN returned_not] parse_source_returned [THEN returned_not] build_in_context_returned [THEN returned_not]
  show ?thesis
    by (auto simp: answers compile_in_context_with_diagnostics_def finish_compile_def Let_def case_prod_beta split: outcome.split)
qed

text \<open>
  C3. Every compile request is answered: on a file system with finitely many readable files, cyclic
  NEEDS included, the driver returns Factor source or an error message for every text in every
  context, and no panic of any pass is reached.
\<close>

theorem compile_answers:
  assumes "finite (readable_keys fs)" "card (readable_keys fs) \<le> n"
  shows "\<exists>ir warnings e. fst (compile_in_context_with_diagnostics fs reason n source ctx pr) \<in> {Ok (ir, warnings), Err e}"
  using compile_returned [OF assms, of reason source ctx pr] by (auto simp: returned_iff)

section \<open>Include once\<close>

fun is_needs :: "item \<Rightarrow> bool" where
  "is_needs (Needs path sp) = True"
| "is_needs _ = False"

definition own_items :: "program \<Rightarrow> program" where
  "own_items prog = filter (\<lambda>it. \<not> is_needs it) prog"

lemma is_needs_iff: "is_needs it \<longleftrightarrow> (\<exists>path sp. it = Needs path sp)"
  by (cases it) simp_all

text \<open>What an expansion from \<open>I\<close> to \<open>J\<close> adds: the items of each file new in \<open>J\<close>, once.\<close>

definition expands_to :: "(string \<Rightarrow> program) \<Rightarrow> string set \<Rightarrow> program \<Rightarrow> program \<Rightarrow> string set \<Rightarrow> bool" where
  "expands_to files I prog items J \<longleftrightarrow> I \<subseteq> J \<and> finite (J - I) \<and> list_all (\<lambda>it. \<not> is_needs it) items \<and>
     mset items = mset (own_items prog) + (\<Sum>k\<in>J - I. mset (own_items (files k)))"

lemma expands_to_Nil: "expands_to files I [] [] I"
  by (simp add: expands_to_def own_items_def)

lemma expands_to_needs: "expands_to files I its items J \<Longrightarrow> expands_to files I (Needs path sp # its) items J"
  by (simp add: expands_to_def own_items_def)

lemma expands_to_item:
  "\<not> is_needs it \<Longrightarrow> expands_to files I its items J \<Longrightarrow> expands_to files I (it # its) (it # items) J"
  by (simp add: expands_to_def own_items_def)

lemma expands_to_file:
  assumes "k \<notin> I" "expands_to files (insert k I) (files k) xs J" "expands_to files J its ys L"
  shows "expands_to files I its (xs @ ys) L"
proof -
  have set: "L - I = insert k ((J - insert k I) \<union> (L - J))"
    using assms by (auto simp: expands_to_def)
  have "(\<Sum>i\<in>L - I. mset (own_items (files i))) = mset (own_items (files k)) +
      ((\<Sum>i\<in>J - insert k I. mset (own_items (files i))) + (\<Sum>i\<in>L - J. mset (own_items (files i))))"
    unfolding set using assms by (subst sum.insert, auto simp: expands_to_def intro!: sum.union_disjoint)
  with assms show ?thesis by (auto simp: expands_to_def set)
qed

lemma expand_Ok:
  assumes "\<And>full contents sub. fs_read fs full = Inr contents \<Longrightarrow> parse_source reason contents = Ok sub \<Longrightarrow>
      files (include_key fs full) = sub"
    and "expand_needs fs reason n base prog st = (Ok items, st')"
  shows "expands_to files (is_included st) prog items (is_included st')"
proof -
  let ?P = "\<lambda>n (base :: string option) (prog :: program) (st :: include_state) (res :: (string, program) outcome \<times> include_state).
      \<forall>items. fst res = Ok items \<longrightarrow> expands_to files (is_included st) prog items (is_included (snd res))"
  have "?P n base prog st (expand_needs fs reason n base prog st)"
  proof (rule expand_rule [where P = ?P])
    fix n base path sp its key full contents sub and st st' :: include_state and items :: program
      and res :: "(string, program) outcome \<times> include_state"
    assume new: "key = include_key fs full" "key \<notin> is_included st" "fs_read fs full = Inr contents" "parse_source reason contents = Ok sub"
      and sub: "?P n (fs_parent fs full) sub (entered key sub contents st) (Ok items, st')"
      and rest: "?P (Suc n) base its st' res"
    show "?P (Suc n) base (Needs path sp # its) st (prepend items res)"
      using expands_to_file [OF new(2)] sub rest assms(1) [OF new(3,4)] new(1)
      by (auto intro!: expands_to_needs)
  qed (auto simp: expands_to_Nil is_needs_iff intro!: expands_to_needs expands_to_item)
  with assms(2) show ?thesis by simp
qed

lemma expand_again:
  assumes "\<forall>path sp. Needs path sp \<in> set prog \<longrightarrow> include_key fs (full_path fs base path) \<in> is_included st"
  shows "expand_needs fs reason n base prog st = (Ok (own_items prog), st)"
  using assms
proof (induction prog)
  case (Cons it prog)
  then show ?case by (cases it) (auto simp: own_items_def)
qed (simp add: own_items_def)

lemma expand_includes:
  "fst (expand_needs fs reason n base prog st) = Ok items \<Longrightarrow> Needs path sp \<in> set prog \<Longrightarrow>
   include_key fs (full_path fs base path) \<in> is_included (snd (expand_needs fs reason n base prog st))"
proof -
  let ?P = "\<lambda>n (base :: string option) (prog :: program) (st :: include_state) (res :: (string, program) outcome \<times> include_state).
      is_included st \<subseteq> is_included (snd res) \<and> (\<forall>items. fst res = Ok items \<longrightarrow>
       (\<forall>path sp. Needs path sp \<in> set prog \<longrightarrow> include_key fs (full_path fs base path) \<in> is_included (snd res)))"
  have "?P n base prog st (expand_needs fs reason n base prog st)"
    by (rule expand_rule [where P = ?P]) auto
  then show "fst (expand_needs fs reason n base prog st) = Ok items \<Longrightarrow> Needs path sp \<in> set prog \<Longrightarrow> ?thesis" by blast
qed

text \<open>
  C5. NEEDS includes once. When a program is expanded, no NEEDS is left, every item of the program
  and of each file that was not yet included occurs exactly once, files reached along several paths
  or in a cycle included, and expanding the program again adds nothing, provided that paths with the
  same canonical form name the same contents.
\<close>

theorem needs_included_once:
  assumes "\<And>full contents sub. fs_read fs full = Inr contents \<Longrightarrow> parse_source reason contents = Ok sub \<Longrightarrow>
      files (include_key fs full) = sub"
    and "expand_needs fs reason n base prog st = (Ok items, st')"
  shows "is_included st \<subseteq> is_included st' \<and> list_all (\<lambda>it. \<not> is_needs it) items \<and>
    mset items = mset (own_items prog) + (\<Sum>k\<in>is_included st' - is_included st. mset (own_items (files k))) \<and>
    expand_needs fs reason m base prog st' = (Ok (own_items prog), st')"
proof -
  from expand_Ok [where files = files, OF assms] have "expands_to files (is_included st) prog items (is_included st')" .
  moreover have "expand_needs fs reason m base prog st' = (Ok (own_items prog), st')"
    using expand_includes [of fs reason n base prog st] assms(2) by (intro expand_again) simp
  ultimately show ?thesis by (simp add: expands_to_def)
qed

definition files_of :: "(string \<times> string) list \<Rightarrow> file_system" where
  "files_of fs =
     \<lparr>fs_canonicalize = Some, fs_read = (\<lambda>p. case map_of fs p of Some c \<Rightarrow> Inr c | None \<Rightarrow> Inl ''not found''),
      fs_join = (\<lambda>dir p. p), fs_parent = (\<lambda>p. Some [])\<rparr>"

definition no_reason :: "let_message \<Rightarrow> string" where
  "no_reason m = []"

definition parsed_files :: "file_system \<Rightarrow> string \<Rightarrow> program" where
  "parsed_files fs k =
     (case fs_read fs k of
        Inr c \<Rightarrow> (case parse_source no_reason c of Ok sub \<Rightarrow> sub | _ \<Rightarrow> [])
      | Inl e \<Rightarrow> [])"

definition cyclic_files :: file_system where
  "cyclic_files = files_of [(''a.f'', ''NEEDS b.f : f 1 ;''), (''b.f'', ''NEEDS a.f : g 2 ;'')]"

abbreviation nothing_included :: include_state where
  "nothing_included \<equiv> \<lparr>is_included = {}, is_docs = Map.empty\<rparr>"

definition item_name :: "item \<Rightarrow> string" where
  "item_name it = (case it of Definition d \<Rightarrow> cd_name d | _ \<Rightarrow> [])"

lemma cyclic_expansion:
  "case expand_needs cyclic_files no_reason 2 None [Needs ''a.f'' dummy_span, Needs ''b.f'' dummy_span] nothing_included of
     (Ok items, st) \<Rightarrow> map item_name items = [''g'', ''f''] \<and> is_included st = {''a.f'', ''b.f''}
   | _ \<Rightarrow> False"
  by code_simp

theorem needs_included_once_witness:
  "\<exists>items st. expand_needs cyclic_files no_reason 2 None [Needs ''a.f'' dummy_span, Needs ''b.f'' dummy_span] nothing_included
      = (Ok items, st) \<and>
    mset items = mset (own_items (parsed_files cyclic_files ''a.f'')) + mset (own_items (parsed_files cyclic_files ''b.f''))"
proof -
  let ?prog = "[Needs ''a.f'' dummy_span, Needs ''b.f'' dummy_span]"
  obtain items st where e: "expand_needs cyclic_files no_reason 2 None ?prog nothing_included = (Ok items, st)"
    and inc: "is_included st = {''a.f'', ''b.f''}"
    using cyclic_expansion by (auto split: prod.splits outcome.splits)
  have "parsed_files cyclic_files (include_key cyclic_files full) = sub"
    if "fs_read cyclic_files full = Inr contents" "parse_source no_reason contents = Ok sub" for full contents sub
    using that by (simp add: include_key_def parsed_files_def cyclic_files_def files_of_def)
  from needs_included_once [where files = "parsed_files cyclic_files", OF this e] e inc show ?thesis by (auto simp: own_items_def)
qed

theorem compile_answers_witness:
  "\<forall>ctx pr. \<exists>ir warnings e. fst (compile_in_context_with_diagnostics cyclic_files no_reason 2 ''NEEDS a.f NEEDS b.f f g'' ctx pr)
     \<in> {Ok (ir, warnings), Err e}"
proof -
  have "readable_keys cyclic_files = {''a.f'', ''b.f''}"
    by (auto simp: readable_keys_def cyclic_files_def files_of_def include_key_def split: if_splits)
  then show ?thesis by (intro allI compile_answers) simp_all
qed

section \<open>Failing requests\<close>

lemma expand_reaches:
  "include_key fs (full_path fs base path) \<in> is_included (snd (expand_needs fs reason n base (Needs path sp # its) st))"
proof -
  let ?P = "\<lambda>n (base :: string option) (prog :: program) (st :: include_state) (res :: (string, program) outcome \<times> include_state).
      is_included st \<subseteq> is_included (snd res) \<and>
      (\<forall>path sp its. prog = Needs path sp # its \<longrightarrow> include_key fs (full_path fs base path) \<in> is_included (snd res))"
  have "?P n base (Needs path sp # its) st (expand_needs fs reason n base (Needs path sp # its) st)"
    by (rule expand_rule [where P = ?P]) auto
  then show ?thesis by blast
qed


definition fresh_process :: process where
  "fresh_process = \<lparr>pr_spans = 0xFFFF0000, pr_names = \<lparr>es_discards = 0, es_helpers = 0\<rparr>\<rparr>"

abbreviation broken_file :: file_system where
  "broken_file \<equiv> files_of [(''a.f'', '': f 1'')]"

abbreviation repaired_file :: file_system where
  "repaired_file \<equiv> files_of [(''a.f'', '': f 1 ;'')]"

definition request :: string where
  "request = ''NEEDS a.f f''"

definition seen_a :: compile_context where
  "seen_a = new_context\<lparr>cc_included := {''a.f''}\<rparr>"

lemma request_fails:
  "case parse_source no_reason request of
     Ok prog \<Rightarrow>
       (case expand_needs broken_file no_reason 1 None prog \<lparr>is_included = {}, is_docs = build_docs prog request Map.empty\<rparr> of
          (Err e, st) \<Rightarrow> is_included st = {''a.f''}
        | _ \<Rightarrow> False) \<and>
       (case expand_needs repaired_file no_reason 1 None prog \<lparr>is_included = {''a.f''}, is_docs = build_docs prog request Map.empty\<rparr> of
          (Ok prog1, st) \<Rightarrow> is_included st = {''a.f''} \<and>
            (case build_in_context seen_a fresh_process prog1 of
               Err e \<Rightarrow> e = ''unknown word '' @ bq @ ''f'' @ bq @ '' at line 1, column 11'' | _ \<Rightarrow> False)
        | _ \<Rightarrow> False)
   | _ \<Rightarrow> False"
  by code_simp


section \<open>Where the text of a definition is\<close>

lemma emit_pass_append:
  "emit_pass f (xs @ ys) st =
    (fst (emit_pass f xs st) @ fst (emit_pass f ys (snd (emit_pass f xs st))), snd (emit_pass f ys (snd (emit_pass f xs st))))"
  by (induction xs arbitrary: st) (simp_all add: case_prod_beta Let_def)

lemma emit_pass_item:
  assumes "it \<in> set its"
  obtains st' a b where "fst (emit_pass f its st) = a @ fst (f it st') @ b"
proof -
  from assms obtain xs ys where its: "its = xs @ it # ys" by (auto simp: in_set_conv_decomp)
  have "fst (emit_pass f its st) = fst (emit_pass f xs st) @ fst (f it (snd (emit_pass f xs st))) @
      fst (emit_pass f ys (snd (f it (snd (emit_pass f xs st)))))"
    by (simp add: its emit_pass_append case_prod_beta Let_def)
  then show thesis by (rule that)
qed

lemma emit_passes:
  obtains st1 u v where "fst (emit sm flush st) = u @ fst (emit_pass (emit_definitions sm) (sm_program sm) st1) @ v"
proof -
  define pa where "pa = emit_pass (emit_declaration sm (aux_generics (sm_program sm))) (sm_program sm) st"
  define pm where "pm = emit_pass (emit_methods sm (aux_generics (sm_program sm))) (sm_program sm) (snd pa)"
  define pd where "pd = emit_pass (emit_definitions sm) (sm_program sm) (snd pm)"
  define pt where "pt = emit_pass (emit_load_time sm) (sm_program sm) (snd pd)"
  define out where "out = emit_using_line sm @ ''IN: scratchpad'' @ newline @ fst pa @ fst pm @ fst pd @ fst pt"
  have "fst (emit sm flush st) =
      (if flush then out @ (if last out \<noteq> CHR '' '' \<and> last out \<noteq> CHR 0x0A then '' '' else []) @ ''flush'' else out)"
    by (simp add: emit_def Let_def case_prod_beta out_def pa_def pm_def pd_def pt_def)
  then obtain w where "fst (emit sm flush st) = out @ w" by (cases flush) auto
  then have "fst (emit sm flush st) =
      (emit_using_line sm @ ''IN: scratchpad'' @ newline @ fst pa @ fst pm) @ fst pd @ (fst pt @ w)"
    by (simp add: out_def)
  then show thesis unfolding pd_def by (rule that)
qed

lemma emit_contains_definition:
  assumes "Definition d \<in> set (sm_program sm)"
  obtains k a b where "fst (emit sm flush st) = a @ fst (emit_definition d sm k) @ newline @ b"
proof -
  obtain st1 u v where whole: "fst (emit sm flush st) = u @ fst (emit_pass (emit_definitions sm) (sm_program sm) st1) @ v"
    by (rule emit_passes)
  obtain st' a b where "fst (emit_pass (emit_definitions sm) (sm_program sm) st1) = a @ fst (emit_definitions sm (Definition d) st') @ b"
    by (rule emit_pass_item [OF assms])
  then have "fst (emit sm flush st) = (u @ a) @ fst (emit_definition d sm (es_discards st')) @ newline @ (b @ v)"
    by (simp add: whole)
  then show thesis by (rule that)
qed

section \<open>References of included files\<close>

text \<open>Two references at the same place of two files.\<close>

definition clashing_files :: file_system where
  "clashing_files = files_of [(''a.f'', '': f 1 2 over ;''), (''b.f'', '': g 1 2 swap ;'')]"

definition clashing_request :: string where
  "clashing_request = ''NEEDS a.f NEEDS b.f''"

lemma clash:
  "case parse_source no_reason clashing_request of
     Ok prog \<Rightarrow>
       (case expand_needs clashing_files no_reason 1 None prog \<lparr>is_included = {}, is_docs = build_docs prog clashing_request Map.empty\<rparr> of
          (Ok prog1, st) \<Rightarrow>
            (case build_in_context (new_context\<lparr>cc_included := is_included st\<rparr>) fresh_process prog1 of
               Ok sm \<Rightarrow>
                 (case sm_program sm of
                    Definition d # its \<Rightarrow>
                      fst (emit_definition d (final_sema (is_docs st) (new_context\<lparr>cc_included := is_included st\<rparr>) sm) k) =
                        '': z-f (  -- r0 r1 r2 ) 1 2 swap ;''
                  | _ \<Rightarrow> False)
             | _ \<Rightarrow> False)
        | _ \<Rightarrow> False)
   | _ \<Rightarrow> False"
  by code_simp

lemma final_sema_program [simp]:
  "sm_program (final_sema docs ctx sm) = sm_program sm" "sm_word_targets (final_sema docs ctx sm) = sm_word_targets sm"
  by (simp_all add: final_sema_def force_wide_def)

text \<open>The results of the passes of a successful request.\<close>

lemma compile_Ok:
  assumes "parse_source reason source = Ok prog"
    and "expand_needs fs reason n None prog \<lparr>is_included = cc_included ctx, is_docs = build_docs prog source Map.empty\<rparr> = (Ok prog1, st)"
    and "build_in_context (ctx\<lparr>cc_included := is_included st\<rparr>) pr prog1 = Ok sm"
  shows "fst (compile_in_context_with_diagnostics fs reason n source ctx pr) =
    Ok (fst (emit (final_sema (is_docs st) (ctx\<lparr>cc_included := is_included st\<rparr>) sm) True (pr_names pr)), sm_effect_errors sm)"
  using assms
  by (simp add: compile_in_context_with_diagnostics_def Let_def finish_compile_def case_prod_beta spans_after_def
      final_sema_def force_wide_def)

text \<open>
  C29. References of different files are confused: bindings are kept per source position, and positions of
  files that NEEDS brings together overlap. The file with \<^verbatim>\<open>: f 1 2 over ;\<close> and the file with
  \<^verbatim>\<open>: g 1 2 swap ;\<close> are both read as they are, but the word that is emitted for f swaps.
\<close>

theorem needs_confuses_references:
  "(case parse_source no_reason '': f 1 2 over ;'' of
      Ok [Definition d] \<Rightarrow> cd_name d = ''f'' \<and> map fst (word_refs (cd_body d)) = [''over''] | _ \<Rightarrow> False) \<and>
   (\<exists>a b warnings. fst (compile_in_context_with_diagnostics clashing_files no_reason 1 clashing_request new_context fresh_process)
      = Ok (a @ '': z-f (  -- r0 r1 r2 ) 1 2 swap ;'' @ newline @ b, warnings))"
proof
  show "case parse_source no_reason '': f 1 2 over ;'' of
      Ok [Definition d] \<Rightarrow> cd_name d = ''f'' \<and> map fst (word_refs (cd_body d)) = [''over''] | _ \<Rightarrow> False"
    by code_simp
  obtain prog where prog: "parse_source no_reason clashing_request = Ok prog"
    using clash by (cases "parse_source no_reason clashing_request") simp_all
  note clash1 = clash [unfolded prog outcome.case]
  obtain r st where r: "expand_needs clashing_files no_reason 1 None prog
      \<lparr>is_included = {}, is_docs = build_docs prog clashing_request Map.empty\<rparr> = (r, st)" by fastforce
  with clash1 obtain prog1 where prog1: "r = Ok prog1" by (cases r) simp_all
  let ?ctx = "new_context\<lparr>cc_included := is_included st\<rparr>"
  note clash2 = clash1 [unfolded r prog1 outcome.case prod.case]
  then obtain sm where sm: "build_in_context ?ctx fresh_process prog1 = Ok sm"
    by (cases "build_in_context ?ctx fresh_process prog1") simp_all
  let ?sm = "final_sema (is_docs st) ?ctx sm"
  note clash3 = clash2 [unfolded sm outcome.case]
  from clash3 [of 0] obtain d its where its: "sm_program sm = Definition d # its"
    by (cases "sm_program sm") (auto split: item.splits)
  have d: "fst (emit_definition d ?sm k) = '': z-f (  -- r0 r1 r2 ) 1 2 swap ;''" for k
    using clash3 [of k] by (simp add: its)
  from its have "Definition d \<in> set (sm_program ?sm)" by simp
  then obtain k a b where "fst (emit ?sm True (pr_names fresh_process)) = a @ fst (emit_definition d ?sm k) @ newline @ b"
    by (rule emit_contains_definition)
  then have "fst (compile_in_context_with_diagnostics clashing_files no_reason 1 clashing_request new_context fresh_process)
      = Ok (a @ '': z-f (  -- r0 r1 r2 ) 1 2 swap ;'' @ newline @ b, sm_effect_errors sm)"
    using compile_Ok [OF prog _ sm, of clashing_files 1] r prog1 d by (simp add: new_context_def)
  then show "\<exists>a b warnings. fst (compile_in_context_with_diagnostics clashing_files no_reason 1 clashing_request new_context fresh_process)
      = Ok (a @ '': z-f (  -- r0 r1 r2 ) 1 2 swap ;'' @ newline @ b, warnings)" by blast
qed

end
