(* ===== verification/Driver_Session.thy ===== *)
theory Driver_Session
  imports Driver_Correct
begin

text \<open>
  A session: any number of requests, each on the file system of its time, in the context that the ones
  before it left.
\<close>

section \<open>The names of a program\<close>

definition item_key :: "item \<Rightarrow> string option" where
  "item_key it = map_option (\<lambda>uw. to_ascii_lowercase (uw_name uw)) (user_word_of it)"

definition program_names :: "program \<Rightarrow> string set" where
  "program_names its = {n. \<exists>it\<in>set its. item_key it = Some n}"

lemma program_names_simps [simp]:
  "program_names [] = {}"
  "program_names (it # its) = set_option (item_key it) \<union> program_names its"
  "program_names (xs @ ys) = program_names xs \<union> program_names ys"
  by (auto simp: program_names_def)

lemma or_insert_dom [simp]: "dom (or_insert k v m) = insert k (dom m)"
  by (auto simp: or_insert_def)

lemma lift_user_word_dom: "dom (lift_user_word it m) = set_option (item_key it) \<union> dom m"
  by (auto simp: lift_user_word_def item_key_def split: option.split)

lemma fold_lift_dom: "dom (fold lift_user_word its m) = program_names its \<union> dom m"
  by (induction its arbitrary: m) (auto simp: lift_user_word_dom)

lemma register_slot_mono: "x \<in> dom m \<Longrightarrow> x \<in> dom (register_slot_words c ss m)"
  by (induction ss arbitrary: m) (simp_all only: register_slot_words.simps Let_def or_insert_dom insert_iff simp_thms)

lemma register_class_mono: "x \<in> dom m \<Longrightarrow> x \<in> dom (register_class_words cs it m)"
  by (cases it) (simp_all only: register_class_words.simps Let_def register_slot_mono or_insert_dom insert_iff simp_thms)

lemma fold_register_mono: "x \<in> dom m \<Longrightarrow> x \<in> dom (fold (register_class_words cs) its m)"
  by (induction its arbitrary: m) (simp_all only: fold_simps register_class_mono)

lemma collect_tables_fields [simp]:
  "sm_user_words (collect_tables it sm) = sm_user_words sm" "sm_user_effects (collect_tables it sm) = sm_user_effects sm"
  "sm_class_slots (collect_tables it sm) = sm_class_slots sm"
  by (cases it; simp)+

lemma fold_tables_fields [simp]:
  "sm_user_words (fold collect_tables its sm) = sm_user_words sm" "sm_user_effects (fold collect_tables its sm) = sm_user_effects sm"
  "sm_class_slots (fold collect_tables its sm) = sm_class_slots sm"
  by (induction its arbitrary: sm) simp_all

text \<open>The tables of the final model.\<close>

lemma finish_sema_fields:
  fixes rs cs pe
  defines "its \<equiv> sm_program (finish_sema rs cs pe)"
    and "rs' \<equiv> rs\<lparr>rs_program := map (lower_exit_item (rs_word_targets rs)) (rs_program rs)\<rparr>"
  shows "sm_user_words (finish_sema rs cs pe) = fold (register_class_words cs) its (fold lift_user_word its Map.empty)"
    and "sm_user_effects (finish_sema rs cs pe) =
      fold (seed_class_effects cs) its (inf_user_effects (fst (infer_with_prior rs' pe)))"
    and "sm_class_slots (finish_sema rs cs pe) = cs"
    and "\<exists>sm. sm_values (finish_sema rs cs pe) = sm_values (fold collect_tables its sm) \<and> sm_values sm = Map.empty"
  unfolding its_def rs'_def finish_sema_program
  by (auto simp: finish_sema_def analyse_escape_def analyse_call_graph_def Let_def case_prod_beta intro: exI)

lemma finish_sema_user_words:
  "program_names (sm_program (finish_sema rs cs pe)) \<subseteq> dom (sm_user_words (finish_sema rs cs pe))"
proof
  fix x assume "x \<in> program_names (sm_program (finish_sema rs cs pe))"
  then have "x \<in> dom (fold lift_user_word (sm_program (finish_sema rs cs pe)) Map.empty)"
    by (simp add: fold_lift_dom)
  then show "x \<in> dom (sm_user_words (finish_sema rs cs pe))" unfolding finish_sema_fields by (rule fold_register_mono)
qed

text \<open>Every word with an effect is a word of the program or one that it knew.\<close>

lemma seed_item_dom: "dom (seed_item it e) = set_option (item_key it) \<union> dom e"
  by (cases it) (simp_all add: item_key_def mk_user_word_def)

lemma fold_seed_item_dom: "dom (fold seed_item its e) = program_names its \<union> dom e"
  by (induction its arbitrary: e) (auto simp: seed_item_dom)

lemma infer_items_dom: "dom (inf_user_effects (fst (infer_items r its st))) \<subseteq> program_names its \<union> dom (inf_user_effects st)"
proof (induction its arbitrary: st)
  case (Cons it its)
  show ?case
  proof (cases it)
    case (Definition d)
    have step: "fst (infer_items r (it # its) st) = fst (infer_items r its
        \<lparr>inf_user_effects = (if cd_effect d = None then (inf_user_effects st)(to_ascii_lowercase (cd_name d) \<mapsto>
            infer_block \<lparr>en_builtins = builtin_effects, en_user_effects = inf_user_effects st, en_resolved = r\<rparr> (cd_body d))
           else inf_user_effects st),
         inf_body_effects = (inf_body_effects st)(to_ascii_lowercase (cd_name d) \<mapsto>
            infer_block \<lparr>en_builtins = builtin_effects, en_user_effects = inf_user_effects st, en_resolved = r\<rparr> (cd_body d))\<rparr>)"
      by (simp add: Definition case_prod_beta Let_def)
    show ?thesis unfolding step
      by (rule order_trans [OF Cons]) (auto simp: Definition item_key_def mk_user_word_def)
  qed (use Cons [of st] in auto)
qed simp

lemma slot_effects_registered:
  "dom e \<subseteq> A \<union> dom u \<Longrightarrow> dom (seed_slot_effects (to_ascii_lowercase (cl_name c)) ss e) \<subseteq> A \<union> dom (register_slot_words c ss u)"
proof (induction ss arbitrary: e u)
  case (Cons s ss)
  show ?case
    unfolding seed_slot_effects.simps register_slot_words.simps Let_def
    by (rule Cons.IH, use Cons.prems in \<open>simp only: dom_fun_upd or_insert_dom option.distinct if_False\<close>) blast
qed simp

lemma class_effects_registered:
  "dom e \<subseteq> A \<union> dom u \<Longrightarrow> dom (seed_class_effects cs it e) \<subseteq> A \<union> dom (register_class_words cs it u)"
proof (cases it)
  case (Class c)
  assume "dom e \<subseteq> A \<union> dom u"
  then show ?thesis
    unfolding Class seed_class_effects.simps register_class_words.simps Let_def
    by (intro slot_effects_registered, simp only: dom_fun_upd or_insert_dom option.distinct if_False) blast
qed simp_all

lemma fold_class_effects_registered:
  "dom e \<subseteq> A \<union> dom u \<Longrightarrow> dom (fold (seed_class_effects cs) its e) \<subseteq> A \<union> dom (fold (register_class_words cs) its u)"
  by (induction its arbitrary: e u) (simp_all only: fold_simps class_effects_registered)

lemma finish_sema_effects:
  "dom (sm_user_effects (finish_sema rs cs pe)) \<subseteq> dom pe \<union> dom (sm_user_words (finish_sema rs cs pe))"
proof -
  let ?its = "sm_program (finish_sema rs cs pe)" and ?rs = "rs\<lparr>rs_program := map (lower_exit_item (rs_word_targets rs)) (rs_program rs)\<rparr>"
  have "dom (inf_user_effects (fst (infer_with_prior ?rs pe))) \<subseteq> dom pe \<union> program_names ?its"
    unfolding infer_with_prior_def finish_sema_program
    by (rule order_trans [OF infer_items_dom]) (auto simp: fold_seed_item_dom)
  then show ?thesis unfolding finish_sema_fields by (intro fold_class_effects_registered) (auto simp: fold_lift_dom)
qed

section \<open>The passes keep the names\<close>

lemma qdup_item_key [simp]: "item_key (fst (qdup_item c it)) = item_key it"
  by (cases it) (simp_all add: item_key_def case_prod_beta Let_def)

lemma lower_exit_item_key [simp]: "item_key (lower_exit_item r it) = item_key it"
  by (cases it) (simp_all add: item_key_def)

lemma rewrite_def_key [simp]: "item_key (Definition (fst (rewrite_def d))) = item_key (Definition d)"
  by (simp add: item_key_def rewrite_def_def case_prod_beta Let_def)

lemma qdup_program_names [simp]: "program_names (fst (qdup_program c its)) = program_names its"
  by (induction its arbitrary: c) (simp_all add: case_prod_beta Let_def)

lemma recurse_program_names [simp]: "program_names (fst (recurse_program its)) = program_names its"
proof (induction its)
  case (Cons it its)
  then show ?case
    by (cases it) (simp_all only: recurse_program.simps case_prod_beta Let_def fst_conv program_names_simps rewrite_def_key)
qed simp

lemma lower_exit_names [simp]: "program_names (map (lower_exit_item r) its) = program_names its"
  by (induction its) simp_all

lemma expand_items_names: "program_names its \<subseteq> program_names (expand_items ts its)"
  by (induction ts its rule: expand_items.induct) (auto simp: item_key_def)

lemma lowered_program_names: "program_names prog \<subseteq> program_names (lowered_program c prog pt)"
  using expand_items_names by (simp add: lowered_program_def expand_templates_pre_resolve_with_prior_def Let_def)

lemma collect_templates_names: "fst ` set (collect_templates its m) \<subseteq> fst ` set m \<union> program_names its"
proof (induction its arbitrary: m)
  case (Cons it its)
  show ?case
  proof (cases it)
    case (Template t)
    with Cons [of "(to_ascii_lowercase (td_name t), t) # m"] show ?thesis by (simp add: item_key_def mk_user_word_def)
  qed (use Cons [of m] in auto)
qed simp

lemma collect_tables_values: "dom (sm_values (fold collect_tables its sm)) \<subseteq> dom (sm_values sm) \<union> program_names its"
proof (induction its arbitrary: sm)
  case (Cons it its)
  have "dom (sm_values (collect_tables it sm)) \<subseteq> dom (sm_values sm) \<union> set_option (item_key it)"
    by (cases it) (auto simp: item_key_def mk_user_word_def)
  with Cons [of "collect_tables it sm"] show ?case by auto
qed simp

lemma class_slots_names: "dom (compute_class_slots its out) \<subseteq> dom out \<union> program_names its"
proof (induction its arbitrary: out)
  case (Cons it its)
  show ?case
  proof (cases it)
    case (Class c)
    have "dom (compute_class_slots its (out(k \<mapsto> v))) \<subseteq> insert k (dom out) \<union> program_names its" for k v
      using Cons [of "out(k \<mapsto> v)"] by (simp only: dom_fun_upd option.distinct if_False)
    with Class show ?thesis by (simp add: item_key_def mk_user_word_def)
  qed (use Cons [of out] in auto)
qed simp

lemma doc_of_item_key: "doc_of_item src it = Some (name, doc) \<Longrightarrow> item_key it = Some (to_ascii_lowercase name)"
  by (cases it) (auto simp: item_key_def mk_user_word_def)

lemma build_docs_names: "dom (build_docs its src out) \<subseteq> dom out \<union> program_names its"
proof (induction its arbitrary: out)
  case (Cons it its)
  show ?case
  proof (cases "doc_of_item src it")
    case (Some nd)
    then obtain name doc where nd: "doc_of_item src it = Some (name, doc)" by (cases nd) simp
    have "dom (build_docs its src (out(k \<mapsto> v))) \<subseteq> insert k (dom out) \<union> program_names its" for k v
      using Cons [of "out(k \<mapsto> v)"] by (simp only: dom_fun_upd option.distinct if_False)
    with nd doc_of_item_key [OF nd] show ?thesis by simp
  qed (use Cons [of out] in auto)
qed simp

section \<open>Reachable contexts\<close>

lemma expand_names:
  "fst (expand_needs fs reason n base prog st) = Ok items \<Longrightarrow>
   program_names prog \<subseteq> program_names items \<and>
   dom (is_docs (snd (expand_needs fs reason n base prog st))) \<subseteq> dom (is_docs st) \<union> program_names items"
proof -
  let ?P = "\<lambda>n (base :: string option) (prog :: program) (st :: include_state) (res :: (string, program) outcome \<times> include_state).
      \<forall>items. fst res = Ok items \<longrightarrow> program_names prog \<subseteq> program_names items \<and>
        dom (is_docs (snd res)) \<subseteq> dom (is_docs st) \<union> program_names items"
  have key [simp]: "item_key (Needs path sp) = None" for path sp by (simp add: item_key_def)
  then have needs: "program_names (Needs path sp # its) = program_names its" for path sp its by simp
  have "?P n base prog st (expand_needs fs reason n base prog st)"
  proof (rule expand_rule [where P = ?P], goal_cases)
    case (7 n base path sp its st key full contents sub items st' res)
    show ?case
    proof (intro allI impI)
      fix all assume "fst (prepend items res) = Ok all"
      then obtain rest where rest: "fst res = Ok rest" "all = items @ rest" by (cases "fst res") auto
      have sub: "program_names sub \<subseteq> program_names items"
        "dom (is_docs st') \<subseteq> dom (is_docs (entered key sub contents st)) \<union> program_names items"
        using 7(6) by auto
      have "dom (build_docs sub contents Map.empty) \<subseteq> program_names sub"
        using build_docs_names [of sub contents Map.empty] by simp
      with sub have "dom (is_docs st') \<subseteq> dom (is_docs st) \<union> program_names items"
        by (auto simp: or_insert_docs_def dest!: subsetD)
      moreover have "program_names its \<subseteq> program_names rest" "dom (is_docs (snd res)) \<subseteq> dom (is_docs st') \<union> program_names rest"
        using 7(7) rest(1) by blast+
      ultimately show "program_names (Needs path sp # its) \<subseteq> program_names all \<and>
          dom (is_docs (snd (prepend items res))) \<subseteq> dom (is_docs st) \<union> program_names all"
        unfolding needs rest(2) program_names_simps(3) snd_conv by blast
    qed
  next
    case (8 n base it its st res)
    then show ?case by (cases "fst res") auto
  qed (auto simp: needs)
  then show "fst (expand_needs fs reason n base prog st) = Ok items \<Longrightarrow> ?thesis" by blast
qed

text \<open>What a session knows of its words: everything recorded under a name belongs to a known word.\<close>

definition recorded_names :: "compile_context \<Rightarrow> string set" where
  "recorded_names ctx = fst ` set (cc_templates ctx) \<union> dom (cc_values ctx) \<union> dom (cc_classes ctx) \<union> dom (cc_docs ctx)
     \<union> dom (cc_user_effects ctx)"

inductive reachable :: "compile_context \<Rightarrow> bool" where
  start: "reachable new_context"
| request: "reachable ctx \<Longrightarrow> compile_in_context_with_diagnostics fs reason n source ctx pr = (r, ctx', pr') \<Longrightarrow> reachable ctx'"

lemma built_names:
  assumes "build_in_context ctx pr prog = Ok sm"
  shows "program_names prog \<subseteq> dom (sm_user_words sm)" "program_names (sm_program sm) \<subseteq> dom (sm_user_words sm)"
    "dom (sm_user_effects sm) \<subseteq> dom (cc_user_effects ctx) \<union> dom (sm_user_words sm)"
    "dom (sm_class_slots sm) \<subseteq> dom (cc_classes ctx) \<union> dom (sm_user_words sm)"
    "dom (sm_values sm) \<subseteq> dom (sm_user_words sm)"
proof -
  obtain rs cs where b: "cs = compute_class_slots (lowered_program (pr_spans pr) prog (cc_templates ctx)) (cc_classes ctx)"
    "resolve_with_prior_and_values_and_classes (lowered_program (pr_spans pr) prog (cc_templates ctx))
       (cc_user_words ctx) (cc_values ctx) cs = Ok rs"
    "sm = finish_sema rs cs (cc_user_effects ctx)"
    using assms unfolding build_in_context_def map_err_eq_Ok by (rule build_Ok)
  let ?P = "lowered_program (pr_spans pr) prog (cc_templates ctx)"
  have names: "program_names (sm_program sm) = program_names ?P"
    using resolve_keeps_program [OF b(2)] by (simp add: b(3) finish_sema_program)
  show words: "program_names (sm_program sm) \<subseteq> dom (sm_user_words sm)" unfolding b(3) by (rule finish_sema_user_words)
  show "program_names prog \<subseteq> dom (sm_user_words sm)" using lowered_program_names words names by blast
  show "dom (sm_user_effects sm) \<subseteq> dom (cc_user_effects ctx) \<union> dom (sm_user_words sm)"
    unfolding b(3) by (rule finish_sema_effects)
  show "dom (sm_class_slots sm) \<subseteq> dom (cc_classes ctx) \<union> dom (sm_user_words sm)"
    using class_slots_names [of ?P "cc_classes ctx"] words names unfolding b(3) finish_sema_fields(3) b(1) by blast
  have "dom (sm_values sm) \<subseteq> program_names (sm_program sm)"
    using finish_sema_fields(4) [of rs cs "cc_user_effects ctx"] collect_tables_values [of "sm_program sm"] unfolding b(3) by force
  with words show "dom (sm_values sm) \<subseteq> dom (sm_user_words sm)" by blast
qed

lemma tables_within:
  fixes W U :: "string set"
  assumes "T' \<subseteq> T \<union> W" "V' \<subseteq> W" "C' \<subseteq> C \<union> W" "D' \<subseteq> W" "E' \<subseteq> E \<union> W"
    and "T \<subseteq> U" "V \<subseteq> U" "C \<subseteq> U" "D \<subseteq> U" "E \<subseteq> U"
  shows "T' \<union> (V' \<union> V) \<union> (C' \<union> C) \<union> (D' \<union> D) \<union> (E' \<union> E) \<subseteq> W \<union> U"
  using assms by blast

lemma merge_keeps_recorded:
  assumes "recorded_names ctx \<subseteq> dom (cc_user_words ctx)" "build_in_context ctx pr prog = Ok sm"
    and "dom compile_docs \<subseteq> program_names prog"
  shows "recorded_names (merge_context (final_sema compile_docs ctx sm) ctx) \<subseteq>
    dom (cc_user_words (merge_context (final_sema compile_docs ctx sm) ctx))"
proof -
  note built = built_names [OF assms(2)]
  have sm: "sm_user_words (final_sema compile_docs ctx sm) = sm_user_words sm"
    "sm_user_effects (final_sema compile_docs ctx sm) = sm_user_effects sm"
    "sm_values (final_sema compile_docs ctx sm) = sm_values sm"
    "sm_class_slots (final_sema compile_docs ctx sm) = sm_class_slots sm"
    "sm_docs (final_sema compile_docs ctx sm) = cc_docs ctx ++ compile_docs"
    by (simp_all add: final_sema_def force_wide_def)
  have dom_map: "dom (\<lambda>w. map_option g (m w)) = dom m" for g :: "'a \<Rightarrow> 'b" and m :: "string \<rightharpoonup> 'a"
    by (auto simp: dom_def)
  have templates: "fst ` set (collect_templates (sm_program sm) (cc_templates ctx)) \<subseteq>
      fst ` set (cc_templates ctx) \<union> dom (sm_user_words sm)"
    using collect_templates_names built(2) by blast
  have old: "fst ` set (cc_templates ctx) \<subseteq> dom (cc_user_words ctx)" "dom (cc_values ctx) \<subseteq> dom (cc_user_words ctx)"
    "dom (cc_classes ctx) \<subseteq> dom (cc_user_words ctx)" "dom (cc_docs ctx) \<subseteq> dom (cc_user_words ctx)"
    "dom (cc_user_effects ctx) \<subseteq> dom (cc_user_words ctx)"
    using assms(1) by (simp_all add: recorded_names_def)
  have words: "dom (cc_user_words (merge_context (final_sema compile_docs ctx sm) ctx)) = dom (sm_user_words sm) \<union> dom (cc_user_words ctx)"
    by (simp add: merge_context_def sm dom_map)
  have tables: "recorded_names (merge_context (final_sema compile_docs ctx sm) ctx) =
      fst ` set (collect_templates (sm_program sm) (cc_templates ctx)) \<union> (dom (sm_values sm) \<union> dom (cc_values ctx)) \<union>
      (dom (sm_class_slots sm) \<union> dom (cc_classes ctx)) \<union> (dom compile_docs \<union> dom (cc_docs ctx)) \<union>
      (dom (sm_user_effects sm) \<union> dom (cc_user_effects ctx))"
    by (simp add: recorded_names_def merge_context_def sm dom_map)
  show ?thesis unfolding tables words
    by (rule tables_within [OF templates built(5) built(4) order_trans [OF assms(3) built(1)] _ old])
      (use built(3) in simp)
qed

lemma failed_context:
  assumes "compile_in_context_with_diagnostics fs reason n source ctx pr = (r, ctx', pr')" "\<nexists>x. r = Ok x"
  shows "\<exists>inc. ctx' = ctx\<lparr>cc_included := inc\<rparr>"
proof (cases "parse_source reason source")
  case (Ok prog)
  show ?thesis
    using assms
    by (auto simp: compile_in_context_with_diagnostics_def finish_compile_def Ok Let_def case_prod_beta split: outcome.splits)
qed (use assms in \<open>auto simp: compile_in_context_with_diagnostics_def intro: exI [of _ "cc_included ctx"]\<close>)

lemma successful_compile:
  assumes "compile_in_context_with_diagnostics fs reason n source ctx pr = (Ok x, ctx', pr')"
  obtains prog prog1 st sm where "parse_source reason source = Ok prog"
    "expand_needs fs reason n None prog \<lparr>is_included = cc_included ctx, is_docs = build_docs prog source Map.empty\<rparr> = (Ok prog1, st)"
    "build_in_context (ctx\<lparr>cc_included := is_included st\<rparr>) pr prog1 = Ok sm"
    "ctx' = merge_context (final_sema (is_docs st) (ctx\<lparr>cc_included := is_included st\<rparr>) sm) (ctx\<lparr>cc_included := is_included st\<rparr>)"
    "x = (fst (emit (final_sema (is_docs st) (ctx\<lparr>cc_included := is_included st\<rparr>) sm) True (pr_names pr)), sm_effect_errors sm)"
proof -
  note run = assms [unfolded compile_in_context_with_diagnostics_def]
  obtain prog where prog: "parse_source reason source = Ok prog" using run by (cases "parse_source reason source") auto
  obtain res st where expand: "expand_needs fs reason n None prog
      \<lparr>is_included = cc_included ctx, is_docs = build_docs prog source Map.empty\<rparr> = (res, st)" by fastforce
  obtain prog1 where res: "res = Ok prog1" using run by (cases res) (auto simp: prog expand Let_def)
  let ?ctx = "ctx\<lparr>cc_included := is_included st\<rparr>"
  obtain sm where sm: "build_in_context ?ctx pr prog1 = Ok sm"
    using run by (cases "build_in_context ?ctx pr prog1") (auto simp: prog expand res Let_def)
  have "ctx' = merge_context (final_sema (is_docs st) ?ctx sm) ?ctx"
    "x = (fst (emit (final_sema (is_docs st) ?ctx sm) True (pr_names pr)), sm_effect_errors sm)"
    using run
    by (simp_all add: prog expand res sm finish_compile_def spans_after_def final_sema_def force_wide_def Let_def case_prod_beta)
  with prog expand res sm show thesis by (intro that) simp_all
qed

text \<open>
  C4. In a session every name that a context records something about is a word the session knows: the
  names of templates, values and classes, of inferred effects and of SEE records, whatever requests came
  before, failed ones among them.
\<close>

theorem session_names_known:
  assumes "reachable ctx"
  shows "recorded_names ctx \<subseteq> dom (cc_user_words ctx)"
  using assms
proof induction
  case (request ctx fs reason n source pr r ctx' pr')
  show ?case
  proof (cases "\<exists>x. r = Ok x")
    case False
    then obtain inc where "ctx' = ctx\<lparr>cc_included := inc\<rparr>"
      using failed_context request(2) by blast
    with request(3) show ?thesis by (simp add: recorded_names_def)
  next
    case True
    then obtain ir_warnings where "r = Ok ir_warnings" by blast
    with request(2) obtain prog prog1 st sm where prog: "parse_source reason source = Ok prog"
      and expand: "expand_needs fs reason n None prog \<lparr>is_included = cc_included ctx, is_docs = build_docs prog source Map.empty\<rparr> = (Ok prog1, st)"
      and sm: "build_in_context (ctx\<lparr>cc_included := is_included st\<rparr>) pr prog1 = Ok sm"
      and ctx': "ctx' = merge_context (final_sema (is_docs st) (ctx\<lparr>cc_included := is_included st\<rparr>) sm) (ctx\<lparr>cc_included := is_included st\<rparr>)"
      by (auto elim: successful_compile)
    let ?ctx = "ctx\<lparr>cc_included := is_included st\<rparr>"
    have "program_names prog \<subseteq> program_names prog1" "dom (is_docs st) \<subseteq> dom (build_docs prog source Map.empty) \<union> program_names prog1"
      using expand_names [of fs reason n None prog _ prog1] expand by (metis fst_conv snd_conv include_state.select_convs)+
    then have "dom (is_docs st) \<subseteq> program_names prog1"
      using build_docs_names [of prog source Map.empty] by auto
    moreover have "recorded_names ?ctx \<subseteq> dom (cc_user_words ?ctx)" using request(3) by (simp add: recorded_names_def)
    ultimately show ?thesis unfolding ctx' by (intro merge_keeps_recorded [OF _ sm])
  qed
qed (simp add: recorded_names_def new_context_def)

definition square_request :: string where
  "square_request = '': square dup * ;''"

lemma square_compiles:
  "case parse_source no_reason square_request of
     Ok prog \<Rightarrow>
       (case expand_needs clashing_files no_reason 0 None prog \<lparr>is_included = {}, is_docs = build_docs prog square_request Map.empty\<rparr> of
          (Ok prog1, st) \<Rightarrow> is_docs st ''square'' \<noteq> None \<and>
            (case build_in_context (new_context\<lparr>cc_included := is_included st\<rparr>) fresh_process prog1 of Ok sm \<Rightarrow> True | _ \<Rightarrow> False)
        | _ \<Rightarrow> False)
   | _ \<Rightarrow> False"
  by code_simp

theorem session_names_known_witness:
  "\<exists>r ctx pr. compile_in_context_with_diagnostics clashing_files no_reason 0 square_request new_context fresh_process = (r, ctx, pr) \<and>
     ''square'' \<in> recorded_names ctx \<and> recorded_names ctx \<subseteq> dom (cc_user_words ctx)"
proof -
  obtain r ctx pr where run: "compile_in_context_with_diagnostics clashing_files no_reason 0 square_request new_context fresh_process = (r, ctx, pr)"
    by (cases "compile_in_context_with_diagnostics clashing_files no_reason 0 square_request new_context fresh_process") auto
  obtain prog where prog: "parse_source no_reason square_request = Ok prog"
    using square_compiles by (cases "parse_source no_reason square_request") simp_all
  obtain res st where res: "expand_needs clashing_files no_reason 0 None prog
      \<lparr>is_included = {}, is_docs = build_docs prog square_request Map.empty\<rparr> = (res, st)" by fastforce
  note square = square_compiles [unfolded prog res outcome.case prod.case]
  then obtain prog1 where prog1: "res = Ok prog1" by (cases res) simp_all
  with square obtain sm where "is_docs st ''square'' \<noteq> None"
    "build_in_context (new_context\<lparr>cc_included := is_included st\<rparr>) fresh_process prog1 = Ok sm"
    by (cases "build_in_context (new_context\<lparr>cc_included := is_included st\<rparr>) fresh_process prog1") simp_all
  with run prog res prog1 have "''square'' \<in> recorded_names ctx"
    by (auto simp: compile_in_context_with_diagnostics_def finish_compile_def merge_context_def final_sema_def
        new_context_def recorded_names_def Let_def case_prod_beta)
  moreover from session_names_known [OF request [OF start run]] have "recorded_names ctx \<subseteq> dom (cc_user_words ctx)" .
  ultimately show ?thesis using run by blast
qed

end
