(* ===== verification/Rope.thy ===== *)
theory Rope
  imports Prelude
begin

text \<open>
  The rope text buffer of the editor, \<^verbatim>\<open>crates/igui/src/rope_buffer.rs\<close>: a tree whose
  leaves hold up to \<open>LEAF_MAX\<close> code points and whose branches cache lengths, newline counts
  and heights. Edits split the tree and join the pieces with AVL rotations.

  Offsets, counts and heights are natural numbers (the code's \<^verbatim>\<open>usize\<close> and \<^verbatim>\<open>u32\<close>
  counters never exceed the number of code points held in memory), code points are 32-bit and
  bytes 8-bit words. A function that can panic returns an option; \<open>None\<close> is the panic.
\<close>

unbundle bit_operations_syntax

section \<open>Nodes\<close>

definition LEAF_MAX :: nat where
  "LEAF_MAX = 2048"

definition NEWLINE :: u32 where
  "NEWLINE = 10"

datatype node =
    Leaf (buf: "u32 list") (leaf_newlines: nat)
  | Branch (left: node) (right: node) (left_len: nat) (total_len: nat)
      (total_newlines: nat) (branch_height: nat)

definition count_newlines :: "u32 list \<Rightarrow> nat" where
  "count_newlines cps = length (filter (\<lambda>cp. cp = NEWLINE) cps)"

definition leaf :: "u32 list \<Rightarrow> node" where
  "leaf cps = Leaf cps (count_newlines cps)"

definition empty_leaf :: node where
  "empty_leaf = leaf []"

fun text_len :: "node \<Rightarrow> nat" where
  "text_len (Leaf b _) = length b"
| "text_len (Branch _ _ _ tot _ _) = tot"

fun newline_count :: "node \<Rightarrow> nat" where
  "newline_count (Leaf _ n) = n"
| "newline_count (Branch _ _ _ _ n _) = n"

definition line_count :: "node \<Rightarrow> nat" where
  "line_count n = newline_count n + 1"

fun height :: "node \<Rightarrow> nat" where
  "height (Leaf _ _) = 0"
| "height (Branch _ _ _ _ _ h) = h"

definition branch :: "node \<Rightarrow> node \<Rightarrow> node" where
  "branch l r = Branch l r (text_len l) (text_len l + text_len r)
     (newline_count l + newline_count r) (1 + max (height l) (height r))"

fun balance_factor :: "node \<Rightarrow> int" where
  "balance_factor (Leaf _ _) = 0"
| "balance_factor (Branch l r _ _ _ _) = int (height l) - int (height r)"

section \<open>Balancing\<close>

fun take_children :: "node \<Rightarrow> (node \<times> node) option" where
  "take_children (Branch l r _ _ _ _) = Some (l, r)"
| "take_children (Leaf _ _) = None"

fun rotate_right :: "node \<Rightarrow> node" where
  "rotate_right (Leaf b n) = Leaf b n"
| "rotate_right (Branch (Leaf b n) r _ _ _ _) = branch (Leaf b n) r"
| "rotate_right (Branch (Branch ll lr _ _ _ _) r _ _ _ _) = branch ll (branch lr r)"

fun rotate_left :: "node \<Rightarrow> node" where
  "rotate_left (Leaf b n) = Leaf b n"
| "rotate_left (Branch l (Leaf b n) _ _ _ _) = branch l (Leaf b n)"
| "rotate_left (Branch l (Branch rl rr _ _ _ _) _ _ _ _) = branch (branch l rl) rr"

definition balance :: "node \<Rightarrow> node option" where
  "balance n =
    (if balance_factor n > 1 then
       (case take_children n of
          None \<Rightarrow> None
        | Some (l, r) \<Rightarrow>
            if balance_factor l < 0 then Some (rotate_right (branch (rotate_left l) r))
            else Some (rotate_right (branch l r)))
     else if balance_factor n < -1 then
       (case take_children n of
          None \<Rightarrow> None
        | Some (l, r) \<Rightarrow>
            if balance_factor r > 0 then Some (rotate_left (branch l (rotate_right r)))
            else Some (rotate_left (branch l r)))
     else Some n)"

section \<open>Joining and splitting\<close>

text \<open>The two buffers to merge, when both sides are leaves that fit into one.\<close>

fun small_leaves :: "node \<Rightarrow> node \<Rightarrow> (u32 list \<times> u32 list) option" where
  "small_leaves (Leaf lbuf _) (Leaf rbuf _) =
     (if length lbuf + length rbuf \<le> LEAF_MAX then Some (lbuf, rbuf) else None)"
| "small_leaves _ _ = None"

definition abs_diff :: "nat \<Rightarrow> nat \<Rightarrow> nat" where
  "abs_diff a b = (if a < b then b - a else a - b)"

lemma size_take_children:
  "take_children n = Some (l, r) \<Longrightarrow> size l < size n \<and> size r < size n"
  by (cases n) auto

function join_nodes :: "node \<Rightarrow> node \<Rightarrow> node option" where
  "join_nodes l r =
    (if text_len l = 0 then Some r
     else if text_len r = 0 then Some l
     else case small_leaves l r of
       Some (lbuf, rbuf) \<Rightarrow> Some (leaf (lbuf @ rbuf))
     | None \<Rightarrow>
         if abs_diff (height l) (height r) \<le> 1 then Some (branch l r)
         else if height l > height r then
           (case take_children l of
              None \<Rightarrow> None
            | Some (ll, lr) \<Rightarrow>
                (case join_nodes lr r of
                   None \<Rightarrow> None
                 | Some new_right \<Rightarrow> balance (branch ll new_right)))
         else
           (case take_children r of
              None \<Rightarrow> None
            | Some (rl, rr) \<Rightarrow>
                (case join_nodes l rl of
                   None \<Rightarrow> None
                 | Some new_left \<Rightarrow> balance (branch new_left rr))))"
  by pat_completeness auto
termination
  by (relation "measure (\<lambda>(l, r). size l + size r)") (auto dest!: size_take_children)

declare join_nodes.simps [simp del]

fun split_node :: "node \<Rightarrow> nat \<Rightarrow> (node \<times> node) option" where
  "split_node (Leaf b n) pos =
    (if pos = 0 then Some (empty_leaf, Leaf b n)
     else if pos \<ge> length b then Some (Leaf b n, empty_leaf)
     else Some (leaf (take pos b), leaf (drop pos b)))"
| "split_node (Branch l r ll tot nls h) pos =
    (if pos = 0 then Some (empty_leaf, Branch l r ll tot nls h)
     else if pos \<ge> tot then Some (Branch l r ll tot nls h, empty_leaf)
     else if pos = ll then Some (l, r)
     else if pos < ll then
       (case split_node l pos of
          None \<Rightarrow> None
        | Some (la, lb) \<Rightarrow> map_option (\<lambda>new_right. (la, new_right)) (join_nodes lb r))
     else
       (case split_node r (pos - ll) of
          None \<Rightarrow> None
        | Some (ra, rb) \<Rightarrow> map_option (\<lambda>new_left. (new_left, rb)) (join_nodes l ra)))"

definition insert_node :: "node \<Rightarrow> nat \<Rightarrow> node \<Rightarrow> node option" where
  "insert_node root pos insertion =
    (case split_node root pos of
       None \<Rightarrow> None
     | Some (l, r) \<Rightarrow>
         (case join_nodes l insertion of
            None \<Rightarrow> None
          | Some l' \<Rightarrow> join_nodes l' r))"

definition delete_range :: "node \<Rightarrow> nat \<Rightarrow> nat \<Rightarrow> node option" where
  "delete_range root pos count =
    (case split_node root pos of
       None \<Rightarrow> None
     | Some (lead, rest) \<Rightarrow>
         (case split_node rest count of
            None \<Rightarrow> None
          | Some (_, after) \<Rightarrow> join_nodes lead after))"

section \<open>Building\<close>

text \<open>One round of the pairwise merge, and the rounds until one node is left.\<close>

fun pairwise :: "node list \<Rightarrow> node list" where
  "pairwise (l # r # ns) = branch l r # pairwise ns"
| "pairwise [l] = [l]"
| "pairwise [] = []"

lemma length_pairwise: "length (pairwise ns) = (length ns + 1) div 2"
  by (induction ns rule: pairwise.induct) auto

function merge_rounds :: "node list \<Rightarrow> node list" where
  "merge_rounds ns = (if length ns > 1 then merge_rounds (pairwise ns) else ns)"
  by pat_completeness auto
termination
  by (relation "measure length") (auto simp: length_pairwise)

declare merge_rounds.simps [simp del]

definition chunk_count :: "u32 list \<Rightarrow> nat" where
  "chunk_count cps = (length cps + LEAF_MAX - 1) div LEAF_MAX"

definition chunk_leaves :: "u32 list \<Rightarrow> node list" where
  "chunk_leaves cps =
    map (\<lambda>i. leaf (slice_of cps (i * LEAF_MAX) (min (i * LEAF_MAX + LEAF_MAX) (length cps))))
      [0..<chunk_count cps]"

definition build_rope_from_slice :: "u32 list \<Rightarrow> node option" where
  "build_rope_from_slice cps =
    (if cps = [] then Some empty_leaf
     else if chunk_count cps = 1 then Some (leaf cps)
     else last_opt (merge_rounds (chunk_leaves cps)))"

section \<open>Reading\<close>

fun char_at_node :: "node \<Rightarrow> nat \<Rightarrow> u32 option" where
  "char_at_node (Leaf b _) pos = get b pos"
| "char_at_node (Branch l r ll _ _ _) pos =
     (if pos < ll then char_at_node l pos else char_at_node r (pos - ll))"

text \<open>The code points \<^verbatim>\<open>collect_range\<close> appends to its output.\<close>

fun collect_range :: "node \<Rightarrow> nat \<Rightarrow> nat \<Rightarrow> u32 list" where
  "collect_range (Leaf b _) start stop =
     (if start \<ge> stop then [] else slice_of b (min start (length b)) (min stop (length b)))"
| "collect_range (Branch l r ll _ _ _) start stop =
     (if start \<ge> stop then []
      else (if start < ll then collect_range l start (min stop ll) else [])
        @ (if stop > ll then collect_range r (start - ll) (stop - ll) else []))"

fun count_newlines_before :: "node \<Rightarrow> nat \<Rightarrow> nat" where
  "count_newlines_before (Leaf b _) pos =
     (if pos = 0 then 0 else count_newlines (take (min pos (length b)) b))"
| "count_newlines_before (Branch l r ll _ _ _) pos =
     (if pos = 0 then 0
      else if pos \<le> ll then count_newlines_before l pos
      else newline_count l + count_newlines_before r (pos - ll))"

text \<open>The loop over a leaf: offset \<open>i\<close> of the current code point, newlines seen so far.\<close>

fun scan_newlines :: "u32 list \<Rightarrow> nat \<Rightarrow> nat \<Rightarrow> nat \<Rightarrow> nat option" where
  "scan_newlines [] i count n = None"
| "scan_newlines (cp # cps) i count n =
     (if cp = NEWLINE then
        if count = n then Some i else scan_newlines cps (i + 1) (count + 1) n
      else scan_newlines cps (i + 1) count n)"

fun nth_newline_pos_raw :: "node \<Rightarrow> nat \<Rightarrow> nat option" where
  "nth_newline_pos_raw (Leaf b _) n = scan_newlines b 0 0 n"
| "nth_newline_pos_raw (Branch l r ll _ _ _) n =
     (if n < newline_count l then nth_newline_pos_raw l n
      else map_option (\<lambda>right_pos. ll + right_pos) (nth_newline_pos_raw r (n - newline_count l)))"

definition nth_newline_pos :: "node \<Rightarrow> nat \<Rightarrow> nat option" where
  "nth_newline_pos n k = map_option (\<lambda>p. p + 1) (nth_newline_pos_raw n k)"

section \<open>UTF-8\<close>

type_synonym u8 = "8 word"

definition is_continuation :: "u8 \<Rightarrow> bool" where
  "is_continuation b \<longleftrightarrow> b AND 0xC0 = 0x80"

definition decode2 :: "u8 \<Rightarrow> u8 \<Rightarrow> u32" where
  "decode2 b0 b1 = push_bit 6 (ucast (b0 AND 0x1F)) OR ucast (b1 AND 0x3F)"

definition decode3 :: "u8 \<Rightarrow> u8 \<Rightarrow> u8 \<Rightarrow> u32" where
  "decode3 b0 b1 b2 =
     push_bit 12 (ucast (b0 AND 0x0F)) OR push_bit 6 (ucast (b1 AND 0x3F)) OR ucast (b2 AND 0x3F)"

definition decode4 :: "u8 \<Rightarrow> u8 \<Rightarrow> u8 \<Rightarrow> u8 \<Rightarrow> u32" where
  "decode4 b0 b1 b2 b3 =
     push_bit 18 (ucast (b0 AND 0x07)) OR push_bit 12 (ucast (b1 AND 0x3F))
     OR push_bit 6 (ucast (b2 AND 0x3F)) OR ucast (b3 AND 0x3F)"

text \<open>The decoding loop on the bytes that are still to be read.\<close>

function decode_loop :: "u8 list \<Rightarrow> u32 list" where
  "decode_loop [] = []"
| "decode_loop (b # bs) =
    (if b = 0x0D then
       NEWLINE # decode_loop (case bs of c # r \<Rightarrow> if c = 0x0A then r else bs | [] \<Rightarrow> bs)
     else if b < 0x80 then ucast b # decode_loop bs
     else if b AND 0xE0 = 0xC0 then
       (if length bs \<ge> 1 \<and> is_continuation (bs ! 0)
        then decode2 b (bs ! 0) # decode_loop (drop 1 bs)
        else 0xFFFD # decode_loop bs)
     else if b AND 0xF0 = 0xE0 then
       (if length bs \<ge> 2 \<and> is_continuation (bs ! 0) \<and> is_continuation (bs ! 1)
        then decode3 b (bs ! 0) (bs ! 1) # decode_loop (drop 2 bs)
        else 0xFFFD # decode_loop bs)
     else if b AND 0xF8 = 0xF0 then
       (if length bs \<ge> 3 \<and> is_continuation (bs ! 0) \<and> is_continuation (bs ! 1)
           \<and> is_continuation (bs ! 2)
        then decode4 b (bs ! 0) (bs ! 1) (bs ! 2) # decode_loop (drop 3 bs)
        else 0xFFFD # decode_loop bs)
     else 0xFFFD # decode_loop bs)"
  by pat_completeness auto
termination
  by (relation "measure length") (auto split: list.splits)

declare decode_loop.simps(2) [simp del]

definition utf8_to_codepoints :: "u8 list \<Rightarrow> u32 list" where
  "utf8_to_codepoints utf8 =
    (if length utf8 \<ge> 3 \<and> utf8 ! 0 = 0xEF \<and> utf8 ! 1 = 0xBB \<and> utf8 ! 2 = 0xBF
     then decode_loop (drop 3 utf8) else decode_loop utf8)"

text \<open>
  \<^verbatim>\<open>char::from_u32\<close> accepts the Unicode scalar values; \<^verbatim>\<open>String::push\<close> appends the one to
  four bytes of a scalar value.
\<close>

definition is_scalar_value :: "u32 \<Rightarrow> bool" where
  "is_scalar_value cp \<longleftrightarrow> cp < 0xD800 \<or> 0xE000 \<le> cp \<and> cp \<le> 0x10FFFF"

definition encode_utf8 :: "u32 \<Rightarrow> u8 list" where
  "encode_utf8 cp =
    (if cp < 0x80 then [ucast cp]
     else if cp < 0x800 then
       [(ucast (drop_bit 6 cp) AND 0x1F) OR 0xC0, (ucast cp AND 0x3F) OR 0x80]
     else if cp < 0x10000 then
       [(ucast (drop_bit 12 cp) AND 0x0F) OR 0xE0, (ucast (drop_bit 6 cp) AND 0x3F) OR 0x80,
        (ucast cp AND 0x3F) OR 0x80]
     else
       [(ucast (drop_bit 18 cp) AND 0x07) OR 0xF0, (ucast (drop_bit 12 cp) AND 0x3F) OR 0x80,
        (ucast (drop_bit 6 cp) AND 0x3F) OR 0x80, (ucast cp AND 0x3F) OR 0x80])"

fun codepoints_to_utf8 :: "u32 list \<Rightarrow> u8 list" where
  "codepoints_to_utf8 [] = []"
| "codepoints_to_utf8 (cp # cps) =
     (if is_scalar_value cp then encode_utf8 cp else encode_utf8 0xFFFD)
       @ codepoints_to_utf8 cps"

section \<open>The buffer\<close>

record rope_buffer =
  root :: node

definition rope_new :: rope_buffer where
  "rope_new = \<lparr>root = empty_leaf\<rparr>"

definition rope_from_slice :: "u32 list \<Rightarrow> rope_buffer option" where
  "rope_from_slice cps = map_option (\<lambda>n. \<lparr>root = n\<rparr>) (build_rope_from_slice cps)"

definition rope_from_utf8 :: "u8 list \<Rightarrow> rope_buffer option" where
  "rope_from_utf8 utf8 = rope_from_slice (utf8_to_codepoints utf8)"

definition rope_len :: "rope_buffer \<Rightarrow> nat" where
  "rope_len b = text_len (root b)"

definition rope_is_empty :: "rope_buffer \<Rightarrow> bool" where
  "rope_is_empty b \<longleftrightarrow> rope_len b = 0"

definition rope_line_count :: "rope_buffer \<Rightarrow> nat" where
  "rope_line_count b = line_count (root b)"

definition rope_newline_count :: "rope_buffer \<Rightarrow> nat" where
  "rope_newline_count b = newline_count (root b)"

definition rope_height :: "rope_buffer \<Rightarrow> nat" where
  "rope_height b = height (root b)"

text \<open>The outer option is the panic, the inner one is the code's \<^verbatim>\<open>Option<u32>\<close>.\<close>

definition rope_char_at :: "rope_buffer \<Rightarrow> nat \<Rightarrow> u32 option option" where
  "rope_char_at b pos =
    (if pos \<ge> rope_len b then Some None else map_option Some (char_at_node (root b) pos))"

definition rope_insert :: "rope_buffer \<Rightarrow> nat \<Rightarrow> u32 list \<Rightarrow> rope_buffer option" where
  "rope_insert b pos cps =
    (if cps = [] then Some b
     else case build_rope_from_slice cps of
       None \<Rightarrow> None
     | Some insertion \<Rightarrow>
         map_option (\<lambda>n. b\<lparr>root := n\<rparr>) (insert_node (root b) pos insertion))"

definition rope_insert_char :: "rope_buffer \<Rightarrow> nat \<Rightarrow> u32 \<Rightarrow> rope_buffer option" where
  "rope_insert_char b pos cp = rope_insert b pos [cp]"

definition rope_insert_utf8 :: "rope_buffer \<Rightarrow> nat \<Rightarrow> u8 list \<Rightarrow> rope_buffer option" where
  "rope_insert_utf8 b pos utf8 = rope_insert b pos (utf8_to_codepoints utf8)"

definition rope_delete :: "rope_buffer \<Rightarrow> nat \<Rightarrow> nat \<Rightarrow> rope_buffer option" where
  "rope_delete b pos count =
    (if count = 0 \<or> pos \<ge> rope_len b then Some b
     else map_option (\<lambda>n. b\<lparr>root := n\<rparr>)
       (delete_range (root b) pos (min count (rope_len b - pos))))"

definition rope_replace ::
  "rope_buffer \<Rightarrow> nat \<Rightarrow> nat \<Rightarrow> u32 list \<Rightarrow> rope_buffer option" where
  "rope_replace b pos count cps =
    (case rope_delete b pos count of None \<Rightarrow> None | Some b' \<Rightarrow> rope_insert b' pos cps)"

definition rope_line_start :: "rope_buffer \<Rightarrow> nat \<Rightarrow> nat option" where
  "rope_line_start b line_idx =
    (if line_idx = 0 then Some 0
     else if line_idx \<ge> rope_line_count b then None
     else nth_newline_pos (root b) (line_idx - 1))"

definition rope_line_range :: "rope_buffer \<Rightarrow> nat \<Rightarrow> (nat \<times> nat) option" where
  "rope_line_range b line_idx =
    (if line_idx \<ge> rope_line_count b then None
     else case (if line_idx = 0 then Some 0 else nth_newline_pos (root b) (line_idx - 1)) of
       None \<Rightarrow> None
     | Some start \<Rightarrow>
         Some (start,
           if line_idx + 1 < rope_line_count b
           then (case nth_newline_pos_raw (root b) line_idx of
                   Some p \<Rightarrow> p | None \<Rightarrow> rope_len b)
           else rope_len b))"

definition rope_slice :: "rope_buffer \<Rightarrow> nat \<Rightarrow> nat \<Rightarrow> u32 list" where
  "rope_slice b start stop =
    (let s = min start (rope_len b); e = min stop (rope_len b)
     in if s \<ge> e then [] else collect_range (root b) s e)"

definition rope_get_line :: "rope_buffer \<Rightarrow> nat \<Rightarrow> u32 list" where
  "rope_get_line b line_idx =
    (case rope_line_range b line_idx of Some (s, e) \<Rightarrow> rope_slice b s e | None \<Rightarrow> [])"

definition rope_to_slice :: "rope_buffer \<Rightarrow> u32 list" where
  "rope_to_slice b = rope_slice b 0 (rope_len b)"

definition rope_to_utf8 :: "rope_buffer \<Rightarrow> u8 list" where
  "rope_to_utf8 b = codepoints_to_utf8 (rope_slice b 0 (rope_len b))"

definition rope_offset_to_line_col :: "rope_buffer \<Rightarrow> nat \<Rightarrow> nat \<times> nat" where
  "rope_offset_to_line_col b offset =
    (let pos = min offset (rope_len b);
         nl = count_newlines_before (root b) pos;
         line_start_off =
           (if nl = 0 then 0
            else case nth_newline_pos (root b) (nl - 1) of Some p \<Rightarrow> p | None \<Rightarrow> 0)
     in (nl, pos - line_start_off))"

definition rope_line_col_to_offset :: "rope_buffer \<Rightarrow> nat \<Rightarrow> nat \<Rightarrow> nat" where
  "rope_line_col_to_offset b line col =
    (let start = (case rope_line_start b line of Some p \<Rightarrow> p | None \<Rightarrow> rope_len b)
     in case rope_line_range b line of
          Some (s, e) \<Rightarrow> start + min col (e - s)
        | None \<Rightarrow> start)"

section \<open>Iterators\<close>

text \<open>
  \<^verbatim>\<open>Chars::next\<close> and \<^verbatim>\<open>Lines::next\<close>: the item and the next state. The outer option of
  \<open>chars_next\<close> is the panic.
\<close>

definition chars_next :: "rope_buffer \<Rightarrow> nat \<Rightarrow> (u32 option \<times> nat) option" where
  "chars_next b pos =
    (case rope_char_at b pos of
       None \<Rightarrow> None
     | Some None \<Rightarrow> Some (None, pos)
     | Some (Some cp) \<Rightarrow> Some (Some cp, pos + 1))"

definition lines_next :: "rope_buffer \<Rightarrow> nat \<Rightarrow> u32 list option \<times> nat" where
  "lines_next b line =
    (if line \<ge> rope_line_count b then (None, line) else (Some (rope_get_line b line), line + 1))"

text \<open>Collecting the items of an iterator, in the order they come.\<close>

function chars_collect :: "rope_buffer \<Rightarrow> nat \<Rightarrow> u32 list option" where
  "chars_collect b pos =
    (case chars_next b pos of
       None \<Rightarrow> None
     | Some (None, _) \<Rightarrow> Some []
     | Some (Some cp, pos') \<Rightarrow> map_option (\<lambda>cps. cp # cps) (chars_collect b pos'))"
  by pat_completeness auto
termination
  by (relation "measure (\<lambda>(b, pos). rope_len b - pos)")
    (auto simp: chars_next_def rope_char_at_def split: option.splits if_splits)

function lines_collect :: "rope_buffer \<Rightarrow> nat \<Rightarrow> u32 list list" where
  "lines_collect b line =
    (case lines_next b line of
       (None, _) \<Rightarrow> []
     | (Some l, line') \<Rightarrow> l # lines_collect b line')"
  by pat_completeness auto
termination
  by (relation "measure (\<lambda>(b, line). rope_line_count b - line)")
    (auto simp: lines_next_def split: if_splits)

declare chars_collect.simps [simp del] lines_collect.simps [simp del]

end
