(* ===== verification/Rope_Tree.thy ===== *)
theory Rope_Tree
  imports Rope
begin

text \<open>
  The tree of the rope buffer: the text it holds, the well-formedness of its caches, the AVL
  property, and what joining, splitting and building do to each of them.
\<close>

section \<open>Text, well-formedness, balance\<close>

fun text_of :: "node \<Rightarrow> u32 list" where
  "text_of (Leaf b _) = b"
| "text_of (Branch l r _ _ _ _) = text_of l @ text_of r"

text \<open>
  Every cache holds the value it stands for, no leaf is larger than \<open>LEAF_MAX\<close>, and no side
  of a branch is empty.
\<close>

fun rope_ok :: "node \<Rightarrow> bool" where
  "rope_ok (Leaf b n) \<longleftrightarrow> n = count_newlines b \<and> length b \<le> LEAF_MAX"
| "rope_ok (Branch l r ll tot nls h) \<longleftrightarrow>
     rope_ok l \<and> rope_ok r \<and> text_of l \<noteq> [] \<and> text_of r \<noteq> []
     \<and> ll = length (text_of l) \<and> tot = length (text_of l) + length (text_of r)
     \<and> nls = count_newlines (text_of l) + count_newlines (text_of r)
     \<and> h = 1 + max (height l) (height r)"

fun avl :: "node \<Rightarrow> bool" where
  "avl (Leaf _ _) = True"
| "avl (Branch l r _ _ _ _) \<longleftrightarrow>
     avl l \<and> avl r \<and> height l \<le> height r + 1 \<and> height r \<le> height l + 1"

lemma LEAF_MAX_pos [simp]: "0 < LEAF_MAX"
  by (simp add: LEAF_MAX_def)

lemma count_newlines_append [simp]:
  "count_newlines (xs @ ys) = count_newlines xs + count_newlines ys"
  by (simp add: count_newlines_def)

lemma count_newlines_Nil [simp]: "count_newlines [] = 0"
  by (simp add: count_newlines_def)

lemma count_newlines_Cons:
  "count_newlines (x # xs) = (if x = NEWLINE then 1 else 0) + count_newlines xs"
  by (simp add: count_newlines_def)

lemma text_len_ok [simp]: "rope_ok n \<Longrightarrow> text_len n = length (text_of n)"
  by (cases n) auto

lemma newline_count_ok [simp]: "rope_ok n \<Longrightarrow> newline_count n = count_newlines (text_of n)"
  by (cases n) auto

lemma leaf_simps [simp]:
  "text_of (leaf cps) = cps" "height (leaf cps) = 0" "avl (leaf cps)"
  "rope_ok (leaf cps) \<longleftrightarrow> length cps \<le> LEAF_MAX"
  by (simp_all add: leaf_def)

lemma empty_leaf_simps [simp]:
  "text_of empty_leaf = []" "height empty_leaf = 0" "avl empty_leaf" "rope_ok empty_leaf"
  by (simp_all add: empty_leaf_def)

lemma branch_simps [simp]:
  "text_of (branch l r) = text_of l @ text_of r"
  "height (branch l r) = 1 + max (height l) (height r)"
  "balance_factor (branch l r) = int (height l) - int (height r)"
  "take_children (branch l r) = Some (l, r)"
  by (simp_all add: branch_def)

lemma rope_ok_branch [simp]:
  "rope_ok (branch l r) \<longleftrightarrow> rope_ok l \<and> rope_ok r \<and> text_of l \<noteq> [] \<and> text_of r \<noteq> []"
  by (auto simp: branch_def)

lemma avl_branch [simp]:
  "avl (branch l r) \<longleftrightarrow>
     avl l \<and> avl r \<and> height l \<le> height r + 1 \<and> height r \<le> height l + 1"
  by (simp add: branch_def)

lemma height_pos_cases:
  assumes "rope_ok n" "0 < height n"
  obtains l r where "n = branch l r" "rope_ok l" "rope_ok r" "text_of l \<noteq> []" "text_of r \<noteq> []"
  using assms by (cases n) (auto simp: branch_def)

lemma rotate_branch [simp]:
  "rotate_right (branch (branch a b) c) = branch a (branch b c)"
  "rotate_left (branch a (branch b c)) = branch (branch a b) c"
  by (simp_all add: branch_def)

section \<open>Rotations\<close>

lemma rotate_right_ok:
  assumes "rope_ok n"
  shows "rope_ok (rotate_right n) \<and> text_of (rotate_right n) = text_of n"
  using assms by (induction n rule: rotate_right.induct) (auto simp: branch_def)

lemma rotate_left_ok:
  assumes "rope_ok n"
  shows "rope_ok (rotate_left n) \<and> text_of (rotate_left n) = text_of n"
  using assms by (induction n rule: rotate_left.induct) (auto simp: branch_def)

lemma balance_ok:
  assumes "rope_ok (branch l r)"
  shows "\<exists>n. balance (branch l r) = Some n \<and> rope_ok n \<and> text_of n = text_of l @ text_of r"
proof -
  have "rope_ok (branch (rotate_left l) r)" "text_of (rotate_left l) = text_of l"
    "rope_ok (branch l (rotate_right r))" "text_of (rotate_right r) = text_of r"
    using assms rotate_left_ok [of l] rotate_right_ok [of r] by auto
  with assms rotate_right_ok [of "branch (rotate_left l) r"] rotate_right_ok [of "branch l r"]
    rotate_left_ok [of "branch l (rotate_right r)"] rotate_left_ok [of "branch l r"]
  show ?thesis by (simp add: balance_def)
qed

text \<open>
  A node one of whose sides is too high by exactly one more than allowed is repaired: this is
  the only imbalance a join produces.
\<close>

lemma balance_avl:
  assumes "rope_ok l" "rope_ok r" "avl l" "avl r"
    "height l \<le> height r + 2" "height r \<le> height l + 2"
    "balance (branch l r) = Some n"
  shows "avl n \<and> max (height l) (height r) \<le> height n
    \<and> height n \<le> 1 + max (height l) (height r)
    \<and> (height l \<le> height r + 1 \<longrightarrow> height r \<le> height l + 1 \<longrightarrow>
         height n = 1 + max (height l) (height r))"
proof -
  consider "height l = height r + 2" | "height r = height l + 2"
    | "height l \<le> height r + 1" "height r \<le> height l + 1"
    using assms by linarith
  then show ?thesis
  proof cases
    case 1
    then obtain a b where l: "l = branch a b" "rope_ok a" "rope_ok b"
      using assms by (elim height_pos_cases [of l]) auto
    show ?thesis
    proof (cases "height a < height b")
      case True
      with 1 l assms obtain c d where "b = branch c d"
        by (elim height_pos_cases [of b]) auto
      with True 1 l assms show ?thesis by (auto simp: balance_def max_def split: if_splits)
    next
      case False
      with 1 l assms show ?thesis by (auto simp: balance_def max_def split: if_splits)
    qed
  next
    case 2
    then obtain a b where r: "r = branch a b" "rope_ok a" "rope_ok b"
      using assms by (elim height_pos_cases [of r]) auto
    show ?thesis
    proof (cases "height b < height a")
      case True
      with 2 r assms obtain c d where "a = branch c d"
        by (elim height_pos_cases [of a]) auto
      with True 2 r assms show ?thesis by (auto simp: balance_def max_def split: if_splits)
    next
      case False
      with 2 r assms show ?thesis by (auto simp: balance_def max_def split: if_splits)
    qed
  next
    case 3
    with assms show ?thesis by (auto simp: balance_def)
  qed
qed

section \<open>Join\<close>

lemma small_leaves_Some:
  "small_leaves l r = Some (a, b) \<Longrightarrow>
     text_of l = a \<and> text_of r = b \<and> height l = 0 \<and> height r = 0 \<and> length a + length b \<le> LEAF_MAX"
  by (induction l r rule: small_leaves.induct) (auto split: if_splits)

lemma join_nodes_empty [simp]:
  "text_of l = [] \<Longrightarrow> rope_ok l \<Longrightarrow> join_nodes l r = Some r"
  "text_of r = [] \<Longrightarrow> rope_ok l \<Longrightarrow> rope_ok r \<Longrightarrow> text_of l \<noteq> [] \<Longrightarrow> join_nodes l r = Some l"
  by (subst join_nodes.simps, simp)+

text \<open>The five outcomes of a join of two non-empty nodes.\<close>

lemma join_nodes_cases:
  assumes ok: "rope_ok l" "rope_ok r" and ne: "text_of l \<noteq> []" "text_of r \<noteq> []"
  obtains (leaves) "join_nodes l r = Some (leaf (text_of l @ text_of r))"
      "height l = 0" "height r = 0" "length (text_of l) + length (text_of r) \<le> LEAF_MAX"
    | (level) "join_nodes l r = Some (branch l r)"
      "height l \<le> height r + 1" "height r \<le> height l + 1"
    | (into_left) ll lr where "l = branch ll lr" "height r + 1 < height l"
      "join_nodes l r =
        (case join_nodes lr r of None \<Rightarrow> None | Some n \<Rightarrow> balance (branch ll n))"
    | (into_right) rl rr where "r = branch rl rr" "height l + 1 < height r"
      "join_nodes l r =
        (case join_nodes l rl of None \<Rightarrow> None | Some n \<Rightarrow> balance (branch n rr))"
proof (cases "small_leaves l r")
  case (Some p)
  then obtain a b where p: "small_leaves l r = Some (a, b)" by (cases p) auto
  moreover from p ok ne have "join_nodes l r = Some (leaf (a @ b))"
    by (subst join_nodes.simps) simp
  ultimately show ?thesis using leaves small_leaves_Some [OF p] by auto
next
  case None
  consider "abs_diff (height l) (height r) \<le> 1" | "height r + 1 < height l" | "height l + 1 < height r"
    by atomize_elim (auto simp: abs_diff_def)
  then show ?thesis
  proof cases
    case 1
    with None ok ne have "join_nodes l r = Some (branch l r)" by (subst join_nodes.simps) simp
    with 1 show ?thesis by (intro level) (auto simp: abs_diff_def split: if_splits)
  next
    case 2
    with ok obtain ll lr where l: "l = branch ll lr" by (elim height_pos_cases [of l]) auto
    have "\<not> abs_diff (height l) (height r) \<le> 1" "height r < height l"
      using 2 by (auto simp: abs_diff_def)
    with None ok ne have "join_nodes l r =
        (case join_nodes lr r of None \<Rightarrow> None | Some n \<Rightarrow> balance (branch ll n))"
      by (subst join_nodes.simps) (simp add: l)
    then show ?thesis by (rule into_left [OF l 2])
  next
    case 3
    with ok obtain rl rr where r: "r = branch rl rr" by (elim height_pos_cases [of r]) auto
    have "\<not> abs_diff (height l) (height r) \<le> 1" "\<not> height r < height l"
      using 3 by (auto simp: abs_diff_def)
    with None ok ne have "join_nodes l r =
        (case join_nodes l rl of None \<Rightarrow> None | Some n \<Rightarrow> balance (branch n rr))"
      by (subst join_nodes.simps) (simp add: r)
    then show ?thesis by (rule into_right [OF r 3])
  qed
qed

lemma size_branch [simp]: "size l + size r < size (branch l r)"
  by (simp add: branch_def)

lemma join_nodes_ok:
  assumes "rope_ok l" "rope_ok r"
  shows "\<exists>n. join_nodes l r = Some n \<and> rope_ok n \<and> text_of n = text_of l @ text_of r"
  using assms
proof (induction "size l + size r" arbitrary: l r rule: less_induct)
  case less
  consider "text_of l = []" | "text_of l \<noteq> []" "text_of r = []"
    | "text_of l \<noteq> []" "text_of r \<noteq> []" by blast
  then show ?case
  proof cases
    case 3
    from less.prems 3 show ?thesis
    proof (cases rule: join_nodes_cases)
      case leaves
      then show ?thesis by simp
    next
      case level
      with less.prems 3 show ?thesis by simp
    next
      case (into_left ll lr)
      with less.hyps [of lr r] less.prems size_branch [of ll lr]
      obtain n where "join_nodes lr r = Some n" "rope_ok n" "text_of n = text_of lr @ text_of r"
        by auto
      with into_left less.prems balance_ok [of ll n] show ?thesis by simp
    next
      case (into_right rl rr)
      with less.hyps [of l rl] less.prems size_branch [of rl rr]
      obtain n where "join_nodes l rl = Some n" "rope_ok n" "text_of n = text_of l @ text_of rl"
        by auto
      with into_right less.prems balance_ok [of n rr] show ?thesis by simp
    qed
  qed (use less.prems in simp_all)
qed

lemma join_nodes_avl:
  assumes "rope_ok l" "rope_ok r" "avl l" "avl r" "join_nodes l r = Some n"
  shows "avl n \<and> (text_of l \<noteq> [] \<longrightarrow> text_of r \<noteq> [] \<longrightarrow>
    max (height l) (height r) \<le> height n \<and> height n \<le> 1 + max (height l) (height r))"
  using assms
proof (induction "size l + size r" arbitrary: l r n rule: less_induct)
  case less
  consider "text_of l = []" | "text_of l \<noteq> []" "text_of r = []"
    | "text_of l \<noteq> []" "text_of r \<noteq> []" by blast
  then show ?case
  proof cases
    case 3
    from less.prems(1,2) 3 show ?thesis
    proof (cases rule: join_nodes_cases)
      case leaves
      with less.prems show ?thesis by auto
    next
      case level
      with less.prems 3 show ?thesis by auto
    next
      case (into_left ll lr)
      with less.prems obtain m where m: "join_nodes lr r = Some m" "balance (branch ll m) = Some n"
        by (auto split: option.splits)
      from less.hyps [OF _ _ _ _ _ m(1)] into_left(1) less.prems 3 size_branch [of ll lr]
      have "avl m" "max (height lr) (height r) \<le> height m" "height m \<le> 1 + max (height lr) (height r)"
        by auto
      moreover have "rope_ok m" using join_nodes_ok [of lr r] m less.prems into_left(1) by auto
      ultimately show ?thesis
        using balance_avl [OF _ _ _ _ _ _ m(2)] into_left(1,2) less.prems
        by (fastforce simp: max_def split: if_splits)
    next
      case (into_right rl rr)
      with less.prems obtain m where m: "join_nodes l rl = Some m" "balance (branch m rr) = Some n"
        by (auto split: option.splits)
      from less.hyps [OF _ _ _ _ _ m(1)] into_right(1) less.prems 3 size_branch [of rl rr]
      have "avl m" "max (height l) (height rl) \<le> height m" "height m \<le> 1 + max (height l) (height rl)"
        by auto
      moreover have "rope_ok m" using join_nodes_ok [of l rl] m less.prems into_right(1) by auto
      ultimately show ?thesis
        using balance_avl [OF _ _ _ _ _ _ m(2)] into_right(1,2) less.prems
        by (fastforce simp: max_def split: if_splits)
    qed
  qed (use less.prems in auto)
qed

section \<open>Split, insert, delete\<close>

lemma rope_ok_leaf_slices: "rope_ok (Leaf b n) \<Longrightarrow> Leaf b n = leaf b"
  by (simp add: leaf_def)

lemma split_node_ok:
  assumes "rope_ok n"
  shows "\<exists>a b. split_node n pos = Some (a, b) \<and> rope_ok a \<and> rope_ok b
    \<and> text_of a = take pos (text_of n) \<and> text_of b = drop pos (text_of n)"
  using assms
proof (induction n arbitrary: pos)
  case (Leaf b n)
  then show ?case by auto
next
  case (Branch l r ll tot nls h)
  consider "pos = 0" | "0 < pos" "tot \<le> pos" | "0 < pos" "pos < tot" "pos = ll"
    | "0 < pos" "pos < ll" | "ll < pos" "pos < tot"
    by linarith
  then show ?case
  proof cases
    case 4
    with Branch.IH(1) [of pos] Branch.prems obtain a b where ab:
      "split_node l pos = Some (a, b)" "rope_ok a" "rope_ok b"
      "text_of a = take pos (text_of l)" "text_of b = drop pos (text_of l)" by auto
    with Branch.prems obtain n where "join_nodes b r = Some n" "rope_ok n"
      "text_of n = text_of b @ text_of r" using join_nodes_ok [of b r] by auto
    with ab 4 Branch.prems show ?thesis by auto
  next
    case 5
    with Branch.IH(2) [of "pos - ll"] Branch.prems obtain a b where ab:
      "split_node r (pos - ll) = Some (a, b)" "rope_ok a" "rope_ok b"
      "text_of a = take (pos - ll) (text_of r)" "text_of b = drop (pos - ll) (text_of r)" by auto
    with Branch.prems obtain n where "join_nodes l a = Some n" "rope_ok n"
      "text_of n = text_of l @ text_of a" using join_nodes_ok [of l a] by auto
    with ab 5 Branch.prems show ?thesis by auto
  qed (use Branch.prems in auto)
qed

lemma split_node_avl:
  assumes "rope_ok n" "avl n" "split_node n pos = Some (a, b)"
  shows "avl a \<and> avl b"
  using assms
proof (induction n arbitrary: pos a b)
  case (Leaf bs n)
  then show ?case by (auto split: if_splits)
next
  case (Branch l r ll tot nls h)
  consider "pos = 0 \<or> tot \<le> pos \<or> pos = ll" | "0 < pos" "pos < ll" "pos < tot" | "ll < pos" "pos < tot"
    by linarith
  then show ?case
  proof cases
    case 2
    with Branch.prems obtain lb where lb:
      "split_node l pos = Some (a, lb)" "join_nodes lb r = Some b"
      by (auto split: option.splits)
    have sub: "rope_ok l" "avl l" "rope_ok r" "avl r" using Branch.prems by simp_all
    have "rope_ok lb" using split_node_ok [OF sub(1), of pos] lb(1) by auto
    then show ?thesis
      using Branch.IH(1) [OF sub(1,2) lb(1)] join_nodes_avl [OF _ sub(3) _ sub(4) lb(2)] by blast
  next
    case 3
    with Branch.prems obtain ra where ra:
      "split_node r (pos - ll) = Some (ra, b)" "join_nodes l ra = Some a"
      by (auto split: option.splits)
    have sub: "rope_ok l" "avl l" "rope_ok r" "avl r" using Branch.prems by simp_all
    have "rope_ok ra" using split_node_ok [OF sub(3), of "pos - ll"] ra(1) by auto
    then show ?thesis
      using Branch.IH(2) [OF sub(3,4) ra(1)] join_nodes_avl [OF sub(1) _ sub(2) _ ra(2)] by blast
  qed (use Branch.prems in \<open>auto split: if_splits\<close>)
qed

lemma insert_node_ok:
  assumes "rope_ok n" "rope_ok m"
  shows "\<exists>n'. insert_node n pos m = Some n' \<and> rope_ok n'
    \<and> text_of n' = take pos (text_of n) @ text_of m @ drop pos (text_of n)
    \<and> (avl n \<longrightarrow> avl m \<longrightarrow> avl n')"
proof -
  obtain a b where ab: "split_node n pos = Some (a, b)" "rope_ok a" "rope_ok b"
    "text_of a = take pos (text_of n)" "text_of b = drop pos (text_of n)"
    using split_node_ok [OF assms(1)] by blast
  obtain c where c: "join_nodes a m = Some c" "rope_ok c" "text_of c = text_of a @ text_of m"
    using join_nodes_ok [OF ab(2) assms(2)] by blast
  obtain d where d: "join_nodes c b = Some d" "rope_ok d" "text_of d = text_of c @ text_of b"
    using join_nodes_ok [OF c(2) ab(3)] by blast
  from ab c d assms have "avl n \<longrightarrow> avl m \<longrightarrow> avl d"
    using split_node_avl [OF assms(1) _ ab(1)] join_nodes_avl [OF ab(2) assms(2) _ _ c(1)]
      join_nodes_avl [OF c(2) ab(3) _ _ d(1)] by blast
  with ab c d show ?thesis by (simp add: insert_node_def)
qed

lemma delete_range_ok:
  assumes "rope_ok n"
  shows "\<exists>n'. delete_range n pos count = Some n' \<and> rope_ok n'
    \<and> text_of n' = take pos (text_of n) @ drop (pos + count) (text_of n)
    \<and> (avl n \<longrightarrow> avl n')"
proof -
  obtain a b where ab: "split_node n pos = Some (a, b)" "rope_ok a" "rope_ok b"
    "text_of a = take pos (text_of n)" "text_of b = drop pos (text_of n)"
    using split_node_ok [OF assms(1)] by blast
  obtain c d where cd: "split_node b count = Some (c, d)" "rope_ok d"
    "text_of d = drop count (text_of b)"
    using split_node_ok [OF ab(3)] by blast
  obtain e where e: "join_nodes a d = Some e" "rope_ok e" "text_of e = text_of a @ text_of d"
    using join_nodes_ok [OF ab(2) cd(2)] by blast
  from ab cd e assms have "avl n \<longrightarrow> avl e"
    using split_node_avl [OF assms(1) _ ab(1)] split_node_avl [OF ab(3) _ cd(1)]
      join_nodes_avl [OF ab(2) cd(2) _ _ e(1)] by blast
  with ab cd e show ?thesis by (simp add: delete_range_def add.commute)
qed

section \<open>Building\<close>

lemma merge_rounds_simps [simp]:
  "merge_rounds [n] = [n]"
  "merge_rounds (l # r # ns) = merge_rounds (branch l r # pairwise ns)"
  by (subst merge_rounds.simps, simp)+

lemma pairwise_Nil_iff [simp]: "pairwise ns = [] \<longleftrightarrow> ns = []"
  by (cases ns rule: pairwise.cases) auto

lemma text_pairwise: "concat (map text_of (pairwise ns)) = concat (map text_of ns)"
  by (induction ns rule: pairwise.induct) auto

lemma set_pairwise:
  assumes "\<forall>n\<in>set ns. rope_ok n \<and> text_of n \<noteq> [] \<and> height n \<le> k"
  shows "\<forall>n\<in>set (pairwise ns). rope_ok n \<and> text_of n \<noteq> [] \<and> height n \<le> Suc k"
  using assms by (induction ns rule: pairwise.induct) auto

lemma merge_rounds_ok:
  assumes "ns \<noteq> []" "\<forall>n\<in>set ns. rope_ok n \<and> text_of n \<noteq> [] \<and> height n \<le> k"
    "length ns \<le> 2 ^ j"
  shows "\<exists>n. merge_rounds ns = [n] \<and> rope_ok n \<and> text_of n = concat (map text_of ns)
    \<and> height n \<le> k + j"
  using assms
proof (induction ns arbitrary: k j rule: merge_rounds.induct)
  case (1 ns)
  show ?case
  proof (cases "length ns > 1")
    case False
    with "1.prems" obtain n where "ns = [n]" by (cases ns) auto
    with "1.prems" show ?thesis by (subst merge_rounds.simps) auto
  next
    case True
    with "1.prems"(3) obtain j' where j: "j = Suc j'" by (cases j) auto
    with "1.prems"(3) have "length (pairwise ns) \<le> 2 ^ j'" by (simp add: length_pairwise)
    with True "1.IH" [of "Suc k" j'] "1.prems"(1) set_pairwise [OF "1.prems"(2)]
    show ?thesis by (subst merge_rounds.simps) (simp add: text_pairwise j)
  qed
qed

lemma chunk_count_bounds:
  "length cps \<le> chunk_count cps * LEAF_MAX"
  "i < chunk_count cps \<Longrightarrow> i * LEAF_MAX < length cps"
  by (simp_all add: chunk_count_def LEAF_MAX_def)

lemma chunk_count_1: "cps \<noteq> [] \<Longrightarrow> chunk_count cps = 1 \<longleftrightarrow> length cps \<le> LEAF_MAX"
  by (cases cps) (auto simp: chunk_count_def LEAF_MAX_def)

lemma take_chunks:
  "concat (map (\<lambda>i. slice_of cps (i * M) (min (i * M + M) (length cps))) [0..<c]) = take (c * M) cps"
proof (induction c)
  case (Suc c)
  have "slice_of cps (c * M) (min (c * M + M) (length cps)) = take M (drop (c * M) cps)"
    by (auto simp: slice_of_def min_def)
  moreover have "take (Suc c * M) cps = take (c * M) cps @ take M (drop (c * M) cps)"
    by (metis add.commute mult_Suc take_add)
  ultimately show ?case using Suc by simp
qed simp

lemma chunk_leaves_text: "concat (map text_of (chunk_leaves cps)) = cps"
  using chunk_count_bounds(1) [of cps]
  by (simp add: chunk_leaves_def o_def take_chunks)

lemma chunk_leaves_ok:
  "\<forall>n\<in>set (chunk_leaves cps). rope_ok n \<and> text_of n \<noteq> [] \<and> height n = 0"
proof -
  have "rope_ok (leaf s) \<and> text_of (leaf s) \<noteq> [] \<and> height (leaf s) = 0"
    if "i < chunk_count cps"
      and "s = slice_of cps (i * LEAF_MAX) (min (i * LEAF_MAX + LEAF_MAX) (length cps))" for i s
    using chunk_count_bounds(2) [OF that(1)] that(2) LEAF_MAX_pos
    by (auto simp: slice_of_def min_def simp del: LEAF_MAX_pos)
  then show ?thesis by (auto simp: chunk_leaves_def)
qed

lemma length_chunk_leaves [simp]: "length (chunk_leaves cps) = chunk_count cps"
  by (simp add: chunk_leaves_def)

lemma chunk_count_pos: "cps \<noteq> [] \<Longrightarrow> 0 < chunk_count cps"
  using chunk_count_bounds(1) [of cps] by (cases "chunk_count cps") auto

lemma build_rope_ok:
  assumes "chunk_count cps \<le> 2 ^ j"
  shows "\<exists>n. build_rope_from_slice cps = Some n \<and> rope_ok n \<and> text_of n = cps \<and> height n \<le> j"
proof -
  consider "cps = []" | "cps \<noteq> []" "chunk_count cps = 1" | "cps \<noteq> []" "chunk_count cps \<noteq> 1"
    by blast
  then show ?thesis
  proof cases
    case 2
    then show ?thesis using chunk_count_1 by (simp add: build_rope_from_slice_def)
  next
    case 3
    then have "chunk_leaves cps \<noteq> []" using chunk_count_pos length_chunk_leaves [of cps] by force
    then obtain n where "merge_rounds (chunk_leaves cps) = [n]" "rope_ok n" "text_of n = cps"
      "height n \<le> j"
      using merge_rounds_ok [of "chunk_leaves cps" 0 j] chunk_leaves_ok [of cps] assms
      by (auto simp: chunk_leaves_text)
    with 3 show ?thesis by (simp add: build_rope_from_slice_def)
  qed (simp add: build_rope_from_slice_def)
qed

text \<open>Up to four leaves the merge is balanced.\<close>

lemma merge_rounds_few:
  assumes "ns \<noteq> []" "length ns \<le> 4" "\<forall>n\<in>set ns. height n = 0 \<and> avl n"
  shows "avl (last (merge_rounds ns))"
proof -
  have "0 < length ns" using assms(1) by simp
  then have "length ns = 1 \<or> length ns = 2 \<or> length ns = 3 \<or> length ns = 4"
    using assms(2) by arith
  with assms(3) show ?thesis
    by (auto simp: length_Suc_conv numeral_eq_Suc)
qed

lemma chunk_count_few: "length cps \<le> c * LEAF_MAX \<Longrightarrow> chunk_count cps \<le> c"
  using chunk_count_bounds(2) [of c cps] by (meson leI leD)

lemma last_opt_last: "xs \<noteq> [] \<Longrightarrow> last_opt xs = Some (last xs)"
  by (induction xs rule: last_opt.induct) auto

lemma build_rope_avl:
  assumes "length cps \<le> 4 * LEAF_MAX" "build_rope_from_slice cps = Some n"
  shows "avl n"
proof (cases "cps = [] \<or> chunk_count cps = 1")
  case True
  with assms(2) show ?thesis by (auto simp: build_rope_from_slice_def split: if_splits)
next
  case False
  then have ne: "chunk_leaves cps \<noteq> []" using chunk_count_pos length_chunk_leaves [of cps] by force
  have "merge_rounds (chunk_leaves cps) \<noteq> []"
    using merge_rounds_ok [OF ne, of 0 2] chunk_leaves_ok [of cps] chunk_count_few [OF assms(1)]
    by auto
  moreover have "\<forall>n\<in>set (chunk_leaves cps). height n = 0 \<and> avl n"
    by (auto simp: chunk_leaves_def)
  ultimately show ?thesis
    using False assms(2) merge_rounds_few [OF ne] chunk_count_few [OF assms(1)]
    by (auto simp: build_rope_from_slice_def last_opt_last)
qed

text \<open>
  One leaf more than a power of two: the odd leaf is carried to the last round, where it is
  joined with a tree of full height.
\<close>

lemma pairwise_even:
  assumes "even (length ns)" "\<forall>n\<in>set ns. height n = k"
  shows "pairwise (ns @ [x]) = pairwise ns @ [x] \<and> (\<forall>n\<in>set (pairwise ns). height n = Suc k)"
  using assms by (induction ns rule: pairwise.induct) auto

lemma merge_rounds_odd:
  assumes "length ns = 2 ^ j" "\<forall>n\<in>set ns. height n = k"
  shows "\<exists>l. merge_rounds (ns @ [x]) = [branch l x] \<and> height l = k + j"
  using assms
proof (induction j arbitrary: ns k)
  case 0
  then obtain l where "ns = [l]" "height l = k" by (auto simp: length_Suc_conv)
  then show ?case by auto
next
  case (Suc j)
  from Suc.prems have even: "even (length ns)" "ns \<noteq> []" by auto
  from Suc.prems have "length (pairwise ns) = 2 ^ j" by (simp add: length_pairwise)
  with Suc.IH [of "pairwise ns" "Suc k"] pairwise_even [OF even(1) Suc.prems(2)] even(2)
  show ?case by (subst merge_rounds.simps) auto
qed

lemma build_rope_odd:
  assumes "chunk_count cps = 2 ^ j + 1"
  shows "\<exists>l r. build_rope_from_slice cps = Some (branch l r) \<and> height l = j \<and> height r = 0"
proof -
  have "cps \<noteq> []" using assms by (auto simp: chunk_count_def LEAF_MAX_def)
  let ?ns = "butlast (chunk_leaves cps)" and ?x = "last (chunk_leaves cps)"
  have ne: "chunk_leaves cps \<noteq> []" using assms length_chunk_leaves [of cps] by force
  then have "chunk_leaves cps = ?ns @ [?x]" by simp
  moreover have "length ?ns = 2 ^ j" using assms by simp
  moreover have "\<forall>n\<in>set ?ns. height n = 0" "height ?x = 0"
    using chunk_leaves_ok [of cps] ne by (auto dest: in_set_butlastD)
  ultimately obtain l where "merge_rounds (chunk_leaves cps) = [branch l ?x]" "height l = j"
    using merge_rounds_odd [of ?ns j 0 ?x] by auto
  with assms \<open>height ?x = 0\<close> \<open>cps \<noteq> []\<close> show ?thesis by (auto simp: build_rope_from_slice_def)
qed

section \<open>Height against size\<close>

lemma avl_height_size:
  assumes "rope_ok n" "avl n" "text_of n \<noteq> []"
  shows "2 ^ (height n div 2) \<le> length (text_of n)"
  using assms
proof (induction n)
  case (Leaf b k)
  then show ?case by (cases b) auto
next
  case (Branch l r ll tot nls h)
  then have l: "2 ^ (height l div 2) \<le> length (text_of l)" and r: "2 ^ (height r div 2) \<le> length (text_of r)"
    and h: "h = 1 + max (height l) (height r)" "height l \<le> height r + 1" "height r \<le> height l + 1"
    by auto
  show ?case
  proof (cases "h \<le> 1")
    case True
    with Branch.prems show ?thesis by (auto simp: Suc_le_eq)
  next
    case False
    with h have "(h - 2) div 2 \<le> height l div 2" "(h - 2) div 2 \<le> height r div 2"
      by (auto simp: max_def split: if_splits)
    then have "(2::nat) ^ ((h - 2) div 2) \<le> 2 ^ (height l div 2)"
      "(2::nat) ^ ((h - 2) div 2) \<le> 2 ^ (height r div 2)" by (simp_all only: power_increasing_iff)
    with l r have "2 * (2::nat) ^ ((h - 2) div 2) \<le> length (text_of l) + length (text_of r)"
      by linarith
    moreover have "h div 2 = Suc ((h - 2) div 2)" using False by simp
    ultimately show ?thesis by simp
  qed
qed

end
