(* ===== verification/Rope_Utf8.thy ===== *)
theory Rope_Utf8
  imports Rope
begin

text \<open>
  The UTF-8 decoder of the rope buffer reads back what the encoder writes, up to the
  normalisations the decoder makes: line endings and a leading byte order mark.
\<close>

unbundle bit_operations_syntax

section \<open>Bytes of a sequence\<close>

text \<open>A byte with the high bit is none of the one-byte cases of the decoder.\<close>

lemma high_byte:
  fixes x m :: u8
  assumes "0x80 \<le> m"
  shows "x OR m \<noteq> 0x0D" "x OR m \<noteq> 0x0A" "\<not> x OR m < 0x80"
proof -
  have "m \<le> x OR m" by (subst or.commute) (rule le_word_or2)
  with assms have ge: "0x80 \<le> x OR m" by (rule order_trans)
  then show "\<not> x OR m < 0x80" by simp
  from ge show "x OR m \<noteq> 0x0D" "x OR m \<noteq> 0x0A" by auto
qed

text \<open>What the decoder sees of the first byte of a sequence of two, three or four.\<close>

lemma lead_byte:
  fixes x :: u8
  shows "((x AND 0x1F) OR 0xC0) AND 0xE0 = 0xC0" "((x AND 0x1F) OR 0xC0) AND 0x1F = x AND 0x1F"
    "((x AND 0x0F) OR 0xE0) AND 0xE0 = 0xE0" "((x AND 0x0F) OR 0xE0) AND 0xF0 = 0xE0"
    "((x AND 0x0F) OR 0xE0) AND 0x0F = x AND 0x0F"
    "((x AND 0x07) OR 0xF0) AND 0xE0 = 0xE0" "((x AND 0x07) OR 0xF0) AND 0xF0 = 0xF0"
    "((x AND 0x07) OR 0xF0) AND 0xF8 = 0xF0" "((x AND 0x07) OR 0xF0) AND 0x07 = x AND 0x07"
  by (simp_all add: bit.conj_disj_distrib2 and.assoc)

lemma continuation_byte:
  fixes x :: u8
  shows "is_continuation ((x AND 0x3F) OR 0x80)" "((x AND 0x3F) OR 0x80) AND 0x3F = x AND 0x3F"
  by (simp_all add: is_continuation_def bit.conj_disj_distrib2 and.assoc)

section \<open>Reassembling a code point\<close>

lemma low_bits:
  fixes cp :: u32
  assumes "unat cp < 2 ^ k" "bit cp n"
  shows "n < k"
proof (rule ccontr)
  assume "\<not> n < k"
  then have "(2::nat) ^ k \<le> 2 ^ n" by simp
  with assms(1) have "unat cp < 2 ^ n" by (rule less_le_trans)
  then have "unat cp div 2 ^ n = 0" by (rule div_less)
  moreover have "bit (unat cp) n" using assms(2) by (simp add: bit_unsigned_iff)
  ultimately show False by (simp add: bit_iff_odd)
qed

lemma masks:
  "(0x07 :: u8) = mask 3" "(0x0F :: u8) = mask 4" "(0x1F :: u8) = mask 5" "(0x3F :: u8) = mask 6"
  by (simp_all add: mask_numeral)

text \<open>The bits of \<open>cp\<close> that one byte carries.\<close>

lemma field_bits:
  fixes cp :: u32
  shows "bit (ucast ((ucast cp :: u8) AND mask 6) :: u32) n \<longleftrightarrow> n < 6 \<and> bit cp n"
    and "m \<le> 8 \<Longrightarrow> bit (push_bit k (ucast ((ucast (drop_bit k cp) :: u8) AND mask m)) :: u32) n
      \<longleftrightarrow> k \<le> n \<and> n < k + m \<and> bit cp n"
  using bit_imp_le_length [of cp n] by (auto simp: bit_simps)

lemma decode2_bits:
  fixes cp :: u32
  assumes "cp < 0x800"
  shows "decode2 ((ucast (drop_bit 6 cp) AND 0x1F) OR 0xC0) ((ucast cp AND 0x3F) OR 0x80) = cp"
    (is "?d = cp")
proof (rule bit_word_eqI)
  fix n
  have "bit cp n \<Longrightarrow> n < 11" using low_bits [of cp 11 n] assms by (simp add: word_less_nat_alt)
  then show "bit ?d n = bit cp n"
    unfolding decode2_def lead_byte continuation_byte unfolding masks by (auto simp: bit_or_iff field_bits)
qed

lemma decode3_bits:
  fixes cp :: u32
  assumes "cp < 0x10000"
  shows "decode3 ((ucast (drop_bit 12 cp) AND 0x0F) OR 0xE0)
    ((ucast (drop_bit 6 cp) AND 0x3F) OR 0x80) ((ucast cp AND 0x3F) OR 0x80) = cp" (is "?d = cp")
proof (rule bit_word_eqI)
  fix n
  have "bit cp n \<Longrightarrow> n < 16" using low_bits [of cp 16 n] assms by (simp add: word_less_nat_alt)
  then show "bit ?d n = bit cp n"
    unfolding decode3_def lead_byte continuation_byte unfolding masks by (auto simp: bit_or_iff field_bits)
qed

lemma decode4_bits:
  fixes cp :: u32
  assumes "cp < 0x200000"
  shows "decode4 ((ucast (drop_bit 18 cp) AND 0x07) OR 0xF0)
    ((ucast (drop_bit 12 cp) AND 0x3F) OR 0x80) ((ucast (drop_bit 6 cp) AND 0x3F) OR 0x80)
    ((ucast cp AND 0x3F) OR 0x80) = cp" (is "?d = cp")
proof (rule bit_word_eqI)
  fix n
  have "bit cp n \<Longrightarrow> n < 21" using low_bits [of cp 21 n] assms by (simp add: word_less_nat_alt)
  then show "bit ?d n = bit cp n"
    unfolding decode4_def lead_byte continuation_byte unfolding masks by (auto simp: bit_or_iff field_bits)
qed

section \<open>One code point\<close>

lemma decode_ascii:
  "b < 0x80 \<Longrightarrow> b \<noteq> 0x0D \<Longrightarrow> decode_loop (b # bs) = ucast b # decode_loop bs"
  by (simp add: decode_loop.simps(2))

lemma ascii_byte:
  fixes cp :: u32
  assumes "cp < 0x80"
  shows "(ucast cp :: u8) < 0x80" "ucast (ucast cp :: u8) = cp"
    "(ucast cp :: u8) = 0x0D \<longleftrightarrow> cp = 0x0D" "(ucast cp :: u8) = 0x0A \<longleftrightarrow> cp = 0x0A"
proof -
  have n: "take_bit 8 (unat cp) = unat cp"
    using assms by (simp add: take_bit_nat_eq_self word_less_nat_alt)
  then have "take_bit 8 cp = cp" by (simp add: word_unat_eq_iff unsigned_take_bit_eq)
  with n have u: "take_bit 8 cp = cp" "unat (ucast cp :: u8) = unat cp"
    by (simp_all add: unsigned_ucast_eq)
  show "(ucast cp :: u8) < 0x80" "ucast (ucast cp :: u8) = cp"
    "(ucast cp :: u8) = 0x0D \<longleftrightarrow> cp = 0x0D" "(ucast cp :: u8) = 0x0A \<longleftrightarrow> cp = 0x0A"
    using assms u by (auto simp: word_less_nat_alt word_unat_eq_iff unsigned_ucast_eq)
qed

lemma decode_encode:
  assumes "cp < 0x200000" "cp \<noteq> 0x0D"
  shows "decode_loop (encode_utf8 cp @ bs) = cp # decode_loop bs"
proof -
  consider "cp < 0x80" | "\<not> cp < 0x80" "cp < 0x800" | "\<not> cp < 0x800" "cp < 0x10000"
    | "\<not> cp < 0x10000" by blast
  then show ?thesis
  proof cases
    case 1
    with ascii_byte [OF 1] assms show ?thesis by (simp add: encode_utf8_def decode_ascii)
  next
    case 2
    then show ?thesis
      using decode2_bits [OF 2(2)]
      by (simp add: encode_utf8_def decode_loop.simps(2) high_byte lead_byte continuation_byte)
  next
    case 3
    then have "\<not> cp < 0x80" by (auto simp: word_less_nat_alt)
    with 3 show ?thesis
      using decode3_bits [OF 3(2)]
      by (simp add: encode_utf8_def decode_loop.simps(2) high_byte lead_byte continuation_byte)
  next
    case 4
    then have "\<not> cp < 0x80" "\<not> cp < 0x800" by (auto simp: word_less_nat_alt)
    with 4 show ?thesis
      using decode4_bits [OF assms(1)]
      by (simp add: encode_utf8_def decode_loop.simps(2) high_byte lead_byte continuation_byte)
  qed
qed

lemma decode_carriage_return:
  "decode_loop (encode_utf8 0x0D @ bs) =
     NEWLINE # decode_loop (if \<exists>r. bs = 0x0A # r then tl bs else bs)"
  by (auto simp: encode_utf8_def decode_loop.simps(2) split: list.splits)

text \<open>A sequence starts with the line feed byte only if it is the line feed.\<close>

lemma encode_head:
  "\<exists>b bs. encode_utf8 cp = b # bs \<and> (b = 0x0A \<longrightarrow> cp = 0x0A)"
proof (cases "cp < 0x80")
  case True
  with ascii_byte [OF True] show ?thesis by (simp add: encode_utf8_def)
qed (simp add: encode_utf8_def high_byte)

section \<open>Texts\<close>

text \<open>What the encoder writes for a code point, and the normalisations of the decoder.\<close>

definition scrub :: "u32 \<Rightarrow> u32" where
  "scrub cp = (if is_scalar_value cp then cp else 0xFFFD)"

fun cr_to_lf :: "u32 list \<Rightarrow> u32 list" where
  "cr_to_lf [] = []"
| "cr_to_lf (cp # cps) =
    (if cp = 0x0D then
       NEWLINE # (case cps of [] \<Rightarrow> [] | c # r \<Rightarrow> if c = NEWLINE then cr_to_lf r else cr_to_lf cps)
     else cp # cr_to_lf cps)"

definition drop_bom :: "u32 list \<Rightarrow> u32 list" where
  "drop_bom cps = (case cps of c # r \<Rightarrow> if c = 0xFEFF then r else cps | [] \<Rightarrow> [])"

lemma scalar_values:
  "is_scalar_value cp \<Longrightarrow> cp < 0x200000" "is_scalar_value 0xFFFD"
  by (auto simp: is_scalar_value_def word_less_nat_alt word_le_nat_alt)

lemma scrub_scalar [simp]: "is_scalar_value (scrub cp)"
  by (simp add: scrub_def scalar_values)

lemma codepoints_to_utf8_scrub:
  "codepoints_to_utf8 cps = concat (map encode_utf8 (map scrub cps))"
  by (induction cps) (auto simp: scrub_def)

lemma decode_text:
  assumes "\<forall>cp\<in>set cps. is_scalar_value cp"
  shows "decode_loop (concat (map encode_utf8 cps)) = cr_to_lf cps"
  using assms
proof (induction cps rule: cr_to_lf.induct)
  case (2 cp cps)
  show ?case
  proof (cases "cp = 0x0D")
    case False
    with 2 scalar_values(1) [of cp] show ?thesis by (simp add: decode_encode)
  next
    case True
    show ?thesis
    proof (cases cps)
      case (Cons c r)
      obtain b bs where b: "encode_utf8 c = b # bs" "b = 0x0A \<longrightarrow> c = 0x0A"
        using encode_head by blast
      show ?thesis
      proof (cases "c = 0x0A")
        case True
        with \<open>cp = 0x0D\<close> Cons 2 show ?thesis
          by (simp add: decode_carriage_return NEWLINE_def) (simp add: encode_utf8_def)
      next
        case False
        with b \<open>cp = 0x0D\<close> Cons 2 show ?thesis
          by (simp add: decode_carriage_return NEWLINE_def)
      qed
    qed (use True decode_carriage_return [of "[]"] in simp)
  qed
qed simp

lemma encode_bom: "encode_utf8 0xFEFF = [0xEF, 0xBB, 0xBF]"
  by (simp add: encode_utf8_def)

text \<open>The three bytes of the mark are written for the mark only.\<close>

lemma bom_bytes:
  assumes "\<forall>cp\<in>set cps. is_scalar_value cp"
  shows "(\<exists>r. concat (map encode_utf8 cps) = [0xEF, 0xBB, 0xBF] @ r) \<longleftrightarrow> (\<exists>r. cps = 0xFEFF # r)"
proof
  assume "\<exists>r. concat (map encode_utf8 cps) = [0xEF, 0xBB, 0xBF] @ r"
  then obtain r where "concat (map encode_utf8 cps) = encode_utf8 0xFEFF @ r"
    by (auto simp: encode_bom)
  then have "cr_to_lf cps = 0xFEFF # decode_loop r"
    using decode_text [OF assms] by (simp add: decode_encode)
  then show "\<exists>r. cps = 0xFEFF # r" by (cases cps) (auto simp: NEWLINE_def split: if_splits)
qed (auto simp: encode_bom)

lemma utf8_round_trip:
  "utf8_to_codepoints (codepoints_to_utf8 cps) = cr_to_lf (drop_bom (map scrub cps))"
proof -
  let ?cs = "map scrub cps" and ?bytes = "concat (map encode_utf8 (map scrub cps))"
  have scalar: "\<forall>cp\<in>set ?cs. is_scalar_value cp" by auto
  have mark: "(length bs \<ge> 3 \<and> bs ! 0 = 0xEF \<and> bs ! 1 = 0xBB \<and> bs ! 2 = 0xBF) \<longleftrightarrow>
    (\<exists>r. bs = [0xEF, 0xBB, 0xBF] @ r)" for bs :: "u8 list"
    by (cases bs; cases "tl bs"; cases "tl (tl bs)") (auto simp: numeral_eq_Suc)
  show ?thesis
  proof (cases "\<exists>r. ?cs = 0xFEFF # r")
    case True
    then obtain r where r: "?cs = 0xFEFF # r" by (elim exE)
    with scalar have "\<forall>cp\<in>set r. is_scalar_value cp" by simp
    with r show ?thesis
      unfolding utf8_to_codepoints_def codepoints_to_utf8_scrub mark
      by (simp add: encode_bom decode_text drop_bom_def)
  next
    case False
    then have "drop_bom ?cs = ?cs" by (auto simp: drop_bom_def split: list.splits)
    with False decode_text [OF scalar] bom_bytes [OF scalar] show ?thesis
      unfolding utf8_to_codepoints_def codepoints_to_utf8_scrub mark by simp
  qed
qed

end
