(* ===== verification/Rope_Correct.thy ===== *)
theory Rope_Correct
  imports Rope_Tree Rope_Utf8
begin

text \<open>
  The rope buffer against flat text: editing scripts, what the reading operations report,
  lines and columns, saving and loading. The contract of an editable text is the locale
  \<open>text_buffer\<close>; the rope provides it twice, once for any text with its caches correct and
  once, for pieces of at most four leaves, with the AVL property as well.
\<close>

section \<open>Editable texts\<close>

datatype 'c edit = Insert nat "'c list" | Delete nat nat | Replace nat nat "'c list"

definition insert_at :: "nat \<Rightarrow> 'c list \<Rightarrow> 'c list \<Rightarrow> 'c list" where
  "insert_at pos cs xs = take pos xs @ cs @ drop pos xs"

definition delete_at :: "nat \<Rightarrow> nat \<Rightarrow> 'c list \<Rightarrow> 'c list" where
  "delete_at pos count xs = take pos xs @ drop (pos + count) xs"

fun apply_edit :: "'c edit \<Rightarrow> 'c list \<Rightarrow> 'c list" where
  "apply_edit (Insert pos cs) xs = insert_at pos cs xs"
| "apply_edit (Delete pos count) xs = delete_at pos count xs"
| "apply_edit (Replace pos count cs) xs = insert_at pos cs (delete_at pos count xs)"

fun inserted :: "'c edit \<Rightarrow> 'c list" where
  "inserted (Insert _ cs) = cs"
| "inserted (Delete _ _) = []"
| "inserted (Replace _ _ cs) = cs"

text \<open>A script run on a buffer with the given operations; \<open>None\<close> once one of them fails.\<close>

fun run_edit ::
  "('s \<Rightarrow> nat \<Rightarrow> 'c list \<Rightarrow> 's option) \<Rightarrow> ('s \<Rightarrow> nat \<Rightarrow> nat \<Rightarrow> 's option) \<Rightarrow>
   ('s \<Rightarrow> nat \<Rightarrow> nat \<Rightarrow> 'c list \<Rightarrow> 's option) \<Rightarrow> 'c edit \<Rightarrow> 's \<Rightarrow> 's option" where
  "run_edit ins del rep (Insert pos cs) s = ins s pos cs"
| "run_edit ins del rep (Delete pos count) s = del s pos count"
| "run_edit ins del rep (Replace pos count cs) s = rep s pos count cs"

fun run_edits ::
  "('s \<Rightarrow> nat \<Rightarrow> 'c list \<Rightarrow> 's option) \<Rightarrow> ('s \<Rightarrow> nat \<Rightarrow> nat \<Rightarrow> 's option) \<Rightarrow>
   ('s \<Rightarrow> nat \<Rightarrow> nat \<Rightarrow> 'c list \<Rightarrow> 's option) \<Rightarrow> 'c edit list \<Rightarrow> 's \<Rightarrow> 's option" where
  "run_edits ins del rep [] s = Some s"
| "run_edits ins del rep (e # es) s =
     (case run_edit ins del rep e s of None \<Rightarrow> None | Some s' \<Rightarrow> run_edits ins del rep es s')"

locale text_buffer =
  fixes contents :: "'s \<Rightarrow> 'c list"
    and inv :: "'s \<Rightarrow> bool"
    and fits :: "'c list \<Rightarrow> bool"
    and ins :: "'s \<Rightarrow> nat \<Rightarrow> 'c list \<Rightarrow> 's option"
    and del :: "'s \<Rightarrow> nat \<Rightarrow> nat \<Rightarrow> 's option"
    and rep :: "'s \<Rightarrow> nat \<Rightarrow> nat \<Rightarrow> 'c list \<Rightarrow> 's option"
  assumes ins_law: "inv s \<Longrightarrow> fits cs \<Longrightarrow>
      \<exists>s'. ins s pos cs = Some s' \<and> inv s' \<and> contents s' = insert_at pos cs (contents s)"
    and del_law: "inv s \<Longrightarrow>
      \<exists>s'. del s pos count = Some s' \<and> inv s' \<and> contents s' = delete_at pos count (contents s)"
    and rep_law: "rep s pos count cs =
      (case del s pos count of None \<Rightarrow> None | Some s' \<Rightarrow> ins s' pos cs)"
begin

lemma edit_refines:
  assumes "inv s" "fits (inserted e)"
  shows "\<exists>s'. run_edit ins del rep e s = Some s' \<and> inv s' \<and> contents s' = apply_edit e (contents s)"
proof (cases e)
  case (Insert pos cs)
  with assms ins_law show ?thesis by simp
next
  case (Delete pos count)
  with assms del_law show ?thesis by simp
next
  case (Replace pos count cs)
  obtain s' where "del s pos count = Some s'" "inv s'" "contents s' = delete_at pos count (contents s)"
    using del_law [OF assms(1)] by blast
  with Replace assms ins_law [of s' cs pos] show ?thesis by (simp add: rep_law)
qed

lemma edits_refine:
  assumes "inv s" "\<forall>e\<in>set es. fits (inserted e)"
  shows "\<exists>s'. run_edits ins del rep es s = Some s' \<and> inv s'
    \<and> contents s' = fold apply_edit es (contents s)"
  using assms
proof (induction es arbitrary: s)
  case (Cons e es)
  then obtain s' where "run_edit ins del rep e s = Some s'" "inv s'"
    "contents s' = apply_edit e (contents s)" using edit_refines [of s e] by auto
  with Cons.IH [of s'] Cons.prems show ?case by auto
qed simp

end

section \<open>The rope as an editable text\<close>

definition rope_text :: "rope_buffer \<Rightarrow> u32 list" where
  "rope_text b = text_of (root b)"

definition rope_edits :: "u32 edit list \<Rightarrow> rope_buffer \<Rightarrow> rope_buffer option" where
  "rope_edits = run_edits rope_insert rope_delete rope_replace"

definition rope_balanced :: "rope_buffer \<Rightarrow> bool" where
  "rope_balanced b \<longleftrightarrow> rope_ok (root b) \<and> avl (root b)"

definition few_leaves :: "u32 list \<Rightarrow> bool" where
  "few_leaves cps \<longleftrightarrow> length cps \<le> 4 * LEAF_MAX"

lemma build_total:
  "\<exists>n. build_rope_from_slice cps = Some n \<and> rope_ok n \<and> text_of n = cps"
  using build_rope_ok [of cps "chunk_count cps"] less_exp [of "chunk_count cps"]
  by (auto simp: less_imp_le)

lemma rope_insert_ok:
  assumes "rope_ok (root b)"
  shows "\<exists>b'. rope_insert b pos cps = Some b' \<and> rope_ok (root b')
    \<and> rope_text b' = insert_at pos cps (rope_text b)
    \<and> (few_leaves cps \<longrightarrow> avl (root b) \<longrightarrow> avl (root b'))"
proof (cases "cps = []")
  case False
  obtain m where m: "build_rope_from_slice cps = Some m" "rope_ok m" "text_of m = cps"
    using build_total by blast
  then have "few_leaves cps \<longrightarrow> avl m" by (simp add: few_leaves_def build_rope_avl)
  with m False insert_node_ok [OF assms m(2), of pos] show ?thesis
    by (auto simp: rope_insert_def rope_text_def insert_at_def)
qed (use assms in \<open>simp add: rope_insert_def insert_at_def rope_text_def\<close>)

lemma rope_delete_ok:
  assumes "rope_ok (root b)"
  shows "\<exists>b'. rope_delete b pos count = Some b' \<and> rope_ok (root b')
    \<and> rope_text b' = delete_at pos count (rope_text b) \<and> (avl (root b) \<longrightarrow> avl (root b'))"
proof (cases "count = 0 \<or> pos \<ge> rope_len b")
  case True
  with assms show ?thesis
    by (auto simp: rope_delete_def delete_at_def rope_text_def rope_len_def)
next
  case False
  with assms have "drop (pos + min count (rope_len b - pos)) (rope_text b) =
      drop (pos + count) (rope_text b)"
    by (simp add: rope_len_def rope_text_def min_def)
  with False delete_range_ok [OF assms, of pos "min count (rope_len b - pos)"] show ?thesis
    by (auto simp: rope_delete_def delete_at_def rope_text_def)
qed

interpretation flat: text_buffer rope_text "\<lambda>b. rope_ok (root b)" "\<lambda>_. True"
  rope_insert rope_delete rope_replace
  using rope_insert_ok rope_delete_ok by unfold_locales (blast, blast, simp add: rope_replace_def)

interpretation balanced: text_buffer rope_text rope_balanced few_leaves
  rope_insert rope_delete rope_replace
  unfolding rope_balanced_def
  using rope_insert_ok rope_delete_ok by unfold_locales (blast, blast, simp add: rope_replace_def)

lemma rope_from_slice_ok:
  "\<exists>b. rope_from_slice cps = Some b \<and> rope_ok (root b) \<and> rope_text b = cps
    \<and> (few_leaves cps \<longrightarrow> rope_balanced b)"
  using build_total [of cps] build_rope_avl [of cps]
  by (auto simp: rope_from_slice_def rope_text_def rope_balanced_def few_leaves_def)

text \<open>
  C37. Editing the rope is editing the text: whatever text a buffer is made from and whatever
  sequence of insertions, deletions and replacements follows, at any offsets, no operation
  panics, the buffer holds the text the same edits make of the flat text (positions and counts
  beyond the end are cut off there), and every cached length, newline count and height is
  correct.
\<close>

theorem rope_edits_refine_text:
  "\<exists>b b'. rope_from_slice t = Some b \<and> rope_edits es b = Some b'
    \<and> rope_text b' = fold apply_edit es t \<and> rope_ok (root b')"
proof -
  obtain b where "rope_from_slice t = Some b" "rope_ok (root b)" "rope_text b = t"
    using rope_from_slice_ok by blast
  with flat.edits_refine [of b es] show ?thesis by (auto simp: rope_edits_def)
qed

text \<open>
  C38. When the first text and every inserted piece have at most four leaves (8192 code
  points), the tree satisfies the AVL condition after every edit, so its height is at most
  about twice the binary logarithm of the number of code points.
\<close>

theorem rope_stays_balanced:
  assumes "length t \<le> 4 * LEAF_MAX" "\<forall>e\<in>set es. length (inserted e) \<le> 4 * LEAF_MAX"
  shows "\<exists>b b'. rope_from_slice t = Some b \<and> rope_edits es b = Some b' \<and> avl (root b')
    \<and> 2 ^ (rope_height b' div 2) \<le> max 1 (rope_len b')"
proof -
  obtain b where "rope_from_slice t = Some b" "rope_balanced b"
    using rope_from_slice_ok [of t] assms(1) by (auto simp: few_leaves_def)
  moreover from this obtain b' where "rope_edits es b = Some b'" "rope_balanced b'"
    using balanced.edits_refine [of b es] assms(2) by (auto simp: rope_edits_def few_leaves_def)
  moreover from this have "2 ^ (rope_height b' div 2) \<le> max 1 (rope_len b')"
    using avl_height_size [of "root b'"]
    by (cases "root b'"; cases "rope_text b' = []")
      (auto simp: rope_balanced_def rope_height_def rope_len_def rope_text_def)
  ultimately show ?thesis by (auto simp: rope_balanced_def)
qed

theorem rope_stays_balanced_witness:
  "\<exists>b b'. rope_from_slice [104, 105] = Some b
    \<and> rope_edits [Insert 1 [10, 97], Delete 0 1, Replace 5 2 [98]] b = Some b' \<and> avl (root b')
    \<and> 2 ^ (rope_height b' div 2) \<le> max 1 (rope_len b')"
  by (rule rope_stays_balanced) (simp_all add: LEAF_MAX_def)

text \<open>
  Building from a larger text does not give an AVL tree: the text is cut into leaves that
  are merged in rounds of pairs, an odd leaf is carried along unmerged, and with one leaf more
  than a power of two it ends up next to a tree of full height. The height itself is the least
  possible.
\<close>

theorem build_unbalanced:
  assumes "chunk_count cps = 2 ^ k + 1"
  shows "\<exists>b. rope_from_slice cps = Some b \<and> rope_text b = cps
    \<and> balance_factor (root b) = int k \<and> rope_height b = k + 1 \<and> (k \<ge> 2 \<longrightarrow> \<not> avl (root b))"
  using build_rope_odd [OF assms] rope_from_slice_ok [of cps]
  by (auto simp: rope_from_slice_def rope_height_def)

theorem build_unbalanced_witness:
  "\<exists>b. rope_from_slice (replicate 8193 97) = Some b \<and> rope_text b = replicate 8193 97
    \<and> balance_factor (root b) = int 2 \<and> rope_height b = 2 + 1 \<and> (2 \<ge> (2::nat) \<longrightarrow> \<not> avl (root b))"
  by (rule build_unbalanced) (simp add: chunk_count_def LEAF_MAX_def)

section \<open>Lines of a text\<close>

fun split_lines :: "u32 list \<Rightarrow> u32 list list" where
  "split_lines [] = [[]]"
| "split_lines (c # cs) =
    (if c = NEWLINE then [] # split_lines cs
     else case split_lines cs of l # ls \<Rightarrow> (c # l) # ls | [] \<Rightarrow> [[c]])"

text \<open>Where the newline number \<open>n\<close> is, where line \<open>i\<close> begins and ends.\<close>

fun newline_pos :: "u32 list \<Rightarrow> nat \<Rightarrow> nat option" where
  "newline_pos [] n = None"
| "newline_pos (c # cs) n =
    (if c = NEWLINE then (case n of 0 \<Rightarrow> Some 0 | Suc m \<Rightarrow> map_option Suc (newline_pos cs m))
     else map_option Suc (newline_pos cs n))"

definition line_end :: "u32 list \<Rightarrow> nat \<Rightarrow> nat" where
  "line_end cs i = (case newline_pos cs i of Some p \<Rightarrow> p | None \<Rightarrow> length cs)"

definition line_begin :: "u32 list \<Rightarrow> nat \<Rightarrow> nat" where
  "line_begin cs i =
    (case i of 0 \<Rightarrow> 0
     | Suc j \<Rightarrow> (case newline_pos cs j of Some p \<Rightarrow> Suc p | None \<Rightarrow> length cs))"

lemma shift_simps:
  "map_option ((+) (0::nat)) m = m" "(\<lambda>x. Suc (k + x)) = (+) (Suc k)"
  by (cases m) auto

lemma length_split_lines [simp]: "length (split_lines cs) = Suc (count_newlines cs)"
  by (induction cs) (auto simp: count_newlines_Cons split: list.splits)

lemma newline_pos_None [simp]: "newline_pos cs n = None \<longleftrightarrow> count_newlines cs \<le> n"
  by (induction cs arbitrary: n) (auto simp: count_newlines_Cons split: nat.splits)

lemma newline_pos_append:
  "newline_pos (xs @ ys) n =
    (if n < count_newlines xs then newline_pos xs n
     else map_option ((+) (length xs)) (newline_pos ys (n - count_newlines xs)))"
  by (induction xs arbitrary: n)
    (auto simp: count_newlines_Cons option.map_comp o_def shift_simps split: nat.splits)

lemma newline_pos_Some:
  "newline_pos cs n = Some p \<Longrightarrow>
     p < length cs \<and> count_newlines (take p cs) = n \<and> count_newlines (take (Suc p) cs) = Suc n"
  by (induction cs arbitrary: n p)
    (auto simp: count_newlines_Cons split: if_splits nat.splits)

lemma count_newlines_take_mono: "p \<le> q \<Longrightarrow> count_newlines (take p cs) \<le> count_newlines (take q cs)"
  by (metis count_newlines_append le_add1 le_add_diff_inverse take_add)

lemma split_lines_nth:
  "i \<le> count_newlines cs \<Longrightarrow> split_lines cs ! i = slice_of cs (line_begin cs i) (line_end cs i)"
proof (induction cs arbitrary: i)
  case (Cons c cs)
  obtain l ls where l: "split_lines cs = l # ls" by (cases "split_lines cs") (auto dest: arg_cong [where f = length])
  show ?case
  proof (cases "c = NEWLINE")
    case True
    show ?thesis
    proof (cases i)
      case (Suc j)
      with True Cons.prems have "j \<le> count_newlines cs" by (simp add: count_newlines_Cons)
      moreover have "line_begin (c # cs) i = Suc (line_begin cs j)"
        using True Suc by (auto simp: line_begin_def simp del: newline_pos_None split: nat.splits option.splits)
      moreover have "line_end (c # cs) i = Suc (line_end cs j)"
        using True Suc by (auto simp: line_end_def simp del: newline_pos_None split: option.splits)
      ultimately show ?thesis using True Suc Cons.IH [of j] by (simp add: slice_of_def)
    qed (use True in \<open>simp add: slice_of_def line_begin_def line_end_def\<close>)
  next
    case False
    with Cons.prems have i: "i \<le> count_newlines cs" by (simp add: count_newlines_Cons)
    have e: "line_end (c # cs) i = Suc (line_end cs i)"
      using False by (auto simp: line_end_def simp del: newline_pos_None split: option.splits)
    show ?thesis
    proof (cases i)
      case 0
      with False e l Cons.IH [OF i] show ?thesis by (simp add: slice_of_def line_begin_def)
    next
      case (Suc j)
      then have "line_begin (c # cs) i = Suc (line_begin cs i)"
        using False by (auto simp: line_begin_def simp del: newline_pos_None split: option.splits)
      with False e l Suc Cons.IH [OF i] show ?thesis by (simp add: slice_of_def)
    qed
  qed
qed (simp add: slice_of_def line_begin_def line_end_def)

section \<open>Reading the tree\<close>

lemma char_at_node_ok:
  "rope_ok n \<Longrightarrow> char_at_node n pos = get (text_of n) pos"
  by (induction n arbitrary: pos) (auto simp: get_def nth_append)

lemma slice_of_split:
  assumes "s < e"
  shows "slice_of (xs @ ys) s e =
    (if s < length xs then slice_of xs s (min e (length xs)) else [])
      @ (if e > length xs then slice_of ys (s - length xs) (e - length xs) else [])"
  using assms by (auto simp: slice_of_def min_def)

lemma collect_range_ok:
  "rope_ok n \<Longrightarrow> collect_range n s e = slice_of (text_of n) s e"
proof (induction n arbitrary: s e)
  case (Branch l r ll tot nls h)
  then show ?case using slice_of_split [of s e "text_of l" "text_of r"]
    by (auto simp: slice_of_def [of _ s e])
qed (auto simp: slice_of_def min_def)

lemma count_newlines_before_ok:
  "rope_ok n \<Longrightarrow> count_newlines_before n pos = count_newlines (take pos (text_of n))"
  by (induction n arbitrary: pos) (auto simp: min_def)

lemma scan_newlines_ok:
  "count \<le> n \<Longrightarrow> scan_newlines cs i count n = map_option ((+) i) (newline_pos cs (n - count))"
  by (induction cs arbitrary: i count)
    (auto simp: option.map_comp o_def shift_simps diff_Suc split: nat.splits)

lemma nth_newline_pos_raw_ok:
  "rope_ok nd \<Longrightarrow> nth_newline_pos_raw nd n = newline_pos (text_of nd) n"
  by (induction nd arbitrary: n)
    (auto simp: scan_newlines_ok newline_pos_append shift_simps)

lemma rope_len_ok: "rope_ok (root b) \<Longrightarrow> rope_len b = length (rope_text b)"
  by (simp add: rope_len_def rope_text_def)

lemma rope_line_count_ok:
  "rope_ok (root b) \<Longrightarrow> rope_line_count b = Suc (count_newlines (rope_text b))"
  by (simp add: rope_line_count_def line_count_def rope_text_def)

lemma rope_slice_ok:
  "rope_ok (root b) \<Longrightarrow> rope_slice b s e = slice_of (rope_text b) s e"
  by (auto simp: rope_slice_def Let_def collect_range_ok rope_len_def rope_text_def slice_of_def min_def)

lemma rope_char_at_ok:
  "rope_ok (root b) \<Longrightarrow> rope_char_at b pos = Some (get (rope_text b) pos)"
  by (auto simp: rope_char_at_def rope_len_def rope_text_def char_at_node_ok get_def)

lemma rope_newlines_ok:
  assumes "rope_ok (root b)"
  shows "nth_newline_pos_raw (root b) n = newline_pos (rope_text b) n"
    and "nth_newline_pos (root b) n = map_option Suc (newline_pos (rope_text b) n)"
  using assms by (simp_all add: nth_newline_pos_def nth_newline_pos_raw_ok rope_text_def)

text \<open>Within the text a line begins and ends at a newline or at an end of the text.\<close>

lemma line_begin_Suc:
  assumes "Suc j \<le> count_newlines cs"
  shows "map_option Suc (newline_pos cs j) = Some (line_begin cs (Suc j))"
proof -
  obtain p where "newline_pos cs j = Some p"
    using assms by (metis newline_pos_None not_Some_eq not_less_eq_eq)
  then show ?thesis by (simp add: line_begin_def)
qed

lemma line_begin_0 [simp]: "line_begin cs 0 = 0"
  by (simp add: line_begin_def)

lemma line_end_cases:
  "(if i < count_newlines cs
    then (case newline_pos cs i of Some p \<Rightarrow> p | None \<Rightarrow> length cs) else length cs) = line_end cs i"
  using newline_pos_None [of cs i]
  by (cases "newline_pos cs i") (auto simp: line_end_def simp del: newline_pos_None)

text \<open>The bounds of a line, and a line index past the end.\<close>

lemma rope_line_range_ok:
  assumes "rope_ok (root b)"
  shows "rope_line_range b i =
    (if i \<le> count_newlines (rope_text b)
     then Some (line_begin (rope_text b) i, line_end (rope_text b) i) else None)"
proof (cases "i \<le> count_newlines (rope_text b)")
  case True
  have "(if i = 0 then Some 0 else nth_newline_pos (root b) (i - 1)) =
      Some (line_begin (rope_text b) i)"
    using True by (cases i) (simp_all add: rope_newlines_ok [OF assms] line_begin_Suc)
  with True show ?thesis
    unfolding rope_line_range_def rope_line_count_ok [OF assms] rope_newlines_ok(1) [OF assms]
      rope_len_ok [OF assms]
    by (simp add: line_end_cases)
qed (simp add: rope_line_range_def rope_line_count_ok [OF assms])

lemma rope_line_start_ok:
  assumes "rope_ok (root b)"
  shows "rope_line_start b i =
    (if i \<le> count_newlines (rope_text b) then Some (line_begin (rope_text b) i) else None)"
  by (cases i)
    (auto simp: rope_line_start_def rope_line_count_ok [OF assms] rope_newlines_ok [OF assms]
      line_begin_Suc)

lemma rope_get_line_ok:
  assumes "rope_ok (root b)"
  shows "rope_get_line b i =
    (if i < length (split_lines (rope_text b)) then split_lines (rope_text b) ! i else [])"
  using assms by (simp add: rope_get_line_def rope_line_range_ok rope_slice_ok split_lines_nth)

lemma chars_collect_ok:
  assumes "rope_ok (root b)"
  shows "chars_collect b pos = Some (drop pos (rope_text b))"
  using assms
proof (induction b pos rule: chars_collect.induct)
  case (1 b pos)
  show ?case
  proof (cases "pos < length (rope_text b)")
    case True
    with 1 show ?thesis
      by (subst chars_collect.simps)
        (simp add: chars_next_def rope_char_at_ok get_def Cons_nth_drop_Suc)
  next
    case False
    with 1 show ?thesis
      by (subst chars_collect.simps) (simp add: chars_next_def rope_char_at_ok get_def)
  qed
qed

lemma lines_collect_ok:
  assumes "rope_ok (root b)"
  shows "lines_collect b i = drop i (split_lines (rope_text b))"
  using assms
proof (induction b i rule: lines_collect.induct)
  case (1 b i)
  show ?case
  proof (cases "i < length (split_lines (rope_text b))")
    case True
    with 1 show ?thesis
      by (subst lines_collect.simps)
        (simp add: lines_next_def rope_line_count_ok rope_get_line_ok Cons_nth_drop_Suc)
  next
    case False
    with 1 show ?thesis
      by (subst lines_collect.simps) (simp add: lines_next_def rope_line_count_ok)
  qed
qed

text \<open>
  C39. Every reading operation reports what the flat text says: the length, the code point at
  an offset (none past the end, and never a panic), slices clamped to the text, the number of
  lines, each line without its newline, and the two iterators all code points and all lines.
\<close>

theorem rope_reads_text:
  assumes "rope_ok (root b)"
  shows "rope_len b = length (rope_text b)
    \<and> rope_char_at b pos = Some (get (rope_text b) pos)
    \<and> rope_slice b s e = slice_of (rope_text b) s e
    \<and> rope_to_slice b = rope_text b
    \<and> rope_line_count b = length (split_lines (rope_text b))
    \<and> rope_get_line b i =
        (if i < length (split_lines (rope_text b)) then split_lines (rope_text b) ! i else [])
    \<and> chars_collect b 0 = Some (rope_text b)
    \<and> lines_collect b 0 = split_lines (rope_text b)"
  using assms
  by (simp add: rope_len_ok rope_char_at_ok rope_slice_ok rope_to_slice_def slice_of_def
      rope_line_count_ok rope_get_line_ok chars_collect_ok lines_collect_ok)

definition sample_rope :: rope_buffer where
  "sample_rope = \<lparr>root = branch (leaf [97, 10]) (branch (leaf [98]) (leaf [10, 99, 100]))\<rparr>"

lemma sample_rope_ok: "rope_ok (root sample_rope)"
  and sample_rope_text: "rope_text sample_rope = [97, 10, 98, 10, 99, 100]"
  by (simp_all add: sample_rope_def LEAF_MAX_def rope_text_def)

theorem rope_reads_text_witness:
  "rope_get_line sample_rope 2 = [99, 100] \<and> rope_slice sample_rope 1 3 = [10, 98]
    \<and> lines_collect sample_rope 0 = [[97], [98], [99, 100]]"
  using rope_reads_text [OF sample_rope_ok, of 0 1 3 2]
  by (simp add: sample_rope_text slice_of_def NEWLINE_def drop_Cons' take_Cons' nth_Cons')

section \<open>Lines and columns\<close>

lemma line_of_offset:
  assumes "pos \<le> length cs"
  defines "i \<equiv> count_newlines (take pos cs)"
  shows "line_begin cs i \<le> pos" "pos \<le> line_end cs i" "i \<le> count_newlines cs"
proof -
  show "i \<le> count_newlines cs"
    using count_newlines_take_mono [of pos "length cs" cs] assms by simp
  show "line_begin cs i \<le> pos"
  proof (cases i)
    case (Suc j)
    with \<open>i \<le> count_newlines cs\<close> obtain p where p: "newline_pos cs j = Some p"
      by (metis newline_pos_None not_Some_eq not_less_eq_eq)
    have "Suc p \<le> pos"
    proof (rule ccontr)
      assume "\<not> Suc p \<le> pos"
      then have "i \<le> count_newlines (take p cs)"
        unfolding i_def by (intro count_newlines_take_mono) simp
      with newline_pos_Some [OF p] Suc show False by simp
    qed
    with p Suc show ?thesis by (simp add: line_begin_def)
  qed (simp add: line_begin_def)
  show "pos \<le> line_end cs i"
  proof (cases "newline_pos cs i")
    case (Some p)
    have "\<not> Suc p \<le> pos"
      using newline_pos_Some [OF Some] count_newlines_take_mono [of "Suc p" pos cs]
      by (auto simp: i_def)
    with Some show ?thesis by (simp add: line_end_def)
  qed (use assms in \<open>simp add: line_end_def del: newline_pos_None\<close>)
qed

lemma rope_offset_to_line_col_ok:
  assumes "rope_ok (root b)"
  defines "pos k \<equiv> min k (length (rope_text b))"
  shows "rope_offset_to_line_col b k =
    (let i = count_newlines (take (pos k) (rope_text b))
     in (i, pos k - line_begin (rope_text b) i))"
proof -
  let ?i = "count_newlines (take (pos k) (rope_text b))"
  have "?i \<le> count_newlines (rope_text b)"
    by (rule line_of_offset) (simp add: pos_def)
  then have "?i = 0 \<or> newline_pos (rope_text b) (?i - 1) \<noteq> None"
    by auto
  with assms show ?thesis
    by (auto simp: rope_offset_to_line_col_def Let_def rope_len_ok count_newlines_before_ok
        nth_newline_pos_def nth_newline_pos_raw_ok line_begin_def rope_text_def
        simp del: newline_pos_None split: nat.splits)
qed

lemma rope_line_col_to_offset_ok:
  assumes "rope_ok (root b)"
  shows "rope_line_col_to_offset b line col =
    (if line \<le> count_newlines (rope_text b)
     then line_begin (rope_text b) line
       + min col (line_end (rope_text b) line - line_begin (rope_text b) line)
     else length (rope_text b))"
  by (simp add: rope_line_col_to_offset_def rope_line_start_ok [OF assms]
      rope_line_range_ok [OF assms] rope_len_ok [OF assms])

text \<open>
  C40. Line and column of an offset: the line is the number of newlines before the offset, the
  column lies within that line, and going back from line and column gives the offset again
  (the end of the text for an offset beyond it).
\<close>

theorem rope_line_col_roundtrip:
  assumes "rope_ok (root b)" "rope_offset_to_line_col b offset = (line, col)"
  shows "line = count_newlines (take offset (rope_text b))
    \<and> col \<le> length (split_lines (rope_text b) ! line)
    \<and> rope_line_col_to_offset b line col = min offset (rope_len b)"
proof -
  let ?cs = "rope_text b" and ?pos = "min offset (length (rope_text b))"
  have line: "line = count_newlines (take ?pos ?cs)" and col: "col = ?pos - line_begin ?cs line"
    using assms rope_offset_to_line_col_ok [OF assms(1), of offset] by (auto simp: Let_def)
  have take: "take ?pos ?cs = take offset ?cs" by (simp add: min_def)
  have "?pos \<le> length ?cs" by simp
  from line_of_offset [OF this] line
  have within: "line_begin ?cs line \<le> ?pos" "?pos \<le> line_end ?cs line" "line \<le> count_newlines ?cs"
    by auto
  then have "length (split_lines ?cs ! line) = line_end ?cs line - line_begin ?cs line"
    by (simp add: split_lines_nth slice_of_def line_end_def split: option.splits)
      (auto dest!: newline_pos_Some)
  with line col within take show ?thesis
    by (simp add: rope_line_col_to_offset_ok [OF assms(1)] rope_len_ok [OF assms(1)])
qed

theorem rope_line_col_roundtrip_witness:
  "rope_line_col_to_offset sample_rope 2 1 = 5"
proof -
  have "rope_offset_to_line_col sample_rope 5 = (2, 1)"
    by (simp add: rope_offset_to_line_col_def sample_rope_def branch_def leaf_def rope_len_def
        count_newlines_def NEWLINE_def nth_newline_pos_def take_Cons')
  from rope_line_col_roundtrip [OF sample_rope_ok this] show ?thesis
    by (simp add: rope_len_ok [OF sample_rope_ok] sample_rope_text)
qed

section \<open>Saving and loading\<close>

text \<open>
  Loading what was saved gives the text back, with exactly these changes: code points that
  are no Unicode scalar values have become U+FFFD, a byte order mark at the very beginning is
  gone, and every carriage return (with a line feed after it, if there is one) is a newline.
\<close>

theorem rope_utf8_roundtrip:
  assumes "rope_ok (root b)"
  shows "\<exists>b'. rope_from_utf8 (rope_to_utf8 b) = Some b' \<and> rope_ok (root b')
    \<and> rope_text b' = cr_to_lf (drop_bom (map scrub (rope_text b)))"
proof -
  have "rope_to_utf8 b = codepoints_to_utf8 (rope_text b)"
    by (simp add: rope_to_utf8_def rope_slice_ok [OF assms] rope_len_ok [OF assms] slice_of_def)
  then show ?thesis
    using rope_from_slice_ok [of "cr_to_lf (drop_bom (map scrub (rope_text b)))"]
    by (auto simp: rope_from_utf8_def utf8_round_trip)
qed

theorem rope_utf8_roundtrip_witness:
  "\<exists>b'. rope_from_utf8 (rope_to_utf8 sample_rope) = Some b' \<and> rope_ok (root b')
    \<and> rope_text b' = rope_text sample_rope"
  using rope_utf8_roundtrip [OF sample_rope_ok]
  by (simp add: sample_rope_text drop_bom_def scrub_def is_scalar_value_def)

end
