(* ===== verification/Editor.thy ===== *)
theory Editor
  imports Rope_Utf8 Rust_Text "HOL-Library.Monad_Syntax"
begin

text \<open>
  The source editor of the user interface, \<^verbatim>\<open>crates/igui/src/fedit.rs\<close>: its state without the drawing
  resources of the window, editing with coalesced undo, cursor motion, selection, clipboard, files and the
  dispatch of window messages. A panic of the rope is \<open>None\<close>. Rust strings that come from the buffer, the
  keyboard or the clipboard are the lists of their characters.
\<close>

section \<open>State\<close>

text \<open>\<^verbatim>\<open>codepoints_to_utf8\<close> replaces what is no character; \<^verbatim>\<open>as_bytes\<close> of a string.\<close>

definition chars_of :: "u32 list \<Rightarrow> u32 list" where
  "chars_of cps = map scrub cps"

definition str_bytes :: "u32 list \<Rightarrow> u8 list" where
  "str_bytes s = concat (map encode_utf8 s)"

datatype undo_op =
    Inserted nat "u32 list" nat nat
  | Deleted nat "u32 list" nat nat
  | Replaced nat "u32 list" "u32 list" nat nat

datatype coalesce_kind = CoalesceInsert | CoalesceBackspace

definition UNDO_CAP :: nat where
  "UNDO_CAP = 1024"

definition TAB_WIDTH :: nat where
  "TAB_WIDTH = 2"

record diagnostic =
  dg_line :: nat
  dg_column :: nat
  dg_message :: string

datatype file_lang = LangForth | LangMasm

text \<open>A path with its extension (\<^verbatim>\<open>Path::extension\<close>).\<close>

record file_path =
  fp_path :: string
  fp_extension :: "string option"

fun from_path :: "file_path \<Rightarrow> file_lang" where
  "from_path p = (case fp_extension p of None \<Rightarrow> LangForth
     | Some ext \<Rightarrow> if to_ascii_lowercase ext = ''masm'' then LangMasm else LangForth)"

text \<open>
  The stacks of undo and redo entries, newest first. \<open>ed_visible\<close> is the number of rows that the window
  shows (\<^verbatim>\<open>visible_rows\<close>), which follows from its size and font.
\<close>

record editor =
  ed_buffer :: rope_buffer
  ed_cursor :: nat
  ed_anchor :: nat
  ed_pref_col :: nat
  ed_scroll_top :: nat
  ed_file_path :: "file_path option"
  ed_dirty :: bool
  ed_lang :: file_lang
  ed_visible :: nat
  ed_selecting_drag :: bool
  ed_undo :: "undo_op list"
  ed_redo :: "undo_op list"
  ed_coalesce :: "coalesce_kind option"
  ed_tokens_dirty :: bool
  ed_diagnostics :: "diagnostic list"
  ed_diagnostics_stale :: bool

definition editor_new :: editor where
  "editor_new =
     \<lparr>ed_buffer = rope_new, ed_cursor = 0, ed_anchor = 0, ed_pref_col = 0, ed_scroll_top = 0, ed_file_path = None,
      ed_dirty = False, ed_lang = LangForth, ed_visible = 0, ed_selecting_drag = False, ed_undo = [], ed_redo = [],
      ed_coalesce = None, ed_tokens_dirty = True, ed_diagnostics = [], ed_diagnostics_stale = True\<rparr>"

section \<open>Cursor and selection\<close>

definition cursor_rc :: "editor \<Rightarrow> nat \<times> nat" where
  "cursor_rc ed = rope_offset_to_line_col (ed_buffer ed) (ed_cursor ed)"

definition cursor_row :: "editor \<Rightarrow> nat" where
  "cursor_row ed = fst (cursor_rc ed)"

definition cursor_col :: "editor \<Rightarrow> nat" where
  "cursor_col ed = snd (cursor_rc ed)"

definition selection_range :: "editor \<Rightarrow> (nat \<times> nat) option" where
  "selection_range ed =
     (if ed_cursor ed = ed_anchor ed then None
      else if ed_anchor ed < ed_cursor ed then Some (ed_anchor ed, ed_cursor ed)
      else Some (ed_cursor ed, ed_anchor ed))"

definition ensure_cursor_visible :: "editor \<Rightarrow> editor" where
  "ensure_cursor_visible ed =
     (let visible = ed_visible ed; cur_row = cursor_row ed in
      if visible = 0 then ed
      else if cur_row < ed_scroll_top ed then ed\<lparr>ed_scroll_top := cur_row\<rparr>
      else if cur_row \<ge> ed_scroll_top ed + visible then ed\<lparr>ed_scroll_top := cur_row + 1 - visible\<rparr>
      else ed)"

definition set_cursor_offset :: "nat \<Rightarrow> bool \<Rightarrow> editor \<Rightarrow> editor" where
  "set_cursor_offset offset extending ed =
     (let clamped = min offset (rope_len (ed_buffer ed))
      in ensure_cursor_visible (ed\<lparr>ed_cursor := clamped, ed_anchor := (if extending then ed_anchor ed else clamped),
           ed_coalesce := None\<rparr>))"

definition line_len_cps :: "nat \<Rightarrow> editor \<Rightarrow> nat" where
  "line_len_cps row ed = (case rope_line_range (ed_buffer ed) row of Some (s, e) \<Rightarrow> e - s | None \<Rightarrow> 0)"

definition set_cursor_rc :: "nat \<Rightarrow> nat \<Rightarrow> bool \<Rightarrow> editor \<Rightarrow> editor" where
  "set_cursor_rc row col extending ed =
     (let r = min row (rope_line_count (ed_buffer ed) - 1);
          c = min col (line_len_cps r ed)
      in set_cursor_offset (rope_line_col_to_offset (ed_buffer ed) r c) extending ed)"

definition line_text :: "nat \<Rightarrow> editor \<Rightarrow> u32 list" where
  "line_text row ed = chars_of (rope_get_line (ed_buffer ed) row)"

definition selected_text :: "editor \<Rightarrow> u32 list" where
  "selected_text ed =
     (case selection_range ed of None \<Rightarrow> [] | Some (lo, hi) \<Rightarrow> chars_of (rope_slice (ed_buffer ed) lo hi))"

definition keep_column :: "editor \<Rightarrow> editor" where
  "keep_column ed = ed\<lparr>ed_pref_col := cursor_col ed\<rparr>"

section \<open>Edits\<close>

definition splice_in_cps :: "nat \<Rightarrow> u32 list \<Rightarrow> editor \<Rightarrow> (nat \<times> editor) option" where
  "splice_in_cps offset text ed =
     (if text = [] then Some (offset, ed)
      else do {
        b \<leftarrow> rope_insert (ed_buffer ed) offset text;
        Some (offset + length text, ed\<lparr>ed_buffer := b, ed_tokens_dirty := True, ed_diagnostics_stale := True\<rparr>)
      })"

definition splice_in_utf8 :: "nat \<Rightarrow> u32 list \<Rightarrow> editor \<Rightarrow> (nat \<times> editor) option" where
  "splice_in_utf8 offset text ed =
     (if text = [] then Some (offset, ed)
      else do {
        let cps = utf8_to_codepoints (str_bytes text);
        b \<leftarrow> rope_insert (ed_buffer ed) offset cps;
        Some (offset + length cps, ed\<lparr>ed_buffer := b, ed_tokens_dirty := True, ed_diagnostics_stale := True\<rparr>)
      })"

definition splice_out :: "nat \<Rightarrow> nat \<Rightarrow> editor \<Rightarrow> (u32 list \<times> editor) option" where
  "splice_out lo hi ed =
     (if lo \<ge> hi then Some ([], ed)
      else do {
        let removed = rope_slice (ed_buffer ed) lo hi;
        b \<leftarrow> rope_delete (ed_buffer ed) lo (hi - lo);
        Some (removed, ed\<lparr>ed_buffer := b, ed_tokens_dirty := True, ed_diagnostics_stale := True\<rparr>)
      })"

definition push_undo :: "undo_op \<Rightarrow> editor \<Rightarrow> editor" where
  "push_undo op ed =
     (let ops = op # ed_undo ed in ed\<lparr>ed_undo := (if length ops > UNDO_CAP then butlast ops else ops)\<rparr>)"

definition place_cursor :: "nat \<Rightarrow> editor \<Rightarrow> editor" where
  "place_cursor offset ed = keep_column (ed\<lparr>ed_cursor := offset, ed_anchor := offset\<rparr>)"

definition delete_selection_to_undo :: "editor \<Rightarrow> (bool \<times> editor) option" where
  "delete_selection_to_undo ed =
     (case selection_range ed of
        None \<Rightarrow> Some (False, ed)
      | Some (lo, hi) \<Rightarrow> do {
          (removed, ed1) \<leftarrow> splice_out lo hi ed;
          let ed2 = (place_cursor lo ed1)\<lparr>ed_dirty := True\<rparr>;
          Some (True, (push_undo (Deleted lo removed (ed_cursor ed) lo) ed2)\<lparr>ed_coalesce := None\<rparr>)
        })"

text \<open>Whether the newest entry is an insertion that ends at \<open>start\<close>, or a deletion that began at \<open>end\<close>.\<close>

fun inserted_up_to :: "nat \<Rightarrow> undo_op list \<Rightarrow> bool" where
  "inserted_up_to start (Inserted s t b a # ops) \<longleftrightarrow> s + length t = start"
| "inserted_up_to start ops \<longleftrightarrow> False"

fun extend_inserted :: "u32 list \<Rightarrow> nat \<Rightarrow> undo_op list \<Rightarrow> undo_op list" where
  "extend_inserted cps fin (Inserted s t b a # ops) = Inserted s (t @ cps) b fin # ops"
| "extend_inserted cps fin ops = ops"

fun deleted_from :: "nat \<Rightarrow> undo_op list \<Rightarrow> bool" where
  "deleted_from fin (Deleted s t b a # ops) \<longleftrightarrow> s = fin"
| "deleted_from fin ops \<longleftrightarrow> False"

fun extend_deleted :: "u32 list \<Rightarrow> nat \<Rightarrow> undo_op list \<Rightarrow> undo_op list" where
  "extend_deleted removed start (Deleted s t b a # ops) = Deleted start (removed @ t) b start # ops"
| "extend_deleted removed start ops = ops"

definition do_insert :: "u32 list \<Rightarrow> coalesce_kind option \<Rightarrow> editor \<Rightarrow> editor option" where
  "do_insert text coalesce ed0 = do {
     (_, ed) \<leftarrow> (if selection_range ed0 \<noteq> None then delete_selection_to_undo ed0 else Some (False, ed0));
     let start = ed_cursor ed;
     let cps = utf8_to_codepoints (str_bytes text);
     if cps = [] then Some ed
     else do {
       (fin, ed1) \<leftarrow> splice_in_cps start cps ed;
       let ed2 = (place_cursor fin ed1)\<lparr>ed_dirty := True, ed_redo := []\<rparr>;
       let extend_last = (coalesce = Some CoalesceInsert \<and> ed_coalesce ed2 = Some CoalesceInsert
             \<and> inserted_up_to start (ed_undo ed2));
       let ed3 = (if extend_last then ed2\<lparr>ed_undo := extend_inserted cps fin (ed_undo ed2)\<rparr>
                  else push_undo (Inserted start cps start fin) ed2);
       Some (ensure_cursor_visible (ed3\<lparr>ed_coalesce := coalesce\<rparr>))
     }
   }"

definition insert_char :: "u32 \<Rightarrow> editor \<Rightarrow> editor option" where
  "insert_char c = do_insert [c] (Some CoalesceInsert)"

definition insert_str :: "u32 list \<Rightarrow> editor \<Rightarrow> editor option" where
  "insert_str text ed = (if text = [] then Some ed else do_insert text None ed)"

definition backspace :: "editor \<Rightarrow> editor option" where
  "backspace ed0 = do {
     (deleted, ed) \<leftarrow> delete_selection_to_undo ed0;
     if deleted then Some (ensure_cursor_visible (ed\<lparr>ed_redo := []\<rparr>))
     else if ed_cursor ed = 0 then Some ed
     else do {
       let fin = ed_cursor ed;
       let start = fin - 1;
       (removed, ed1) \<leftarrow> splice_out start fin ed;
       let ed2 = (place_cursor start ed1)\<lparr>ed_dirty := True, ed_redo := []\<rparr>;
       let extend_last = (ed_coalesce ed2 = Some CoalesceBackspace \<and> deleted_from fin (ed_undo ed2));
       let ed3 = (if extend_last then ed2\<lparr>ed_undo := extend_deleted removed start (ed_undo ed2)\<rparr>
                  else push_undo (Deleted start removed fin start) ed2);
       Some (ensure_cursor_visible (ed3\<lparr>ed_coalesce := Some CoalesceBackspace\<rparr>))
     }
   }"

definition delete_forward :: "editor \<Rightarrow> editor option" where
  "delete_forward ed0 = do {
     (deleted, ed) \<leftarrow> delete_selection_to_undo ed0;
     if deleted then Some (ensure_cursor_visible (ed\<lparr>ed_redo := []\<rparr>))
     else if ed_cursor ed \<ge> rope_len (ed_buffer ed) then Some ed
     else do {
       let start = ed_cursor ed;
       (removed, ed1) \<leftarrow> splice_out start (start + 1) ed;
       Some (push_undo (Deleted start removed start start) (ed1\<lparr>ed_dirty := True, ed_redo := [], ed_coalesce := None\<rparr>))
     }
   }"

definition do_replace :: "nat \<Rightarrow> nat \<Rightarrow> u32 list \<Rightarrow> nat \<Rightarrow> editor \<Rightarrow> editor option" where
  "do_replace start fin new_cps cursor_after ed = do {
     (removed, ed1) \<leftarrow> splice_out start fin ed;
     (_, ed2) \<leftarrow> splice_in_cps start new_cps ed1;
     let ed3 = (place_cursor cursor_after ed2)\<lparr>ed_dirty := True, ed_redo := [], ed_coalesce := None\<rparr>;
     Some (ensure_cursor_visible (push_undo (Replaced start removed new_cps (ed_cursor ed) cursor_after) ed3))
   }"

section \<open>Undo and redo\<close>

fun undo_edit :: "undo_op \<Rightarrow> editor \<Rightarrow> (nat \<times> editor) option" where
  "undo_edit (Inserted start text cursor_before cursor_after) ed = do {
     (_, ed1) \<leftarrow> splice_out start (start + length text) ed; Some (cursor_before, ed1) }"
| "undo_edit (Deleted start text cursor_before cursor_after) ed = do {
     (_, ed1) \<leftarrow> splice_in_cps start text ed; Some (cursor_before, ed1) }"
| "undo_edit (Replaced start removed inserted cursor_before cursor_after) ed = do {
     (_, ed1) \<leftarrow> splice_out start (start + length inserted) ed;
     (_, ed2) \<leftarrow> splice_in_cps start removed ed1;
     Some (cursor_before, ed2) }"

definition undo :: "editor \<Rightarrow> editor option" where
  "undo ed = (case ed_undo ed of
     [] \<Rightarrow> Some ed
   | op # ops \<Rightarrow> do {
       (restore_cursor, ed1) \<leftarrow> undo_edit op (ed\<lparr>ed_undo := ops\<rparr>);
       Some (ensure_cursor_visible ((place_cursor restore_cursor ed1)
         \<lparr>ed_dirty := True, ed_coalesce := None, ed_redo := op # ed_redo ed\<rparr>))
     })"

fun redo_edit :: "undo_op \<Rightarrow> editor \<Rightarrow> (nat \<times> editor) option" where
  "redo_edit (Inserted start text cursor_before cursor_after) ed = do {
     (_, ed1) \<leftarrow> splice_in_cps start text ed; Some (cursor_after, ed1) }"
| "redo_edit (Deleted start text cursor_before cursor_after) ed = do {
     (_, ed1) \<leftarrow> splice_out start (start + length text) ed; Some (cursor_after, ed1) }"
| "redo_edit (Replaced start removed inserted cursor_before cursor_after) ed = do {
     (_, ed1) \<leftarrow> splice_out start (start + length removed) ed;
     (_, ed2) \<leftarrow> splice_in_cps start inserted ed1;
     Some (cursor_after, ed2) }"

definition redo :: "editor \<Rightarrow> editor option" where
  "redo ed = (case ed_redo ed of
     [] \<Rightarrow> Some ed
   | op # ops \<Rightarrow> do {
       (after, ed1) \<leftarrow> redo_edit op (ed\<lparr>ed_redo := ops\<rparr>);
       Some (ensure_cursor_visible ((place_cursor after ed1)
         \<lparr>ed_dirty := True, ed_coalesce := None, ed_undo := op # ed_undo ed\<rparr>))
     })"

end
