(* ===== verification/Editor_Window.thy ===== *)
theory Editor_Window
  imports Editor
begin

text \<open>
  The rest of \<^verbatim>\<open>fedit.rs\<close>: cursor motion, automatic indentation, tab columns, clipboard, diagnostics, files,
  and the dispatch of window messages. What the desktop answers (clipboard, dialogs, file system, the installed
  checker) is a record that comes with each message; pixel coordinates come as cell coordinates.
\<close>

section \<open>Motion\<close>

definition is_ws_cp :: "u32 \<Rightarrow> bool" where
  "is_ws_cp cp \<longleftrightarrow> cp \<in> {0x20, 0x09, 0x0A, 0x0D, 0x0C}"

text \<open>The code point at an offset, 0 past the end.\<close>

definition char_or_0 :: "rope_buffer \<Rightarrow> nat \<Rightarrow> u32 option" where
  "char_or_0 b i = map_option (\<lambda>c. case c of Some cp \<Rightarrow> cp | None \<Rightarrow> 0) (rope_char_at b i)"

text \<open>The loops of the word motions: while \<open>ws\<close> holds of the next (previous) code point.\<close>

function skip_forward :: "(u32 \<Rightarrow> bool) \<Rightarrow> rope_buffer \<Rightarrow> nat \<Rightarrow> nat option" where
  "skip_forward ws b i =
     (if i < rope_len b then do { cp \<leftarrow> char_or_0 b i; if ws cp then skip_forward ws b (i + 1) else Some i } else Some i)"
  by pat_completeness auto
termination
  by (relation "measure (\<lambda>(ws, b, i). rope_len b - i)") auto

declare skip_forward.simps [simp del]

fun skip_backward :: "(u32 \<Rightarrow> bool) \<Rightarrow> rope_buffer \<Rightarrow> nat \<Rightarrow> nat option" where
  "skip_backward ws b 0 = Some 0"
| "skip_backward ws b (Suc i) = do { cp \<leftarrow> char_or_0 b i; if ws cp then skip_backward ws b i else Some (Suc i) }"

definition move_next_word :: "bool \<Rightarrow> editor \<Rightarrow> editor option" where
  "move_next_word extending ed = do {
     i \<leftarrow> skip_forward (\<lambda>cp. \<not> is_ws_cp cp) (ed_buffer ed) (ed_cursor ed);
     j \<leftarrow> skip_forward is_ws_cp (ed_buffer ed) i;
     Some (keep_column (set_cursor_offset j extending ed))
   }"

definition move_prev_word :: "bool \<Rightarrow> editor \<Rightarrow> editor option" where
  "move_prev_word extending ed = do {
     i \<leftarrow> skip_backward is_ws_cp (ed_buffer ed) (ed_cursor ed);
     j \<leftarrow> skip_backward (\<lambda>cp. \<not> is_ws_cp cp) (ed_buffer ed) i;
     Some (keep_column (set_cursor_offset j extending ed))
   }"

definition move_left :: "bool \<Rightarrow> editor \<Rightarrow> editor" where
  "move_left extending ed =
     (case selection_range ed of
        Some (lo, hi) \<Rightarrow>
          if \<not> extending then keep_column (set_cursor_offset lo False ed)
          else keep_column (if ed_cursor ed > 0 then set_cursor_offset (ed_cursor ed - 1) extending ed else ed)
      | None \<Rightarrow> keep_column (if ed_cursor ed > 0 then set_cursor_offset (ed_cursor ed - 1) extending ed else ed))"

definition move_right :: "bool \<Rightarrow> editor \<Rightarrow> editor" where
  "move_right extending ed =
     (case selection_range ed of
        Some (lo, hi) \<Rightarrow>
          if \<not> extending then keep_column (set_cursor_offset hi False ed)
          else keep_column (if ed_cursor ed < rope_len (ed_buffer ed) then set_cursor_offset (ed_cursor ed + 1) extending ed else ed)
      | None \<Rightarrow>
          keep_column (if ed_cursor ed < rope_len (ed_buffer ed) then set_cursor_offset (ed_cursor ed + 1) extending ed else ed))"

text \<open>Vertical motion keeps the preferred column.\<close>

definition move_to_row :: "nat \<Rightarrow> bool \<Rightarrow> editor \<Rightarrow> editor" where
  "move_to_row r extending ed = (set_cursor_rc r (ed_pref_col ed) extending ed)\<lparr>ed_pref_col := ed_pref_col ed\<rparr>"

definition move_up :: "bool \<Rightarrow> editor \<Rightarrow> editor" where
  "move_up extending ed = (let r = cursor_row ed in if r = 0 then ed else move_to_row (r - 1) extending ed)"

definition move_down :: "bool \<Rightarrow> editor \<Rightarrow> editor" where
  "move_down extending ed =
     (let r = cursor_row ed in if r + 1 \<ge> rope_line_count (ed_buffer ed) then ed else move_to_row (r + 1) extending ed)"

definition move_home :: "bool \<Rightarrow> editor \<Rightarrow> editor" where
  "move_home extending ed = (set_cursor_rc (cursor_row ed) 0 extending ed)\<lparr>ed_pref_col := 0\<rparr>"

definition move_end :: "bool \<Rightarrow> editor \<Rightarrow> editor" where
  "move_end extending ed =
     (let r = cursor_row ed; n = line_len_cps r ed in keep_column (set_cursor_rc r n extending ed))"

definition page_up :: "bool \<Rightarrow> editor \<Rightarrow> editor" where
  "page_up extending ed = move_to_row (cursor_row ed - max (ed_visible ed) 1) extending ed"

definition page_down :: "bool \<Rightarrow> editor \<Rightarrow> editor" where
  "page_down extending ed =
     move_to_row (min (cursor_row ed + max (ed_visible ed) 1) (rope_line_count (ed_buffer ed) - 1)) extending ed"

definition select_all :: "editor \<Rightarrow> editor" where
  "select_all ed =
     ensure_cursor_visible ((keep_column (ed\<lparr>ed_anchor := 0, ed_cursor := rope_len (ed_buffer ed)\<rparr>))\<lparr>ed_coalesce := None\<rparr>)"

section \<open>Tabs\<close>

fun expand_from :: "nat \<Rightarrow> u32 list \<Rightarrow> u32 list" where
  "expand_from col [] = []"
| "expand_from col (c # cs) =
     (if c = 0x09 then (let pad = TAB_WIDTH - col mod TAB_WIDTH in replicate pad 0x20 @ expand_from (col + pad) cs)
      else c # expand_from (col + 1) cs)"

definition expand_line :: "u32 list \<Rightarrow> u32 list" where
  "expand_line line = expand_from 0 line"

fun col_to_display :: "nat \<Rightarrow> nat \<Rightarrow> u32 list \<Rightarrow> nat" where
  "col_to_display col char_col [] = col"
| "col_to_display col 0 (c # cs) = col"
| "col_to_display col (Suc k) (c # cs) =
     col_to_display (if c = 0x09 then col + (TAB_WIDTH - col mod TAB_WIDTH) else col + 1) k cs"

definition buffer_col_to_display :: "u32 list \<Rightarrow> nat \<Rightarrow> nat" where
  "buffer_col_to_display line char_col = col_to_display 0 char_col line"

fun display_to_col :: "nat \<Rightarrow> nat \<Rightarrow> nat \<Rightarrow> u32 list \<Rightarrow> nat" where
  "display_to_col i col display_col [] = i"
| "display_to_col i col display_col (c # cs) =
     (if col \<ge> display_col then i
      else if c = 0x09 then
        (let pad = TAB_WIDTH - col mod TAB_WIDTH in
         if col + pad > display_col then (let mid = col + pad div 2 in if display_col \<le> mid then i else i + 1)
         else display_to_col (i + 1) (col + pad) display_col cs)
      else display_to_col (i + 1) (col + 1) display_col cs)"

definition display_col_to_buffer :: "u32 list \<Rightarrow> nat \<Rightarrow> nat" where
  "display_col_to_buffer line display_col = display_to_col 0 0 display_col line"

section \<open>Indentation and parentheses\<close>

record paren_scan =
  ps_depth :: int
  ps_in_string :: bool
  ps_after_backslash :: bool
  ps_in_comment :: bool

definition scan_start :: paren_scan where
  "scan_start = \<lparr>ps_depth = 0, ps_in_string = False, ps_after_backslash = False, ps_in_comment = False\<rparr>"

definition scan_char :: "u32 \<Rightarrow> paren_scan \<Rightarrow> paren_scan" where
  "scan_char c st =
     (if ps_in_comment st then st
      else if ps_after_backslash st then st\<lparr>ps_after_backslash := False\<rparr>
      else if c = 0x5C \<and> ps_in_string st then st\<lparr>ps_after_backslash := True\<rparr>
      else if c = 0x22 then st\<lparr>ps_in_string := \<not> ps_in_string st\<rparr>
      else if ps_in_string st then st
      else if c = 0x3B then st\<lparr>ps_in_comment := True\<rparr>
      else if c = 0x28 then st\<lparr>ps_depth := ps_depth st + 1\<rparr>
      else if c = 0x29 then st\<lparr>ps_depth := ps_depth st - 1\<rparr>
      else st)"

definition compute_auto_indent :: "editor \<Rightarrow> u32 list" where
  "compute_auto_indent ed =
     (let (cur_row, cur_col) = cursor_rc ed in
      if cur_row \<ge> rope_line_count (ed_buffer ed) then []
      else
        (let line = line_text cur_row ed;
             leading = takeWhile (\<lambda>c. c = 0x20 \<or> c = 0x09) line;
             depth = ps_depth (fold scan_char (take cur_col line) scan_start)
         in if depth > 0 then leading @ [0x20, 0x20] else leading))"

definition insert_newline :: "editor \<Rightarrow> editor option" where
  "insert_newline ed = do_insert (0x0A # compute_auto_indent ed) None ed"

definition balance_char :: "u32 \<Rightarrow> paren_scan \<Rightarrow> paren_scan" where
  "balance_char cp st =
     (if \<not> is_scalar_value cp then st
      else if cp = 0x0A then st\<lparr>ps_in_comment := False\<rparr>
      else scan_char cp st)"

definition paren_balance :: "editor \<Rightarrow> int" where
  "paren_balance ed = ps_depth (fold balance_char (rope_to_slice (ed_buffer ed)) scan_start)"

section \<open>The desktop\<close>

text \<open>
  The clipboard's text, whether writing to the clipboard and to a file succeeds, the path chosen in the save
  dialog, and the installed checker.
\<close>

record desktop =
  dk_clipboard :: "u32 list option"
  dk_clipboard_set :: bool
  dk_write :: bool
  dk_save_dialog :: "file_path option"
  dk_checker :: "(u32 list \<Rightarrow> diagnostic list) option"

definition cut :: "desktop \<Rightarrow> editor \<Rightarrow> editor option" where
  "cut dk ed =
     (if selection_range ed = None \<or> \<not> dk_clipboard_set dk then Some ed
      else do {
        (_, ed1) \<leftarrow> delete_selection_to_undo ed;
        Some (ensure_cursor_visible (ed1\<lparr>ed_redo := [], ed_coalesce := None\<rparr>))
      })"

definition paste :: "desktop \<Rightarrow> editor \<Rightarrow> editor option" where
  "paste dk ed = (case dk_clipboard dk of None \<Rightarrow> Some ed | Some text \<Rightarrow> if text = [] then Some ed else do_insert text None ed)"

definition run_check :: "desktop \<Rightarrow> editor \<Rightarrow> editor" where
  "run_check dk ed =
     (case dk_checker dk of
        Some check \<Rightarrow> ed\<lparr>ed_diagnostics := check (chars_of (rope_to_slice (ed_buffer ed))), ed_diagnostics_stale := False\<rparr>
      | None \<Rightarrow> ed\<lparr>ed_diagnostics := [], ed_diagnostics_stale := False\<rparr>)"

text \<open>\<^verbatim>\<open>min_by_key\<close> returns the first of the smallest elements.\<close>

fun min_by_place :: "diagnostic list \<Rightarrow> diagnostic option" where
  "min_by_place [] = None"
| "min_by_place (d # ds) =
     (case min_by_place ds of
        None \<Rightarrow> Some d
      | Some m \<Rightarrow> if dg_line d < dg_line m \<or> dg_line d = dg_line m \<and> dg_column d \<le> dg_column m then Some d else Some m)"

definition jump_to_next_diagnostic :: "editor \<Rightarrow> editor" where
  "jump_to_next_diagnostic ed =
     (let cur = cursor_row ed + 1;
          next_one = (case min_by_place (filter (\<lambda>d. dg_line d > cur) (ed_diagnostics ed)) of
            Some d \<Rightarrow> Some d | None \<Rightarrow> min_by_place (ed_diagnostics ed))
      in case next_one of
           None \<Rightarrow> ed
         | Some d \<Rightarrow>
             (let r = min (dg_line d - 1) (rope_line_count (ed_buffer ed) - 1); c = dg_column d - 1
              in keep_column (set_cursor_rc r c False ed)))"

definition run_buffer_source :: "editor \<Rightarrow> u32 list" where
  "run_buffer_source ed =
     (let sel = selected_text ed in if sel = [] then chars_of (rope_to_slice (ed_buffer ed)) else sel)"

text \<open>A failed read changes nothing.\<close>

definition load_from :: "file_path \<Rightarrow> u8 list option \<Rightarrow> editor \<Rightarrow> editor option" where
  "load_from path contents ed =
     (case contents of
        None \<Rightarrow> Some ed
      | Some bytes \<Rightarrow> do {
          b \<leftarrow> rope_from_utf8 bytes;
          Some (ed\<lparr>ed_buffer := b, ed_cursor := 0, ed_anchor := 0, ed_pref_col := 0, ed_scroll_top := 0, ed_dirty := False,
            ed_undo := [], ed_redo := [], ed_coalesce := None, ed_tokens_dirty := True, ed_diagnostics := [],
            ed_diagnostics_stale := True, ed_lang := from_path path, ed_file_path := Some path\<rparr>)
        })"

text \<open>What is written to the file: the text with CR LF line ends.\<close>

definition crlf :: "u32 list \<Rightarrow> u32 list" where
  "crlf s = concat (map (\<lambda>c. if c = 0x0A then [0x0D, 0x0A] else [c]) s)"

definition saved_bytes :: "editor \<Rightarrow> u8 list" where
  "saved_bytes ed = str_bytes (crlf (chars_of (rope_to_slice (ed_buffer ed))))"

definition save_to :: "desktop \<Rightarrow> file_path \<Rightarrow> editor \<Rightarrow> editor" where
  "save_to dk path ed =
     (if dk_write dk then
        run_check dk (ed\<lparr>ed_lang := from_path path, ed_file_path := Some path, ed_dirty := False, ed_tokens_dirty := True\<rparr>)
      else ed)"

definition save_as :: "desktop \<Rightarrow> editor \<Rightarrow> editor" where
  "save_as dk ed = (case dk_save_dialog dk of Some p \<Rightarrow> save_to dk p ed | None \<Rightarrow> ed)"

definition save :: "desktop \<Rightarrow> editor \<Rightarrow> editor" where
  "save dk ed = (case ed_file_path ed of Some p \<Rightarrow> save_to dk p ed | None \<Rightarrow> save_as dk ed)"

section \<open>Mouse\<close>

text \<open>
  A point of the window in cells: rows below the top of the window (0 above it) and columns right of the
  gutter.
\<close>

definition pos_at_cell :: "nat \<Rightarrow> nat \<Rightarrow> editor \<Rightarrow> nat \<times> nat" where
  "pos_at_cell row_off display_col ed =
     (let row = min (ed_scroll_top ed + row_off) (rope_line_count (ed_buffer ed) - 1);
          line = line_text row ed
      in (row, min (display_col_to_buffer line display_col) (length line)))"

definition click :: "nat \<Rightarrow> nat \<Rightarrow> bool \<Rightarrow> editor \<Rightarrow> editor" where
  "click row_off display_col extending ed =
     (let (r, c) = pos_at_cell row_off display_col ed in keep_column (set_cursor_rc r c extending ed))"

definition drag_to :: "nat \<Rightarrow> nat \<Rightarrow> editor \<Rightarrow> editor" where
  "drag_to row_off display_col ed =
     (if \<not> ed_selecting_drag ed then ed
      else
        (let (r, c) = pos_at_cell row_off display_col ed;
             offset = rope_line_col_to_offset (ed_buffer ed) r (min c (line_len_cps r ed))
         in ensure_cursor_visible ((keep_column (ed\<lparr>ed_cursor := offset\<rparr>))\<lparr>ed_coalesce := None\<rparr>)))"

text \<open>\<^verbatim>\<open>i32\<close> arithmetic: division truncates, sums wrap around.\<close>

definition wheel :: "int \<Rightarrow> editor \<Rightarrow> editor" where
  "wheel delta ed =
     (let notches = - (sgn delta * (\<bar>delta\<bar> div 120)) * 3 in
      if notches = 0 then ed
      else
        (let max_top = rope_line_count (ed_buffer ed) - 1;
             new_top = nat (max 0 (sint (of_nat (ed_scroll_top ed) + of_int notches :: 32 word)))
         in ed\<lparr>ed_scroll_top := min new_top max_top\<rparr>))"

section \<open>Messages\<close>

datatype key =
    VkLeft | VkRight | VkUp | VkDown | VkHome | VkEnd | VkPrior | VkNext | VkDelete | VkF5 | VkReturn | VkF7 | VkF8 | VkOther

datatype edit_command =
    CmdUndo | CmdRedo | CmdCut | CmdCopy | CmdPaste | CmdSelectAll | CmdNextWord | CmdPrevWord | CmdRunBuffer | CmdOpen
  | CmdSave | CmdSaveAs | CmdOther

text \<open>Opening a file goes to another window; copying and running leave the state alone.\<close>

fun handle_edit_menu :: "desktop \<Rightarrow> edit_command \<Rightarrow> editor \<Rightarrow> editor option" where
  "handle_edit_menu dk CmdUndo ed = undo ed"
| "handle_edit_menu dk CmdRedo ed = redo ed"
| "handle_edit_menu dk CmdCut ed = cut dk ed"
| "handle_edit_menu dk CmdPaste ed = paste dk ed"
| "handle_edit_menu dk CmdSelectAll ed = Some (select_all ed)"
| "handle_edit_menu dk CmdNextWord ed = move_next_word False ed"
| "handle_edit_menu dk CmdPrevWord ed = move_prev_word False ed"
| "handle_edit_menu dk CmdSave ed = Some (save dk ed)"
| "handle_edit_menu dk CmdSaveAs ed = Some (save_as dk ed)"
| "handle_edit_menu dk _ ed = Some ed"

fun handle_key :: "desktop \<Rightarrow> bool \<Rightarrow> bool \<Rightarrow> key \<Rightarrow> editor \<Rightarrow> editor option" where
  "handle_key dk shift ctrl VkLeft ed = (if ctrl then move_prev_word shift ed else Some (move_left shift ed))"
| "handle_key dk shift ctrl VkRight ed = (if ctrl then move_next_word shift ed else Some (move_right shift ed))"
| "handle_key dk shift ctrl VkUp ed = Some (move_up shift ed)"
| "handle_key dk shift ctrl VkDown ed = Some (move_down shift ed)"
| "handle_key dk shift ctrl VkHome ed = Some (move_home shift ed)"
| "handle_key dk shift ctrl VkEnd ed = Some (move_end shift ed)"
| "handle_key dk shift ctrl VkPrior ed = Some (page_up shift ed)"
| "handle_key dk shift ctrl VkNext ed = Some (page_down shift ed)"
| "handle_key dk shift ctrl VkDelete ed = (if shift \<and> selection_range ed \<noteq> None then cut dk ed else delete_forward ed)"
| "handle_key dk shift ctrl VkF7 ed = Some (run_check dk ed)"
| "handle_key dk shift ctrl VkF8 ed = Some (jump_to_next_diagnostic ed)"
| "handle_key dk shift ctrl _ ed = Some ed"

definition soft_tab :: "editor \<Rightarrow> editor option" where
  "soft_tab ed =
     (let (cur_row, cur_col) = cursor_rc ed;
          display_col = buffer_col_to_display (line_text cur_row ed) cur_col;
          pad = TAB_WIDTH - display_col mod TAB_WIDTH
      in insert_str (replicate pad 0x20) ed)"

definition handle_char :: "desktop \<Rightarrow> bool \<Rightarrow> u32 \<Rightarrow> editor \<Rightarrow> editor option" where
  "handle_char dk shift c ed =
     (if c = 0x01 then Some (select_all ed)
      else if c = 0x03 then Some ed
      else if c = 0x0F then Some ed
      else if c = 0x13 then Some (if shift \<or> ed_file_path ed = None then save_as dk ed else save dk ed)
      else if c = 0x16 then paste dk ed
      else if c = 0x12 then Some ed
      else if c = 0x18 then cut dk ed
      else if c = 0x19 then redo ed
      else if c = 0x1A then undo ed
      else if c = 0x0D then insert_newline ed
      else if c = 0x0A then Some ed
      else if c = 0x09 then soft_tab ed
      else if c = 0x08 then backspace ed
      else if c < 0x20 then Some ed
      else insert_char c ed)"

text \<open>Modifier keys are read when a message is handled.\<close>

datatype message =
    WmSize nat
  | WmLButtonDown nat nat bool
  | WmMouseMove bool nat nat
  | WmLButtonUp
  | WmMouseWheel int
  | WmKeyDown key bool bool
  | WmCommand edit_command
  | WmChar u32 bool
  | WmLoadPath file_path "u8 list option"

fun wnd_proc :: "desktop \<Rightarrow> message \<Rightarrow> editor \<Rightarrow> editor option" where
  "wnd_proc dk (WmSize visible) ed = Some (ed\<lparr>ed_visible := visible\<rparr>)"
| "wnd_proc dk (WmLButtonDown row_off display_col shift) ed =
     Some ((click row_off display_col shift ed)\<lparr>ed_selecting_drag := True\<rparr>)"
| "wnd_proc dk (WmMouseMove down row_off display_col) ed =
     Some (if ed_selecting_drag ed \<and> down then drag_to row_off display_col ed
           else if ed_selecting_drag ed then ed\<lparr>ed_selecting_drag := False\<rparr>
           else ed)"
| "wnd_proc dk WmLButtonUp ed = Some (if ed_selecting_drag ed then ed\<lparr>ed_selecting_drag := False\<rparr> else ed)"
| "wnd_proc dk (WmMouseWheel delta) ed = Some (wheel delta ed)"
| "wnd_proc dk (WmKeyDown vk shift ctrl) ed = handle_key dk shift ctrl vk ed"
| "wnd_proc dk (WmCommand cmd) ed = handle_edit_menu dk cmd ed"
| "wnd_proc dk (WmChar c shift) ed = (if is_scalar_value c then handle_char dk shift c ed else Some ed)"
| "wnd_proc dk (WmLoadPath path contents) ed = load_from path contents ed"

text \<open>The messages a window handles, each with the desktop at its time.\<close>

fun run_messages :: "(desktop \<times> message) list \<Rightarrow> editor \<Rightarrow> editor option" where
  "run_messages [] ed = Some ed"
| "run_messages ((dk, msg) # msgs) ed = do { ed' \<leftarrow> wnd_proc dk msg ed; run_messages msgs ed' }"

end
