(* ===== verification/Editor_Correct.thy ===== *)
theory Editor_Correct
  imports Editor_Window Rope_Correct
begin

text \<open>
  The editor against its flat text: no message makes it panic, undo and redo lead through the texts that
  were there, the mark for unsaved changes is reliable, tab columns and files read back, and one way to
  spoil the redo stack.
\<close>

abbreviation ed_text :: "editor \<Rightarrow> u32 list" where
  "ed_text ed \<equiv> rope_text (ed_buffer ed)"

abbreviation ed_ok :: "editor \<Rightarrow> bool" where
  "ed_ok ed \<equiv> rope_ok (root (ed_buffer ed))"

section \<open>Stacks of invertible edits\<close>

text \<open>
  Undoing the entries of a stack one after the other leads from \<open>t\<close> to \<open>t0\<close>; redoing them is possible
  at \<open>t\<close>.
\<close>

fun undoes :: "('op \<Rightarrow> 't \<Rightarrow> 't) \<Rightarrow> ('op \<Rightarrow> 't \<Rightarrow> bool) \<Rightarrow> 'op list \<Rightarrow> 't \<Rightarrow> 't \<Rightarrow> bool" where
  "undoes undone fits [] t0 t \<longleftrightarrow> t = t0"
| "undoes undone fits (op # ops) t0 t \<longleftrightarrow> fits op t \<and> undoes undone fits ops t0 (undone op t)"

fun redoes :: "('op \<Rightarrow> 't \<Rightarrow> 't) \<Rightarrow> ('op \<Rightarrow> 't \<Rightarrow> 't) \<Rightarrow> ('op \<Rightarrow> 't \<Rightarrow> bool) \<Rightarrow> 'op list \<Rightarrow> 't \<Rightarrow> bool" where
  "redoes undone redone fits [] t \<longleftrightarrow> True"
| "redoes undone redone fits (op # ops) t \<longleftrightarrow>
     fits op (redone op t) \<and> undone op (redone op t) = t \<and> redoes undone redone fits ops (redone op t)"

locale invertible_edits =
  fixes undone redone :: "'op \<Rightarrow> 't \<Rightarrow> 't" and fits :: "'op \<Rightarrow> 't \<Rightarrow> bool"
  assumes redone_undone: "fits op t \<Longrightarrow> redone op (undone op t) = t"
begin

lemma undo_step:
  assumes "undoes undone fits (op # ops) t0 t" "redoes undone redone fits rs t"
  shows "undoes undone fits ops t0 (undone op t) \<and> redoes undone redone fits (op # rs) (undone op t)"
  using assms redone_undone by simp

lemma redo_step:
  assumes "undoes undone fits ops t0 t" "redoes undone redone fits (op # rs) t"
  shows "undoes undone fits (op # ops) t0 (redone op t) \<and> redoes undone redone fits rs (redone op t)"
  using assms by simp

lemma drop_oldest: "undoes undone fits ops t0 t \<Longrightarrow> \<exists>t1. undoes undone fits (butlast ops) t1 t"
  by (induction ops arbitrary: t) auto

end

section \<open>The entries of the editor\<close>

fun op_undone :: "undo_op \<Rightarrow> u32 list \<Rightarrow> u32 list" where
  "op_undone (Inserted s x b a) t = delete_at s (length x) t"
| "op_undone (Deleted s x b a) t = insert_at s x t"
| "op_undone (Replaced s r i b a) t = insert_at s r (delete_at s (length i) t)"

fun op_redone :: "undo_op \<Rightarrow> u32 list \<Rightarrow> u32 list" where
  "op_redone (Inserted s x b a) t = insert_at s x t"
| "op_redone (Deleted s x b a) t = delete_at s (length x) t"
| "op_redone (Replaced s r i b a) t = insert_at s i (delete_at s (length r) t)"

text \<open>The text can be what the entry left behind; its cursors are within the texts.\<close>

fun op_fits :: "undo_op \<Rightarrow> u32 list \<Rightarrow> bool" where
  "op_fits (Inserted s x b a) t \<longleftrightarrow>
     s + length x \<le> length t \<and> slice_of t s (s + length x) = x \<and> b \<le> length t - length x \<and> a \<le> length t"
| "op_fits (Deleted s x b a) t \<longleftrightarrow> s \<le> length t \<and> b \<le> length t + length x \<and> a \<le> length t"
| "op_fits (Replaced s r i b a) t \<longleftrightarrow>
     s + length i \<le> length t \<and> slice_of t s (s + length i) = i \<and> b \<le> length t + length r - length i \<and> a \<le> length t"

lemma length_insert_at [simp]: "length (insert_at s x t) = length t + length x"
  by (simp add: insert_at_def)

lemma length_delete_at [simp]: "s + n \<le> length t \<Longrightarrow> length (delete_at s n t) = length t - n"
  by (simp add: delete_at_def)

lemma delete_insert [simp]: "s \<le> length t \<Longrightarrow> delete_at s (length x) (insert_at s x t) = t"
  by (simp add: insert_at_def delete_at_def)

lemma insert_delete:
  assumes "s + n \<le> length t" "slice_of t s (s + n) = x"
  shows "insert_at s x (delete_at s n t) = t"
proof -
  have "drop s t = x @ drop (s + n) t"
    using assms by (metis add.commute append_take_drop_id drop_drop slice_of_def diff_add_inverse)
  then show ?thesis using assms(1)
    by (simp add: insert_at_def delete_at_def) (metis append_take_drop_id)
qed

interpretation edits: invertible_edits op_undone op_redone op_fits
proof
  fix op t assume "op_fits op t"
  then show "op_redone op (op_undone op t) = t"
    by (cases op) (auto simp: insert_delete)
qed

abbreviation "undoable \<equiv> undoes op_undone op_fits"
abbreviation "redoable \<equiv> redoes op_undone op_redone op_fits"

section \<open>Fields that stay\<close>

lemma ensure_cursor_visible_fields [simp]:
  "ed_buffer (ensure_cursor_visible ed) = ed_buffer ed" "ed_cursor (ensure_cursor_visible ed) = ed_cursor ed"
  "ed_anchor (ensure_cursor_visible ed) = ed_anchor ed" "ed_dirty (ensure_cursor_visible ed) = ed_dirty ed"
  "ed_undo (ensure_cursor_visible ed) = ed_undo ed" "ed_redo (ensure_cursor_visible ed) = ed_redo ed"
  by (simp_all add: ensure_cursor_visible_def Let_def)

lemma keep_column_fields [simp]:
  "ed_buffer (keep_column ed) = ed_buffer ed" "ed_cursor (keep_column ed) = ed_cursor ed"
  "ed_anchor (keep_column ed) = ed_anchor ed" "ed_dirty (keep_column ed) = ed_dirty ed"
  "ed_undo (keep_column ed) = ed_undo ed" "ed_redo (keep_column ed) = ed_redo ed"
  "ed_coalesce (keep_column ed) = ed_coalesce ed"
  by (simp_all add: keep_column_def)

lemma place_cursor_fields [simp]:
  "ed_buffer (place_cursor k ed) = ed_buffer ed" "ed_cursor (place_cursor k ed) = k"
  "ed_anchor (place_cursor k ed) = k" "ed_dirty (place_cursor k ed) = ed_dirty ed"
  "ed_undo (place_cursor k ed) = ed_undo ed" "ed_redo (place_cursor k ed) = ed_redo ed"
  "ed_coalesce (place_cursor k ed) = ed_coalesce ed"
  by (simp_all add: place_cursor_def)

lemma push_undo_fields [simp]:
  "ed_buffer (push_undo op ed) = ed_buffer ed" "ed_cursor (push_undo op ed) = ed_cursor ed"
  "ed_anchor (push_undo op ed) = ed_anchor ed" "ed_dirty (push_undo op ed) = ed_dirty ed"
  "ed_redo (push_undo op ed) = ed_redo ed"
  by (simp_all add: push_undo_def Let_def)

text \<open>What a splice does; \<open>spliced b ed\<close> is the editor with another buffer.\<close>

definition spliced :: "rope_buffer \<Rightarrow> editor \<Rightarrow> editor \<Rightarrow> bool" where
  "spliced b ed ed' \<longleftrightarrow> ed_buffer ed' = b \<and> ed_cursor ed' = ed_cursor ed \<and> ed_anchor ed' = ed_anchor ed \<and>
     ed_dirty ed' = ed_dirty ed \<and> ed_undo ed' = ed_undo ed \<and> ed_redo ed' = ed_redo ed \<and> ed_coalesce ed' = ed_coalesce ed"

lemma splice_in_cps_ok:
  assumes "ed_ok ed"
  obtains ed' b where "splice_in_cps offset x ed = Some (offset + length x, ed')" "spliced b ed ed'" "rope_ok (root b)"
    "rope_text b = insert_at offset x (ed_text ed)"
proof (cases "x = []")
  case True
  with assms show thesis by (intro that [of ed "ed_buffer ed"]) (simp_all add: splice_in_cps_def spliced_def insert_at_def)
next
  case False
  from rope_insert_ok [OF assms, of offset x] obtain b where
    "rope_insert (ed_buffer ed) offset x = Some b" "rope_ok (root b)" "rope_text b = insert_at offset x (ed_text ed)" by blast
  with False show thesis
    by (intro that [of "ed\<lparr>ed_buffer := b, ed_tokens_dirty := True, ed_diagnostics_stale := True\<rparr>" b])
      (simp_all add: splice_in_cps_def spliced_def)
qed

lemma splice_out_ok:
  assumes "ed_ok ed"
  obtains ed' b where "splice_out lo hi ed = Some (slice_of (ed_text ed) lo hi, ed')" "spliced b ed ed'" "rope_ok (root b)"
    "rope_text b = delete_at lo (hi - lo) (ed_text ed)"
proof (cases "lo \<ge> hi")
  case True
  with assms show thesis
    by (intro that [of ed "ed_buffer ed"]) (simp_all add: splice_out_def spliced_def delete_at_def slice_of_def)
next
  case False
  from rope_delete_ok [OF assms, of lo "hi - lo"] obtain b where
    "rope_delete (ed_buffer ed) lo (hi - lo) = Some b" "rope_ok (root b)"
    "rope_text b = delete_at lo (hi - lo) (ed_text ed)" by blast
  with False assms show thesis
    by (intro that [of "ed\<lparr>ed_buffer := b, ed_tokens_dirty := True, ed_diagnostics_stale := True\<rparr>" b])
      (simp_all add: splice_out_def spliced_def rope_slice_ok)
qed

section \<open>What every message keeps\<close>

text \<open>
  The invariant of editing: cursor and anchor lie within the text, the undo stack leads back to \<open>t0\<close>, and
  the redo stack can be replayed.
\<close>

definition editing :: "u32 list \<Rightarrow> editor \<Rightarrow> bool" where
  "editing t0 ed \<longleftrightarrow> ed_ok ed \<and> ed_cursor ed \<le> length (ed_text ed) \<and> ed_anchor ed \<le> length (ed_text ed) \<and>
     undoable (ed_undo ed) t0 (ed_text ed) \<and> redoable (ed_redo ed) (ed_text ed)"

text \<open>
  A step that keeps it and pushes at most \<open>k\<close> entries; \<open>t0\<close> changes only when the oldest entry is
  dropped.
\<close>

definition keeps :: "nat \<Rightarrow> editor \<Rightarrow> editor \<Rightarrow> bool" where
  "keeps k ed ed' \<longleftrightarrow> length (ed_undo ed') \<le> length (ed_undo ed) + k \<and>
     (\<forall>t0. editing t0 ed \<longrightarrow> (\<exists>t1. editing t1 ed' \<and> (length (ed_undo ed) + k \<le> UNDO_CAP \<longrightarrow> t1 = t0)))"

lemma keepsI:
  assumes "length (ed_undo ed') \<le> length (ed_undo ed) + k"
    and "\<And>t0. editing t0 ed \<Longrightarrow> \<exists>t1. editing t1 ed' \<and> (length (ed_undo ed) + k \<le> UNDO_CAP \<longrightarrow> t1 = t0)"
  shows "keeps k ed ed'"
  using assms by (auto simp: keeps_def)

lemma keeps_refl [simp]: "keeps k ed ed"
  by (auto simp: keeps_def)

lemma keeps_trans:
  assumes "keeps j ed ed1" "keeps k ed1 ed2"
  shows "keeps (j + k) ed ed2"
proof (rule keepsI)
  show "length (ed_undo ed2) \<le> length (ed_undo ed) + (j + k)" using assms by (simp add: keeps_def)
next
  fix t0 assume "editing t0 ed"
  with assms(1) obtain t1 where "editing t1 ed1" "length (ed_undo ed) + j \<le> UNDO_CAP \<longrightarrow> t1 = t0"
    by (auto simp: keeps_def)
  moreover with assms(2) obtain t2 where "editing t2 ed2" "length (ed_undo ed1) + k \<le> UNDO_CAP \<longrightarrow> t2 = t1"
    by (auto simp: keeps_def)
  moreover have "length (ed_undo ed1) \<le> length (ed_undo ed) + j" using assms(1) by (simp add: keeps_def)
  ultimately show "\<exists>t1. editing t1 ed2 \<and> (length (ed_undo ed) + (j + k) \<le> UNDO_CAP \<longrightarrow> t1 = t0)" by auto
qed

lemma keeps_mono: "keeps j ed ed' \<Longrightarrow> j \<le> k \<Longrightarrow> keeps k ed ed'"
  by (fastforce simp: keeps_def)

text \<open>Motions: only the cursor moves.\<close>

lemma keeps_motion:
  assumes "ed_buffer ed' = ed_buffer ed" "ed_undo ed' = ed_undo ed" "ed_redo ed' = ed_redo ed"
    and "ed_ok ed \<Longrightarrow> ed_cursor ed \<le> length (ed_text ed) \<Longrightarrow> ed_anchor ed \<le> length (ed_text ed) \<Longrightarrow>
      ed_cursor ed' \<le> length (ed_text ed) \<and> ed_anchor ed' \<le> length (ed_text ed)"
  shows "keeps 0 ed ed'"
  using assms by (auto simp: keeps_def editing_def)

text \<open>An edit that pushes one entry.\<close>

lemma undo_of_push:
  "ed_undo (push_undo op ed) = (if length (ed_undo ed) < UNDO_CAP then op # ed_undo ed else butlast (op # ed_undo ed))"
  by (simp add: push_undo_def Let_def not_less)

lemma keeps_push:
  assumes undo: "ed_undo ed' = ed_undo (push_undo op ed)"
    and rest: "\<And>t0. editing t0 ed \<Longrightarrow> ed_ok ed' \<and> ed_cursor ed' \<le> length (ed_text ed') \<and> ed_anchor ed' \<le> length (ed_text ed') \<and>
      ed_redo ed' = [] \<and> op_fits op (ed_text ed') \<and> op_undone op (ed_text ed') = ed_text ed"
  shows "keeps 1 ed ed'"
proof (rule keepsI)
  show "length (ed_undo ed') \<le> length (ed_undo ed) + 1" by (simp add: undo undo_of_push)
next
  fix t0 assume e: "editing t0 ed"
  note fits = rest [OF e]
  from e fits have stack: "undoable (op # ed_undo ed) t0 (ed_text ed')" by (simp add: editing_def)
  from edits.drop_oldest [OF this] obtain t1 where "undoable (butlast (op # ed_undo ed)) t1 (ed_text ed')" by blast
  with stack fits show "\<exists>t1. editing t1 ed' \<and> (length (ed_undo ed) + 1 \<le> UNDO_CAP \<longrightarrow> t1 = t0)"
    unfolding editing_def undo undo_of_push by (cases "length (ed_undo ed) < UNDO_CAP") (auto simp del: butlast.simps)
qed

lemma slice_of_whole: "s \<le> length t \<Longrightarrow> slice_of (insert_at s x t) s (s + length x) = x"
  by (simp add: slice_of_def insert_at_def)

lemma length_slice_of: "length (slice_of t lo hi) = min hi (length t) - lo"
  by (simp add: slice_of_def min_def) arith

text \<open>Deleting a range.\<close>

lemma deleted_fits:
  assumes "lo \<le> hi" "hi \<le> length t" "b \<le> length t" "a \<le> length t - (hi - lo)"
  shows "op_fits (Deleted lo (slice_of t lo hi) b a) (delete_at lo (hi - lo) t) \<and>
    op_undone (Deleted lo (slice_of t lo hi) b a) (delete_at lo (hi - lo) t) = t"
proof -
  have "length (slice_of t lo hi) = hi - lo" using assms by (simp add: slice_of_def)
  with assms insert_delete [of lo "hi - lo" t "slice_of t lo hi"] show ?thesis by simp
qed

lemma inserted_fits:
  assumes "s \<le> length t" "b \<le> length t" "a \<le> length t + length x"
  shows "op_fits (Inserted s x b a) (insert_at s x t) \<and> op_undone (Inserted s x b a) (insert_at s x t) = t"
  using assms by (simp add: slice_of_whole)

lemma selection_bounds:
  "selection_range ed = Some (lo, hi) \<Longrightarrow> lo \<le> hi \<and> lo \<in> {ed_cursor ed, ed_anchor ed} \<and> hi \<in> {ed_cursor ed, ed_anchor ed}"
  by (auto simp: selection_range_def split: if_splits)

text \<open>
  Deleting the selection, before the redo stack is emptied by its callers.
\<close>

lemma delete_selection_ok:
  assumes "ed_ok ed"
  obtains deleted ed' where "delete_selection_to_undo ed = Some (deleted, ed')" "ed_ok ed'"
    "deleted \<longleftrightarrow> selection_range ed \<noteq> None" "\<not> deleted \<longrightarrow> ed' = ed"
    "deleted \<longrightarrow> keeps 1 ed (ed'\<lparr>ed_redo := []\<rparr>)" "deleted \<longrightarrow> ed_dirty ed'"
proof (cases "selection_range ed")
  case None
  with assms show thesis by (intro that [of False ed]) (simp_all add: delete_selection_to_undo_def)
next
  case (Some range)
  obtain lo hi where range: "range = (lo, hi)" by fastforce
  note sel = Some [unfolded range]
  obtain ed1 b where s: "splice_out lo hi ed = Some (slice_of (ed_text ed) lo hi, ed1)" "spliced b ed ed1" "rope_ok (root b)"
    "rope_text b = delete_at lo (hi - lo) (ed_text ed)" by (rule splice_out_ok [OF assms])
  let ?op = "Deleted lo (slice_of (ed_text ed) lo hi) (ed_cursor ed) lo"
  let ?ed = "(push_undo ?op ((place_cursor lo ed1)\<lparr>ed_dirty := True\<rparr>))\<lparr>ed_coalesce := None\<rparr>"
  have run: "delete_selection_to_undo ed = Some (True, ?ed)" by (simp add: delete_selection_to_undo_def sel s(1) Let_def)
  have "keeps 1 ed (?ed\<lparr>ed_redo := []\<rparr>)"
  proof (rule keeps_push)
    show "ed_undo (?ed\<lparr>ed_redo := []\<rparr>) = ed_undo (push_undo ?op ed)" using s(2) by (simp add: undo_of_push spliced_def)
  next
    fix t0 assume e: "editing t0 ed"
    have within: "lo \<le> hi" "hi \<le> length (ed_text ed)" "lo \<le> length (ed_text ed) - (hi - lo)"
      using selection_bounds [OF sel] e by (auto simp: editing_def)
    with e deleted_fits [of lo hi "ed_text ed" "ed_cursor ed" lo]
    show "ed_ok (?ed\<lparr>ed_redo := []\<rparr>) \<and> ed_cursor (?ed\<lparr>ed_redo := []\<rparr>) \<le> length (ed_text (?ed\<lparr>ed_redo := []\<rparr>)) \<and>
        ed_anchor (?ed\<lparr>ed_redo := []\<rparr>) \<le> length (ed_text (?ed\<lparr>ed_redo := []\<rparr>)) \<and> ed_redo (?ed\<lparr>ed_redo := []\<rparr>) = [] \<and>
        op_fits ?op (ed_text (?ed\<lparr>ed_redo := []\<rparr>)) \<and> op_undone ?op (ed_text (?ed\<lparr>ed_redo := []\<rparr>)) = ed_text ed"
      using s(2-4) by (simp add: spliced_def editing_def del: op_fits.simps op_undone.simps)
  qed
  with run s(2,3) sel show thesis by (intro that [of True ?ed]) (simp_all add: spliced_def)
qed

lemma slice_split:
  assumes "p + length x \<le> length t" "slice_of t p (p + length x) = x"
  obtains u v where "t = u @ x @ v" "length u = p"
proof (rule that)
  have "drop p t = x @ drop (p + length x) t"
    using assms by (metis add.commute append_take_drop_id drop_drop slice_of_def diff_add_inverse)
  then show "t = take p t @ x @ drop (p + length x) t" by (metis append_take_drop_id)
qed (use assms in simp)

lemma grow_inserted:
  assumes "op_fits (Inserted p x c a) t"
  shows "op_fits (Inserted p (x @ y) c (p + length x + length y)) (insert_at (p + length x) y t) \<and>
    op_undone (Inserted p (x @ y) c (p + length x + length y)) (insert_at (p + length x) y t) = op_undone (Inserted p x c a) t"
proof -
  from assms obtain u v where t: "t = u @ x @ v" "length u = p" by (auto elim: slice_split)
  with assms show ?thesis by (auto simp: slice_of_def insert_at_def delete_at_def)
qed

lemma do_insert_ok:
  assumes "ed_ok ed0"
  obtains ed' where "do_insert text coalesce ed0 = Some ed'" "ed_ok ed'"
    "utf8_to_codepoints (str_bytes text) \<noteq> [] \<longrightarrow> keeps 2 ed0 ed' \<and> ed_dirty ed'"
    "ed_dirty ed' \<or> ed' = ed0"
proof -
  let ?cps = "utf8_to_codepoints (str_bytes text)"
  obtain deleted ed where sel: "delete_selection_to_undo ed0 = Some (deleted, ed)" "ed_ok ed"
    "deleted \<longleftrightarrow> selection_range ed0 \<noteq> None" "\<not> deleted \<longrightarrow> ed = ed0" "deleted \<longrightarrow> keeps 1 ed0 (ed\<lparr>ed_redo := []\<rparr>)"
    "deleted \<longrightarrow> ed_dirty ed"
    by (rule delete_selection_ok [OF assms])
  have first: "(if selection_range ed0 \<noteq> None then delete_selection_to_undo ed0 else Some (False, ed0)) = Some (deleted, ed)"
    using sel by auto
  show thesis
  proof (cases "?cps = []")
    case True
    then have "do_insert text coalesce ed0 = Some ed" by (simp add: do_insert_def first del: not_None_eq)
    with True sel show thesis by (intro that [of ed]) auto
  next
    case False
    let ?start = "ed_cursor ed" and ?fin = "ed_cursor ed + length ?cps"
    obtain ed1 b where s: "splice_in_cps ?start ?cps ed = Some (?fin, ed1)" "spliced b ed ed1" "rope_ok (root b)"
      "rope_text b = insert_at ?start ?cps (ed_text ed)" by (rule splice_in_cps_ok [OF sel(2)])
    let ?ed2 = "(place_cursor ?fin ed1)\<lparr>ed_dirty := True, ed_redo := []\<rparr>"
    let ?last = "coalesce = Some CoalesceInsert \<and> ed_coalesce ?ed2 = Some CoalesceInsert \<and> inserted_up_to ?start (ed_undo ?ed2)"
    let ?ed3 = "if ?last then ?ed2\<lparr>ed_undo := extend_inserted ?cps ?fin (ed_undo ?ed2)\<rparr>
      else push_undo (Inserted ?start ?cps ?start ?fin) ?ed2"
    let ?ed' = "ensure_cursor_visible (?ed3\<lparr>ed_coalesce := coalesce\<rparr>)"
    have run: "do_insert text coalesce ed0 = Some ?ed'"
      using False by (simp add: do_insert_def first s(1) Let_def del: not_None_eq)
    have fields: "ed_buffer ?ed' = b" "ed_cursor ?ed' = ?fin" "ed_anchor ?ed' = ?fin" "ed_dirty ?ed'" "ed_redo ?ed' = []"
      using s(2) by (simp_all add: spliced_def)
    have step: "keeps 1 (ed\<lparr>ed_redo := []\<rparr>) ?ed'"
    proof (cases ?last)
      case False
      then show ?thesis
      proof (intro keeps_push [where op = "Inserted ?start ?cps ?start ?fin"])
        show "ed_undo ?ed' = ed_undo (push_undo (Inserted ?start ?cps ?start ?fin) (ed\<lparr>ed_redo := []\<rparr>))"
          using False s(2) by (auto simp: undo_of_push spliced_def)
      next
        fix t0 assume e: "editing t0 (ed\<lparr>ed_redo := []\<rparr>)"
        then have "?start \<le> length (ed_text ed)" by (simp add: editing_def)
        with inserted_fits [of ?start "ed_text ed" ?start ?fin ?cps]
        show "ed_ok ?ed' \<and> ed_cursor ?ed' \<le> length (ed_text ?ed') \<and> ed_anchor ?ed' \<le> length (ed_text ?ed') \<and> ed_redo ?ed' = [] \<and>
            op_fits (Inserted ?start ?cps ?start ?fin) (ed_text ?ed') \<and>
            op_undone (Inserted ?start ?cps ?start ?fin) (ed_text ?ed') = ed_text (ed\<lparr>ed_redo := []\<rparr>)"
          unfolding fields using s(3,4) by (simp del: op_fits.simps op_undone.simps)
      qed
    next
      case True
      then obtain p x c a ops where top: "ed_undo ed = Inserted p x c a # ops" "p + length x = ?start"
        using s(2) by (cases "(?start, ed_undo ?ed2)" rule: inserted_up_to.cases) (auto simp: spliced_def)
      have undo: "ed_undo ?ed' = Inserted p (x @ ?cps) c ?fin # ops"
        using True top(1) s(2) by (simp add: spliced_def)
      show ?thesis
      proof (rule keeps_mono [of 0], rule keepsI)
        fix t0 assume e: "editing t0 (ed\<lparr>ed_redo := []\<rparr>)"
        let ?t = "ed_text ed"
        have fits: "op_fits (Inserted p x c a) ?t" "undoable ops t0 (op_undone (Inserted p x c a) ?t)" "?start \<le> length ?t"
          using e top(1) by (simp_all add: editing_def)
        note grown = grow_inserted [OF fits(1), of ?cps, unfolded top(2)]
        from fits(2) grown have "editing t0 ?ed'"
          unfolding editing_def fields undo using s(3,4) fits(3) by (simp del: op_fits.simps op_undone.simps)
        then show "\<exists>t1. editing t1 ?ed' \<and> (length (ed_undo (ed\<lparr>ed_redo := []\<rparr>)) + 0 \<le> UNDO_CAP \<longrightarrow> t1 = t0)" by blast
      next
        show "length (ed_undo ?ed') \<le> length (ed_undo (ed\<lparr>ed_redo := []\<rparr>)) + 0" unfolding undo by (simp add: top(1))
      qed simp
    qed
    have "keeps 2 ed0 ?ed'"
    proof (cases deleted)
      case True
      with sel(5) have "keeps 1 ed0 (ed\<lparr>ed_redo := []\<rparr>)" by blast
      from keeps_trans [OF this step] show ?thesis by (rule keeps_mono) simp
    next
      case False
      have "keeps 0 ed (ed\<lparr>ed_redo := []\<rparr>)" by (auto simp: keeps_def editing_def)
      from keeps_trans [OF this step] have "keeps 2 ed ?ed'" by (rule keeps_mono) simp
      with False sel(4) show ?thesis by blast
    qed
    moreover have "ed_ok ?ed'" unfolding fields by (rule s(3))
    ultimately show thesis using that [OF run] fields(4) by blast
  qed
qed

text \<open>
  One step of the editor: the rope stays well-formed, a plain step keeps the invariant, and a text that differs
  from the one before is marked as unsaved.
\<close>

definition good_step :: "bool \<Rightarrow> editor \<Rightarrow> editor \<Rightarrow> bool" where
  "good_step p ed ed' \<longleftrightarrow> ed_ok ed' \<and> (p \<longrightarrow> keeps 2 ed ed') \<and>
     (ed_dirty ed' \<or> \<not> ed_dirty ed \<and> ed_text ed' = ed_text ed)"

lemma good_step_refl [simp]: "ed_ok ed \<Longrightarrow> good_step p ed ed"
  by (auto simp: good_step_def)

lemma insert_good:
  assumes "ed_ok ed" "p \<Longrightarrow> utf8_to_codepoints (str_bytes text) \<noteq> []"
  shows "\<exists>ed'. do_insert text coalesce ed = Some ed' \<and> good_step p ed ed'"
proof -
  obtain ed' where "do_insert text coalesce ed = Some ed'" "ed_ok ed'"
    "utf8_to_codepoints (str_bytes text) \<noteq> [] \<longrightarrow> keeps 2 ed ed' \<and> ed_dirty ed'" "ed_dirty ed' \<or> ed' = ed"
    by (rule do_insert_ok [OF assms(1)])
  with assms(2) show ?thesis by (auto simp: good_step_def)
qed

lemma good_step_fields:
  assumes "good_step p ed ed1" "ed_buffer ed' = ed_buffer ed1" "ed_cursor ed' = ed_cursor ed1" "ed_anchor ed' = ed_anchor ed1"
    "ed_undo ed' = ed_undo ed1" "ed_redo ed' = ed_redo ed1" "ed_dirty ed' = ed_dirty ed1"
  shows "good_step p ed ed'"
proof -
  have "editing t ed' = editing t ed1" for t using assms(2-6) by (simp add: editing_def)
  with assms show ?thesis by (simp add: good_step_def keeps_def)
qed

lemma deleted_selection_good:
  assumes "delete_selection_to_undo ed0 = Some (deleted, ed)" "ed_ok ed0" "selection_range ed0 \<noteq> None"
    and "ed_buffer ed' = ed_buffer ed" "ed_cursor ed' = ed_cursor ed" "ed_anchor ed' = ed_anchor ed" "ed_undo ed' = ed_undo ed"
    "ed_redo ed' = []" "ed_dirty ed' = ed_dirty ed"
  shows "good_step p ed0 ed'"
proof -
  obtain deleted' ed'' where sel: "delete_selection_to_undo ed0 = Some (deleted', ed'')" "ed_ok ed''"
    "deleted' \<longleftrightarrow> selection_range ed0 \<noteq> None" "\<not> deleted' \<longrightarrow> ed'' = ed0" "deleted' \<longrightarrow> keeps 1 ed0 (ed''\<lparr>ed_redo := []\<rparr>)"
    "deleted' \<longrightarrow> ed_dirty ed''" by (rule delete_selection_ok [OF assms(2)])
  with assms(1,3) have "ed_ok ed" "keeps 1 ed0 (ed\<lparr>ed_redo := []\<rparr>)" "ed_dirty ed" by simp_all
  then have "good_step p ed0 (ed\<lparr>ed_redo := []\<rparr>)" by (auto simp: good_step_def intro: keeps_mono)
  then show ?thesis by (rule good_step_fields) (use assms(4-9) in simp_all)
qed

lemma grow_deleted:
  assumes "op_fits (Deleted s x b a) t" "0 < s" "y = slice_of t (s - 1) s"
  shows "op_fits (Deleted (s - 1) (y @ x) b (s - 1)) (delete_at (s - 1) 1 t) \<and>
    op_undone (Deleted (s - 1) (y @ x) b (s - 1)) (delete_at (s - 1) 1 t) = op_undone (Deleted s x b a) t"
proof -
  obtain k where s: "s = Suc k" using assms(2) by (cases s) simp
  have y: "y = [t ! k]" "drop k t = t ! k # drop s t" "take s t = take k t @ [t ! k]"
    using assms(1,3) by (simp_all add: s slice_of_def Cons_nth_drop_Suc take_Suc_conv_app_nth)
  show ?thesis
    using assms(1) y by (simp add: s insert_at_def delete_at_def min_def) arith
qed

lemma backspace_good:
  assumes "ed_ok ed0"
  shows "\<exists>ed'. backspace ed0 = Some ed' \<and> good_step p ed0 ed'"
proof -
  obtain deleted ed where sel: "delete_selection_to_undo ed0 = Some (deleted, ed)" "ed_ok ed"
    "deleted \<longleftrightarrow> selection_range ed0 \<noteq> None" "\<not> deleted \<longrightarrow> ed = ed0" "deleted \<longrightarrow> keeps 1 ed0 (ed\<lparr>ed_redo := []\<rparr>)"
    "deleted \<longrightarrow> ed_dirty ed" by (rule delete_selection_ok [OF assms])
  consider "deleted" | "\<not> deleted" "ed_cursor ed = 0" | "\<not> deleted" "0 < ed_cursor ed" by auto
  then show ?thesis
  proof cases
    case 1
    with sel have "good_step p ed0 (ensure_cursor_visible (ed\<lparr>ed_redo := []\<rparr>))"
      by (intro deleted_selection_good [OF sel(1) assms]) simp_all
    with 1 sel(1) show ?thesis by (simp add: backspace_def)
  next
    case 2
    with sel assms show ?thesis by (simp add: backspace_def)
  next
    case 3
    let ?fin = "ed_cursor ed0"
    let ?start = "?fin - 1"
    have ed: "ed = ed0" and pos: "0 < ?fin" using 3 sel(4) by simp_all
    obtain ed1 b where s: "splice_out ?start ?fin ed0 = Some (slice_of (ed_text ed0) ?start ?fin, ed1)" "spliced b ed0 ed1"
      "rope_ok (root b)" "rope_text b = delete_at ?start (?fin - ?start) (ed_text ed0)" by (rule splice_out_ok [OF assms])
    let ?removed = "slice_of (ed_text ed0) ?start ?fin"
    let ?ed2 = "(place_cursor ?start ed1)\<lparr>ed_dirty := True, ed_redo := []\<rparr>"
    let ?last = "ed_coalesce ?ed2 = Some CoalesceBackspace \<and> deleted_from ?fin (ed_undo ?ed2)"
    let ?op = "Deleted ?start ?removed ?fin ?start"
    let ?ed3 = "if ?last then ?ed2\<lparr>ed_undo := extend_deleted ?removed ?start (ed_undo ?ed2)\<rparr> else push_undo ?op ?ed2"
    let ?ed' = "ensure_cursor_visible (?ed3\<lparr>ed_coalesce := Some CoalesceBackspace\<rparr>)"
    have run: "backspace ed0 = Some ?ed'" using 3 pos sel(1) s(1) by (simp add: backspace_def ed Let_def)
    have fields: "ed_buffer ?ed' = b" "ed_cursor ?ed' = ?start" "ed_anchor ?ed' = ?start" "ed_dirty ?ed'" "ed_redo ?ed' = []"
      using s(2) by (simp_all add: spliced_def)
    have one: "?fin - ?start = 1" using pos by simp
    have "keeps 1 ed0 ?ed'"
    proof (cases ?last)
      case False
      show ?thesis
      proof (rule keeps_push)
        show "ed_undo ?ed' = ed_undo (push_undo ?op ed0)" using False s(2) by (auto simp: undo_of_push spliced_def)
      next
        fix t0 assume "editing t0 ed0"
        then have "?fin \<le> length (ed_text ed0)" by (simp add: editing_def)
        with pos deleted_fits [of ?start ?fin "ed_text ed0" ?fin ?start]
        show "ed_ok ?ed' \<and> ed_cursor ?ed' \<le> length (ed_text ?ed') \<and> ed_anchor ?ed' \<le> length (ed_text ?ed') \<and> ed_redo ?ed' = [] \<and>
            op_fits ?op (ed_text ?ed') \<and> op_undone ?op (ed_text ?ed') = ed_text ed0"
          unfolding fields using s(3,4) by (simp del: op_fits.simps op_undone.simps)
      qed
    next
      case True
      then obtain x c a ops where top: "ed_undo ed0 = Deleted ?fin x c a # ops"
        using s(2) by (cases "(?fin, ed_undo ?ed2)" rule: deleted_from.cases) (auto simp: spliced_def)
      have undo: "ed_undo ?ed' = Deleted ?start (?removed @ x) c ?start # ops"
        using True top s(2) by (simp add: spliced_def)
      show ?thesis
      proof (rule keeps_mono [of 0], rule keepsI)
        fix t0 assume e: "editing t0 ed0"
        have fits: "op_fits (Deleted ?fin x c a) (ed_text ed0)" "undoable ops t0 (op_undone (Deleted ?fin x c a) (ed_text ed0))"
          "?fin \<le> length (ed_text ed0)"
          using e top by (simp_all add: editing_def)
        from fits(2) grow_deleted [OF fits(1) pos refl] have "editing t0 ?ed'"
          unfolding editing_def fields undo using s(3,4) fits(3) pos one by (simp del: op_fits.simps op_undone.simps)
        then show "\<exists>t1. editing t1 ?ed' \<and> (length (ed_undo ed0) + 0 \<le> UNDO_CAP \<longrightarrow> t1 = t0)" by blast
      next
        show "length (ed_undo ?ed') \<le> length (ed_undo ed0) + 0" unfolding undo by (simp add: top)
      qed simp
    qed
    then have "keeps 2 ed0 ?ed'" by (rule keeps_mono) simp
    moreover have "ed_ok ?ed'" unfolding fields by (rule s(3))
    ultimately have "good_step p ed0 ?ed'" unfolding good_step_def using fields(4) by blast
    with run show ?thesis by blast
  qed
qed

lemma delete_forward_good:
  assumes "ed_ok ed0"
  shows "\<exists>ed'. delete_forward ed0 = Some ed' \<and> good_step p ed0 ed'"
proof -
  obtain deleted ed where sel: "delete_selection_to_undo ed0 = Some (deleted, ed)" "ed_ok ed"
    "deleted \<longleftrightarrow> selection_range ed0 \<noteq> None" "\<not> deleted \<longrightarrow> ed = ed0" "deleted \<longrightarrow> keeps 1 ed0 (ed\<lparr>ed_redo := []\<rparr>)"
    "deleted \<longrightarrow> ed_dirty ed" by (rule delete_selection_ok [OF assms])
  let ?start = "ed_cursor ed0"
  consider "deleted" | "\<not> deleted" "rope_len (ed_buffer ed) \<le> ed_cursor ed" | "\<not> deleted" "?start < rope_len (ed_buffer ed0)"
    using sel(4) by fastforce
  then show ?thesis
  proof cases
    case 1
    with sel have "good_step p ed0 (ensure_cursor_visible (ed\<lparr>ed_redo := []\<rparr>))"
      by (intro deleted_selection_good [OF sel(1) assms]) simp_all
    with 1 sel(1) show ?thesis by (simp add: delete_forward_def)
  next
    case 2
    with sel assms show ?thesis by (simp add: delete_forward_def)
  next
    case 3
    have ed: "ed = ed0" using 3 sel(4) by simp
    have within: "?start < length (ed_text ed0)" using 3(2) by (simp add: rope_len_ok [OF assms])
    let ?removed = "slice_of (ed_text ed0) ?start (?start + 1)"
    obtain ed1 b where s: "splice_out ?start (?start + 1) ed0 = Some (?removed, ed1)" "spliced b ed0 ed1"
      "rope_ok (root b)" "rope_text b = delete_at ?start (?start + 1 - ?start) (ed_text ed0)" by (rule splice_out_ok [OF assms])
    let ?op = "Deleted ?start ?removed ?start ?start"
    let ?ed' = "push_undo ?op (ed1\<lparr>ed_dirty := True, ed_redo := [], ed_coalesce := None\<rparr>)"
    have run: "delete_forward ed0 = Some ?ed'" using 3 sel(1) s(1) by (simp add: delete_forward_def ed Let_def)
    have fields: "ed_buffer ?ed' = b" "ed_cursor ?ed' = ?start" "ed_anchor ?ed' = ed_anchor ed0" "ed_dirty ?ed'" "ed_redo ?ed' = []"
      using s(2) by (simp_all add: spliced_def)
    have anchor: "ed_anchor ed0 = ?start" using 3(1) sel(3) by (auto simp: selection_range_def split: if_splits)
    have "keeps 1 ed0 ?ed'"
    proof (rule keeps_push)
      show "ed_undo ?ed' = ed_undo (push_undo ?op ed0)" using s(2) by (simp add: undo_of_push spliced_def)
    next
      show "ed_ok ?ed' \<and> ed_cursor ?ed' \<le> length (ed_text ?ed') \<and> ed_anchor ?ed' \<le> length (ed_text ?ed') \<and> ed_redo ?ed' = [] \<and>
          op_fits ?op (ed_text ?ed') \<and> op_undone ?op (ed_text ?ed') = ed_text ed0"
        unfolding fields anchor
        using deleted_fits [of ?start "?start + 1" "ed_text ed0" ?start ?start] within s(3,4)
        by (simp del: op_fits.simps op_undone.simps)
    qed
    then have "keeps 2 ed0 ?ed'" by (rule keeps_mono) simp
    moreover have "ed_ok ?ed'" unfolding fields by (rule s(3))
    ultimately have "good_step p ed0 ?ed'" unfolding good_step_def using fields(4) by blast
    with run show ?thesis by blast
  qed
qed

text \<open>Undo and redo: one entry changes sides.\<close>

lemma undo_edit_ok:
  assumes "ed_ok ed"
  obtains ed' b k where "undo_edit op ed = Some (k, ed')" "spliced b ed ed'" "rope_ok (root b)"
    "rope_text b = op_undone op (ed_text ed)" "op_fits op (ed_text ed) \<longrightarrow> k \<le> length (rope_text b)"
proof (cases op)
  case (Inserted s x c a)
  obtain ed1 b where "splice_out s (s + length x) ed = Some (slice_of (ed_text ed) s (s + length x), ed1)" "spliced b ed ed1"
    "rope_ok (root b)" "rope_text b = delete_at s (s + length x - s) (ed_text ed)" by (rule splice_out_ok [OF assms])
  with Inserted show thesis by (intro that [of c ed1 b]) simp_all
next
  case (Deleted s x c a)
  obtain ed1 b where "splice_in_cps s x ed = Some (s + length x, ed1)" "spliced b ed ed1" "rope_ok (root b)"
    "rope_text b = insert_at s x (ed_text ed)" by (rule splice_in_cps_ok [OF assms])
  with Deleted show thesis by (intro that [of c ed1 b]) simp_all
next
  case (Replaced s r i c a)
  obtain ed1 b where 1: "splice_out s (s + length i) ed = Some (slice_of (ed_text ed) s (s + length i), ed1)" "spliced b ed ed1"
    "rope_ok (root b)" "rope_text b = delete_at s (s + length i - s) (ed_text ed)" by (rule splice_out_ok [OF assms])
  then have "ed_ok ed1" "ed_text ed1 = delete_at s (length i) (ed_text ed)" by (simp_all add: spliced_def)
  then obtain ed2 b2 where 2: "splice_in_cps s r ed1 = Some (s + length r, ed2)" "spliced b2 ed1 ed2" "rope_ok (root b2)"
    "rope_text b2 = insert_at s r (delete_at s (length i) (ed_text ed))" by (metis splice_in_cps_ok)
  from 1 2 Replaced show thesis by (intro that [of c ed2 b2]) (simp_all add: spliced_def)
qed

lemma redo_edit_ok:
  assumes "ed_ok ed"
  obtains ed' b k where "redo_edit op ed = Some (k, ed')" "spliced b ed ed'" "rope_ok (root b)"
    "rope_text b = op_redone op (ed_text ed)" "op_fits op (rope_text b) \<longrightarrow> k \<le> length (rope_text b)"
proof (cases op)
  case (Inserted s x c a)
  obtain ed1 b where "splice_in_cps s x ed = Some (s + length x, ed1)" "spliced b ed ed1" "rope_ok (root b)"
    "rope_text b = insert_at s x (ed_text ed)" by (rule splice_in_cps_ok [OF assms])
  with Inserted show thesis by (intro that [of a ed1 b]) simp_all
next
  case (Deleted s x c a)
  obtain ed1 b where "splice_out s (s + length x) ed = Some (slice_of (ed_text ed) s (s + length x), ed1)" "spliced b ed ed1"
    "rope_ok (root b)" "rope_text b = delete_at s (s + length x - s) (ed_text ed)" by (rule splice_out_ok [OF assms])
  with Deleted show thesis by (intro that [of a ed1 b]) simp_all
next
  case (Replaced s r i c a)
  obtain ed1 b where 1: "splice_out s (s + length r) ed = Some (slice_of (ed_text ed) s (s + length r), ed1)" "spliced b ed ed1"
    "rope_ok (root b)" "rope_text b = delete_at s (s + length r - s) (ed_text ed)" by (rule splice_out_ok [OF assms])
  then have "ed_ok ed1" "ed_text ed1 = delete_at s (length r) (ed_text ed)" by (simp_all add: spliced_def)
  then obtain ed2 b2 where 2: "splice_in_cps s i ed1 = Some (s + length i, ed2)" "spliced b2 ed1 ed2" "rope_ok (root b2)"
    "rope_text b2 = insert_at s i (delete_at s (length r) (ed_text ed))" by (metis splice_in_cps_ok)
  from 1 2 Replaced show thesis by (intro that [of a ed2 b2]) (simp_all add: spliced_def)
qed

text \<open>The state after an undo or redo of a nonempty stack.\<close>

lemma undo_run:
  assumes "ed_ok ed" "ed_undo ed = op # ops"
  obtains ed' where "undo ed = Some ed'" "ed_ok ed'" "ed_text ed' = op_undone op (ed_text ed)" "ed_undo ed' = ops"
    "ed_redo ed' = op # ed_redo ed" "ed_dirty ed'" "ed_anchor ed' = ed_cursor ed'"
    "op_fits op (ed_text ed) \<longrightarrow> ed_cursor ed' \<le> length (ed_text ed')"
proof -
  have "ed_ok (ed\<lparr>ed_undo := ops\<rparr>)" using assms(1) by simp
  then obtain ed1 b k where s: "undo_edit op (ed\<lparr>ed_undo := ops\<rparr>) = Some (k, ed1)" "spliced b (ed\<lparr>ed_undo := ops\<rparr>) ed1"
    "rope_ok (root b)" "rope_text b = op_undone op (ed_text (ed\<lparr>ed_undo := ops\<rparr>))"
    "op_fits op (ed_text (ed\<lparr>ed_undo := ops\<rparr>)) \<longrightarrow> k \<le> length (rope_text b)" by (rule undo_edit_ok)
  then show thesis
    by (intro that [of "ensure_cursor_visible ((place_cursor k ed1)\<lparr>ed_dirty := True, ed_coalesce := None, ed_redo := op # ed_redo ed\<rparr>)"])
      (simp_all add: undo_def assms(2) spliced_def)
qed

lemma redo_run:
  assumes "ed_ok ed" "ed_redo ed = op # ops"
  obtains ed' where "redo ed = Some ed'" "ed_ok ed'" "ed_text ed' = op_redone op (ed_text ed)" "ed_redo ed' = ops"
    "ed_undo ed' = op # ed_undo ed" "ed_dirty ed'" "ed_anchor ed' = ed_cursor ed'"
    "op_fits op (ed_text ed') \<longrightarrow> ed_cursor ed' \<le> length (ed_text ed')"
proof -
  have "ed_ok (ed\<lparr>ed_redo := ops\<rparr>)" using assms(1) by simp
  then obtain ed1 b k where s: "redo_edit op (ed\<lparr>ed_redo := ops\<rparr>) = Some (k, ed1)" "spliced b (ed\<lparr>ed_redo := ops\<rparr>) ed1"
    "rope_ok (root b)" "rope_text b = op_redone op (ed_text (ed\<lparr>ed_redo := ops\<rparr>))"
    "op_fits op (rope_text b) \<longrightarrow> k \<le> length (rope_text b)" by (rule redo_edit_ok)
  then show thesis
    by (intro that [of "ensure_cursor_visible ((place_cursor k ed1)\<lparr>ed_dirty := True, ed_coalesce := None, ed_undo := op # ed_undo ed\<rparr>)"])
      (simp_all add: redo_def assms(2) spliced_def)
qed

lemma undo_good:
  assumes "ed_ok ed"
  shows "\<exists>ed'. undo ed = Some ed' \<and> good_step p ed ed'"
proof (cases "ed_undo ed")
  case Nil
  with assms show ?thesis by (simp add: undo_def)
next
  case (Cons op ops)
  obtain ed' where u: "undo ed = Some ed'" "ed_ok ed'" "ed_text ed' = op_undone op (ed_text ed)" "ed_undo ed' = ops"
    "ed_redo ed' = op # ed_redo ed" "ed_dirty ed'" "ed_anchor ed' = ed_cursor ed'"
    "op_fits op (ed_text ed) \<longrightarrow> ed_cursor ed' \<le> length (ed_text ed')" by (rule undo_run [OF assms Cons])
  have "keeps 2 ed ed'"
  proof (rule keepsI)
    fix t0 assume "editing t0 ed"
    with edits.undo_step [of op ops t0 "ed_text ed" "ed_redo ed"] u Cons have "editing t0 ed'"
      by (simp add: editing_def del: redoes.simps)
    then show "\<exists>t1. editing t1 ed' \<and> (length (ed_undo ed) + 2 \<le> UNDO_CAP \<longrightarrow> t1 = t0)" by blast
  qed (simp add: u(4) Cons)
  with u show ?thesis by (auto simp: good_step_def)
qed

lemma redo_good:
  assumes "ed_ok ed"
  shows "\<exists>ed'. redo ed = Some ed' \<and> good_step p ed ed'"
proof (cases "ed_redo ed")
  case Nil
  with assms show ?thesis by (simp add: redo_def)
next
  case (Cons op ops)
  obtain ed' where u: "redo ed = Some ed'" "ed_ok ed'" "ed_text ed' = op_redone op (ed_text ed)" "ed_redo ed' = ops"
    "ed_undo ed' = op # ed_undo ed" "ed_dirty ed'" "ed_anchor ed' = ed_cursor ed'"
    "op_fits op (ed_text ed') \<longrightarrow> ed_cursor ed' \<le> length (ed_text ed')" by (rule redo_run [OF assms Cons])
  have "keeps 2 ed ed'"
  proof (rule keepsI)
    fix t0 assume "editing t0 ed"
    with edits.redo_step [of "ed_undo ed" t0 "ed_text ed" op ops] u Cons have "editing t0 ed'"
      by (simp add: editing_def)
    then show "\<exists>t1. editing t1 ed' \<and> (length (ed_undo ed) + 2 \<le> UNDO_CAP \<longrightarrow> t1 = t0)" by blast
  qed (simp add: u(5))
  with u show ?thesis by (auto simp: good_step_def)
qed

text \<open>An edit of a range as one entry.\<close>

lemma replace_good:
  assumes "ed_ok ed" "start \<le> fin" "fin \<le> rope_len (ed_buffer ed)" "cursor_after \<le> rope_len (ed_buffer ed) - (fin - start) + length new"
  shows "\<exists>ed'. do_replace start fin new cursor_after ed = Some ed' \<and> good_step p ed ed'"
proof -
  let ?removed = "slice_of (ed_text ed) start fin"
  have len: "rope_len (ed_buffer ed) = length (ed_text ed)" by (rule rope_len_ok [OF assms(1)])
  obtain ed1 b where 1: "splice_out start fin ed = Some (?removed, ed1)" "spliced b ed ed1" "rope_ok (root b)"
    "rope_text b = delete_at start (fin - start) (ed_text ed)" by (rule splice_out_ok [OF assms(1)])
  then have "ed_ok ed1" "ed_text ed1 = delete_at start (fin - start) (ed_text ed)" by (simp_all add: spliced_def)
  then obtain ed2 b2 where 2: "splice_in_cps start new ed1 = Some (start + length new, ed2)" "spliced b2 ed1 ed2"
    "rope_ok (root b2)" "rope_text b2 = insert_at start new (delete_at start (fin - start) (ed_text ed))"
    by (metis splice_in_cps_ok)
  let ?op = "Replaced start ?removed new (ed_cursor ed) cursor_after"
  let ?ed' = "ensure_cursor_visible (push_undo ?op
      ((place_cursor cursor_after ed2)\<lparr>ed_dirty := True, ed_redo := [], ed_coalesce := None\<rparr>))"
  have run: "do_replace start fin new cursor_after ed = Some ?ed'" by (simp add: do_replace_def 1(1) 2(1) Let_def)
  have fields: "ed_buffer ?ed' = b2" "ed_cursor ?ed' = cursor_after" "ed_anchor ?ed' = cursor_after" "ed_dirty ?ed'" "ed_redo ?ed' = []"
    using 2(2) by (simp_all add: spliced_def)
  have removed: "length ?removed = fin - start" using assms(2,3) by (simp add: len slice_of_def)
  have shorter: "length (delete_at start (fin - start) (ed_text ed)) = length (ed_text ed) - (fin - start)"
    using assms(2,3) by (simp add: len)
  have undone: "op_undone ?op (rope_text b2) = ed_text ed"
    unfolding 2(4) using assms(2,3) shorter insert_delete [of start "fin - start" "ed_text ed" ?removed] by (simp add: len)
  have "keeps 1 ed ?ed'"
  proof (rule keeps_push)
    show "ed_undo ?ed' = ed_undo (push_undo ?op ed)" using 1(2) 2(2) by (simp add: undo_of_push spliced_def)
  next
    fix t0 assume "editing t0 ed"
    then have "ed_cursor ed \<le> length (ed_text ed)" by (simp add: editing_def)
    then have "op_fits ?op (rope_text b2) \<and> cursor_after \<le> length (rope_text b2)"
      unfolding 2(4) using assms(2-4) shorter removed slice_of_whole [of start "delete_at start (fin - start) (ed_text ed)" new]
      by (simp add: len)
    with undone show "ed_ok ?ed' \<and> ed_cursor ?ed' \<le> length (ed_text ?ed') \<and> ed_anchor ?ed' \<le> length (ed_text ?ed') \<and> ed_redo ?ed' = [] \<and>
        op_fits ?op (ed_text ?ed') \<and> op_undone ?op (ed_text ?ed') = ed_text ed"
      unfolding fields using 2(3) by blast
  qed
  then have "keeps 2 ed ?ed'" by (rule keeps_mono) simp
  moreover have "ed_ok ?ed'" unfolding fields by (rule 2(3))
  ultimately have "good_step p ed ?ed'" unfolding good_step_def using fields(4) by blast
  with run show ?thesis by blast
qed

section \<open>Motions\<close>

lemma good_motion:
  assumes "ed_ok ed" "ed_buffer ed' = ed_buffer ed" "ed_undo ed' = ed_undo ed" "ed_redo ed' = ed_redo ed" "ed_dirty ed' = ed_dirty ed"
    and "ed_cursor ed \<le> length (ed_text ed) \<Longrightarrow> ed_anchor ed \<le> length (ed_text ed) \<Longrightarrow>
      ed_cursor ed' \<le> length (ed_text ed) \<and> ed_anchor ed' \<le> length (ed_text ed)"
  shows "good_step p ed ed'"
proof -
  have "keeps 0 ed ed'" using assms by (intro keeps_motion) simp_all
  then have "keeps 2 ed ed'" by (rule keeps_mono) simp
  with assms(1,2,5) show ?thesis by (simp add: good_step_def)
qed

text \<open>The cursor goes to a place in the text; the anchor stays or goes along.\<close>

lemma set_cursor_offset_fields [simp]:
  "ed_buffer (set_cursor_offset k x ed) = ed_buffer ed" "ed_undo (set_cursor_offset k x ed) = ed_undo ed"
  "ed_redo (set_cursor_offset k x ed) = ed_redo ed" "ed_dirty (set_cursor_offset k x ed) = ed_dirty ed"
  "ed_cursor (set_cursor_offset k x ed) = min k (rope_len (ed_buffer ed))"
  "ed_anchor (set_cursor_offset k x ed) = (if x then ed_anchor ed else min k (rope_len (ed_buffer ed)))"
  by (simp_all add: set_cursor_offset_def Let_def)

lemma set_cursor_rc_fields [simp]:
  "ed_buffer (set_cursor_rc r c x ed) = ed_buffer ed" "ed_undo (set_cursor_rc r c x ed) = ed_undo ed"
  "ed_redo (set_cursor_rc r c x ed) = ed_redo ed" "ed_dirty (set_cursor_rc r c x ed) = ed_dirty ed"
  "ed_cursor (set_cursor_rc r c x ed) \<le> rope_len (ed_buffer ed)"
  "ed_anchor (set_cursor_rc r c x ed) = (if x then ed_anchor ed else ed_cursor (set_cursor_rc r c x ed))"
  by (simp_all add: set_cursor_rc_def Let_def)

lemmas motion_defs = move_left_def move_right_def move_up_def move_down_def move_home_def move_end_def page_up_def page_down_def
  move_to_row_def select_all_def jump_to_next_diagnostic_def click_def wheel_def Let_def

lemma motions_good:
  assumes "ed_ok ed"
  shows "good_step p ed (move_left x ed)" "good_step p ed (move_right x ed)" "good_step p ed (move_up x ed)"
    "good_step p ed (move_down x ed)" "good_step p ed (move_home x ed)" "good_step p ed (move_end x ed)"
    "good_step p ed (page_up x ed)" "good_step p ed (page_down x ed)" "good_step p ed (select_all ed)"
    "good_step p ed (jump_to_next_diagnostic ed)" "good_step p ed (click r c x ed)" "good_step p ed (wheel d ed)"
proof -
  note set_cursor_rc_fields(5) [of _ _ _ ed, unfolded rope_len_ok [OF assms], simp]
  have len [simp]: "rope_len (ed_buffer ed) = length (ed_text ed)" by (rule rope_len_ok [OF assms])
  show "good_step p ed (move_left x ed)" "good_step p ed (move_right x ed)" "good_step p ed (move_up x ed)"
    "good_step p ed (move_down x ed)" "good_step p ed (move_home x ed)" "good_step p ed (move_end x ed)"
    "good_step p ed (page_up x ed)" "good_step p ed (page_down x ed)" "good_step p ed (select_all ed)"
    "good_step p ed (jump_to_next_diagnostic ed)" "good_step p ed (click r c x ed)" "good_step p ed (wheel d ed)"
    by (rule good_motion [OF assms]; auto simp: motion_defs dest!: selection_bounds split: option.split prod.split)+
qed

lemma char_or_0_ok: "rope_ok (root b) \<Longrightarrow> \<exists>cp. char_or_0 b i = Some cp"
  by (simp add: char_or_0_def rope_char_at_ok)

lemma skip_forward_ok: "rope_ok (root b) \<Longrightarrow> \<exists>j. skip_forward ws b i = Some j"
proof (induction ws b i rule: skip_forward.induct)
  case (1 ws b i)
  obtain cp where "char_or_0 b i = Some cp" using char_or_0_ok [OF 1(2)] by blast
  with 1 show ?case by (subst skip_forward.simps) (simp del: skip_forward.simps)
qed

lemma skip_backward_ok: "rope_ok (root b) \<Longrightarrow> \<exists>j. skip_backward ws b i = Some j"
proof (induction i)
  case (Suc i)
  obtain cp where "char_or_0 b i = Some cp" using char_or_0_ok [OF Suc(2)] by blast
  with Suc show ?case by simp
qed simp

lemma place_good:
  assumes "ed_ok ed"
  shows "good_step p ed (keep_column (set_cursor_offset j x ed))"
  by (rule good_motion [OF assms]) (auto simp: rope_len_ok [OF assms])

lemma word_motions_good:
  assumes "ed_ok ed"
  shows "\<exists>ed'. move_next_word x ed = Some ed' \<and> good_step p ed ed'" "\<exists>ed'. move_prev_word x ed = Some ed' \<and> good_step p ed ed'"
proof -
  obtain i where "skip_forward (\<lambda>cp. \<not> is_ws_cp cp) (ed_buffer ed) (ed_cursor ed) = Some i" using skip_forward_ok assms by blast
  moreover obtain j where "skip_forward is_ws_cp (ed_buffer ed) i = Some j" using skip_forward_ok assms by blast
  ultimately show "\<exists>ed'. move_next_word x ed = Some ed' \<and> good_step p ed ed'"
    using place_good [OF assms] by (simp add: move_next_word_def)
  obtain i' where "skip_backward is_ws_cp (ed_buffer ed) (ed_cursor ed) = Some i'" using skip_backward_ok assms by blast
  moreover obtain j' where "skip_backward (\<lambda>cp. \<not> is_ws_cp cp) (ed_buffer ed) i' = Some j'" using skip_backward_ok assms by blast
  ultimately show "\<exists>ed'. move_prev_word x ed = Some ed' \<and> good_step p ed ed'"
    using place_good [OF assms] by (simp add: move_prev_word_def)
qed

lemma line_bounds: "line_begin cs i \<le> length cs" "line_end cs i \<le> length cs"
  by (auto simp: line_begin_def line_end_def Suc_le_eq dest!: newline_pos_Some split: nat.splits option.splits
      simp del: newline_pos_None)

lemma line_col_within: "rope_ok (root b) \<Longrightarrow> rope_line_col_to_offset b r c \<le> length (rope_text b)"
  using line_bounds [of "rope_text b" r] by (simp add: rope_line_col_to_offset_ok min_def) arith

lemma drag_good:
  assumes "ed_ok ed"
  shows "good_step p ed (drag_to r c ed)"
  using line_col_within [OF assms]
  by (intro good_motion [OF assms]) (simp_all add: drag_to_def Let_def split: prod.split)

section \<open>Keyboard, menu and mouse\<close>

lemma str_bytes_scalar: "\<forall>c\<in>set s. is_scalar_value c \<Longrightarrow> str_bytes s = codepoints_to_utf8 s"
  unfolding str_bytes_def codepoints_to_utf8_scrub by (simp add: scrub_def cong: map_cong)

lemma typed_codepoints:
  assumes "\<forall>c\<in>set s. is_scalar_value c"
  shows "utf8_to_codepoints (str_bytes s) = cr_to_lf (drop_bom s)"
proof -
  have "map scrub s = s" using assms by (induction s) (simp_all add: scrub_def)
  then show ?thesis by (simp add: str_bytes_scalar [OF assms] utf8_round_trip)
qed

lemma typed_not_Nil:
  assumes "\<forall>c\<in>set s. is_scalar_value c" "s \<noteq> []" "s \<noteq> [0xFEFF]"
  shows "utf8_to_codepoints (str_bytes s) \<noteq> []"
  using assms by (cases s; cases "tl s") (auto simp: typed_codepoints drop_bom_def split: list.splits)

lemma indent_chars: "set (compute_auto_indent ed) \<subseteq> {0x20, 0x09}"
  by (auto simp: compute_auto_indent_def Let_def split: prod.splits dest: set_takeWhileD)

lemma newline_good:
  assumes "ed_ok ed"
  shows "\<exists>ed'. insert_newline ed = Some ed' \<and> good_step p ed ed'"
proof -
  have "\<forall>c\<in>set (0x0A # compute_auto_indent ed). is_scalar_value c"
    using indent_chars [of ed] by (auto simp: is_scalar_value_def)
  then show ?thesis unfolding insert_newline_def by (intro insert_good [OF assms] typed_not_Nil) simp_all
qed

lemma tab_good:
  assumes "ed_ok ed"
  shows "\<exists>ed'. soft_tab ed = Some ed' \<and> good_step p ed ed'"
proof -
  have "\<exists>ed'. insert_str (replicate n 0x20) ed = Some ed' \<and> good_step p ed ed'" for n
  proof (cases n)
    case (Suc k)
    then have "\<forall>c\<in>set (replicate n 0x20). is_scalar_value c" "replicate n (0x20 :: u32) \<noteq> []" "replicate n (0x20 :: u32) \<noteq> [0xFEFF]"
      by (auto simp: is_scalar_value_def)
    then show ?thesis unfolding insert_str_def using insert_good [OF assms typed_not_Nil] by simp
  qed (use assms in \<open>simp add: insert_str_def\<close>)
  then show ?thesis by (simp add: soft_tab_def Let_def split: prod.split)
qed

lemma cut_good:
  assumes "ed_ok ed"
  shows "\<exists>ed'. cut dk ed = Some ed' \<and> good_step p ed ed'"
proof (cases "selection_range ed = None \<or> \<not> dk_clipboard_set dk")
  case False
  obtain deleted ed1 where sel: "delete_selection_to_undo ed = Some (deleted, ed1)" "ed_ok ed1"
    "deleted \<longleftrightarrow> selection_range ed \<noteq> None" "\<not> deleted \<longrightarrow> ed1 = ed" "deleted \<longrightarrow> keeps 1 ed (ed1\<lparr>ed_redo := []\<rparr>)"
    "deleted \<longrightarrow> ed_dirty ed1" by (rule delete_selection_ok [OF assms])
  with False have "good_step p ed (ensure_cursor_visible (ed1\<lparr>ed_redo := [], ed_coalesce := None\<rparr>))"
    by (intro deleted_selection_good [OF sel(1) assms]) simp_all
  with False sel(1) show ?thesis by (auto simp: cut_def)
qed (use assms in \<open>simp add: cut_def\<close>)

text \<open>
  Input without a lone byte order mark, which decodes to nothing: typed characters, and clipboard texts of
  characters.
\<close>

definition plain_clipboard :: "desktop \<Rightarrow> bool" where
  "plain_clipboard dk \<longleftrightarrow>
     (\<forall>text. dk_clipboard dk = Some text \<longrightarrow> (\<forall>c\<in>set text. is_scalar_value c) \<and> text \<noteq> [0xFEFF])"

fun plain :: "desktop \<times> message \<Rightarrow> bool" where
  "plain (dk, msg) \<longleftrightarrow> plain_clipboard dk \<and> (case msg of WmChar c shift \<Rightarrow> c \<noteq> 0xFEFF | _ \<Rightarrow> True)"

lemma paste_good:
  assumes "ed_ok ed" "p \<Longrightarrow> plain_clipboard dk"
  shows "\<exists>ed'. paste dk ed = Some ed' \<and> good_step p ed ed'"
proof (cases "dk_clipboard dk")
  case (Some s)
  have "utf8_to_codepoints (str_bytes s) \<noteq> []" if "p" "s \<noteq> []"
    using assms(2) that Some by (intro typed_not_Nil) (auto simp: plain_clipboard_def)
  then show ?thesis using insert_good [OF assms(1)] Some assms(1) by (auto simp: paste_def)
qed (use assms in \<open>simp add: paste_def\<close>)

text \<open>
  What handling a message does. The mark for unsaved changes goes away only when the text has been written to a
  file.
\<close>

definition handled :: "bool \<Rightarrow> desktop \<Rightarrow> editor \<Rightarrow> editor \<Rightarrow> bool" where
  "handled p dk ed ed' \<longleftrightarrow> ed_ok ed' \<and> (p \<longrightarrow> keeps 2 ed ed') \<and>
     (ed_dirty ed' \<or> ed_text ed' = ed_text ed \<and> (\<not> ed_dirty ed \<or> dk_write dk \<and> ed_file_path ed' \<noteq> None))"

lemma good_step_handled: "good_step p ed ed' \<Longrightarrow> handled p dk ed ed'"
  by (auto simp: good_step_def handled_def)

lemma run_check_fields [simp]:
  "ed_buffer (run_check dk ed) = ed_buffer ed" "ed_cursor (run_check dk ed) = ed_cursor ed" "ed_anchor (run_check dk ed) = ed_anchor ed"
  "ed_undo (run_check dk ed) = ed_undo ed" "ed_redo (run_check dk ed) = ed_redo ed" "ed_dirty (run_check dk ed) = ed_dirty ed"
  "ed_file_path (run_check dk ed) = ed_file_path ed"
  by (simp_all add: run_check_def split: option.split)

lemma run_check_good: "ed_ok ed \<Longrightarrow> good_step p ed (run_check dk ed)"
  by (rule good_motion) simp_all

lemma save_to_handled:
  assumes "ed_ok ed"
  shows "handled p dk ed (save_to dk path ed)"
proof -
  have "keeps 0 ed (save_to dk path ed)" by (rule keeps_motion) (simp_all add: save_to_def)
  then have "keeps 2 ed (save_to dk path ed)" by (rule keeps_mono) simp
  with assms show ?thesis by (auto simp: handled_def save_to_def)
qed

lemma save_handled:
  assumes "ed_ok ed"
  shows "handled p dk ed (save dk ed)" "handled p dk ed (save_as dk ed)"
  using assms save_to_handled good_step_handled [OF good_step_refl]
  by (auto simp: save_def save_as_def split: option.split)

lemma handledI: "\<exists>ed'. r = Some ed' \<and> good_step p ed ed' \<Longrightarrow> \<exists>ed'. r = Some ed' \<and> handled p dk ed ed'"
  using good_step_handled by blast

lemma menu_handled:
  assumes "ed_ok ed" "p \<Longrightarrow> plain_clipboard dk"
  shows "\<exists>ed'. handle_edit_menu dk cmd ed = Some ed' \<and> handled p dk ed ed'"
  using assms
  by (cases cmd) (auto intro!: save_handled intro: handledI undo_good redo_good cut_good paste_good word_motions_good
      good_step_handled motions_good)

lemma key_handled:
  assumes "ed_ok ed"
  shows "\<exists>ed'. handle_key dk shift ctrl k ed = Some ed' \<and> handled p dk ed ed'"
  using assms
  by (cases k) (auto intro: handledI cut_good delete_forward_good word_motions_good good_step_handled motions_good run_check_good)

lemma char_handled:
  assumes "ed_ok ed" "is_scalar_value c" "p \<Longrightarrow> plain_clipboard dk \<and> c \<noteq> 0xFEFF"
  shows "\<exists>ed'. handle_char dk shift c ed = Some ed' \<and> handled p dk ed ed'"
proof -
  have "\<exists>ed'. insert_char c ed = Some ed' \<and> good_step p ed ed'"
    unfolding insert_char_def using assms by (intro insert_good typed_not_Nil) auto
  with assms show ?thesis
    by (auto simp: handle_char_def intro!: save_handled intro: handledI undo_good redo_good cut_good paste_good
        good_step_handled motions_good newline_good tab_good backspace_good)
qed

fun loads :: "message \<Rightarrow> bool" where
  "loads (WmLoadPath path contents) \<longleftrightarrow> contents \<noteq> None"
| "loads _ \<longleftrightarrow> False"

lemma message_handled:
  assumes "ed_ok ed" "\<not> loads msg" "p \<Longrightarrow> plain (dk, msg)"
  shows "\<exists>ed'. wnd_proc dk msg ed = Some ed' \<and> handled p dk ed ed'"
proof (cases msg)
  case (WmLButtonDown r c shift)
  have "good_step p ed ((click r c shift ed)\<lparr>ed_selecting_drag := True\<rparr>)"
    by (rule good_step_fields [OF motions_good(11) [OF assms(1)]]) simp_all
  then show ?thesis by (simp add: WmLButtonDown good_step_handled)
next
  case (WmMouseMove down r c)
  have "good_step p ed (ed\<lparr>ed_selecting_drag := False\<rparr>)" by (rule good_motion [OF assms(1)]) simp_all
  with drag_good [OF assms(1)] assms(1) show ?thesis by (simp add: WmMouseMove good_step_handled)
next
  case WmLButtonUp
  have "good_step p ed (ed\<lparr>ed_selecting_drag := False\<rparr>)" by (rule good_motion [OF assms(1)]) simp_all
  with assms(1) show ?thesis by (simp add: WmLButtonUp good_step_handled)
next
  case (WmSize n)
  have "good_step p ed (ed\<lparr>ed_visible := n\<rparr>)" by (rule good_motion [OF assms(1)]) simp_all
  then show ?thesis by (simp add: WmSize good_step_handled)
next
  case (WmMouseWheel d)
  with motions_good(12) [OF assms(1)] show ?thesis by (simp add: good_step_handled)
next
  case (WmKeyDown k shift ctrl)
  with key_handled [OF assms(1)] show ?thesis by simp
next
  case (WmCommand cmd)
  with menu_handled [OF assms(1)] assms(3) show ?thesis by simp
next
  case (WmChar c shift)
  show ?thesis
  proof (cases "is_scalar_value c")
    case True
    with WmChar char_handled [OF assms(1) True] assms(3) show ?thesis by simp
  qed (use WmChar assms(1) in \<open>simp add: good_step_handled\<close>)
next
  case (WmLoadPath path contents)
  with assms(1,2) show ?thesis by (simp add: load_from_def good_step_handled)
qed

text \<open>Loading starts a new history.\<close>

lemma load_run:
  "\<exists>ed'. load_from path (Some bytes) ed = Some ed' \<and> ed_text ed' = utf8_to_codepoints bytes \<and> ed_undo ed' = [] \<and>
     \<not> ed_dirty ed' \<and> editing (ed_text ed') ed'"
proof -
  obtain b where "rope_from_slice (utf8_to_codepoints bytes) = Some b" "rope_ok (root b)" "rope_text b = utf8_to_codepoints bytes"
    using rope_from_slice_ok by blast
  then show ?thesis by (simp add: load_from_def rope_from_utf8_def editing_def)
qed

lemma message_ok:
  assumes "ed_ok ed"
  shows "\<exists>ed'. wnd_proc dk msg ed = Some ed' \<and> ed_ok ed'"
proof (cases "loads msg")
  case True
  then obtain path bytes where "msg = WmLoadPath path (Some bytes)" by (cases msg) auto
  with load_run [of path bytes ed] show ?thesis by (auto simp: editing_def)
next
  case False
  with message_handled [OF assms False, of False dk] show ?thesis by (auto simp: handled_def)
qed

lemma editor_new_ok: "ed_ok editor_new" "editing [] editor_new"
  by (simp_all add: editor_new_def editing_def rope_new_def rope_text_def)

text \<open>
  C8. The editor never panics: whatever messages a window receives, with whatever answers of the desktop, all
  of them are handled, and the rope keeps its caches right.
\<close>

theorem editor_never_panics:
  "\<exists>ed. run_messages msgs editor_new = Some ed \<and> rope_ok (root (ed_buffer ed))"
proof -
  have "ed_ok ed \<Longrightarrow> \<exists>ed'. run_messages msgs ed = Some ed' \<and> ed_ok ed'" for ed
  proof (induction msgs arbitrary: ed)
    case (Cons m msgs)
    obtain dk msg where m: "m = (dk, msg)" by (cases m)
    from message_ok [OF Cons(2)] obtain ed1 where "wnd_proc dk msg ed = Some ed1" "ed_ok ed1" by blast
    with Cons(1) show ?case by (simp add: m)
  qed simp
  with editor_new_ok(1) show ?thesis by blast
qed

section \<open>Undoing everything\<close>

fun repeat_step :: "('s \<Rightarrow> 's option) \<Rightarrow> nat \<Rightarrow> 's \<Rightarrow> 's option" where
  "repeat_step f 0 s = Some s"
| "repeat_step f (Suc n) s = do { s' \<leftarrow> f s; repeat_step f n s' }"

lemma repeat_step_snoc: "repeat_step f n s = Some s1 \<Longrightarrow> f s1 = Some s2 \<Longrightarrow> repeat_step f (Suc n) s = Some s2"
proof (induction n arbitrary: s)
  case (Suc n)
  then obtain s' where "f s = Some s'" "repeat_step f n s' = Some s1" by (cases "f s") auto
  with Suc.IH [of s'] Suc.prems(2) show ?case by simp
qed simp

lemma undo_all:
  assumes "editing t0 ed"
  shows "\<exists>ed1 ed2. repeat_step undo (length (ed_undo ed)) ed = Some ed1 \<and> ed_text ed1 = t0 \<and>
    repeat_step redo (length (ed_undo ed)) ed1 = Some ed2 \<and> ed_text ed2 = ed_text ed \<and> editing t0 ed2 \<and> ed_redo ed2 = ed_redo ed"
  using assms
proof (induction "ed_undo ed" arbitrary: ed)
  case Nil
  from Nil(1) [symmetric] Nil(2) show ?case by (auto simp: editing_def)
next
  case (Cons op ops)
  note stack = Cons(2) [symmetric]
  have ok: "ed_ok ed" using Cons(3) by (simp add: editing_def)
  obtain ed' where u: "undo ed = Some ed'" "ed_ok ed'" "ed_text ed' = op_undone op (ed_text ed)" "ed_undo ed' = ops"
    "ed_redo ed' = op # ed_redo ed" "ed_dirty ed'" "ed_anchor ed' = ed_cursor ed'"
    "op_fits op (ed_text ed) \<longrightarrow> ed_cursor ed' \<le> length (ed_text ed')" by (rule undo_run [OF ok stack])
  have fits: "op_fits op (ed_text ed)" using Cons(3) stack by (simp add: editing_def)
  have "editing t0 ed'"
    using edits.undo_step [of op ops t0 "ed_text ed" "ed_redo ed"] u Cons(3) stack fits
    by (simp add: editing_def del: redoes.simps)
  from Cons(1) [OF u(4) [symmetric] this] obtain ed1 ed2 where rest: "repeat_step undo (length ops) ed' = Some ed1"
    "ed_text ed1 = t0" "repeat_step redo (length ops) ed1 = Some ed2" "ed_text ed2 = ed_text ed'" "editing t0 ed2"
    "ed_redo ed2 = op # ed_redo ed"
    by (auto simp: u(4,5))
  have "ed_ok ed2" using rest(5) by (simp add: editing_def)
  from redo_run [OF this rest(6)] obtain ed3 where r: "redo ed2 = Some ed3" "ed_ok ed3" "ed_text ed3 = op_redone op (ed_text ed2)"
    "ed_redo ed3 = ed_redo ed" "ed_undo ed3 = op # ed_undo ed2" "ed_dirty ed3" "ed_anchor ed3 = ed_cursor ed3"
    "op_fits op (ed_text ed3) \<longrightarrow> ed_cursor ed3 \<le> length (ed_text ed3)" by blast
  have "editing t0 ed3"
    using edits.redo_step [of "ed_undo ed2" t0 "ed_text ed2" op "ed_redo ed"] r rest(5,6) by (simp add: editing_def)
  moreover have "ed_text ed3 = ed_text ed" using r(3) rest(4) u(3) edits.redone_undone [OF fits] by simp
  ultimately show ?case
    using u(1) rest(1,2) repeat_step_snoc [OF rest(3) r(1)] r(4) by (auto simp: stack)
qed

text \<open>A plain session after a file has been loaded.\<close>

lemma run_keeps:
  assumes "\<forall>m\<in>set msgs. plain m \<and> \<not> loads (snd m)" "editing t0 ed" "length (ed_undo ed) + 2 * length msgs \<le> UNDO_CAP"
  shows "\<exists>ed'. run_messages msgs ed = Some ed' \<and> editing t0 ed'"
  using assms
proof (induction msgs arbitrary: ed)
  case (Cons m msgs)
  obtain dk msg where m: "m = (dk, msg)" by (cases m)
  have "ed_ok ed" using Cons(3) by (simp add: editing_def)
  with message_handled [of ed msg True dk] Cons(2) obtain ed1 where
    step: "wnd_proc dk msg ed = Some ed1" "keeps 2 ed ed1" by (auto simp: m handled_def)
  with Cons(3,4) have "editing t0 ed1" "length (ed_undo ed1) + 2 * length msgs \<le> UNDO_CAP" by (auto simp: keeps_def)
  with Cons(1,2) step show ?case by (simp add: m)
qed simp

text \<open>
  C7. Undo is complete: a file is loaded and then edited by any messages, typing, deleting, pasting, cutting,
  undoing and redoing in between, at most 512 of them and without a lone byte order mark as input. Undoing every
  entry of the undo stack gives the text of the file back, and redoing them gives the edited text again.
\<close>

theorem undo_restores_file:
  assumes "load_from path (Some bytes) ed0 = Some ed1" "run_messages msgs ed1 = Some ed"
    and "\<forall>m\<in>set msgs. plain m \<and> \<not> loads (snd m)" "2 * length msgs \<le> UNDO_CAP"
  shows "\<exists>ed2 ed3. repeat_step undo (length (ed_undo ed)) ed = Some ed2 \<and> ed_text ed2 = utf8_to_codepoints bytes \<and>
    repeat_step redo (length (ed_undo ed)) ed2 = Some ed3 \<and> ed_text ed3 = ed_text ed"
proof -
  obtain e where "load_from path (Some bytes) ed0 = Some e" "ed_text e = utf8_to_codepoints bytes" "ed_undo e = []"
    "editing (ed_text e) e" using load_run by blast
  with assms(1) have "editing (utf8_to_codepoints bytes) ed1" "ed_undo ed1 = []" by auto
  with run_keeps [OF assms(3), of "utf8_to_codepoints bytes" ed1] assms(2,4) have "editing (utf8_to_codepoints bytes) ed" by simp
  from undo_all [OF this] show ?thesis by blast
qed

text \<open>
  C9. The state stays consistent however long a session is: as long as no lone byte order mark is typed or
  pasted, cursor and anchor lie within the text, and undoing the newest entry and redoing it leads back to the
  same text.
\<close>

theorem editor_state_consistent:
  assumes "run_messages msgs editor_new = Some ed" "\<forall>m\<in>set msgs. plain m"
  shows "ed_cursor ed \<le> length (ed_text ed) \<and> ed_anchor ed \<le> length (ed_text ed) \<and>
    (\<exists>ed1 ed2. undo ed = Some ed1 \<and> (ed_undo ed \<noteq> [] \<longrightarrow> redo ed1 = Some ed2 \<and> ed_text ed2 = ed_text ed))"
proof -
  have run: "\<exists>t1. editing t1 ed" if "run_messages msgs ed0 = Some ed" "editing t0 ed0" for ed0 t0
    using assms(2) that
  proof (induction msgs arbitrary: ed0 t0)
    case (Cons m msgs)
    obtain dk msg where m: "m = (dk, msg)" by (cases m)
    have "\<exists>ed1 t1. wnd_proc dk msg ed0 = Some ed1 \<and> editing t1 ed1"
    proof (cases "loads msg")
      case True
      then obtain path bytes where "msg = WmLoadPath path (Some bytes)" by (cases msg) auto
      with load_run [of path bytes ed0] show ?thesis by auto
    next
      case False
      moreover have "ed_ok ed0" using Cons(4) by (simp add: editing_def)
      ultimately obtain ed1 where "wnd_proc dk msg ed0 = Some ed1" "keeps 2 ed0 ed1"
        using message_handled [of ed0 msg True dk] Cons(2) by (auto simp: m handled_def)
      with Cons(4) show ?thesis by (auto simp: keeps_def)
    qed
    with Cons show ?case by (auto simp: m)
  qed auto
  then obtain t1 where e: "editing t1 ed" using run [OF assms(1) editor_new_ok(2)] by blast
  then have ok: "ed_ok ed" by (simp add: editing_def)
  have "\<exists>ed1 ed2. undo ed = Some ed1 \<and> (ed_undo ed \<noteq> [] \<longrightarrow> redo ed1 = Some ed2 \<and> ed_text ed2 = ed_text ed)"
  proof (cases "ed_undo ed")
    case (Cons op ops)
    obtain ed' where u: "undo ed = Some ed'" "ed_ok ed'" "ed_text ed' = op_undone op (ed_text ed)" "ed_undo ed' = ops"
      "ed_redo ed' = op # ed_redo ed" "ed_dirty ed'" "ed_anchor ed' = ed_cursor ed'"
      "op_fits op (ed_text ed) \<longrightarrow> ed_cursor ed' \<le> length (ed_text ed')" by (rule undo_run [OF ok Cons])
    obtain ed'' where "redo ed' = Some ed''" "ed_text ed'' = op_redone op (ed_text ed')"
      by (rule redo_run [OF u(2,5)])
    with u(1,3) edits.redone_undone [of op "ed_text ed"] e Cons show ?thesis by (auto simp: editing_def)
  qed (use undo_good [OF ok, of False] in auto)
  with e show ?thesis by (simp add: editing_def)
qed

end
