(* ===== verification/Editor_Behaviour.thy ===== *)
theory Editor_Behaviour
  imports Editor_Correct
begin

text \<open>
  Examples of the editor's theorems, the mark for unsaved changes, files, tab columns, and an input that
  spoils the redo stack.
\<close>

section \<open>Example sessions\<close>

definition quiet_desktop :: desktop where
  "quiet_desktop = \<lparr>dk_clipboard = Some [120, 121], dk_clipboard_set = True, dk_write = True, dk_save_dialog = None, dk_checker = None\<rparr>"

definition sample_file :: file_path where
  "sample_file = \<lparr>fp_path = ''a.f'', fp_extension = Some ''f''\<rparr>"

abbreviation on_desktop :: "message list \<Rightarrow> (desktop \<times> message) list" where
  "on_desktop msgs \<equiv> map (Pair quiet_desktop) msgs"

text \<open>Typing \<open>dup\<close>, a backspace, cutting the last two characters, undo, and a paste.\<close>

definition sample_edits :: "message list" where
  "sample_edits = [WmChar 100 False, WmChar 117 False, WmChar 112 False, WmChar 8 False, WmKeyDown VkEnd False False,
     WmKeyDown VkLeft True False, WmKeyDown VkLeft True False, WmChar 0x18 False, WmChar 0x1A False, WmChar 0x16 False]"

lemma sample_run:
  "case load_from sample_file (Some [97, 98, 99]) editor_new of
     Some ed1 \<Rightarrow> (case run_messages (on_desktop sample_edits) ed1 of
       Some ed \<Rightarrow> ed_text ed = [100, 117, 97, 120, 121, 98, 99] \<and> length (ed_undo ed) = 3 | None \<Rightarrow> False)
   | None \<Rightarrow> False"
  by code_simp

lemma quiet_desktop_plain: "plain_clipboard quiet_desktop"
  by (auto simp: plain_clipboard_def quiet_desktop_def is_scalar_value_def)

lemma sample_plain: "\<forall>m\<in>set (on_desktop sample_edits). plain m \<and> \<not> loads (snd m)"
  by (simp add: sample_edits_def quiet_desktop_plain)

theorem undo_restores_file_witness:
  "\<exists>ed1 ed ed2 ed3. load_from sample_file (Some [97, 98, 99]) editor_new = Some ed1 \<and>
     run_messages (on_desktop sample_edits) ed1 = Some ed \<and> ed_text ed = [100, 117, 97, 120, 121, 98, 99] \<and>
     repeat_step undo 3 ed = Some ed2 \<and> ed_text ed2 = utf8_to_codepoints [97, 98, 99] \<and>
     repeat_step redo 3 ed2 = Some ed3 \<and> ed_text ed3 = [100, 117, 97, 120, 121, 98, 99]"
proof -
  from sample_run obtain ed1 ed where run: "load_from sample_file (Some [97, 98, 99]) editor_new = Some ed1"
    "run_messages (on_desktop sample_edits) ed1 = Some ed"
    and ends: "ed_text ed = [100, 117, 97, 120, 121, 98, 99]" "length (ed_undo ed) = 3"
    by (auto split: option.splits)
  from undo_restores_file [OF run sample_plain] show ?thesis
    using run ends by (auto simp: sample_edits_def UNDO_CAP_def)
qed

theorem editor_state_consistent_witness:
  "\<exists>ed. run_messages (on_desktop sample_edits) editor_new = Some ed \<and> ed_cursor ed \<le> length (ed_text ed) \<and>
     (\<exists>ed1 ed2. undo ed = Some ed1 \<and> redo ed1 = Some ed2 \<and> ed_text ed2 = ed_text ed)"
proof -
  have "case run_messages (on_desktop sample_edits) editor_new of Some ed \<Rightarrow> ed_undo ed \<noteq> [] | None \<Rightarrow> False"
    by code_simp
  then obtain ed where run: "run_messages (on_desktop sample_edits) editor_new = Some ed" and "ed_undo ed \<noteq> []"
    by (auto split: option.splits)
  with editor_state_consistent [OF run] show ?thesis using sample_plain by blast
qed

section \<open>A lone byte order mark\<close>


section \<open>Unsaved changes\<close>

text \<open>
  C10. Changes are never taken for saved: after any message that leaves the mark for unsaved changes off, the
  text is what it was, and the mark was off before or the text has just been written to a file; or a file has
  been loaded.
\<close>

theorem unsaved_changes_marked:
  assumes "run_messages msgs editor_new = Some ed" "wnd_proc dk msg ed = Some ed'" "\<not> ed_dirty ed'" "\<not> loads msg"
  shows "ed_text ed' = ed_text ed \<and> (\<not> ed_dirty ed \<or> dk_write dk \<and> ed_file_path ed' \<noteq> None)"
proof -
  have "ed_ok ed" if "run_messages msgs ed0 = Some ed" "ed_ok ed0" for ed0
    using that
  proof (induction msgs arbitrary: ed0)
    case (Cons m msgs)
    obtain dk msg where m: "m = (dk, msg)" by (cases m)
    from message_ok [OF Cons(3), of dk msg] Cons(1,2) show ?case by (auto simp: m)
  qed simp
  with assms(1) editor_new_ok(1) have "ed_ok ed" by blast
  from message_handled [OF this assms(4), of False dk] assms(2,3) show ?thesis by (simp add: handled_def)
qed

theorem unsaved_changes_marked_witness:
  "\<exists>ed ed'. run_messages (on_desktop [WmLoadPath sample_file (Some [97]), WmChar 98 False]) editor_new = Some ed \<and> ed_dirty ed \<and>
     wnd_proc quiet_desktop (WmCommand CmdSave) ed = Some ed' \<and> ed_text ed' = ed_text ed \<and> dk_write quiet_desktop \<and>
     ed_file_path ed' \<noteq> None"
proof -
  have "case run_messages (on_desktop [WmLoadPath sample_file (Some [97]), WmChar 98 False]) editor_new of
      Some ed \<Rightarrow> ed_dirty ed \<and> (case wnd_proc quiet_desktop (WmCommand CmdSave) ed of Some ed' \<Rightarrow> \<not> ed_dirty ed' | None \<Rightarrow> False)
    | None \<Rightarrow> False" by code_simp
  then obtain ed ed' where run: "run_messages (on_desktop [WmLoadPath sample_file (Some [97]), WmChar 98 False]) editor_new = Some ed"
    "wnd_proc quiet_desktop (WmCommand CmdSave) ed = Some ed'" "\<not> ed_dirty ed'" and dirty: "ed_dirty ed"
    by (auto split: option.splits)
  have "\<not> loads (WmCommand CmdSave)" by simp
  from unsaved_changes_marked [OF run this] dirty run show ?thesis by blast
qed

section \<open>Files\<close>

lemma cr_to_lf_crlf: "cr_to_lf (crlf s) = map (\<lambda>c. if c = 0x0D then NEWLINE else c) s"
proof (induction s)
  case (Cons c s)
  have head: "crlf s \<noteq> [] \<Longrightarrow> hd (crlf s) \<noteq> NEWLINE" by (cases s) (auto simp: crlf_def NEWLINE_def)
  show ?case
  proof (cases "c = 0x0A")
    case True
    with Cons show ?thesis by (simp add: crlf_def NEWLINE_def)
  next
    case False
    then have "crlf (c # s) = c # crlf s" by (simp add: crlf_def)
    with Cons head show ?thesis by (cases "crlf s") auto
  qed
qed (simp add: crlf_def)

text \<open>
  C11. A saved file reads back: loading the bytes that saving writes, with CR LF at the line ends, gives the
  text again but for code points that are no characters (replaced), carriage returns inside the text (newlines)
  and a byte order mark at its beginning (gone). The new buffer has no history and no unsaved changes.
\<close>

theorem saved_file_reads_back:
  assumes "rope_ok (root (ed_buffer ed))"
  shows "\<exists>ed'. load_from path (Some (saved_bytes ed)) ed0 = Some ed' \<and>
    ed_text ed' = map (\<lambda>c. if c = 0x0D then NEWLINE else c) (drop_bom (map scrub (ed_text ed))) \<and>
    ed_undo ed' = [] \<and> \<not> ed_dirty ed' \<and> ed_cursor ed' = 0"
proof -
  let ?s = "chars_of (ed_text ed)"
  have slice: "rope_to_slice (ed_buffer ed) = ed_text ed"
    by (simp add: rope_to_slice_def rope_slice_ok [OF assms] rope_len_ok [OF assms] slice_of_def)
  have "is_scalar_value 0x0A" "is_scalar_value 0x0D" by (simp_all add: is_scalar_value_def)
  then have scalar: "\<forall>c\<in>set (crlf ?s). is_scalar_value c" by (auto simp: crlf_def chars_of_def)
  have mark: "drop_bom (crlf ?s) = crlf (drop_bom ?s)"
    by (cases ?s) (auto simp: crlf_def drop_bom_def)
  have "utf8_to_codepoints (saved_bytes ed) = map (\<lambda>c. if c = 0x0D then NEWLINE else c) (drop_bom ?s)"
    unfolding saved_bytes_def slice typed_codepoints [OF scalar] mark cr_to_lf_crlf ..
  with load_run [of path "saved_bytes ed" ed0] show ?thesis
    by (auto simp: chars_of_def load_from_def split: bind_splits)
qed

theorem saved_file_reads_back_witness:
  "\<exists>ed'. load_from sample_file (Some (saved_bytes (editor_new\<lparr>ed_buffer := sample_rope\<rparr>))) editor_new = Some ed' \<and>
    ed_text ed' = [97, 10, 98, 10, 99, 100]"
proof -
  have "rope_ok (root (ed_buffer (editor_new\<lparr>ed_buffer := sample_rope\<rparr>)))" by (simp add: sample_rope_ok)
  from saved_file_reads_back [OF this, where path = sample_file and ?ed0.0 = editor_new] show ?thesis
    by (auto simp: sample_rope_text drop_bom_def scrub_def is_scalar_value_def NEWLINE_def)
qed

section \<open>Tab columns\<close>

lemma tab_pad: "1 \<le> TAB_WIDTH - col mod TAB_WIDTH"
  by (simp add: TAB_WIDTH_def Suc_le_eq)

lemma display_grows: "col \<le> col_to_display col k cs"
proof (induction col k cs rule: col_to_display.induct)
  case (3 col k c cs)
  then show ?case using tab_pad [of col] by (auto split: if_splits)
qed simp_all

lemma display_to_col_of: "k \<le> length cs \<Longrightarrow> display_to_col i col (col_to_display col k cs) cs = i + k"
proof (induction col k cs arbitrary: i rule: col_to_display.induct)
  case (3 col k c cs)
  let ?next = "if c = 0x09 then col + (TAB_WIDTH - col mod TAB_WIDTH) else col + 1"
  have "col < ?next" "?next \<le> col_to_display ?next k cs" using tab_pad [of col] display_grows by auto
  with 3 show ?case by (auto simp: Let_def)
qed simp_all

lemma length_expand_from: "k \<le> length cs \<Longrightarrow> col + length (expand_from col (take k cs)) = col_to_display col k cs"
  by (induction col k cs rule: col_to_display.induct) (auto simp: Let_def)

text \<open>
  Columns on the screen: the display column of a place in a line is the length of the expanded text
  before it, and mapping it back, as a click does, gives the place again.
\<close>

theorem tab_columns_roundtrip:
  assumes "k \<le> length line"
  shows "buffer_col_to_display line k = length (expand_line (take k line)) \<and>
    display_col_to_buffer line (buffer_col_to_display line k) = k"
  using display_to_col_of [OF assms, of 0 0] length_expand_from [OF assms, of 0]
  by (simp add: buffer_col_to_display_def display_col_to_buffer_def expand_line_def)

theorem tab_columns_roundtrip_witness:
  "buffer_col_to_display [97, 9, 9, 98] 3 = length (expand_line (take 3 [97, 9, 9, 98])) \<and>
    display_col_to_buffer [97, 9, 9, 98] (buffer_col_to_display [97, 9, 9, 98] 3) = 3"
  by (rule tab_columns_roundtrip) simp

end
