(* ===== verification/Text_Grid.thy ===== *)
theory Text_Grid
  imports Prelude "HOL-Library.Monad_Syntax"
begin

text \<open>
  The text pane of the user interface, \<^verbatim>\<open>crates/igui/src/text_view.rs\<close>: a grid of character cells with a
  cursor and terminal commands, and the queues through which the language thread reaches the grids of the
  panes. An index out of bounds is the panic \<open>None\<close>. Numbers of type \<^verbatim>\<open>u32\<close> are natural numbers; sums stay
  below the size of the grid but for the tab stop, whose wrap-around is written out.
\<close>

section \<open>The grid\<close>

datatype text_cmd =
    WriteStr "u32 list"
  | WriteChar u32
  | SetCursor nat nat
  | ClearAll
  | ClearEol
  | ClearEos
  | Newline
  | ScrollUp nat
  | SetPen u32 u32
  | ResetPen
  | SetCaretVisible bool

record cell =
  ce_codepoint :: u32
  ce_fg :: u32
  ce_bg :: u32

definition DEFAULT_FG :: u32 where
  "DEFAULT_FG = 0xDCDCDCFF"

definition DEFAULT_BG :: u32 where
  "DEFAULT_BG = 0x12161CFF"

definition BLANK :: cell where
  "BLANK = \<lparr>ce_codepoint = 0x20, ce_fg = DEFAULT_FG, ce_bg = DEFAULT_BG\<rparr>"

definition GRID_TAB_WIDTH :: nat where
  "GRID_TAB_WIDTH = 8"

record grid =
  gr_cells :: "cell list"
  gr_rows :: nat
  gr_cols :: nat
  gr_cursor_row :: nat
  gr_cursor_col :: nat
  gr_pen_fg :: u32
  gr_pen_bg :: u32
  gr_caret_visible :: bool

definition grid_new :: "nat \<Rightarrow> nat \<Rightarrow> grid" where
  "grid_new rows cols =
     \<lparr>gr_cells = replicate (max rows 1 * max cols 1) BLANK, gr_rows = max rows 1, gr_cols = max cols 1, gr_cursor_row = 0,
      gr_cursor_col = 0, gr_pen_fg = DEFAULT_FG, gr_pen_bg = DEFAULT_BG, gr_caret_visible = True\<rparr>"

definition cell_idx :: "grid \<Rightarrow> nat \<Rightarrow> nat \<Rightarrow> nat" where
  "cell_idx g row col = row * gr_cols g + col"

text \<open>Assignments to elements of a vector, in order.\<close>

fun assign :: "(nat \<times> 'a) list \<Rightarrow> 'a list \<Rightarrow> 'a list option" where
  "assign [] xs = Some xs"
| "assign ((i, x) # us) xs = (if i < length xs then assign us (xs[i := x]) else None)"

definition set_cell :: "nat \<Rightarrow> nat \<Rightarrow> cell \<Rightarrow> grid \<Rightarrow> grid option" where
  "set_cell row col x g = do { cs \<leftarrow> assign [(cell_idx g row col, x)] (gr_cells g); Some (g\<lparr>gr_cells := cs\<rparr>) }"

text \<open>The copied part of the old cells: destination and value, row by row.\<close>

definition copied_cells :: "grid \<Rightarrow> nat \<Rightarrow> nat \<Rightarrow> (nat \<times> cell) list option" where
  "copied_cells g new_rows new_cols =
     those (concat (map (\<lambda>r. map (\<lambda>c. map_option (Pair (r * new_cols + c)) (get (gr_cells g) (cell_idx g r c)))
        [0..<min (gr_cols g) new_cols]) [0..<min (gr_rows g) new_rows]))"

definition grid_resize :: "nat \<Rightarrow> nat \<Rightarrow> grid \<Rightarrow> grid option" where
  "grid_resize rows cols g =
     (let new_rows = max rows 1; new_cols = max cols 1 in
      if new_rows = gr_rows g \<and> new_cols = gr_cols g then Some g
      else do {
        us \<leftarrow> copied_cells g new_rows new_cols;
        cs \<leftarrow> assign us (replicate (new_rows * new_cols) BLANK);
        Some (g\<lparr>gr_cells := cs, gr_rows := new_rows, gr_cols := new_cols,
          gr_cursor_row := (if gr_cursor_row g \<ge> new_rows then new_rows - 1 else gr_cursor_row g),
          gr_cursor_col := (if gr_cursor_col g \<ge> new_cols then new_cols - 1 else gr_cursor_col g)\<rparr>)
      })"

section \<open>Commands\<close>

definition pen_cell :: "u32 \<Rightarrow> grid \<Rightarrow> cell" where
  "pen_cell cp g = \<lparr>ce_codepoint = cp, ce_fg = gr_pen_fg g, ce_bg = gr_pen_bg g\<rparr>"

definition pen_blank :: "grid \<Rightarrow> cell" where
  "pen_blank g = pen_cell 0x20 g"

definition clear_all :: "grid \<Rightarrow> grid" where
  "clear_all g = g\<lparr>gr_cells := map (\<lambda>_. pen_blank g) (gr_cells g), gr_cursor_row := 0, gr_cursor_col := 0\<rparr>"

definition eol_cells :: "grid \<Rightarrow> (nat \<times> cell) list" where
  "eol_cells g = map (\<lambda>c. (cell_idx g (gr_cursor_row g) c, pen_blank g)) [gr_cursor_col g..<gr_cols g]"

definition clear_to_eol :: "grid \<Rightarrow> grid option" where
  "clear_to_eol g = do { cs \<leftarrow> assign (eol_cells g) (gr_cells g); Some (g\<lparr>gr_cells := cs\<rparr>) }"

definition clear_to_eos :: "grid \<Rightarrow> grid option" where
  "clear_to_eos g = do {
     cs \<leftarrow> assign (eol_cells g @
       concat (map (\<lambda>r. map (\<lambda>c. (cell_idx g r c, pen_blank g)) [0..<gr_cols g]) [gr_cursor_row g + 1..<gr_rows g]))
       (gr_cells g);
     Some (g\<lparr>gr_cells := cs\<rparr>) }"

text \<open>\<^verbatim>\<open>copy_within\<close> to the front leaves the last elements in place; they are then overwritten.\<close>

definition copy_to_front :: "nat \<Rightarrow> 'a list \<Rightarrow> 'a list option" where
  "copy_to_front shift xs =
     (if shift \<le> length xs then Some (drop shift xs @ drop (length xs - shift) xs) else None)"

definition scroll_up :: "nat \<Rightarrow> grid \<Rightarrow> grid option" where
  "scroll_up n g =
     (if n = 0 then Some g
      else if n \<ge> gr_rows g then Some (clear_all g)
      else do {
        let shift = n * gr_cols g;
        let total = length (gr_cells g);
        cs \<leftarrow> copy_to_front shift (gr_cells g);
        cs' \<leftarrow> assign (map (\<lambda>i. (i, pen_blank g)) [total - shift..<total]) cs;
        Some (g\<lparr>gr_cells := cs', gr_cursor_row := (if gr_cursor_row g \<ge> n then gr_cursor_row g - n else 0)\<rparr>)
      })"

definition grid_newline :: "grid \<Rightarrow> grid option" where
  "grid_newline g0 =
     (let g = g0\<lparr>gr_cursor_col := 0\<rparr> in
      if gr_cursor_row g + 1 < gr_rows g then Some (g\<lparr>gr_cursor_row := gr_cursor_row g + 1\<rparr>)
      else do { g1 \<leftarrow> scroll_up 1 g; Some (g1\<lparr>gr_cursor_row := gr_rows g1 - 1\<rparr>) })"

definition erase_left :: "grid \<Rightarrow> grid option" where
  "erase_left g =
     (if gr_cursor_col g = 0 then Some g
      else set_cell (gr_cursor_row g) (gr_cursor_col g - 1) (pen_blank g) (g\<lparr>gr_cursor_col := gr_cursor_col g - 1\<rparr>))"

definition tab_stop :: "nat \<Rightarrow> nat \<Rightarrow> nat" where
  "tab_stop col cols = min ((col div GRID_TAB_WIDTH + 1) * GRID_TAB_WIDTH mod 2 ^ 32) (cols - 1)"

definition put_codepoint :: "u32 \<Rightarrow> grid \<Rightarrow> grid option" where
  "put_codepoint cp g =
     (if cp = 0x0A then grid_newline g
      else if cp = 0x0D then Some (g\<lparr>gr_cursor_col := 0\<rparr>)
      else if cp = 0x09 then Some (g\<lparr>gr_cursor_col := tab_stop (gr_cursor_col g) (gr_cols g)\<rparr>)
      else if cp = 0x08 then erase_left g
      else if cp < 0x20 then Some g
      else do {
        g1 \<leftarrow> (if gr_cursor_col g \<ge> gr_cols g then grid_newline g else Some g);
        g2 \<leftarrow> set_cell (gr_cursor_row g1) (gr_cursor_col g1) (pen_cell cp g1) g1;
        Some (g2\<lparr>gr_cursor_col := gr_cursor_col g2 + 1\<rparr>)
      })"

fun put_codepoints :: "u32 list \<Rightarrow> grid \<Rightarrow> grid option" where
  "put_codepoints [] g = Some g"
| "put_codepoints (cp # cps) g = do { g1 \<leftarrow> put_codepoint cp g; put_codepoints cps g1 }"

fun apply_cmd :: "text_cmd \<Rightarrow> grid \<Rightarrow> grid option" where
  "apply_cmd (WriteStr s) g = put_codepoints s g"
| "apply_cmd (WriteChar cp) g = put_codepoint cp g"
| "apply_cmd (SetCursor row col) g =
     Some (g\<lparr>gr_cursor_row := min row (gr_rows g - 1), gr_cursor_col := min col (gr_cols g - 1)\<rparr>)"
| "apply_cmd ClearAll g = Some (clear_all g)"
| "apply_cmd ClearEol g = clear_to_eol g"
| "apply_cmd ClearEos g = clear_to_eos g"
| "apply_cmd Newline g = grid_newline g"
| "apply_cmd (ScrollUp n) g = scroll_up n g"
| "apply_cmd (SetPen fg bg) g = Some (g\<lparr>gr_pen_fg := fg, gr_pen_bg := bg\<rparr>)"
| "apply_cmd ResetPen g = Some (g\<lparr>gr_pen_fg := DEFAULT_FG, gr_pen_bg := DEFAULT_BG\<rparr>)"
| "apply_cmd (SetCaretVisible v) g = Some (g\<lparr>gr_caret_visible := v\<rparr>)"

fun apply_cmds :: "text_cmd list \<Rightarrow> grid \<Rightarrow> grid option" where
  "apply_cmds [] g = Some g"
| "apply_cmds (cmd # cmds) g = do { g1 \<leftarrow> apply_cmd cmd g; apply_cmds cmds g1 }"

section \<open>Panes\<close>

record pane_state =
  pa_queue :: "text_cmd list"
  pa_grid :: grid

type_synonym panes = "int \<rightharpoonup> pane_state"

definition enqueue :: "int \<Rightarrow> text_cmd \<Rightarrow> panes \<Rightarrow> bool \<times> panes" where
  "enqueue child_id cmd ps =
     (case ps child_id of
        None \<Rightarrow> (False, ps)
      | Some s \<Rightarrow> (True, ps(child_id \<mapsto> s\<lparr>pa_queue := pa_queue s @ [cmd]\<rparr>)))"

definition flush_on_gui_thread :: "int \<Rightarrow> panes \<Rightarrow> panes option" where
  "flush_on_gui_thread child_id ps =
     (case ps child_id of
        None \<Rightarrow> Some ps
      | Some s \<Rightarrow> do {
          g \<leftarrow> apply_cmds (pa_queue s) (pa_grid s);
          Some (ps(child_id \<mapsto> s\<lparr>pa_queue := [], pa_grid := g\<rparr>))
        })"

definition install_pane :: "int \<Rightarrow> panes \<Rightarrow> panes" where
  "install_pane child_id ps = ps(child_id \<mapsto> \<lparr>pa_queue = [], pa_grid = grid_new 24 80\<rparr>)"

definition forget_pane :: "int \<Rightarrow> panes \<Rightarrow> panes" where
  "forget_pane child_id ps = ps(child_id := None)"

definition recompute_grid :: "int \<Rightarrow> nat \<Rightarrow> nat \<Rightarrow> panes \<Rightarrow> panes option" where
  "recompute_grid child_id rows cols ps =
     (case ps child_id of
        None \<Rightarrow> Some ps
      | Some s \<Rightarrow> do { g \<leftarrow> grid_resize rows cols (pa_grid s); Some (ps(child_id \<mapsto> s\<lparr>pa_grid := g\<rparr>)) })"

text \<open>The steps of the two threads; each holds the lock of the pane.\<close>

datatype pane_event =
    Enqueue int text_cmd
  | Flush int
  | Resize int nat nat
  | Create int
  | Destroy int

fun pane_step :: "pane_event \<Rightarrow> panes \<Rightarrow> panes option" where
  "pane_step (Enqueue child_id cmd) ps = Some (snd (enqueue child_id cmd ps))"
| "pane_step (Flush child_id) ps = flush_on_gui_thread child_id ps"
| "pane_step (Resize child_id rows cols) ps = recompute_grid child_id rows cols ps"
| "pane_step (Create child_id) ps = Some (install_pane child_id ps)"
| "pane_step (Destroy child_id) ps = Some (forget_pane child_id ps)"

fun pane_steps :: "pane_event list \<Rightarrow> panes \<Rightarrow> panes option" where
  "pane_steps [] ps = Some ps"
| "pane_steps (e # es) ps = do { ps1 \<leftarrow> pane_step e ps; pane_steps es ps1 }"

end
