(* ===== verification/Text_Grid_Correct.thy ===== *)
theory Text_Grid_Correct
  imports Text_Grid
begin

text \<open>
  The text pane against a screen made of lines: every command does to the flat vector of cells what it does to
  the screen, without an index out of bounds, and the queue between the threads keeps the order of commands.
\<close>

section \<open>Vectors of lines\<close>

abbreviation lines_of :: "nat \<Rightarrow> 'a list list \<Rightarrow> bool" where
  "lines_of w xss \<equiv> \<forall>xs\<in>set xss. length xs = w"

lemma length_concat_lines [simp]: "lines_of w xss \<Longrightarrow> length (concat xss) = length xss * w"
  by (induction xss) simp_all

lemma concat_index:
  "lines_of w xss \<Longrightarrow> r < length xss \<Longrightarrow> c < w \<Longrightarrow>
     r * w + c < length (concat xss) \<and> concat xss ! (r * w + c) = xss ! r ! c \<and>
     (concat xss)[r * w + c := x] = concat (xss[r := (xss ! r)[c := x]])"
proof (induction xss arbitrary: r)
  case (Cons xs xss)
  show ?case
  proof (cases r)
    case 0
    with Cons.prems show ?thesis by (simp add: nth_append list_update_append trans_less_add1)
  next
    case (Suc k)
    with Cons show ?thesis by (simp add: nth_append list_update_append add.assoc)
  qed
qed simp

lemma lines_of_update: "lines_of w xss \<Longrightarrow> length xs = w \<Longrightarrow> lines_of w (xss[r := xs])"
  by (auto dest: set_update_subset_insert [THEN subsetD])

lemma drop_lines: "lines_of w xss \<Longrightarrow> drop (n * w) (concat xss) = concat (drop n xss)"
proof (induction xss arbitrary: n)
  case (Cons xs xss)
  then show ?case by (cases n) simp_all
qed simp

lemma assign_append: "assign (us @ vs) xs = Option.bind (assign us xs) (assign vs)"
  by (induction us xs rule: assign.induct) simp_all

text \<open>Assigning a part of a line, and the same part of several lines.\<close>

lemma assign_line:
  assumes "lines_of w xss" "r < length xss" "a \<le> b" "b \<le> w"
  shows "assign (map (\<lambda>c. (r * w + c, f c)) [a..<b]) (concat xss) =
    Some (concat (xss[r := take a (xss ! r) @ map f [a..<b] @ drop b (xss ! r)]))"
  using assms
proof (induction "b - a" arbitrary: a xss)
  case 0
  then have "xss[r := take a (xss ! r) @ map f [a..<b] @ drop b (xss ! r)] = xss" by (simp add: list_update_id)
  with 0 show ?case by simp
next
  case (Suc d)
  then have upt: "[a..<b] = a # [Suc a..<b]" by (simp add: upt_conv_Cons)
  have len: "length (xss ! r) = w" using Suc by simp
  let ?yss = "xss[r := (xss ! r)[a := f a]]"
  have step: "r * w + a < length (concat xss)" "(concat xss)[r * w + a := f a] = concat ?yss"
    using concat_index [of xss w r a "f a"] Suc by auto
  have lines: "lines_of w ?yss" using Suc(3) len by (intro lines_of_update) simp_all
  have line: "take (Suc a) ((xss ! r)[a := f a]) = take a (xss ! r) @ [f a]" "drop b ((xss ! r)[a := f a]) = drop b (xss ! r)"
    using Suc(2,5,6) len by (simp_all add: take_Suc_conv_app_nth)
  have "assign (map (\<lambda>c. (r * w + c, f c)) [a..<b]) (concat xss) = assign (map (\<lambda>c. (r * w + c, f c)) [Suc a..<b]) (concat ?yss)"
    using step by (simp add: upt)
  also have "\<dots> = Some (concat (?yss[r := take (Suc a) (?yss ! r) @ map f [Suc a..<b] @ drop b (?yss ! r)]))"
    using Suc(2,4,5,6) lines by (intro Suc(1)) simp_all
  also have "?yss[r := take (Suc a) (?yss ! r) @ map f [Suc a..<b] @ drop b (?yss ! r)] =
      xss[r := take a (xss ! r) @ map f [a..<b] @ drop b (xss ! r)]"
    using Suc(4) line by (simp add: upt)
  finally show ?case .
qed

lemma assign_lines:
  assumes "lines_of w xss" "m \<le> n" "n \<le> length xss" "a \<le> b" "b \<le> w"
  shows "assign (concat (map (\<lambda>r. map (\<lambda>c. (r * w + c, f r c)) [a..<b]) [m..<n])) (concat xss) =
    Some (concat (take m xss @ map (\<lambda>r. take a (xss ! r) @ map (f r) [a..<b] @ drop b (xss ! r)) [m..<n] @ drop n xss))"
  using assms
proof (induction "n - m" arbitrary: m xss)
  case (Suc d)
  let ?line = "\<lambda>xss r. take a (xss ! r) @ map (f r) [a..<b] @ drop b (xss ! r)"
  let ?yss = "xss[m := ?line xss m]"
  have upt: "[m..<n] = m # [Suc m..<n]" using Suc(2) by (simp add: upt_conv_Cons)
  have m: "m < length xss" "length (xss ! m) = w" using Suc by auto
  then have lines: "lines_of w ?yss"
    using Suc(3,6,7) by (intro lines_of_update) simp_all
  have later: "map (?line ?yss) [Suc m..<n] = map (?line xss) [Suc m..<n]" by (rule map_cong) simp_all
  have "assign (concat (map (\<lambda>r. map (\<lambda>c. (r * w + c, f r c)) [a..<b]) [m..<n])) (concat xss) =
      assign (concat (map (\<lambda>r. map (\<lambda>c. (r * w + c, f r c)) [a..<b]) [Suc m..<n])) (concat ?yss)"
    by (simp only: upt list.map concat.simps assign_append assign_line [OF Suc(3) m(1) Suc(6,7)] Option.bind_lunit)
  also have "\<dots> = Some (concat (take (Suc m) ?yss @ map (?line ?yss) [Suc m..<n] @ drop n ?yss))"
    by (rule Suc(1) [OF _ lines _ _ Suc(6,7)]) (use Suc(2,4,5) in simp_all)
  also have "take (Suc m) ?yss @ map (?line ?yss) [Suc m..<n] @ drop n ?yss =
      take m xss @ map (?line xss) [m..<n] @ drop n xss"
    using m(1) Suc(2) later by (simp add: upt take_Suc_conv_app_nth)
  finally show ?case .
qed (simp add: append_take_drop_id)

lemma assign_last:
  "length xs = a \<Longrightarrow> length ys = b - a \<Longrightarrow> a \<le> b \<Longrightarrow>
    assign (map (\<lambda>i. (i, x)) [a..<b]) (xs @ ys) = Some (xs @ replicate (b - a) x)"
proof (induction ys arbitrary: a xs)
  case (Cons y ys)
  then have "[a..<b] = a # [Suc a..<b]" "b - a = Suc (b - Suc a)" by (simp_all add: upt_conv_Cons)
  with Cons(1) [of "xs @ [x]" "Suc a"] Cons(2-4) show ?case by (simp add: list_update_append)
qed simp

section \<open>The screen\<close>

record screen =
  sc_lines :: "cell list list"
  sc_cols :: nat
  sc_row :: nat
  sc_col :: nat
  sc_fg :: u32
  sc_bg :: u32
  sc_caret :: bool

definition sc_cell :: "u32 \<Rightarrow> screen \<Rightarrow> cell" where
  "sc_cell cp s = \<lparr>ce_codepoint = cp, ce_fg = sc_fg s, ce_bg = sc_bg s\<rparr>"

definition blank_lines :: "nat \<Rightarrow> screen \<Rightarrow> cell list list" where
  "blank_lines n s = replicate n (replicate (sc_cols s) (sc_cell 0x20 s))"

definition screen_new :: "nat \<Rightarrow> nat \<Rightarrow> screen" where
  "screen_new rows cols =
     \<lparr>sc_lines = replicate (max rows 1) (replicate (max cols 1) BLANK), sc_cols = max cols 1, sc_row = 0, sc_col = 0,
      sc_fg = DEFAULT_FG, sc_bg = DEFAULT_BG, sc_caret = True\<rparr>"

definition screen_clear :: "screen \<Rightarrow> screen" where
  "screen_clear s = s\<lparr>sc_lines := blank_lines (length (sc_lines s)) s, sc_row := 0, sc_col := 0\<rparr>"

text \<open>Lines leave at the top; what is above the top is gone.\<close>

definition screen_scroll :: "nat \<Rightarrow> screen \<Rightarrow> screen" where
  "screen_scroll n s =
     (if n < length (sc_lines s) then s\<lparr>sc_lines := drop n (sc_lines s) @ blank_lines n s, sc_row := sc_row s - n\<rparr>
      else screen_clear s)"

definition screen_newline :: "screen \<Rightarrow> screen" where
  "screen_newline s =
     (if sc_row s + 1 < length (sc_lines s) then s\<lparr>sc_row := sc_row s + 1, sc_col := 0\<rparr>
      else s\<lparr>sc_lines := tl (sc_lines s) @ blank_lines 1 s, sc_col := 0\<rparr>)"

definition screen_set :: "nat \<Rightarrow> cell \<Rightarrow> screen \<Rightarrow> screen" where
  "screen_set col x s = s\<lparr>sc_lines := (sc_lines s)[sc_row s := (sc_lines s ! sc_row s)[col := x]]\<rparr>"

text \<open>A full line wraps when the next character is written, not before.\<close>

definition screen_put :: "u32 \<Rightarrow> screen \<Rightarrow> screen" where
  "screen_put cp s =
     (if cp = 0x0A then screen_newline s
      else if cp = 0x0D then s\<lparr>sc_col := 0\<rparr>
      else if cp = 0x09 then s\<lparr>sc_col := tab_stop (sc_col s) (sc_cols s)\<rparr>
      else if cp = 0x08 then
        (if sc_col s = 0 then s else (screen_set (sc_col s - 1) (sc_cell 0x20 s) s)\<lparr>sc_col := sc_col s - 1\<rparr>)
      else if cp < 0x20 then s
      else (let s1 = (if sc_col s = sc_cols s then screen_newline s else s)
            in (screen_set (sc_col s1) (sc_cell cp s1) s1)\<lparr>sc_col := sc_col s1 + 1\<rparr>))"

definition blank_right :: "screen \<Rightarrow> cell list" where
  "blank_right s = take (sc_col s) (sc_lines s ! sc_row s) @ replicate (sc_cols s - sc_col s) (sc_cell 0x20 s)"

fun screen_cmd :: "text_cmd \<Rightarrow> screen \<Rightarrow> screen" where
  "screen_cmd (WriteStr cps) s = fold screen_put cps s"
| "screen_cmd (WriteChar cp) s = screen_put cp s"
| "screen_cmd (SetCursor row col) s =
     s\<lparr>sc_row := min row (length (sc_lines s) - 1), sc_col := min col (sc_cols s - 1)\<rparr>"
| "screen_cmd ClearAll s = screen_clear s"
| "screen_cmd ClearEol s = s\<lparr>sc_lines := (sc_lines s)[sc_row s := blank_right s]\<rparr>"
| "screen_cmd ClearEos s =
     s\<lparr>sc_lines := take (sc_row s) (sc_lines s) @ [blank_right s] @ blank_lines (length (sc_lines s) - (sc_row s + 1)) s\<rparr>"
| "screen_cmd Newline s = screen_newline s"
| "screen_cmd (ScrollUp n) s = (if n = 0 then s else screen_scroll n s)"
| "screen_cmd (SetPen fg bg) s = s\<lparr>sc_fg := fg, sc_bg := bg\<rparr>"
| "screen_cmd ResetPen s = s\<lparr>sc_fg := DEFAULT_FG, sc_bg := DEFAULT_BG\<rparr>"
| "screen_cmd (SetCaretVisible v) s = s\<lparr>sc_caret := v\<rparr>"

definition screen_resize :: "nat \<Rightarrow> nat \<Rightarrow> screen \<Rightarrow> screen" where
  "screen_resize rows cols s =
     (let h = max rows 1; w = max cols 1 in
      if h = length (sc_lines s) \<and> w = sc_cols s then s
      else s\<lparr>sc_lines := map (\<lambda>line. take w line @ replicate (w - sc_cols s) BLANK) (take h (sc_lines s))
          @ replicate (h - length (sc_lines s)) (replicate w BLANK),
        sc_cols := w, sc_row := min (sc_row s) (h - 1), sc_col := (if sc_col s \<ge> w then w - 1 else sc_col s)\<rparr>)"

text \<open>The grid shows the screen.\<close>

definition displays :: "grid \<Rightarrow> screen \<Rightarrow> bool" where
  "displays g s \<longleftrightarrow> gr_cells g = concat (sc_lines s) \<and> gr_rows g = length (sc_lines s) \<and> gr_cols g = sc_cols s \<and>
     lines_of (sc_cols s) (sc_lines s) \<and> gr_cursor_row g = sc_row s \<and> gr_cursor_col g = sc_col s \<and>
     sc_row s < length (sc_lines s) \<and> sc_col s \<le> sc_cols s \<and> 0 < sc_cols s \<and>
     gr_pen_fg g = sc_fg s \<and> gr_pen_bg g = sc_bg s \<and> gr_caret_visible g = sc_caret s"

section \<open>Simulation\<close>

fun steps :: "('e \<Rightarrow> 's \<Rightarrow> 's option) \<Rightarrow> 'e list \<Rightarrow> 's \<Rightarrow> 's option" where
  "steps step [] s = Some s"
| "steps step (e # es) s = Option.bind (step e s) (steps step es)"

locale simulation =
  fixes step :: "'e \<Rightarrow> 's \<Rightarrow> 's option" and spec :: "'e \<Rightarrow> 'a \<Rightarrow> 'a" and related :: "'s \<Rightarrow> 'a \<Rightarrow> bool"
  assumes simulates: "related s a \<Longrightarrow> \<exists>s'. step e s = Some s' \<and> related s' (spec e a)"
begin

lemma steps_simulate: "related s a \<Longrightarrow> \<exists>s'. steps step es s = Some s' \<and> related s' (fold spec es a)"
proof (induction es arbitrary: s a)
  case (Cons e es)
  from simulates [OF Cons(2)] obtain s1 where "step e s = Some s1" "related s1 (spec e a)" by blast
  with Cons(1) show ?case by simp
qed simp

end

lemma put_codepoints_steps: "put_codepoints cps = steps put_codepoint cps"
  by (induction cps; rule ext; simp)

lemma apply_cmds_steps: "apply_cmds cmds = steps apply_cmd cmds"
  by (induction cmds; rule ext; simp)

lemma displaysD:
  assumes "displays g s"
  shows "gr_cells g = concat (sc_lines s)" "gr_rows g = length (sc_lines s)" "gr_cols g = sc_cols s"
    "lines_of (sc_cols s) (sc_lines s)" "gr_cursor_row g = sc_row s" "gr_cursor_col g = sc_col s"
    "sc_row s < length (sc_lines s)" "sc_col s \<le> sc_cols s" "0 < sc_cols s" "gr_pen_fg g = sc_fg s" "gr_pen_bg g = sc_bg s"
    "gr_caret_visible g = sc_caret s"
  using assms by (simp_all add: displays_def)

lemma shows_pen [simp]: "displays g s \<Longrightarrow> pen_cell cp g = sc_cell cp s" "displays g s \<Longrightarrow> pen_blank g = sc_cell 0x20 s"
  by (simp_all add: displays_def pen_cell_def sc_cell_def pen_blank_def)

lemma concat_blank: "concat (replicate n (replicate w x)) = replicate (n * w) x"
  by (induction n) (simp_all add: replicate_add)

lemma clear_shows: "displays g s \<Longrightarrow> displays (clear_all g) (screen_clear s)"
  by (auto simp: displays_def clear_all_def screen_clear_def blank_lines_def concat_blank map_replicate_const
      pen_blank_def pen_cell_def sc_cell_def)

lemma set_shows:
  assumes "displays g s" "col < sc_cols s"
  shows "\<exists>g'. set_cell (gr_cursor_row g) col x g = Some g' \<and> displays g' (screen_set col x s)"
proof -
  note v = displaysD [OF assms(1)]
  have "sc_row s * sc_cols s + col < length (gr_cells g)"
    "(gr_cells g)[sc_row s * sc_cols s + col := x] = concat ((sc_lines s)[sc_row s := (sc_lines s ! sc_row s)[col := x]])"
    using concat_index [OF v(4,7) assms(2)] v(1) by auto
  moreover have "lines_of (sc_cols s) ((sc_lines s)[sc_row s := (sc_lines s ! sc_row s)[col := x]])"
    using v(4,7) by (intro lines_of_update) simp_all
  ultimately show ?thesis
    using assms(1) v(3,5) by (simp add: set_cell_def cell_idx_def displays_def screen_set_def)
qed

lemma scroll_shows:
  assumes "displays g s" "0 < n"
  shows "\<exists>g'. scroll_up n g = Some g' \<and> displays g' (screen_scroll n s)"
proof (cases "n < length (sc_lines s)")
  case False
  with assms clear_shows [OF assms(1)] displaysD(2) [OF assms(1)] show ?thesis by (simp add: scroll_up_def screen_scroll_def)
next
  case True
  note v = displaysD [OF assms(1)]
  let ?w = "sc_cols s" and ?h = "length (sc_lines s)"
  have total: "length (gr_cells g) = ?h * ?w" using v(1,4) by simp
  have less: "n * ?w \<le> ?h * ?w" using True by simp
  have front: "copy_to_front (n * ?w) (gr_cells g) = Some (concat (drop n (sc_lines s)) @ drop (?h * ?w - n * ?w) (gr_cells g))"
    using less total drop_lines [OF v(4), of n] v(1) by (simp add: copy_to_front_def)
  have kept: "lines_of ?w (drop n (sc_lines s))" using v(4) by (auto dest: in_set_dropD)
  then have "length (concat (drop n (sc_lines s))) = ?h * ?w - n * ?w"
    using length_concat_lines [OF kept] by (simp add: diff_mult_distrib)
  then have "assign (map (\<lambda>i. (i, pen_blank g)) [?h * ?w - n * ?w..<?h * ?w])
      (concat (drop n (sc_lines s)) @ drop (?h * ?w - n * ?w) (gr_cells g)) =
      Some (concat (drop n (sc_lines s)) @ replicate (n * ?w) (sc_cell 0x20 s))"
    using assign_last [of "concat (drop n (sc_lines s))" "?h * ?w - n * ?w" "drop (?h * ?w - n * ?w) (gr_cells g)" "?h * ?w" "pen_blank g"]
      less total assms(1) by simp
  then have run: "scroll_up n g = Some (g\<lparr>gr_cells := concat (drop n (sc_lines s)) @ replicate (n * ?w) (sc_cell 0x20 s),
      gr_cursor_row := sc_row s - n\<rparr>)"
    using True assms(2) front total v(2,3,5) by (simp add: scroll_up_def Let_def)
  have "lines_of ?w (drop n (sc_lines s) @ blank_lines n s)" using kept by (auto simp: blank_lines_def)
  moreover have "length (drop n (sc_lines s) @ blank_lines n s) = ?h" using True by (simp add: blank_lines_def)
  ultimately show ?thesis
    unfolding run using True v by (simp add: screen_scroll_def displays_def blank_lines_def concat_blank)
qed

lemma newline_shows:
  assumes "displays g s"
  shows "\<exists>g'. grid_newline g = Some g' \<and> displays g' (screen_newline s)"
proof -
  note v = displaysD [OF assms]
  have home: "displays (g\<lparr>gr_cursor_col := 0\<rparr>) (s\<lparr>sc_col := 0\<rparr>)" using assms by (simp add: displays_def)
  show ?thesis
  proof (cases "sc_row s + 1 < length (sc_lines s)")
    case True
    with assms v show ?thesis by (simp add: grid_newline_def screen_newline_def displays_def Let_def)
  next
    case False
    have len: "length (sc_lines s) = Suc (sc_row s)" using False v(7) by simp
    obtain g1 where g1: "scroll_up 1 (g\<lparr>gr_cursor_col := 0\<rparr>) = Some g1" "displays g1 (screen_scroll 1 (s\<lparr>sc_col := 0\<rparr>))"
      using scroll_shows [OF home, of 1] by auto
    have "displays (g1\<lparr>gr_cursor_row := gr_rows g1 - 1\<rparr>) (screen_newline s)"
      using g1(2) len v by (cases "sc_lines s")
        (auto simp: displays_def screen_newline_def screen_scroll_def screen_clear_def blank_lines_def sc_cell_def drop_Suc)
    with g1(1) False v(2,5) show ?thesis by (simp add: grid_newline_def Let_def)
  qed
qed

lemma tab_stop_less: "0 < cols \<Longrightarrow> tab_stop col cols < cols"
  by (auto simp: tab_stop_def)

lemma newline_home [simp]: "sc_col (screen_newline s) = 0" "sc_cols (screen_newline s) = sc_cols s"
  by (simp_all add: screen_newline_def)

lemma moved_shows:
  "displays g s \<Longrightarrow> col \<le> sc_cols s \<Longrightarrow> displays (g\<lparr>gr_cursor_col := col\<rparr>) (s\<lparr>sc_col := col\<rparr>)"
  by (simp add: displays_def)

lemma put_shows:
  assumes "displays g s"
  shows "\<exists>g'. put_codepoint cp g = Some g' \<and> displays g' (screen_put cp s)"
proof -
  note v = displaysD [OF assms]
  consider "cp = 0x0A" | "cp = 0x0D" | "cp = 0x09" | "cp = 0x08" | "cp < 0x20" "cp \<notin> {0x0A, 0x0D, 0x09, 0x08}" | "\<not> cp < 0x20"
    by blast
  then show ?thesis
  proof cases
    case 1
    with newline_shows [OF assms] show ?thesis by (simp add: put_codepoint_def screen_put_def)
  next
    case 2
    with moved_shows [OF assms, of 0] show ?thesis by (simp add: put_codepoint_def screen_put_def)
  next
    case 3
    with moved_shows [OF assms, of "tab_stop (sc_col s) (sc_cols s)"] tab_stop_less [OF v(9), of "sc_col s"] v show ?thesis
      by (simp add: put_codepoint_def screen_put_def)
  next
    case 4
    show ?thesis
    proof (cases "sc_col s = 0")
      case False
      let ?c = "sc_col s - 1"
      have "displays (g\<lparr>gr_cursor_col := ?c\<rparr>) (s\<lparr>sc_col := ?c\<rparr>)" using assms v(8) by (intro moved_shows) simp_all
      moreover have "?c < sc_cols (s\<lparr>sc_col := ?c\<rparr>)" using False v(8) by simp
      ultimately have "\<exists>g'. set_cell (gr_cursor_row (g\<lparr>gr_cursor_col := ?c\<rparr>)) ?c (pen_blank g) (g\<lparr>gr_cursor_col := ?c\<rparr>) = Some g' \<and>
          displays g' (screen_set ?c (pen_blank g) (s\<lparr>sc_col := ?c\<rparr>))" by (rule set_shows)
      moreover have "screen_set ?c x (s\<lparr>sc_col := ?c\<rparr>) = (screen_set ?c x s)\<lparr>sc_col := ?c\<rparr>" for x by (simp add: screen_set_def)
      ultimately show ?thesis using 4 False assms v(6) by (simp add: put_codepoint_def screen_put_def erase_left_def)
    qed (use 4 assms v in \<open>simp add: put_codepoint_def screen_put_def erase_left_def\<close>)
  next
    case 5
    with assms show ?thesis by (simp add: put_codepoint_def screen_put_def)
  next
    case 6
    then have cp: "cp \<noteq> 0x0A" "cp \<noteq> 0x0D" "cp \<noteq> 0x09" "cp \<noteq> 0x08" by auto
    let ?s1 = "if sc_col s = sc_cols s then screen_newline s else s"
    have wrap: "gr_cursor_col g \<ge> gr_cols g \<longleftrightarrow> sc_col s = sc_cols s" using v(3,6,8) by auto
    obtain g1 where g1: "(if gr_cursor_col g \<ge> gr_cols g then grid_newline g else Some g) = Some g1" "displays g1 ?s1"
      using newline_shows [OF assms] assms unfolding wrap by (cases "sc_col s = sc_cols s") auto
    have col: "sc_col ?s1 < sc_cols ?s1" using v(8,9) by auto
    obtain g2 where g2: "set_cell (gr_cursor_row g1) (gr_cursor_col g1) (pen_cell cp g1) g1 = Some g2"
      "displays g2 (screen_set (sc_col ?s1) (sc_cell cp ?s1) ?s1)"
      using set_shows [OF g1(2) col, of "sc_cell cp ?s1"] displaysD(6) [OF g1(2)] shows_pen(1) [OF g1(2), of cp] by auto
    have "sc_col (screen_set (sc_col ?s1) (sc_cell cp ?s1) ?s1) = sc_col ?s1"
      "sc_cols (screen_set (sc_col ?s1) (sc_cell cp ?s1) ?s1) = sc_cols ?s1" by (simp_all add: screen_set_def)
    with moved_shows [OF g2(2), of "sc_col ?s1 + 1"] col displaysD(6) [OF g2(2)]
    have "displays (g2\<lparr>gr_cursor_col := gr_cursor_col g2 + 1\<rparr>)
        ((screen_set (sc_col ?s1) (sc_cell cp ?s1) ?s1)\<lparr>sc_col := sc_col ?s1 + 1\<rparr>)" by (simp del: if_split)
    moreover have "put_codepoint cp g = Some (g2\<lparr>gr_cursor_col := gr_cursor_col g2 + 1\<rparr>)"
      using cp 6 g1(1) g2(1) by (simp add: put_codepoint_def del: if_split)
    ultimately show ?thesis using cp 6 by (simp add: screen_put_def Let_def del: if_split)
  qed
qed

interpretation chars: simulation put_codepoint screen_put displays
  by unfold_locales (rule put_shows)

lemma eol_shows:
  assumes "displays g s"
  shows "assign (eol_cells g) (gr_cells g) = Some (concat ((sc_lines s)[sc_row s := blank_right s]))"
    "lines_of (sc_cols s) ((sc_lines s)[sc_row s := blank_right s])"
proof -
  note v = displaysD [OF assms]
  have len: "length (sc_lines s ! sc_row s) = sc_cols s" using v(4,7) by simp
  show "assign (eol_cells g) (gr_cells g) = Some (concat ((sc_lines s)[sc_row s := blank_right s]))"
    using assign_line [OF v(4,7,8), of "\<lambda>_. pen_blank g"] v len assms
    by (simp add: eol_cells_def cell_idx_def blank_right_def map_replicate_const)
  show "lines_of (sc_cols s) ((sc_lines s)[sc_row s := blank_right s])"
    using v(4,8) len by (intro lines_of_update) (simp_all add: blank_right_def)
qed

lemma cmd_shows:
  assumes "displays g s"
  shows "\<exists>g'. apply_cmd cmd g = Some g' \<and> displays g' (screen_cmd cmd s)"
proof (cases cmd)
  case (WriteStr cps)
  with chars.steps_simulate [OF assms, of cps] show ?thesis by (simp add: put_codepoints_steps)
next
  case (WriteChar cp)
  with put_shows [OF assms] show ?thesis by simp
next
  case ClearEol
  with eol_shows [OF assms] assms show ?thesis by (simp add: clear_to_eol_def displays_def)
next
  case ClearEos
  note v = displaysD [OF assms] and eol = eol_shows [OF assms]
  let ?yss = "(sc_lines s)[sc_row s := blank_right s]" and ?h = "length (sc_lines s)"
  have rest: "assign (concat (map (\<lambda>r. map (\<lambda>c. (r * sc_cols s + c, sc_cell 0x20 s)) [0..<sc_cols s]) [sc_row s + 1..<?h])) (concat ?yss)
      = Some (concat (take (sc_row s + 1) ?yss @ map (\<lambda>r. replicate (sc_cols s) (sc_cell 0x20 s)) [sc_row s + 1..<?h]))"
  proof -
    have raw: "assign (concat (map (\<lambda>r. map (\<lambda>c. (r * sc_cols s + c, sc_cell 0x20 s)) [0..<sc_cols s]) [sc_row s + 1..<?h])) (concat ?yss) =
        Some (concat (take (sc_row s + 1) ?yss @
          map (\<lambda>r. take 0 (?yss ! r) @ map (\<lambda>_. sc_cell 0x20 s) [0..<sc_cols s] @ drop (sc_cols s) (?yss ! r)) [sc_row s + 1..<?h] @ drop ?h ?yss))"
      using v(7) by (intro assign_lines [OF eol(2)]) simp_all
    have "take 0 (?yss ! r) @ map (\<lambda>_. sc_cell 0x20 s) [0..<sc_cols s] @ drop (sc_cols s) (?yss ! r) = replicate (sc_cols s) (sc_cell 0x20 s)"
      if "r < ?h" for r
      using eol(2) that by (simp add: map_replicate_const)
    then have eq: "map (\<lambda>r. take 0 (?yss ! r) @ map (\<lambda>_. sc_cell 0x20 s) [0..<sc_cols s] @ drop (sc_cols s) (?yss ! r)) [sc_row s + 1..<?h] =
        map (\<lambda>r. replicate (sc_cols s) (sc_cell 0x20 s)) [sc_row s + 1..<?h]"
      by (intro map_cong refl) (simp only: set_upt atLeastLessThan_iff)
    have none: "drop ?h ?yss = []" by simp
    show ?thesis by (rule raw [unfolded eq none append_Nil2])
  qed
  have "take (sc_row s + 1) ?yss = take (sc_row s) (sc_lines s) @ [blank_right s]"
    using v(7) by (simp add: take_Suc_conv_app_nth)
  moreover have "length (blank_right s) = sc_cols s" using v(4,7,8) by (simp add: blank_right_def)
  ultimately have "displays (g\<lparr>gr_cells := concat (take (sc_row s + 1) ?yss @ map (\<lambda>r. replicate (sc_cols s) (sc_cell 0x20 s)) [sc_row s + 1..<?h])\<rparr>)
      (screen_cmd ClearEos s)"
    using assms v(4,7) by (auto simp: displays_def blank_lines_def map_replicate_const dest: in_set_takeD)
  moreover have "apply_cmd ClearEos g = Some (g\<lparr>gr_cells :=
      concat (take (sc_row s + 1) ?yss @ map (\<lambda>r. replicate (sc_cols s) (sc_cell 0x20 s)) [sc_row s + 1..<?h])\<rparr>)"
    using eol(1) rest v(2,3,5) assms by (simp add: clear_to_eos_def assign_append cell_idx_def)
  ultimately show ?thesis using ClearEos by blast
next
  case Newline
  with newline_shows [OF assms] show ?thesis by simp
next
  case (ScrollUp n)
  with scroll_shows [OF assms, of n] assms show ?thesis by (cases "n = 0") (simp_all add: scroll_up_def)
qed (use assms clear_shows [OF assms] in \<open>auto simp: displays_def\<close>)

interpretation cmds: simulation apply_cmd screen_cmd displays
  by unfold_locales (rule cmd_shows)

section \<open>Resizing\<close>

lemma those_map_Some: "(\<And>x. x \<in> set xs \<Longrightarrow> f x = Some (h x)) \<Longrightarrow> those (map f xs) = Some (map h xs)"
  by (induction xs) simp_all

lemma copied_shows:
  assumes "displays g s"
  shows "copied_cells g h w = Some (concat (map (\<lambda>r. map (\<lambda>c. (r * w + c, sc_lines s ! r ! c)) [0..<min (sc_cols s) w])
    [0..<min (length (sc_lines s)) h]))"
proof -
  note v = displaysD [OF assms]
  let ?read = "\<lambda>r c. map_option (Pair (r * w + c)) (get (gr_cells g) (cell_idx g r c))"
  have read: "?read r c = Some (r * w + c, sc_lines s ! r ! c)"
    if "r \<in> set [0..<min (length (sc_lines s)) h]" "c \<in> set [0..<min (sc_cols s) w]" for r c
    using concat_index [OF v(4), of r c] that v(1,3) by (simp add: get_def cell_idx_def)
  have eq: "map (\<lambda>r. map (?read r) [0..<min (sc_cols s) w]) [0..<min (length (sc_lines s)) h] =
      map (\<lambda>r. map (\<lambda>c. Some (r * w + c, sc_lines s ! r ! c)) [0..<min (sc_cols s) w]) [0..<min (length (sc_lines s)) h]"
    using read by (intro map_cong refl)
  have "copied_cells g h w = those (map Some (concat (map (\<lambda>r. map (\<lambda>c. (r * w + c, sc_lines s ! r ! c)) [0..<min (sc_cols s) w])
      [0..<min (length (sc_lines s)) h])))"
    unfolding copied_cells_def v(2,3) eq by (simp add: map_concat o_def)
  then show ?thesis by (simp add: those_map_Some)
qed

lemma resize_shows:
  assumes "displays g s"
  shows "\<exists>g'. grid_resize rows cols g = Some g' \<and> displays g' (screen_resize rows cols s)"
proof -
  note v = displaysD [OF assms]
  let ?h = "max rows 1" and ?w = "max cols 1" and ?m = "min (length (sc_lines s)) (max rows 1)" and ?k = "min (sc_cols s) (max cols 1)"
  let ?lines = "map (\<lambda>line. take ?w line @ replicate (?w - sc_cols s) BLANK) (take ?h (sc_lines s))
      @ replicate (?h - length (sc_lines s)) (replicate ?w BLANK)"
  show ?thesis
  proof (cases "?h = gr_rows g \<and> ?w = gr_cols g")
    case True
    with v(2,3) assms show ?thesis by (simp add: grid_resize_def screen_resize_def)
  next
    case False
    have blank: "replicate (?h * ?w) BLANK = concat (replicate ?h (replicate ?w BLANK))" by (simp add: concat_blank)
    have line: "map (\<lambda>c. sc_lines s ! r ! c) [0..<?k] @ drop ?k (replicate ?w BLANK) =
        take ?w (sc_lines s ! r) @ replicate (?w - sc_cols s) BLANK" if "r < ?m" for r
    proof -
      have "length (sc_lines s ! r) = sc_cols s" using that v(4) by simp
      then have "map (\<lambda>c. sc_lines s ! r ! c) [0..<?k] = take ?w (sc_lines s ! r)" by (intro nth_equalityI) simp_all
      then show ?thesis by (simp add: min_def)
    qed
    have "assign (concat (map (\<lambda>r. map (\<lambda>c. (r * ?w + c, sc_lines s ! r ! c)) [0..<?k]) [0..<?m])) (replicate (?h * ?w) BLANK) =
        Some (concat (map (\<lambda>r. map (\<lambda>c. sc_lines s ! r ! c) [0..<?k] @ drop ?k (replicate ?h (replicate ?w BLANK) ! r)) [0..<?m]
          @ drop ?m (replicate ?h (replicate ?w BLANK))))"
      unfolding blank
      using assign_lines [of "replicate ?h (replicate ?w BLANK)" ?w 0 ?m 0 ?k "\<lambda>r c. sc_lines s ! r ! c"] by simp
    also have "map (\<lambda>r. map (\<lambda>c. sc_lines s ! r ! c) [0..<?k] @ drop ?k (replicate ?h (replicate ?w BLANK) ! r)) [0..<?m]
        = map (\<lambda>line. take ?w line @ replicate (?w - sc_cols s) BLANK) (take ?h (sc_lines s))"
    proof (rule nth_equalityI)
      fix r assume "r < length (map (\<lambda>r. map (\<lambda>c. sc_lines s ! r ! c) [0..<?k] @ drop ?k (replicate ?h (replicate ?w BLANK) ! r)) [0..<?m])"
      then have "r < ?m" by simp
      with line [OF this] show "map (\<lambda>r. map (\<lambda>c. sc_lines s ! r ! c) [0..<?k] @ drop ?k (replicate ?h (replicate ?w BLANK) ! r)) [0..<?m] ! r =
          map (\<lambda>line. take ?w line @ replicate (?w - sc_cols s) BLANK) (take ?h (sc_lines s)) ! r"
        by simp
    qed simp
    also have "drop ?m (replicate ?h (replicate ?w BLANK)) = replicate (?h - length (sc_lines s)) (replicate ?w BLANK)"
      by (simp add: min_def)
    finally have cells: "assign (concat (map (\<lambda>r. map (\<lambda>c. (r * ?w + c, sc_lines s ! r ! c)) [0..<?k]) [0..<?m])) (replicate (?h * ?w) BLANK) =
        Some (concat ?lines)" .
    define L where "L = ?lines"
    have L: "lines_of ?w L" "length L = ?h" using v(4) by (auto simp: L_def min_def dest: in_set_takeD)
    have screen: "screen_resize rows cols s = s\<lparr>sc_lines := L, sc_cols := ?w, sc_row := min (sc_row s) (?h - 1),
        sc_col := (if sc_col s \<ge> ?w then ?w - 1 else sc_col s)\<rparr>"
      using False v(2,3) unfolding screen_resize_def Let_def L_def by auto
    have "displays (g\<lparr>gr_cells := concat L, gr_rows := ?h, gr_cols := ?w,
          gr_cursor_row := (if gr_cursor_row g \<ge> ?h then ?h - 1 else gr_cursor_row g),
          gr_cursor_col := (if gr_cursor_col g \<ge> ?w then ?w - 1 else gr_cursor_col g)\<rparr>) (screen_resize rows cols s)"
      unfolding screen displays_def using v L by (simp add: min_def not_less_eq_eq not_le) linarith
    moreover have "grid_resize rows cols g = Some (g\<lparr>gr_cells := concat L, gr_rows := ?h, gr_cols := ?w,
          gr_cursor_row := (if gr_cursor_row g \<ge> ?h then ?h - 1 else gr_cursor_row g),
          gr_cursor_col := (if gr_cursor_col g \<ge> ?w then ?w - 1 else gr_cursor_col g)\<rparr>)"
      using False by (simp only: grid_resize_def Let_def copied_shows [OF assms, of ?h ?w] cells L_def [symmetric] Option.bind_lunit if_False)
    ultimately show ?thesis by blast
  qed
qed

section \<open>Panes and their queues\<close>

text \<open>The same events over screens: a pane is the list of commands on their way to it, and a screen.\<close>

type_synonym screens = "int \<rightharpoonup> text_cmd list \<times> screen"

fun screen_event :: "pane_event \<Rightarrow> screens \<Rightarrow> screens" where
  "screen_event (Enqueue p cmd) m = (case m p of None \<Rightarrow> m | Some (q, s) \<Rightarrow> m(p \<mapsto> (q @ [cmd], s)))"
| "screen_event (Flush p) m = (case m p of None \<Rightarrow> m | Some (q, s) \<Rightarrow> m(p \<mapsto> ([], fold screen_cmd q s)))"
| "screen_event (Resize p rows cols) m =
     (case m p of None \<Rightarrow> m | Some (q, s) \<Rightarrow> m(p \<mapsto> (q, screen_resize rows cols s)))"
| "screen_event (Create p) m = m(p \<mapsto> ([], screen_new 24 80))"
| "screen_event (Destroy p) m = m(p := None)"

definition shows_pane :: "pane_state \<Rightarrow> text_cmd list \<times> screen \<Rightarrow> bool" where
  "shows_pane pa x \<longleftrightarrow> pa_queue pa = fst x \<and> displays (pa_grid pa) (snd x)"

definition shows_panes :: "panes \<Rightarrow> screens \<Rightarrow> bool" where
  "shows_panes ps m \<longleftrightarrow> (\<forall>p. rel_option shows_pane (ps p) (m p))"

lemma pane_steps_steps: "pane_steps es = steps pane_step es"
  by (induction es; rule ext; simp)

lemma new_shows: "displays (grid_new rows cols) (screen_new rows cols)"
  by (simp add: displays_def grid_new_def screen_new_def concat_blank less_max_iff_disj)

lemma shows_panes_upd: "shows_panes ps m \<Longrightarrow> rel_option shows_pane a b \<Longrightarrow> shows_panes (ps(p := a)) (m(p := b))"
  by (simp add: shows_panes_def)

lemma shows_panesE:
  assumes "shows_panes ps m"
  obtains "ps p = None" "m p = None"
    | pa q s where "ps p = Some pa" "m p = Some (q, s)" "pa_queue pa = q" "displays (pa_grid pa) s"
  using assms by (auto simp: shows_panes_def shows_pane_def option_rel_Some2 option_rel_Some1 elim!: option.rel_cases [of _ "ps p" "m p"]
      dest!: spec [of _ p])

lemma event_shows:
  assumes "shows_panes ps m"
  shows "\<exists>ps'. pane_step e ps = Some ps' \<and> shows_panes ps' (screen_event e m)"
proof (cases e)
  case (Enqueue p cmd)
  from assms show ?thesis
    by (rule shows_panesE [of _ _ p])
      (use Enqueue assms in \<open>auto simp: enqueue_def shows_pane_def intro!: shows_panes_upd\<close>)
next
  case (Flush p)
  from assms show ?thesis
  proof (rule shows_panesE [of _ _ p])
    fix pa q s assume at: "ps p = Some pa" "m p = Some (q, s)" "pa_queue pa = q" "displays (pa_grid pa) s"
    from cmds.steps_simulate [OF at(4), of q] obtain g where
      "steps apply_cmd q (pa_grid pa) = Some g" "displays g (fold screen_cmd q s)" by blast
    with Flush at assms show ?thesis
      by (auto simp: flush_on_gui_thread_def apply_cmds_steps shows_pane_def intro!: shows_panes_upd)
  qed (use Flush assms in \<open>simp add: flush_on_gui_thread_def\<close>)
next
  case (Resize p rows cols)
  from assms show ?thesis
  proof (rule shows_panesE [of _ _ p])
    fix pa q s assume at: "ps p = Some pa" "m p = Some (q, s)" "pa_queue pa = q" "displays (pa_grid pa) s"
    from resize_shows [OF at(4), of rows cols] obtain g where
      "grid_resize rows cols (pa_grid pa) = Some g" "displays g (screen_resize rows cols s)" by blast
    with Resize at assms show ?thesis
      by (auto simp: recompute_grid_def shows_pane_def intro!: shows_panes_upd)
  qed (use Resize assms in \<open>simp add: recompute_grid_def\<close>)
qed (use assms new_shows in \<open>auto simp: install_pane_def forget_pane_def shows_pane_def intro!: shows_panes_upd\<close>)

interpretation pane_events: simulation pane_step screen_event shows_panes
  by unfold_locales (rule event_shows)

lemma no_panes: "shows_panes Map.empty Map.empty"
  by (simp add: shows_panes_def)

text \<open>
  C13. Whatever the language thread enqueues and however the messages of the windows (flush, resize, open, close)
  fall between, no index leaves the cells of a pane, and every pane has the queue, the cursor, the pen and the
  lines of text that the same events give over screens made of whole lines.
\<close>

theorem panes_show_screens:
  "\<exists>ps. pane_steps es Map.empty = Some ps \<and> shows_panes ps (fold screen_event es Map.empty)"
  unfolding pane_steps_steps by (rule pane_events.steps_simulate [OF no_panes])

text \<open>The commands sent to one pane, and the events that would replace or reshape it.\<close>

definition sent_to :: "int \<Rightarrow> pane_event list \<Rightarrow> text_cmd list" where
  "sent_to p es = concat (map (\<lambda>e. case e of Enqueue q cmd \<Rightarrow> if q = p then [cmd] else [] | _ \<Rightarrow> []) es)"

fun keeps_pane :: "int \<Rightarrow> pane_event \<Rightarrow> bool" where
  "keeps_pane p (Resize q rows cols) = (q \<noteq> p)"
| "keeps_pane p (Create q) = (q \<noteq> p)"
| "keeps_pane p (Destroy q) = (q \<noteq> p)"
| "keeps_pane p _ = True"

lemma sent_in_order:
  assumes "list_all (keeps_pane p) es" "m p = Some (q, s)"
  shows "\<exists>q' s'. fold screen_event es m p = Some (q', s') \<and> fold screen_cmd q' s' = fold screen_cmd (q @ sent_to p es) s"
  using assms
proof (induction es arbitrary: m q s)
  case (Cons e es)
  have "\<exists>q1 s1. screen_event e m p = Some (q1, s1) \<and> fold screen_cmd q1 s1 = fold screen_cmd (q @ sent_to p [e]) s"
    using Cons(2,3) by (cases e) (auto simp: sent_to_def split: option.split)
  then obtain q1 s1 where "screen_event e m p = Some (q1, s1)" and run: "fold screen_cmd q1 s1 = fold screen_cmd (q @ sent_to p [e]) s"
    by blast
  with Cons(1) [of "screen_event e m" q1 s1] Cons(2) show ?case by (simp add: sent_to_def)
qed (simp add: sent_to_def)

text \<open>
  C14. After a flush a pane shows the effect of exactly the commands enqueued for it, in their order, however
  they were cut into batches by earlier flushes and whatever happened to the other panes meanwhile; its queue is
  empty.
\<close>

theorem commands_reach_pane_in_order:
  assumes "list_all (keeps_pane p) es"
  shows "\<exists>ps pa. pane_steps (Create p # es @ [Flush p]) Map.empty = Some ps \<and> ps p = Some pa \<and> pa_queue pa = [] \<and>
    displays (pa_grid pa) (fold screen_cmd (sent_to p es) (screen_new 24 80))"
proof -
  let ?m = "fold screen_event (Create p # es @ [Flush p]) Map.empty"
  obtain ps where ps: "pane_steps (Create p # es @ [Flush p]) Map.empty = Some ps" "shows_panes ps ?m"
    using pane_events.steps_simulate [OF no_panes] unfolding pane_steps_steps by blast
  have "?m p = Some ([], fold screen_cmd (sent_to p es) (screen_new 24 80))"
    using sent_in_order [OF assms, of "[p \<mapsto> ([], screen_new 24 80)]"] by auto
  with ps show ?thesis by (auto elim: shows_panesE [of _ _ p])
qed

lemma commands_reach_pane_in_order_witness:
  "list_all (keeps_pane 7) [Enqueue 7 (WriteChar 0x41), Create 8, Flush 7, Enqueue 8 Newline, Enqueue 7 (WriteChar 0x42)] \<and>
   (\<exists>ps pa. pane_steps (Create 7 # [Enqueue 7 (WriteChar 0x41), Create 8, Flush 7, Enqueue 8 Newline, Enqueue 7 (WriteChar 0x42)]
      @ [Flush 7]) Map.empty = Some ps \<and> ps 7 = Some pa \<and> pa_queue pa = [] \<and>
     displays (pa_grid pa) (fold screen_cmd [WriteChar 0x41, WriteChar 0x42] (screen_new 24 80)))"
proof -
  let ?es = "[Enqueue 7 (WriteChar 0x41), Create 8, Flush 7, Enqueue 8 Newline, Enqueue 7 (WriteChar 0x42)]"
  have "list_all (keeps_pane 7) ?es" by simp
  moreover have "sent_to 7 ?es = [WriteChar 0x41, WriteChar 0x42]" by (simp add: sent_to_def)
  ultimately show ?thesis using commands_reach_pane_in_order [of 7 ?es] by simp
qed

end
