(* ===== verification/Spec2Isabelle.thy ===== *)
theory Spec2Isabelle
  imports Lexer_Correct Parser_Correct Resolver_Correct Effects_Correct Sema_Correct Let_Codegen_Correct Factor_Cells
    Emit_Program_Correct Driver_Session Rope_Correct Editor_Behaviour Text_Grid_Correct
begin

text \<open>
  Verification of the compiler of FactorForth, of its source editor with the text buffer below it, and of the
  text panes of its user interface.

  \<^bold>\<open>The program.\<close> The compiler under \<^verbatim>\<open>src/src/compiler\<close> turns ANS Forth source text into Factor
  source. Text is split into tokens (\<^verbatim>\<open>lex.rs\<close>), tokens are parsed into items and expression trees
  (\<^verbatim>\<open>parse.rs\<close>, \<^verbatim>\<open>ast.rs\<close>), with LET blocks handed to a parser of their own
  (\<^verbatim>\<open>let_lang/parser.rs\<close>). The semantic pass (\<^verbatim>\<open>sema.rs\<close>) expands defining-word templates, rewrites
  ?DUP IF (\<^verbatim>\<open>lower_qdup.rs\<close>), binds RECURSE (\<^verbatim>\<open>lower_recurse.rs\<close>), flattens class slots
  (\<^verbatim>\<open>lower_classes.rs\<close>), resolves every name against locals, user words and the built-in dictionary
  (\<^verbatim>\<open>resolve.rs\<close>), removes EXIT by inlining tails (\<^verbatim>\<open>lower_exit.rs\<close>), infers stack effects
  (\<^verbatim>\<open>effect.rs\<close>), and records the call graph and which variables escape. The emitter (\<^verbatim>\<open>emit.rs\<close>)
  writes the result as Factor source, declarations first, then methods, definitions and load-time code; LET
  forms are printed by a code generator of their own (\<^verbatim>\<open>let_lang/codegen.rs\<close>). The driver (\<^verbatim>\<open>mod.rs\<close>)
  composes these passes, splices the files named by NEEDS into the program, once each, and carries the
  names, effects, templates and SEE records of one request to the next. The editor of the user
  interface (\<^verbatim>\<open>src/crates/igui/src/fedit.rs\<close>) handles the messages of its window: typing, motion,
  selection, undo, clipboard and files. It keeps its text in a rope, a balanced tree of pieces of code points
  (\<^verbatim>\<open>rope_buffer.rs\<close>). A text pane (\<^verbatim>\<open>text_view.rs\<close>) is a grid of cells that obeys terminal commands,
  which the language thread sends through a queue. These parts are independent of the compiler.

  \<^bold>\<open>The model.\<close> Rust strings are byte sequences, so \<open>string\<close> with byte positions models them
  (theory Rust_Text, with UTF-8 validation). \<^verbatim>\<open>u32\<close> and \<^verbatim>\<open>i64\<close> are words of that width with wrapping or
  saturating arithmetic as in the source; \<^verbatim>\<open>Result\<close> and panics are the type \<open>outcome\<close> of Prelude;
  hash maps are maps. Structures are records whose fields carry a prefix, enumerations are
  datatypes with the constructors of the source, and one function stands for each function of the
  source; bodies of long functions are split at their branches. A traversal of expression trees is
  four mutually recursive functions, for sequences, optional sequences, expressions and CASE arms,
  where the source recurses through closures and loops.

  \<^item> Prelude: machine integers, results, list and option lemmas; the locales \<open>scanner\<close> and
    \<open>positioned_scanner\<close> for token readers and \<open>answers_below\<close> for recursion budgets.
  \<^item> Rust_Text, Float64, Positions: text primitives, decimal text to binary64, spans and errors
    (\<^verbatim>\<open>error.rs\<close>).
  \<^item> Lexer, Lexer_Correct: the tokeniser. It returns for every text, spans are increasing and disjoint,
    words, numbers and string literals are read as they are written.
  \<^item> Let_Syntax, Let_Correct: the LET language; the parser returns for every text.
  \<^item> Float_Text: how Rust prints a 64-bit float, and that reading the text gives the float back.
  \<^item> Factor_Ir: the lexical form of Factor source (words, strings) and the predicate \<open>reads\<close> on emitted text.
  \<^item> Let_Codegen, Let_Codegen_Correct: the code generator of LET. Emitted text is read back as words and run
    on a data stack with named locals; a locale (\<open>let_target\<close>) names the laws of the Factor words, and the
    rational numbers are an instance. A form leaves the values of its result expressions.
  \<^item> Ast, Parser, Parser_Correct: syntax trees and the parser with all defining words and control
    structures; it returns for every token list, and no panic of the source is reachable.
  \<^item> Forth_Machine: a reference semantics of expressions over an abstract machine (words, flags, loops,
    EXIT), and a concrete one on a stack of 64-bit cells.
  \<^item> Lower_Qdup, Lower_Recurse, Lower_Exit: the lowering passes, each with a locale for the machine on which
    it is correct and an interpretation on the concrete machine; the passes keep the meaning of bodies.
    For EXIT under CASE the pass is shown not to.
  \<^item> Lower_Classes, Targets, Resolver, Resolver_Correct: slot lists, binding targets, the built-in
    table and name resolution, against a flat specification over the list of name uses.
  \<^item> Effects, Effects_Correct: stack effects. The inferred effect of a regular body is sound for every
    machine of the right shape (locale \<open>effect_machine\<close>), counts are bounded, declared effects are checked;
    three formulas are shown to fail outside the regular bodies.
  \<^item> Sema, Sema_Correct: template expansion, composition of the passes, call graph and escape analysis. The
    final body of a definition has the meaning of the body that was written.
  \<^item> Emit, Emit_Items, Emit_Program: the emitter, from literals and control structures over definitions,
    variables, values, buffers, classes and methods to the USING line and the passes over the program.
  \<^item> Factor_Terms: the part of Factor the emitted text needs: nested quotations, the combinators the
    emitter names and the counted loops of \<^verbatim>\<open>factor/forth/runtime/runtime.factor\<close>, over a record of the
    operations of the machine. It is the meaning of the target language, not code of the compiler.
  \<^item> Emit_Correct: emitted text reads back as the intended structure, string literals as themselves.
  \<^item> Emit_Meaning, Factor_Cells: the text of a body, run in Factor, has the result of the body. The locale
    \<open>factor_target\<close> names what the words of the target promise, for the references that occur in the body; it is interpreted on cells with variables
    and values on the one side, a Factor stack with globals on the other.
  \<^item> Emit_Program_Correct: the USING line is complete, annotations have the inferred counts, and narrow
    variables have no byte access.
  \<^item> Driver, Driver_Correct, Driver_Session: the driver and its sessions. Every request is answered, each file
    is included once, a failing request changes only the set of included files, and whatever a session
    records is about a word it knows. References of different files that share a source position are
    confused, as an example shows. The operations of the file system are a parameter (\<open>file_system\<close>).
  \<^item> Rope, Rope_Tree, Rope_Utf8, Rope_Correct: the rope. Nodes carry cached counts; a locale (\<open>text_buffer\<close>)
    states what editing a text promises and has the flat text and the rope as instances. Edits do on the
    rope what they do on the flat text, caches stay right, the height is logarithmic, lines, columns and
    iterators agree with the text, and saving and loading through UTF-8 gives the text back.
  \<^item> Editor, Editor_Window: the state of the editor, its edits with undo and redo, motion, tab columns,
    files and the dispatch of messages. What clipboard, dialogs, file system and checker answer comes as a
    record with each message.
  \<^item> Editor_Correct, Editor_Behaviour: no message leads to a panic. A locale (\<open>invertible_edits\<close>) states
    when two stacks of edits lead through the same texts; the entries of the editor are its instance, so undoing
    all of them gives the file back. Changes of the text are marked, saved files read back, tab columns
    are mapped back and forth. A lone byte order mark as input is the exception, as an example shows.
  \<^item> Text_Grid, Text_Grid_Correct: text panes. The flat vector of cells behaves as a screen made of lines,
    for all commands and sizes and any interleaving of the two threads (locale \<open>simulation\<close>, for characters,
    commands and events), and commands arrive once each and in order.

  \<^bold>\<open>Fuel.\<close> The recursive-descent parsers take a recursion budget that their entry points set above the
  number of remaining tokens, and each nested call consumes a token; \<open>parse_total\<close> and \<open>let_parse_total\<close>
  show that the budget is never used up. The expansion of NEEDS is bounded by the nesting of files, for which
  \<open>compile_answers\<close> shows that the number of readable files is enough. The reference semantics and the meaning of Factor code bound the
  rounds of loops; their theorems hold for every bound, and the bound of both sides is the same.

  \<^bold>\<open>Not modelled.\<close> The tree dumper (\<^verbatim>\<open>dump.rs\<close>) is debug output. The Factor runtime, the virtual machine binding
  (\<^verbatim>\<open>session.rs\<close>), graphics, the rest of the user interface crates and the vendored diagram renderer are foreign
  code, input and output, or not part of the compiler. Of the editor and the text panes the drawing, the colouring of
  the text, the dialogs and the conversion of pixels to cells are left out: cells and the number of visible rows are inputs. Diagnostics that quote a token through Rust's debug
  formatter carry the token instead of its text.
\<close>

end
